(* ===== verification/Prelude.thy ===== *)
theory Prelude
  imports Complex_Main "HOL-Library.Word"
begin

text \<open>
  Shared vocabulary of the development: the machine types of the firmware, the result type
  that makes undefined behaviour of C a value, counted loops, array accesses with their bounds,
  and the byte/half-word conversions that the serial protocols use. The generic lemmas are
  declared \<open>[simp]\<close> or collected in \<open>bytes\<close> and \<open>res\<close>.
\<close>

unbundle bit_operations_syntax

declare of_nat_unat [simp del]

section \<open>Machine types\<close>

type_synonym u8 = "8 word"
type_synonym u16 = "16 word"
type_synonym u32 = "32 word"

text \<open>A C \<open>int\<close> of the target is kept as its 32 bits and read with \<open>sint\<close>.\<close>

type_synonym c_int = "32 word"

named_theorems bytes \<open>conversions between bytes and half-words\<close>
named_theorems res \<open>rules of the result type\<close>

section \<open>Undefined behaviour as a value\<close>

text \<open>
  A C expression without a defined value stops the model with the reason: a division by zero, an
  access outside an array, a conversion of a floating point value outside the target type,
  a read of memory that is not (or no longer) allocated, a failed \<open>assert\<close>, a
  shift by at least the width.
\<close>

datatype fault = DivByZero | OutOfBounds | CastRange | BadPointer | AssertFailed | BadShift

type_synonym 'a res = "fault + 'a"

definition rbind :: "'a res \<Rightarrow> ('a \<Rightarrow> 'b res) \<Rightarrow> 'b res" where
  "rbind m f = (case m of Inl e \<Rightarrow> Inl e | Inr x \<Rightarrow> f x)"

lemma rbind_Inl [simp]: "rbind (Inl e) f = Inl e"
  by (simp add: rbind_def)

lemma rbind_Inr [simp]: "rbind (Inr x) f = f x"
  by (simp add: rbind_def)

lemma rbind_Inr_right [simp]: "rbind m Inr = m"
  by (cases m) simp_all

lemma rbind_assoc: "rbind (rbind m f) g = rbind m (\<lambda>x. rbind (f x) g)"
  by (cases m) simp_all

lemma rbind_eq_Inr [res]: "rbind m f = Inr y \<longleftrightarrow> (\<exists>x. m = Inr x \<and> f x = Inr y)"
  by (cases m) auto

lemma rbind_eq_Inl [res]: "rbind m f = Inl e \<longleftrightarrow> m = Inl e \<or> (\<exists>x. m = Inr x \<and> f x = Inl e)"
  by (cases m) auto

lemma rbind_weak_cong: "m = m' \<Longrightarrow> rbind m f = rbind m' f"
  by simp

text \<open>
  Code that waits for the hardware: \<open>None\<close> if a wait uses up the values the hardware was assumed to return, so that the code does not
  return.
\<close>

type_synonym 'a run = "'a res option"

definition run_bind :: "'a run \<Rightarrow> ('a \<Rightarrow> 'b run) \<Rightarrow> 'b run" where
  "run_bind m f = (case m of None \<Rightarrow> None | Some (Inl e) \<Rightarrow> Some (Inl e) | Some (Inr x) \<Rightarrow> f x)"

lemma run_bind_simps [simp]:
  "run_bind None f = None" "run_bind (Some (Inl e)) f = Some (Inl e)" "run_bind (Some (Inr x)) f = f x"
  by (simp_all add: run_bind_def)

lemma run_bind_eq [res]: "run_bind m f = Some (Inr y) \<longleftrightarrow> (\<exists>x. m = Some (Inr x) \<and> f x = Some (Inr y))"
  by (simp add: run_bind_def split: option.split sum.split)

section \<open>Counted loops\<close>

text \<open>
  \<open>for_each [lo..<hi] body s\<close> is the loop \<open>for (i = lo; i < hi; i++) body\<close>; the first fault of the
  body ends it.
\<close>

primrec for_each :: "'i list \<Rightarrow> ('i \<Rightarrow> 's \<Rightarrow> 's res) \<Rightarrow> 's \<Rightarrow> 's res" where
  "for_each [] body s = Inr s"
| "for_each (i # is) body s = rbind (body i s) (for_each is body)"

lemma for_each_Nil: "for_each [] body = Inr"
  by (rule ext) simp

lemma for_each_append [res]:
  "for_each (is @ js) body s = rbind (for_each is body s) (for_each js body)"
  by (induction "is" arbitrary: s) (auto simp: rbind_def split: sum.splits)

lemma for_each_cong:
  "(\<And>i s. i \<in> set is \<Longrightarrow> f i s = g i s) \<Longrightarrow> for_each is f s = for_each is g s"
  by (induction "is" arbitrary: s) (simp_all add: rbind_def split: sum.splits)

text \<open>The invariant rule: an indexed invariant the body keeps without faulting.\<close>

lemma for_each_upt_inv:
  assumes "P lo s" and "lo \<le> hi"
    and "\<And>i s. lo \<le> i \<Longrightarrow> i < hi \<Longrightarrow> P i s \<Longrightarrow> \<exists>s'. body i s = Inr s' \<and> P (Suc i) s'"
  shows "\<exists>s'. for_each [lo..<hi] body s = Inr s' \<and> P hi s'"
  using assms
proof (induction "hi - lo" arbitrary: lo s)
  case 0
  then show ?case by simp
next
  case (Suc n)
  then have lt: "lo < hi" by simp
  obtain s' where s': "body lo s = Inr s'" "P (Suc lo) s'"
    using Suc.prems(1) Suc.prems(3) lt by blast
  have "\<exists>t. for_each [Suc lo..<hi] body s' = Inr t \<and> P hi t"
    using Suc.hyps(2) lt s'(2) Suc.prems(3) by (intro Suc.hyps(1)) auto
  then show ?case
    using lt s'(1) by (simp add: upt_conv_Cons)
qed

section \<open>Array accesses\<close>

definition arr_get :: "'a list \<Rightarrow> nat \<Rightarrow> 'a res" where
  "arr_get xs i = (if i < length xs then Inr (xs ! i) else Inl OutOfBounds)"

definition arr_set :: "'a list \<Rightarrow> nat \<Rightarrow> 'a \<Rightarrow> 'a list res" where
  "arr_set xs i v = (if i < length xs then Inr (xs[i := v]) else Inl OutOfBounds)"

lemma arr_get_ok [simp]: "i < length xs \<Longrightarrow> arr_get xs i = Inr (xs ! i)"
  by (simp add: arr_get_def)

lemma arr_set_ok [simp]: "i < length xs \<Longrightarrow> arr_set xs i v = Inr (xs[i := v])"
  by (simp add: arr_set_def)

lemma arr_get_fault [simp]: "length xs \<le> i \<Longrightarrow> arr_get xs i = Inl OutOfBounds"
  by (simp add: arr_get_def)

lemma arr_set_fault [simp]: "length xs \<le> i \<Longrightarrow> arr_set xs i v = Inl OutOfBounds"
  by (simp add: arr_set_def)

lemma arr_get_eq_Inr [res]: "arr_get xs i = Inr x \<longleftrightarrow> i < length xs \<and> x = xs ! i"
  by (auto simp: arr_get_def)

lemma arr_set_eq_Inr [res]: "arr_set xs i v = Inr ys \<longleftrightarrow> i < length xs \<and> ys = xs[i := v]"
  by (auto simp: arr_set_def)

lemma replicate_2 [simp]: "replicate 2 x = [x, x]"
  by (simp add: numeral_2_eq_2)

text \<open>Writing behind a known prefix: the shape of a buffer that is filled from the left.\<close>

lemma arr_set_append: "length xs = i \<Longrightarrow> arr_set (xs @ y # zs) i v = Inr (xs @ v # zs)"
  by (simp add: arr_set_def list_update_append)

lemma arr_set_append2:
  "length xs = i \<Longrightarrow> arr_set (xs @ y # y' # zs) (Suc i) v = Inr (xs @ y # v # zs)"
  by (simp add: arr_set_def list_update_append)

text \<open>
  Filling a range of an array, the shape of every generator loop of the firmware.
\<close>

definition fill :: "nat \<Rightarrow> nat \<Rightarrow> (nat \<Rightarrow> 'a res) \<Rightarrow> 'a list \<Rightarrow> 'a list res" where
  "fill lo hi f xs = for_each [lo..<hi] (\<lambda>i ys. rbind (f i) (arr_set ys i)) xs"

lemma fill_ok:
  assumes "lo \<le> hi" and "hi \<le> length xs" and "\<And>i. lo \<le> i \<Longrightarrow> i < hi \<Longrightarrow> f i = Inr (g i)"
  shows "fill lo hi f xs = Inr (take lo xs @ map g [lo..<hi] @ drop hi xs)"
proof -
  let ?P = "\<lambda>i ys. ys = take lo xs @ map g [lo..<i] @ drop i xs"
  have "\<exists>ys. fill lo hi f xs = Inr ys \<and> ?P hi ys"
    unfolding fill_def
  proof (rule for_each_upt_inv[where P = ?P])
    show "?P lo xs" by simp
  next
    fix i ys
    assume i: "lo \<le> i" "i < hi" and ys: "?P i ys"
    have len: "length (take lo xs @ map g [lo..<i]) = i"
      using i assms(1,2) by simp
    have "drop i xs = xs ! i # drop (Suc i) xs"
      using i assms(2) by (simp add: Cons_nth_drop_Suc)
    then have "ys[i := g i] = take lo xs @ map g [lo..<Suc i] @ drop (Suc i) xs"
      using ys len i by (simp add: list_update_append)
    moreover have "i < length ys"
      using ys i assms(1,2) by simp
    ultimately show "\<exists>ys'. rbind (f i) (arr_set ys i) = Inr ys' \<and> ?P (Suc i) ys'"
      using assms(3)[OF i] by simp
  qed (use assms in simp)
  then show ?thesis by simp
qed

lemma fill_fault:
  assumes "lo \<le> k" and "k < hi" and "hi \<le> length xs"
    and "\<And>i. lo \<le> i \<Longrightarrow> i < k \<Longrightarrow> f i = Inr (g i)" and "f k = Inl e"
  shows "fill lo hi f xs = Inl e"
proof -
  have "[lo..<hi] = [lo..<k] @ k # [Suc k..<hi]"
    using assms(1,2) upt_add_eq_append[of lo k "hi - k"] by (simp add: upt_conv_Cons)
  moreover have "fill lo k f xs = Inr (take lo xs @ map g [lo..<k] @ drop k xs)"
    using assms by (intro fill_ok) auto
  ultimately show ?thesis
    using assms(5) by (simp add: fill_def for_each_append)
qed

text \<open>Replacing each entry of a range by a function of itself.\<close>

definition update_each :: "nat \<Rightarrow> nat \<Rightarrow> ('a \<Rightarrow> 'a res) \<Rightarrow> 'a list \<Rightarrow> 'a list res" where
  "update_each lo hi f xs = for_each [lo..<hi] (\<lambda>i ys. rbind (arr_get ys i) (\<lambda>v. rbind (f v) (arr_set ys i))) xs"

lemma update_each_ok:
  assumes "hi \<le> length xs" and "\<And>i. i < hi \<Longrightarrow> f (xs ! i) = Inr (g (xs ! i))"
  shows "update_each 0 hi f xs = Inr (map g (take hi xs) @ drop hi xs)"
proof -
  let ?P = "\<lambda>i ys. ys = map g (take i xs) @ drop i xs"
  have "\<exists>ys. update_each 0 hi f xs = Inr ys \<and> ?P hi ys"
    unfolding update_each_def
  proof (rule for_each_upt_inv[where P = ?P])
    fix i ys
    assume i: "i < hi" and ys: "?P i ys"
    have get: "arr_get ys i = Inr (xs ! i)"
      using i assms(1) ys by (simp add: arr_get_def nth_append)
    have "drop i xs = xs ! i # drop (Suc i) xs"
      using i assms(1) by (simp add: Cons_nth_drop_Suc)
    then have "ys[i := g (xs ! i)] = map g (take (Suc i) xs) @ drop (Suc i) xs"
      using ys i assms(1) by (simp add: list_update_append take_Suc_conv_app_nth)
    moreover have "i < length ys" using ys i assms(1) by simp
    ultimately show "\<exists>ys'. rbind (arr_get ys i) (\<lambda>v. rbind (f v) (arr_set ys i)) = Inr ys' \<and> ?P (Suc i) ys'"
      using get assms(2)[OF i] by simp
  qed simp_all
  then show ?thesis by simp
qed

section \<open>Bytes and half-words\<close>

definition hi8 :: "u16 \<Rightarrow> u8" where
  "hi8 w = ucast (drop_bit 8 w AND 0xFF)"

definition lo8 :: "u16 \<Rightarrow> u8" where
  "lo8 w = ucast (w AND 0xFF)"

text \<open>\<open>(h << 8) | l\<close> on bytes, assigned to a \<open>uint16_t\<close>.\<close>

definition join16 :: "u8 \<Rightarrow> u8 \<Rightarrow> u16" where
  "join16 h l = push_bit 8 (ucast h) OR ucast l"

lemma ff_mask: "(0xFF :: u16) = mask 8"
  by (simp add: mask_eq_exp_minus_1)

lemma join16_hi_lo [simp, bytes]: "join16 (hi8 w) (lo8 w) = w"
  unfolding join16_def hi8_def lo8_def ff_mask
  by (rule bit_word_eqI) (auto simp: bit_simps)

lemma hi8_join16 [simp, bytes]: "hi8 (join16 h l) = h"
  unfolding join16_def hi8_def ff_mask
  by (rule bit_word_eqI) (auto simp: bit_simps dest: bit_imp_le_length)

lemma lo8_join16 [simp, bytes]: "lo8 (join16 h l) = l"
  unfolding join16_def lo8_def ff_mask
  by (rule bit_word_eqI) (auto simp: bit_simps dest: bit_imp_le_length)

lemma unat_of_nat_eq: "n < 2 ^ LENGTH('a::len) \<Longrightarrow> unat (of_nat n :: 'a word) = n"
  by (simp add: unat_of_nat)

lemma unat_u16_bound: "unat (w :: u16) \<le> 65535"
  using unsigned_less[of w, where ?'a = nat] by simp

lemma unat_u8_bound: "unat (w :: u8) \<le> 255"
  using unsigned_less[of w, where ?'a = nat] by simp

lemma unat_u8_u16 [simp, bytes]: "unat (ucast (h :: u8) :: u16) = unat h"
  using unsigned_less[of h, where ?'a = nat] by (simp add: unsigned_ucast_eq take_bit_nat_eq_self)

lemma unat_join16 [bytes]: "unat (join16 h l) = 256 * unat h + unat l"
proof -
  have "push_bit 8 (ucast h :: u16) OR ucast l = push_bit 8 (ucast h) + ucast l"
    by (rule disjunctive_add_eq_or[symmetric]) (rule bit_word_eqI, auto simp: bit_simps dest: bit_imp_le_length)
  then have "unat (join16 h l) = (unat (push_bit 8 (ucast h) :: u16) + unat l) mod 65536"
    by (simp add: join16_def unat_word_ariths)
  moreover have "unat (push_bit 8 (ucast h) :: u16) = 256 * unat h"
    using unsigned_less[of h, where ?'a = nat] by (simp add: push_bit_eq_mult unat_word_ariths)
  moreover have "256 * unat h + unat l < 65536"
    using unsigned_less[of h, where ?'a = nat] unsigned_less[of l, where ?'a = nat] by simp
  ultimately show ?thesis by simp
qed

lemma join16_eq_iff [bytes]: "join16 h l = w \<longleftrightarrow> h = hi8 w \<and> l = lo8 w"
  by auto

lemma list_eq_8:
  assumes "length xs = 8"
  shows "xs = [xs!0, xs!1, xs!2, xs!3, xs!4, xs!5, xs!6, xs!7]"
  using assms by (intro nth_equalityI) (auto simp: less_Suc_eq numeral_eq_Suc)

end
