(* ===== verification/Registers.thy ===== *)
theory Registers
  imports Prelude
begin

text \<open>
  Bit fields of the 32 bit peripheral registers. The device header that gives the position of every field is not
  part of the repository, so a driver takes a layout: for each field its shift and its width. The three shapes in
  which the drivers use a field are \<open>F_MASK\<close>, \<open>F(v)\<close> and \<open>(r & F_MASK) >> F_SHIFT\<close>.
  The lemmas are collected in \<open>regs\<close>: with the disjointness of two fields they
  decide what one field of a register holds after any sequence of updates of the others.
\<close>

named_theorems regs \<open>reading a bit field of an updated register\<close>

record bitfield =
  fshift :: nat
  fwidth :: nat

definition fmask :: "bitfield \<Rightarrow> u32" where
  "fmask f = push_bit (fshift f) (mask (fwidth f))"

definition fval :: "bitfield \<Rightarrow> u32 \<Rightarrow> u32" where
  "fval f v = push_bit (fshift f) v AND fmask f"

definition fget :: "bitfield \<Rightarrow> u32 \<Rightarrow> u32" where
  "fget f r = drop_bit (fshift f) (r AND fmask f)"

text \<open>A field lies inside the register; two fields do not share a bit.\<close>

definition field_ok :: "bitfield \<Rightarrow> bool" where
  "field_ok f \<longleftrightarrow> 0 < fwidth f \<and> fshift f + fwidth f \<le> 32"

definition apart :: "bitfield \<Rightarrow> bitfield \<Rightarrow> bool" where
  "apart f g \<longleftrightarrow> fshift f + fwidth f \<le> fshift g \<or> fshift g + fwidth g \<le> fshift f"

text \<open>The fields of a register: each inside it, and no two of them share a bit.\<close>

definition fields_ok :: "bitfield list \<Rightarrow> bool" where
  "fields_ok fs \<longleftrightarrow> list_all field_ok fs \<and> sorted_wrt apart fs"

text \<open>The field \<open>k\<close> places further up: what the drivers write as \<open>F_MASK << k\<close>.\<close>

definition fup :: "nat \<Rightarrow> bitfield \<Rightarrow> bitfield" where
  "fup k f = \<lparr>fshift = fshift f + k, fwidth = fwidth f\<rparr>"

lemma fup_simps [simp]: "fshift (fup k f) = fshift f + k" "fwidth (fup k f) = fwidth f"
  by (simp_all add: fup_def)

lemma bit_fmask: "bit (fmask f) n \<longleftrightarrow> fshift f \<le> n \<and> n < fshift f + fwidth f \<and> n < 32"
  by (auto simp: fmask_def bit_push_bit_iff bit_mask_iff less_diff_conv2)

lemma bit_fval: "bit (fval f v) n \<longleftrightarrow> fshift f \<le> n \<and> n < fshift f + fwidth f \<and> n < 32 \<and> bit v (n - fshift f)"
  by (auto simp: fval_def bit_and_iff bit_fmask bit_push_bit_iff)

lemma bit_fget: "bit (fget f r) n \<longleftrightarrow> n < fwidth f \<and> fshift f + n < 32 \<and> bit r (fshift f + n)"
  by (auto simp: fget_def bit_drop_bit_eq bit_and_iff bit_fmask)

lemma fmask_up: "push_bit k (fmask f) = fmask (fup k f)"
  by (simp add: fmask_def push_bit_push_bit add.commute)

lemma fget_or [regs]: "fget f (a OR b) = fget f a OR fget f b"
  by (rule bit_word_eqI) (auto simp: bit_fget bit_or_iff)

lemma fget_and: "fget f (a AND b) = fget f a AND fget f b"
  by (rule bit_word_eqI) (auto simp: bit_fget bit_and_iff)

lemma fget_0 [simp, regs]: "fget f 0 = 0"
  by (simp add: fget_def)

lemma fget_fval [regs]: "field_ok f \<Longrightarrow> fget f (fval f v) = v AND mask (fwidth f)"
  by (rule bit_word_eqI) (auto simp: bit_fget bit_fval bit_and_iff bit_mask_iff field_ok_def)

lemma fget_fval_apart [regs]: "apart f g \<Longrightarrow> fget f (fval g v) = 0"
  by (rule bit_word_eqI) (auto simp: bit_fget bit_fval apart_def)

lemma fget_mask [regs]: "field_ok f \<Longrightarrow> fget f (fmask f) = mask (fwidth f)"
  by (rule bit_word_eqI) (auto simp: bit_fget bit_fmask bit_mask_iff field_ok_def)

lemma fget_mask_apart [regs]: "apart f g \<Longrightarrow> fget f (fmask g) = 0"
  by (rule bit_word_eqI) (auto simp: bit_fget bit_fmask apart_def)

lemma fget_not_mask: "fget f (NOT (fmask f)) = 0"
  by (rule bit_word_eqI) (auto simp: bit_fget bit_fmask bit_not_iff)

lemma fget_clear [regs]: "fget f (r AND NOT (fmask f)) = 0"
  by (rule bit_word_eqI) (auto simp: bit_fget bit_fmask bit_not_iff bit_and_iff)

lemma fget_clear_apart [regs]: "apart f g \<Longrightarrow> fget f (r AND NOT (fmask g)) = fget f r"
  by (rule bit_word_eqI) (auto simp: bit_fget bit_fmask bit_not_iff bit_and_iff apart_def)

lemma apart_sym: "apart f g \<longleftrightarrow> apart g f"
  by (auto simp: apart_def)

lemma fget_idem: "fget f r AND mask (fwidth f) = fget f r"
  by (rule bit_word_eqI) (auto simp: bit_fget bit_and_iff bit_mask_iff)

lemma unat_fget_less: "unat (fget f r) < 2 ^ fwidth f"
proof -
  have "fget f r = take_bit (fwidth f) (fget f r)"
    by (simp add: take_bit_eq_mask fget_idem)
  then show ?thesis
    by (metis take_bit_nat_less_exp unsigned_take_bit_eq)
qed

lemma one_mask: "(1 :: u32) = mask 1"
  by simp

lemma fields_ok_Nil [simp]: "fields_ok []"
  by (simp add: fields_ok_def)

lemma fields_ok_Cons [simp]:
  "fields_ok (f # fs) \<longleftrightarrow> field_ok f \<and> list_all (\<lambda>g. apart f g \<and> apart g f) fs \<and> fields_ok fs"
  using apart_sym by (auto simp: fields_ok_def list_all_iff)

lemma fget_if [regs]: "fget f (if b then x else y) = (if b then fget f x else fget f y)"
  by simp

text \<open>A single bit.\<close>

lemma fget_bit: "fwidth f = 1 \<Longrightarrow> field_ok f \<Longrightarrow> fget f r = of_bool (bit r (fshift f))"
  by (rule bit_word_eqI) (auto simp: bit_fget bit_of_bool_iff field_ok_def bit_1_iff)

lemma fmask_bit: "fwidth f = 1 \<Longrightarrow> fmask f = push_bit (fshift f) 1"
  by (simp add: fmask_def)

lemma bit_single_field: "fwidth f = 1 \<Longrightarrow> bit (fmask f) n \<longleftrightarrow> n = fshift f \<and> n < 32"
  by (auto simp: bit_fmask)

lemma push_bit_of_bool: "0 < fwidth f \<Longrightarrow> push_bit (fshift f) (of_bool b) = fval f (of_bool b)"
  by (rule bit_word_eqI) (auto simp: bit_fval bit_push_bit_iff bit_of_bool_iff simp del: push_bit_of_1)

section \<open>What a driver asks of the rest of the system\<close>

text \<open>
  Clock gates, resets, interrupt enables and delays are done by other parts of the SDK and by the processor. A driver
  leaves them, in order, in a list of calls.
\<close>

datatype periph = CTIMER nat | HPDAC nat | LPDAC nat | LPADC nat | VREF nat | GPIO nat | FLEXCOMM nat | SysTick

datatype clock_div =
    kCLOCK_DivCtimer2Clk | kCLOCK_DivCtimer4Clk | kCLOCK_DivDac0Clk | kCLOCK_DivDac2Clk | kCLOCK_DivAdc0Clk
  | kCLOCK_DivAdc1Clk | kCLOCK_DivFlexcom2Clk | kCLOCK_DivFlexcom4Clk

datatype clock_attach =
    kFRO_HF_to_ADC0 | kFRO_HF_to_ADC1 | kFRO_HF_to_CTIMER2 | kFRO12M_to_CTIMER4 | kFRO_HF_to_DAC0
  | kFRO_HF_to_DAC2 | kFRO12M_to_FLEXCOMM2 | BOARD_DEBUG_UART_CLK_ATTACH

datatype sys_call =
    CLOCK_EnableClock periph
  | CLOCK_DisableClock periph
  | CLOCK_SetClkDiv clock_div nat
  | CLOCK_AttachClk clock_attach
  | RESET_PeripheralReset periph
  | RESET_ClearPeripheralReset periph
  | RESET_SetPeripheralReset periph
  | EnableIRQ periph
  | EnableIRQWithPriority periph nat
  | DisableIRQ periph
  | NVIC_SetPriority periph nat
  | SDK_DelayAtLeastUs nat
  | SPC_EnableActiveModeAnalogModules_controlVref
  | SysTick_Config u32

text \<open>
  The search of an instance by its base address, which every driver has for its own table of addresses.
\<close>

primrec find_base :: "'a list \<Rightarrow> 'a \<Rightarrow> nat" where
  "find_base [] base = 0"
| "find_base (b # bs) base = (if b = base then 0 else Suc (find_base bs base))"

definition get_instance :: "'a list \<Rightarrow> 'a \<Rightarrow> nat res" where
  "get_instance bases base =
     (let i = find_base bases base in if i < length bases then Inr i else Inl AssertFailed)"

lemma find_base_nth: "i < length bs \<Longrightarrow> distinct bs \<Longrightarrow> find_base bs (bs ! i) = i"
proof (induction bs arbitrary: i)
  case (Cons b bs)
  then show ?case by (cases i) auto
qed simp

lemma find_base_notin: "base \<notin> set bs \<Longrightarrow> find_base bs base = length bs"
  by (induction bs) auto

lemma get_instance_nth: "i < length bs \<Longrightarrow> distinct bs \<Longrightarrow> get_instance bs (bs ! i) = Inr i"
  by (simp add: get_instance_def find_base_nth)

lemma get_instance_unknown: "base \<notin> set bs \<Longrightarrow> get_instance bs base = Inl AssertFailed"
  by (simp add: get_instance_def find_base_notin)

end
