(* ===== verification/Ctimer.thy ===== *)
theory Ctimer
  imports Registers
begin

text \<open>
  The standard counter/timer driver (\<open>fsl_ctimer.c\<close>, \<open>fsl_ctimer.h\<close>): the registers of one timer, the configuration structures, and
  every operation of the driver as a function from registers (and the calls made to the rest of the system) to
  registers. A layout gives the bit fields that the device header defines. Channels are the
  numbers of the C enumerations.
\<close>

section \<open>Configuration structures and registers\<close>

datatype ctimer_timer_mode =
  kCTIMER_TimerMode | kCTIMER_IncreaseOnRiseEdge | kCTIMER_IncreaseOnFallEdge | kCTIMER_IncreaseOnBothEdge

primrec timer_mode_val :: "ctimer_timer_mode \<Rightarrow> u32" where
  "timer_mode_val kCTIMER_TimerMode = 0"
| "timer_mode_val kCTIMER_IncreaseOnRiseEdge = 1"
| "timer_mode_val kCTIMER_IncreaseOnFallEdge = 2"
| "timer_mode_val kCTIMER_IncreaseOnBothEdge = 3"

datatype ctimer_match_output_control =
  kCTIMER_Output_NoAction | kCTIMER_Output_Clear | kCTIMER_Output_Set | kCTIMER_Output_Toggle

primrec out_control_val :: "ctimer_match_output_control \<Rightarrow> u32" where
  "out_control_val kCTIMER_Output_NoAction = 0"
| "out_control_val kCTIMER_Output_Clear = 1"
| "out_control_val kCTIMER_Output_Set = 2"
| "out_control_val kCTIMER_Output_Toggle = 3"

datatype ctimer_capture_edge = kCTIMER_Capture_RiseEdge | kCTIMER_Capture_FallEdge | kCTIMER_Capture_BothEdge

primrec capture_edge_val :: "ctimer_capture_edge \<Rightarrow> u32" where
  "capture_edge_val kCTIMER_Capture_RiseEdge = 1"
| "capture_edge_val kCTIMER_Capture_FallEdge = 2"
| "capture_edge_val kCTIMER_Capture_BothEdge = 3"

datatype ctimer_callback_type = kCTIMER_SingleCallback | kCTIMER_MultipleCallback

datatype status = kStatus_Success | kStatus_Fail

record ctimer_config =
  mode :: ctimer_timer_mode
  input :: nat
  prescale :: u32

record ctimer_match_config =
  matchValue :: u32
  enableCounterReset :: bool
  enableCounterStop :: bool
  outControl :: ctimer_match_output_control
  outPinInitState :: bool
  enableInterrupt :: bool

record ctimer =
  ct_IR :: u32
  ct_TCR :: u32
  ct_TC :: u32
  ct_PR :: u32
  ct_MCR :: u32
  ct_MR :: "u32 list"
  ct_CCR :: u32
  ct_CR :: "u32 list"
  ct_EMR :: u32
  ct_CTCR :: u32
  ct_PWMC :: u32
  ct_MSR :: "u32 list"

record ctimer_layout =
  IR_MR0INT :: bitfield
  IR_CR0INT :: bitfield
  IR_CR3INT :: bitfield
  TCR_CEN :: bitfield
  TCR_CRST :: bitfield
  PR_PRVAL :: bitfield
  MCR_MR0I :: bitfield
  MCR_MR0R :: bitfield
  MCR_MR0S :: bitfield
  MCR_MR1I :: bitfield
  MCR_MR2I :: bitfield
  MCR_MR3I :: bitfield
  MCR_MR0RL :: bitfield
  CCR_CAP0RE :: bitfield
  CCR_CAP0FE :: bitfield
  CCR_CAP0I :: bitfield
  CCR_CAP1I :: bitfield
  CCR_CAP2I :: bitfield
  CCR_CAP3I :: bitfield
  EMR_EM0 :: bitfield
  EMR_EMC0 :: bitfield
  CTCR_CTMODE :: bitfield
  CTCR_CINSEL :: bitfield

text \<open>A driver call works on the registers and adds to the calls made to the rest of the system.\<close>

type_synonym ctimer_dev = "ctimer \<times> sys_call list"

section \<open>The operations\<close>

text \<open>Flags are cleared by writing ones to them (\<open>IR\<close> is a write-one-to-clear register).\<close>

definition CTIMER_ClearStatusFlags :: "u32 \<Rightarrow> ctimer \<Rightarrow> ctimer" where
  "CTIMER_ClearStatusFlags m r = r\<lparr>ct_IR := ct_IR r AND NOT m\<rparr>"

definition CTIMER_GetStatusFlags :: "ctimer \<Rightarrow> u32" where
  "CTIMER_GetStatusFlags r = ct_IR r"

text \<open>
  \<open>CTIMER_Init\<close>: the reset of the peripheral puts every register to its reset value \<open>rst\<close>; then count mode and
  prescaler are written.
\<close>

definition CTIMER_Init :: "ctimer_layout \<Rightarrow> ctimer \<Rightarrow> nat \<Rightarrow> ctimer_config \<Rightarrow> ctimer_dev \<Rightarrow> ctimer_dev" where
  "CTIMER_Init L rst n config d =
     (rst\<lparr>ct_CTCR := fval (CTCR_CTMODE L) (timer_mode_val (mode config)) OR
                      fval (CTCR_CINSEL L) (of_nat (input config)),
          ct_PR := fval (PR_PRVAL L) (prescale config)\<rparr>,
      snd d @ [CLOCK_EnableClock (CTIMER n), RESET_PeripheralReset (CTIMER n)])"

definition CTIMER_StartTimer :: "ctimer_layout \<Rightarrow> ctimer \<Rightarrow> ctimer" where
  "CTIMER_StartTimer L r = r\<lparr>ct_TCR := ct_TCR r OR fmask (TCR_CEN L)\<rparr>"

definition CTIMER_StopTimer :: "ctimer_layout \<Rightarrow> ctimer \<Rightarrow> ctimer" where
  "CTIMER_StopTimer L r = r\<lparr>ct_TCR := ct_TCR r AND NOT (fmask (TCR_CEN L))\<rparr>"

definition CTIMER_Deinit :: "ctimer_layout \<Rightarrow> nat \<Rightarrow> ctimer_dev \<Rightarrow> ctimer_dev" where
  "CTIMER_Deinit L n d =
     ((fst d)\<lparr>ct_TCR := ct_TCR (fst d) AND NOT (fmask (TCR_CEN L))\<rparr>,
      snd d @ [CLOCK_DisableClock (CTIMER n), DisableIRQ (CTIMER n)])"

definition CTIMER_GetDefaultConfig :: ctimer_config where
  "CTIMER_GetDefaultConfig = \<lparr>mode = kCTIMER_TimerMode, input = 0, prescale = 0\<rparr>"

text \<open>The interrupt, reset and stop bits of a match channel are cleared together.\<close>

definition clear_match_actions :: "ctimer_layout \<Rightarrow> nat \<Rightarrow> u32 \<Rightarrow> u32" where
  "clear_match_actions L ch reg =
     reg AND NOT (push_bit (ch * 3) (fmask (MCR_MR0R L) OR fmask (MCR_MR0S L) OR fmask (MCR_MR0I L)))"

definition CTIMER_SetupMatch ::
  "ctimer_layout \<Rightarrow> nat \<Rightarrow> nat \<Rightarrow> ctimer_match_config \<Rightarrow> ctimer_dev \<Rightarrow> ctimer_dev res" where
  "CTIMER_SetupMatch L n matchChannel config d =
     (let (r, calls) = d;
          reg = clear_match_actions L matchChannel (ct_MCR r);
          reg = reg OR push_bit (fshift (MCR_MR0R L) + matchChannel * 3) (of_bool (enableCounterReset config));
          reg = reg OR push_bit (fshift (MCR_MR0S L) + matchChannel * 3) (of_bool (enableCounterStop config));
          reg = reg OR push_bit (fshift (MCR_MR0I L) + matchChannel * 3) (of_bool (enableInterrupt config));
          r = r\<lparr>ct_MCR := reg\<rparr>;
          reg = ct_EMR r AND NOT (push_bit (matchChannel * 2) (fmask (EMR_EMC0 L)));
          reg = reg OR push_bit (fshift (EMR_EMC0 L) + matchChannel * 2) (out_control_val (outControl config));
          reg = reg AND NOT (push_bit matchChannel (fmask (EMR_EM0 L)));
          reg = reg OR push_bit matchChannel (of_bool (outPinInitState config));
          r = r\<lparr>ct_EMR := reg\<rparr>
      in rbind (arr_set (ct_MR r) matchChannel (matchValue config)) (\<lambda>mr.
           Inr (CTIMER_ClearStatusFlags (push_bit matchChannel (fmask (IR_MR0INT L))) (r\<lparr>ct_MR := mr\<rparr>),
                if enableInterrupt config then calls @ [EnableIRQ (CTIMER n)] else calls)))"

text \<open>The pulse-width modes.\<close>

definition pwm_pulse :: "u32 \<Rightarrow> u8 \<Rightarrow> u32" where
  "pwm_pulse period dutyCyclePercent =
     (if dutyCyclePercent = 0 then period + 1 else (period * (100 - ucast dutyCyclePercent)) div 100)"

definition setup_pwm_registers ::
  "ctimer_layout \<Rightarrow> nat \<Rightarrow> nat \<Rightarrow> nat \<Rightarrow> u32 \<Rightarrow> u32 \<Rightarrow> bool \<Rightarrow> ctimer_dev \<Rightarrow> (status \<times> ctimer_dev) res" where
  "setup_pwm_registers L n periodChannel matchChannel period pulse enableInt d =
     (let (r, calls) = d;
          r = r\<lparr>ct_PWMC := ct_PWMC r OR push_bit matchChannel 1\<rparr>;
          reg = clear_match_actions L matchChannel (ct_MCR r);
          reg = (if enableInt
                 then reg OR push_bit (fshift (MCR_MR0I L) + matchChannel * 3) (fmask (MCR_MR0I L)) else reg);
          reg = reg OR push_bit (periodChannel * 3) (fmask (MCR_MR0R L));
          r = r\<lparr>ct_MCR := reg\<rparr>
      in rbind (arr_set (ct_MR r) periodChannel period) (\<lambda>mr.
         rbind (arr_set mr matchChannel pulse) (\<lambda>mr.
           Inr (kStatus_Success,
                CTIMER_ClearStatusFlags (push_bit matchChannel (fmask (IR_MR0INT L))) (r\<lparr>ct_MR := mr\<rparr>),
                if enableInt then calls @ [EnableIRQ (CTIMER n)] else calls))))"

definition CTIMER_SetupPwm ::
  "ctimer_layout \<Rightarrow> nat \<Rightarrow> nat \<Rightarrow> nat \<Rightarrow> u8 \<Rightarrow> u32 \<Rightarrow> u32 \<Rightarrow> bool \<Rightarrow> ctimer_dev \<Rightarrow> (status \<times> ctimer_dev) res" where
  "CTIMER_SetupPwm L n periodChannel matchChannel dutyCyclePercent pwmFreq_Hz srcClock_Hz enableInt d =
     (if pwmFreq_Hz = 0 then Inl AssertFailed
      else if ct_PR (fst d) + 1 = 0 then Inl DivByZero
      else if matchChannel = periodChannel then Inr (kStatus_Fail, d)
      else
        let period = (srcClock_Hz div (ct_PR (fst d) + 1)) div pwmFreq_Hz - 1
        in setup_pwm_registers L n periodChannel matchChannel period (pwm_pulse period dutyCyclePercent) enableInt d)"

definition CTIMER_SetupPwmPeriod ::
  "ctimer_layout \<Rightarrow> nat \<Rightarrow> nat \<Rightarrow> nat \<Rightarrow> u32 \<Rightarrow> u32 \<Rightarrow> bool \<Rightarrow> ctimer_dev \<Rightarrow> (status \<times> ctimer_dev) res" where
  "CTIMER_SetupPwmPeriod L n periodChannel matchChannel pwmPeriod pulsePeriod enableInt d =
     (if matchChannel = periodChannel then Inr (kStatus_Fail, d)
      else setup_pwm_registers L n periodChannel matchChannel pwmPeriod pulsePeriod enableInt d)"

definition CTIMER_UpdatePwmDutycycle :: "nat \<Rightarrow> nat \<Rightarrow> u8 \<Rightarrow> ctimer \<Rightarrow> ctimer res" where
  "CTIMER_UpdatePwmDutycycle periodChannel matchChannel dutyCyclePercent r =
     rbind (arr_get (ct_MR r) periodChannel) (\<lambda>period.
     rbind (arr_set (ct_MR r) matchChannel (pwm_pulse period dutyCyclePercent)) (\<lambda>mr.
       Inr (r\<lparr>ct_MR := mr\<rparr>)))"

definition CTIMER_UpdatePwmPulsePeriod :: "nat \<Rightarrow> u32 \<Rightarrow> ctimer \<Rightarrow> ctimer res" where
  "CTIMER_UpdatePwmPulsePeriod matchChannel pulsePeriod r =
     rbind (arr_set (ct_MR r) matchChannel pulsePeriod) (\<lambda>mr. Inr (r\<lparr>ct_MR := mr\<rparr>))"

definition CTIMER_GetOutputMatchStatus :: "u32 \<Rightarrow> ctimer \<Rightarrow> u32" where
  "CTIMER_GetOutputMatchStatus matchChannel r = ct_EMR r AND matchChannel"

definition CTIMER_SetupCapture ::
  "ctimer_layout \<Rightarrow> nat \<Rightarrow> nat \<Rightarrow> ctimer_capture_edge \<Rightarrow> bool \<Rightarrow> ctimer_dev \<Rightarrow> ctimer_dev" where
  "CTIMER_SetupCapture L n capture edge enableInt d =
     (let (r, calls) = d;
          reg = ct_CCR r AND
            NOT (push_bit (capture * 3) (fmask (CCR_CAP0RE L) OR fmask (CCR_CAP0FE L) OR fmask (CCR_CAP0I L)));
          reg = reg OR push_bit (fshift (CCR_CAP0RE L) + capture * 3) (capture_edge_val edge);
          r = CTIMER_ClearStatusFlags (push_bit capture (fmask (IR_CR0INT L))) r;
          reg = (if enableInt then reg OR push_bit (capture * 3) (fmask (CCR_CAP0I L)) else reg)
      in (r\<lparr>ct_CCR := reg\<rparr>, if enableInt then calls @ [EnableIRQ (CTIMER n)] else calls))"

definition CTIMER_GetTimerCountValue :: "ctimer \<Rightarrow> u32" where
  "CTIMER_GetTimerCountValue r = ct_TC r"

definition CTIMER_GetCaptureValue :: "nat \<Rightarrow> ctimer \<Rightarrow> u32 res" where
  "CTIMER_GetCaptureValue capture r = arr_get (ct_CR r) capture"

definition CTIMER_SetPrescale :: "ctimer_layout \<Rightarrow> u32 \<Rightarrow> ctimer \<Rightarrow> ctimer" where
  "CTIMER_SetPrescale L p r = r\<lparr>ct_PR := fval (PR_PRVAL L) p\<rparr>"

text \<open>The counter reset bit is set and cleared again.\<close>

definition CTIMER_Reset :: "ctimer_layout \<Rightarrow> ctimer \<Rightarrow> ctimer" where
  "CTIMER_Reset L r =
     (let r = r\<lparr>ct_TCR := ct_TCR r OR fmask (TCR_CRST L)\<rparr>
      in r\<lparr>ct_TCR := ct_TCR r AND NOT (fmask (TCR_CRST L))\<rparr>)"

text \<open>The two masks of interrupt enable bits, of the match register and of the capture register.\<close>

definition match_interrupts :: "ctimer_layout \<Rightarrow> u32" where
  "match_interrupts L = fmask (MCR_MR0I L) OR fmask (MCR_MR1I L) OR fmask (MCR_MR2I L) OR fmask (MCR_MR3I L)"

definition capture_interrupts :: "ctimer_layout \<Rightarrow> u32" where
  "capture_interrupts L = fmask (CCR_CAP0I L) OR fmask (CCR_CAP1I L) OR fmask (CCR_CAP2I L) OR fmask (CCR_CAP3I L)"

definition CTIMER_EnableInterrupts :: "ctimer_layout \<Rightarrow> u32 \<Rightarrow> ctimer \<Rightarrow> ctimer" where
  "CTIMER_EnableInterrupts L m r =
     r\<lparr>ct_MCR := ct_MCR r OR (m AND match_interrupts L), ct_CCR := ct_CCR r OR (m AND capture_interrupts L)\<rparr>"

definition CTIMER_DisableInterrupts :: "ctimer_layout \<Rightarrow> u32 \<Rightarrow> ctimer \<Rightarrow> ctimer" where
  "CTIMER_DisableInterrupts L m r =
     r\<lparr>ct_MCR := ct_MCR r AND NOT (m AND match_interrupts L),
       ct_CCR := ct_CCR r AND NOT (m AND capture_interrupts L)\<rparr>"

definition CTIMER_GetEnabledInterrupts :: "ctimer_layout \<Rightarrow> ctimer \<Rightarrow> u32" where
  "CTIMER_GetEnabledInterrupts L r = (ct_MCR r AND match_interrupts L) OR (ct_CCR r AND capture_interrupts L)"

text \<open>One bit of a register set or cleared, as the channel switches of the header do.\<close>

definition switch_bit :: "nat \<Rightarrow> bool \<Rightarrow> u32 \<Rightarrow> u32" where
  "switch_bit k enable reg = (if enable then reg OR push_bit k 1 else reg AND NOT (push_bit k 1))"

definition CTIMER_EnableResetMatchChannel :: "ctimer_layout \<Rightarrow> nat \<Rightarrow> bool \<Rightarrow> ctimer \<Rightarrow> ctimer" where
  "CTIMER_EnableResetMatchChannel L ch enable r =
     r\<lparr>ct_MCR := switch_bit (fshift (MCR_MR0R L) + ch * 3) enable (ct_MCR r)\<rparr>"

definition CTIMER_EnableStopMatchChannel :: "ctimer_layout \<Rightarrow> nat \<Rightarrow> bool \<Rightarrow> ctimer \<Rightarrow> ctimer" where
  "CTIMER_EnableStopMatchChannel L ch enable r =
     r\<lparr>ct_MCR := switch_bit (fshift (MCR_MR0S L) + ch * 3) enable (ct_MCR r)\<rparr>"

definition CTIMER_EnableMatchChannelReload :: "ctimer_layout \<Rightarrow> nat \<Rightarrow> bool \<Rightarrow> ctimer \<Rightarrow> ctimer" where
  "CTIMER_EnableMatchChannelReload L ch enable r =
     r\<lparr>ct_MCR := switch_bit (fshift (MCR_MR0RL L) + ch) enable (ct_MCR r)\<rparr>"

definition CTIMER_EnableRisingEdgeCapture :: "ctimer_layout \<Rightarrow> nat \<Rightarrow> bool \<Rightarrow> ctimer \<Rightarrow> ctimer" where
  "CTIMER_EnableRisingEdgeCapture L ch enable r =
     r\<lparr>ct_CCR := switch_bit (fshift (CCR_CAP0RE L) + ch * 3) enable (ct_CCR r)\<rparr>"

definition CTIMER_EnableFallingEdgeCapture :: "ctimer_layout \<Rightarrow> nat \<Rightarrow> bool \<Rightarrow> ctimer \<Rightarrow> ctimer" where
  "CTIMER_EnableFallingEdgeCapture L ch enable r =
     r\<lparr>ct_CCR := switch_bit (fshift (CCR_CAP0FE L) + ch * 3) enable (ct_CCR r)\<rparr>"

definition CTIMER_SetShadowValue :: "nat \<Rightarrow> u32 \<Rightarrow> ctimer \<Rightarrow> ctimer res" where
  "CTIMER_SetShadowValue ch v r = rbind (arr_set (ct_MSR r) ch v) (\<lambda>m. Inr (r\<lparr>ct_MSR := m\<rparr>))"

section \<open>Callbacks\<close>

text \<open>
  The driver keeps, for each timer, a pointer to a caller's array of function pointers (\<open>None\<close> when it has not been set;
  an entry \<open>None\<close> is a null function pointer) and the callback type.
\<close>

record 'f ctimer_callbacks =
  cb_func :: "'f option list option"
  cb_type :: ctimer_callback_type

definition init_callbacks :: "'f ctimer_callbacks" where
  "init_callbacks = \<lparr>cb_func = None, cb_type = kCTIMER_SingleCallback\<rparr>"

definition CTIMER_RegisterCallBack ::
  "'f option list \<Rightarrow> ctimer_callback_type \<Rightarrow> 'f ctimer_callbacks \<Rightarrow> 'f ctimer_callbacks" where
  "CTIMER_RegisterCallBack fs ty c = c\<lparr>cb_func := Some fs, cb_type := ty\<rparr>"

text \<open>
  The interrupt handler: it returns the registers with the flags cleared and the callbacks it called, in order, each with the
  flags it was given.
\<close>

definition CTIMER_GenericIRQHandler ::
  "ctimer_layout \<Rightarrow> 'f ctimer_callbacks \<Rightarrow> ctimer \<Rightarrow> (ctimer \<times> ('f \<times> u32) list) res" where
  "CTIMER_GenericIRQHandler L c r =
     (let int_stat = CTIMER_GetStatusFlags r;
          r = CTIMER_ClearStatusFlags int_stat r
      in case cb_func c of
           None \<Rightarrow>
             (if cb_type c = kCTIMER_MultipleCallback \<and> (\<forall>i \<in> set [0..<Suc (fshift (IR_CR3INT L))]. int_stat AND push_bit i 1 = 0)
              then Inr (r, []) else Inl BadPointer)
         | Some fs \<Rightarrow>
             (if cb_type c = kCTIMER_SingleCallback
              then rbind (arr_get fs 0) (\<lambda>f. Inr (r, case f of None \<Rightarrow> [] | Some f \<Rightarrow> [(f, int_stat)]))
              else
                rbind (for_each [0..<Suc (fshift (IR_CR3INT L))] (\<lambda>i called.
                         if int_stat AND push_bit i 1 \<noteq> 0
                         then rbind (arr_get fs i) (\<lambda>f.
                                Inr (case f of None \<Rightarrow> called | Some f \<Rightarrow> called @ [(f, int_stat)]))
                         else Inr called) [])
                  (\<lambda>called. Inr (r, called))))"

definition CTIMER_GetInstance :: "'a list \<Rightarrow> 'a \<Rightarrow> nat res" where
  "CTIMER_GetInstance s_ctimerBases base = get_instance s_ctimerBases base"

section \<open>Properties\<close>

text \<open>
  What the drivers assume of the header: the interrupt, reset and stop bits of match channel 0 are three single bits
  among the lowest three, so that the channels follow one another every three bits; the output bits are the lowest
  four of \<open>EMR\<close>, the two-bit output controls come after them; the match flags are single bits.
\<close>

definition ctimer_layout_ok :: "ctimer_layout \<Rightarrow> bool" where
  "ctimer_layout_ok L \<longleftrightarrow>
     fwidth (MCR_MR0I L) = 1 \<and> fwidth (MCR_MR0R L) = 1 \<and> fwidth (MCR_MR0S L) = 1 \<and>
     fshift (MCR_MR0I L) < 3 \<and> fshift (MCR_MR0R L) < 3 \<and> fshift (MCR_MR0S L) < 3 \<and>
     distinct [fshift (MCR_MR0I L), fshift (MCR_MR0R L), fshift (MCR_MR0S L)] \<and>
     fshift (EMR_EM0 L) = 0 \<and> fwidth (EMR_EM0 L) = 1 \<and>
     4 \<le> fshift (EMR_EMC0 L) \<and> fwidth (EMR_EMC0 L) = 2 \<and> fshift (EMR_EMC0 L) \<le> 24 \<and>
     fwidth (IR_MR0INT L) = 1 \<and> fshift (IR_MR0INT L) \<le> 28 \<and>
     fwidth (TCR_CEN L) = 1 \<and> fshift (TCR_CEN L) < 32"

lemma div_mod_3: "(a :: nat) < 3 \<Longrightarrow> b < 3 \<Longrightarrow> a + k * 3 = b + c * 3 \<longleftrightarrow> a = b \<and> k = c"
  by presburger

lemma push_bit_bool: "bit (push_bit k (of_bool b) :: u32) n \<longleftrightarrow> n = k \<and> b \<and> n < 32"
  by (auto simp: bit_push_bit_iff bit_of_bool_iff simp del: push_bit_of_1)

lemma bit_push_single: "fwidth f = 1 \<Longrightarrow> bit (push_bit k (fmask f)) n \<longleftrightarrow> n = fshift f + k \<and> n < 32"
  by (auto simp: bit_push_bit_iff bit_single_field)

text \<open>The match control register after the actions of channel \<open>ch\<close> have been replaced.\<close>

lemma match_control:
  fixes m :: u32 and a b c :: bool
  assumes "ctimer_layout_ok L" and "ch < 4" and "k < 4"
  defines "reg \<equiv> ((clear_match_actions L ch m OR push_bit (fshift (MCR_MR0R L) + ch * 3) (of_bool a))
      OR push_bit (fshift (MCR_MR0S L) + ch * 3) (of_bool b)) OR push_bit (fshift (MCR_MR0I L) + ch * 3) (of_bool c)"
  shows "bit reg (fshift (MCR_MR0R L) + k * 3) \<longleftrightarrow> (if k = ch then a else bit m (fshift (MCR_MR0R L) + k * 3))"
    and "bit reg (fshift (MCR_MR0S L) + k * 3) \<longleftrightarrow> (if k = ch then b else bit m (fshift (MCR_MR0S L) + k * 3))"
    and "bit reg (fshift (MCR_MR0I L) + k * 3) \<longleftrightarrow> (if k = ch then c else bit m (fshift (MCR_MR0I L) + k * 3))"
  using assms(1,2,3) unfolding reg_def clear_match_actions_def ctimer_layout_ok_def
  by (auto simp: bit_or_iff bit_and_iff bit_not_iff push_bit_bool bit_push_single push_bit_or div_mod_3)

lemma out_control_bits: "bit (out_control_val oc) n \<Longrightarrow> n < 2"
  by (cases oc; cases n; cases "n - 1") (auto simp: bit_numeral_rec bit_1_iff)

lemma match_output:
  fixes e :: u32 and oc :: ctimer_match_output_control and b :: bool
  assumes "ctimer_layout_ok L" and "ch < 4" and "k < 4"
  defines "reg \<equiv> (((e AND NOT (push_bit (ch * 2) (fmask (EMR_EMC0 L)))) OR
      push_bit (fshift (EMR_EMC0 L) + ch * 2) (out_control_val oc)) AND NOT (push_bit ch (fmask (EMR_EM0 L)))) OR
      push_bit ch (of_bool b)"
  shows "fget (fup (k * 2) (EMR_EMC0 L)) reg =
      (if k = ch then out_control_val oc else fget (fup (k * 2) (EMR_EMC0 L)) e)"
    and "bit reg k \<longleftrightarrow> (if k = ch then b else bit e k)"
proof -
  have L: "fshift (EMR_EM0 L) = 0" "fwidth (EMR_EM0 L) = 1" "4 \<le> fshift (EMR_EMC0 L)" "fwidth (EMR_EMC0 L) = 2"
      "fshift (EMR_EMC0 L) \<le> 24"
    using assms(1) by (simp_all add: ctimer_layout_ok_def)
  have emc: "bit (push_bit (ch * 2) (fmask (EMR_EMC0 L))) n \<longleftrightarrow>
      fshift (EMR_EMC0 L) + ch * 2 \<le> n \<and> n < fshift (EMR_EMC0 L) + ch * 2 + 2 \<and> n < 32" for n
    using L by (auto simp: bit_push_bit_iff bit_fmask)
  have em: "bit (push_bit ch (fmask (EMR_EM0 L))) n \<longleftrightarrow> n = ch" for n
    using L assms(2) by (auto simp: bit_push_bit_iff bit_fmask)
  have oc: "bit (push_bit (fshift (EMR_EMC0 L) + ch * 2) (out_control_val oc)) n \<longleftrightarrow>
      n < 32 \<and> fshift (EMR_EMC0 L) + ch * 2 \<le> n \<and> n < fshift (EMR_EMC0 L) + ch * 2 + 2 \<and>
      bit (out_control_val oc) (n - (fshift (EMR_EMC0 L) + ch * 2))" for n
    using out_control_bits[of oc "n - (fshift (EMR_EMC0 L) + ch * 2)"] by (auto simp: bit_push_bit_iff)
  have bits: "bit reg n \<longleftrightarrow>
      (if n = ch then b
       else if fshift (EMR_EMC0 L) + ch * 2 \<le> n \<and> n < fshift (EMR_EMC0 L) + ch * 2 + 2
       then bit (out_control_val oc) (n - (fshift (EMR_EMC0 L) + ch * 2)) else bit e n)" if "n < 32" for n
    unfolding reg_def using that assms(2) L
    by (auto simp: bit_or_iff bit_and_iff bit_not_iff emc em oc push_bit_bool)
  show "bit reg k \<longleftrightarrow> (if k = ch then b else bit e k)"
    using bits[of k] assms(2,3) L by auto
  show "fget (fup (k * 2) (EMR_EMC0 L)) reg =
      (if k = ch then out_control_val oc else fget (fup (k * 2) (EMR_EMC0 L)) e)"
  proof (cases "k = ch")
    case True
    show ?thesis
    proof (rule bit_word_eqI)
      fix n
      assume "n < LENGTH(32)"
      show "bit (fget (fup (k * 2) (EMR_EMC0 L)) reg) n \<longleftrightarrow>
          bit (if k = ch then out_control_val oc else fget (fup (k * 2) (EMR_EMC0 L)) e) n"
        using True L assms(2,3) out_control_bits[of oc n] bits[of "fshift (EMR_EMC0 L) + k * 2 + n"]
        by (auto simp: bit_fget)
    qed
  next
    case False
    show ?thesis
    proof (rule bit_word_eqI)
      fix n
      assume "n < LENGTH(32)"
      show "bit (fget (fup (k * 2) (EMR_EMC0 L)) reg) n \<longleftrightarrow>
          bit (if k = ch then out_control_val oc else fget (fup (k * 2) (EMR_EMC0 L)) e) n"
        using False L assms(2,3) bits[of "fshift (EMR_EMC0 L) + k * 2 + n"]
        by (auto simp: bit_fget)
    qed
  qed
qed

text \<open>What the registers hold of a channel, and the same six values of a configuration.\<close>

definition match_view :: "ctimer_layout \<Rightarrow> nat \<Rightarrow> ctimer \<Rightarrow> u32 \<times> bool \<times> bool \<times> u32 \<times> bool \<times> bool" where
  "match_view L ch r =
     (ct_MR r ! ch, bit (ct_MCR r) (fshift (MCR_MR0R L) + ch * 3), bit (ct_MCR r) (fshift (MCR_MR0S L) + ch * 3),
      fget (fup (ch * 2) (EMR_EMC0 L)) (ct_EMR r), bit (ct_EMR r) ch, bit (ct_MCR r) (fshift (MCR_MR0I L) + ch * 3))"

definition config_view :: "ctimer_match_config \<Rightarrow> u32 \<times> bool \<times> bool \<times> u32 \<times> bool \<times> bool" where
  "config_view c =
     (matchValue c, enableCounterReset c, enableCounterStop c, out_control_val (outControl c),
      outPinInitState c, enableInterrupt c)"

lemma SetupMatch_effect:
  assumes "ctimer_layout_ok L" and "ch < 4" and "length (ct_MR r) = 4"
  shows "\<exists>r'. CTIMER_SetupMatch L n ch c (r, calls) =
      Inr (r', if enableInterrupt c then calls @ [EnableIRQ (CTIMER n)] else calls) \<and>
    (\<forall>k<4. match_view L k r' = (if k = ch then config_view c else match_view L k r)) \<and>
    (\<forall>k<4. bit (ct_IR r') (fshift (IR_MR0INT L) + k) \<longleftrightarrow> k \<noteq> ch \<and> bit (ct_IR r) (fshift (IR_MR0INT L) + k)) \<and>
    length (ct_MR r') = 4 \<and> ct_TCR r' = ct_TCR r \<and> ct_PR r' = ct_PR r \<and> ct_CTCR r' = ct_CTCR r"
proof -
  have IR: "fwidth (IR_MR0INT L) = 1" "fshift (IR_MR0INT L) \<le> 28"
    using assms(1) by (simp_all add: ctimer_layout_ok_def)
  show ?thesis
    using assms IR
    by (simp add: CTIMER_SetupMatch_def Let_def CTIMER_ClearStatusFlags_def match_view_def config_view_def
        match_control match_output bit_and_iff bit_not_iff bit_push_single) blast
qed

text \<open>The layout of the same timer in the header of the LPC55S36, which is in the SDK.\<close>

definition LPC55S36_ctimer :: ctimer_layout where
  "LPC55S36_ctimer =
    \<lparr>IR_MR0INT = \<lparr>fshift = 0, fwidth = 1\<rparr>, IR_CR0INT = \<lparr>fshift = 4, fwidth = 1\<rparr>,
     IR_CR3INT = \<lparr>fshift = 7, fwidth = 1\<rparr>, TCR_CEN = \<lparr>fshift = 0, fwidth = 1\<rparr>,
     TCR_CRST = \<lparr>fshift = 1, fwidth = 1\<rparr>, PR_PRVAL = \<lparr>fshift = 0, fwidth = 32\<rparr>,
     MCR_MR0I = \<lparr>fshift = 0, fwidth = 1\<rparr>, MCR_MR0R = \<lparr>fshift = 1, fwidth = 1\<rparr>,
     MCR_MR0S = \<lparr>fshift = 2, fwidth = 1\<rparr>, MCR_MR1I = \<lparr>fshift = 3, fwidth = 1\<rparr>,
     MCR_MR2I = \<lparr>fshift = 6, fwidth = 1\<rparr>, MCR_MR3I = \<lparr>fshift = 9, fwidth = 1\<rparr>,
     MCR_MR0RL = \<lparr>fshift = 24, fwidth = 1\<rparr>, CCR_CAP0RE = \<lparr>fshift = 0, fwidth = 1\<rparr>,
     CCR_CAP0FE = \<lparr>fshift = 1, fwidth = 1\<rparr>, CCR_CAP0I = \<lparr>fshift = 2, fwidth = 1\<rparr>,
     CCR_CAP1I = \<lparr>fshift = 5, fwidth = 1\<rparr>, CCR_CAP2I = \<lparr>fshift = 8, fwidth = 1\<rparr>,
     CCR_CAP3I = \<lparr>fshift = 11, fwidth = 1\<rparr>, EMR_EM0 = \<lparr>fshift = 0, fwidth = 1\<rparr>,
     EMR_EMC0 = \<lparr>fshift = 4, fwidth = 2\<rparr>, CTCR_CTMODE = \<lparr>fshift = 0, fwidth = 2\<rparr>,
     CTCR_CINSEL = \<lparr>fshift = 2, fwidth = 2\<rparr>\<rparr>"

lemma LPC55S36_ctimer_ok: "ctimer_layout_ok LPC55S36_ctimer"
  by (simp add: ctimer_layout_ok_def LPC55S36_ctimer_def)

definition reset_ctimer :: ctimer where
  "reset_ctimer =
    \<lparr>ct_IR = 0, ct_TCR = 0, ct_TC = 0, ct_PR = 0, ct_MCR = 0, ct_MR = replicate 4 0, ct_CCR = 0,
     ct_CR = replicate 4 0, ct_EMR = 0, ct_CTCR = 0, ct_PWMC = 0, ct_MSR = replicate 4 0\<rparr>"

text \<open>
  \<open>CTIMER_SetupMatch\<close> programs exactly its channel: read back from the registers, the channel has the six values of the
  configuration, every other channel is as before, its pending flag is cleared and no other, and the interrupt is
  enabled in the interrupt controller if and only if the configuration asks for it.
\<close>

theorem setup_match_programs_channel:
  assumes "ctimer_layout_ok L" and "ch < 4" and "length (ct_MR r) = 4"
  shows "\<exists>r'. CTIMER_SetupMatch L n ch c (r, calls) =
      Inr (r', if enableInterrupt c then calls @ [EnableIRQ (CTIMER n)] else calls) \<and>
    (\<forall>k<4. match_view L k r' = (if k = ch then config_view c else match_view L k r)) \<and>
    (\<forall>k<4. bit (ct_IR r') (fshift (IR_MR0INT L) + k) \<longleftrightarrow> k \<noteq> ch \<and> bit (ct_IR r) (fshift (IR_MR0INT L) + k)) \<and>
    length (ct_MR r') = 4 \<and> ct_TCR r' = ct_TCR r \<and> ct_PR r' = ct_PR r \<and> ct_CTCR r' = ct_CTCR r"
  by (rule SetupMatch_effect[OF assms])

theorem setup_match_programs_channel_witness:
  "\<exists>r'. CTIMER_SetupMatch LPC55S36_ctimer 2 0
        \<lparr>matchValue = 200000, enableCounterReset = True, enableCounterStop = False,
         outControl = kCTIMER_Output_NoAction, outPinInitState = False, enableInterrupt = True\<rparr> (reset_ctimer, []) =
      Inr (r', [EnableIRQ (CTIMER 2)]) \<and> match_view LPC55S36_ctimer 0 r' = (200000, True, False, 0, False, True)"
proof -
  have "length (ct_MR reset_ctimer) = 4" by (simp add: reset_ctimer_def)
  from setup_match_programs_channel[OF LPC55S36_ctimer_ok _ this, of 0 2
      "\<lparr>matchValue = 200000, enableCounterReset = True, enableCounterStop = False,
         outControl = kCTIMER_Output_NoAction, outPinInitState = False, enableInterrupt = True\<rparr>" "[]"]
  show ?thesis by (auto simp: config_view_def)
qed

lemma multiple_callbacks:
  assumes "m \<le> length fs"
  shows "for_each [0..<m] (\<lambda>i called. if st AND push_bit i 1 \<noteq> 0
      then rbind (arr_get fs i) (\<lambda>f. Inr (case f of None \<Rightarrow> called | Some f \<Rightarrow> called @ [(f, st)]))
      else Inr called) [] =
    Inr (map (\<lambda>i. (the (fs ! i), st)) (filter (\<lambda>i. bit (st :: u32) i \<and> fs ! i \<noteq> None) [0..<m]))"
  using assms
proof (induction m)
  case (Suc m)
  then show ?case
    by (simp add: for_each_append bit_iff_and_push_bit_not_eq_0[symmetric] del: push_bit_of_1 split: option.splits)
qed simp

lemma ClearStatusFlags_all: "ct_IR (CTIMER_ClearStatusFlags (ct_IR r) r) = 0"
  by (simp add: CTIMER_ClearStatusFlags_def)

text \<open>
  The generic interrupt handler acknowledges every pending flag and calls the registered functions: with a single callback, that one, once,
  with all flags; with one callback per channel, those of the pending flags, in the order of the flags.
\<close>

theorem irq_handler_calls_registered:
  assumes "cb_func c = Some fs" and "fs \<noteq> []"
    and "cb_type c = kCTIMER_MultipleCallback \<Longrightarrow> fshift (IR_CR3INT L) < length fs"
  shows "\<exists>r' called. CTIMER_GenericIRQHandler L c r = Inr (r', called) \<and> ct_IR r' = 0 \<and>
    called = (if cb_type c = kCTIMER_SingleCallback
      then (case hd fs of None \<Rightarrow> [] | Some f \<Rightarrow> [(f, ct_IR r)])
      else map (\<lambda>i. (the (fs ! i), ct_IR r))
             (filter (\<lambda>i. bit (ct_IR r) i \<and> fs ! i \<noteq> None) [0..<Suc (fshift (IR_CR3INT L))]))"
proof (cases "cb_type c")
  case kCTIMER_SingleCallback
  then show ?thesis
    using assms by (simp add: CTIMER_GenericIRQHandler_def Let_def hd_conv_nth ClearStatusFlags_all
        CTIMER_GetStatusFlags_def)
next
  case kCTIMER_MultipleCallback
  then show ?thesis
    using assms multiple_callbacks[of "Suc (fshift (IR_CR3INT L))" fs "ct_IR r"]
    by (simp add: CTIMER_GenericIRQHandler_def Let_def ClearStatusFlags_all CTIMER_GetStatusFlags_def
        del: upt_Suc)
qed

theorem irq_handler_calls_registered_witness:
  "\<exists>r'. CTIMER_GenericIRQHandler LPC55S36_ctimer
      \<lparr>cb_func = Some [None, Some ''b'', Some ''c'', None, None, None, None, None], cb_type = kCTIMER_MultipleCallback\<rparr>
      (reset_ctimer\<lparr>ct_IR := 5\<rparr>) = Inr (r', [(''c'', 5)]) \<and> ct_IR r' = 0"
proof -
  have "filter (\<lambda>i. bit (5::u32) i \<and> [None, Some ''b'', Some ''c'', None, None, None, None, None] ! i \<noteq> None) [0..<8] = [2]"
    by code_simp
  then show ?thesis
    using irq_handler_calls_registered[of "\<lparr>cb_func = Some [None, Some ''b'', Some ''c'', None, None, None, None, None],
      cb_type = kCTIMER_MultipleCallback\<rparr>" "[None, Some ''b'', Some ''c'', None, None, None, None, None]"
      LPC55S36_ctimer "reset_ctimer\<lparr>ct_IR := 5\<rparr>"]
    by (simp add: LPC55S36_ctimer_def del: upt_Suc filter.simps)
qed

end
