(* ===== verification/Hpdac.thy ===== *)
theory Hpdac
  imports Registers
begin

text \<open>
  The driver of the 14 bit DAC (\<open>fsl_dac14.c\<close>, \<open>fsl_dac14.h\<close>) that drives the micro hot plate. The status register is
  write-one-to-clear; \<open>hp_DATA\<close> and \<open>hp_TCR\<close> are the last values written to the data and to the trigger register.
\<close>

datatype dac14_trigger_source = kDAC14_HardwareTriggerSource | kDAC14_SoftwareTriggerSource

datatype dac14_work_mode =
    kDAC14_BufferWorkMode | kDAC14_FIFOWorkMode | kDAC14_SwingBackWorkMode
  | kDAC14_PeriodTriggerWorkMode | kDAC14_PeriodTriggerAndSwingBackWorkMode

text \<open>\<open>fifoWatermarkLevel\<close> is a C bit-field of five bits.\<close>

record dac14_config =
  d14_periodicTriggerNumber :: u16
  d14_periodicTriggerWidth :: u16
  d14_fifoWatermarkLevel :: "5 word"
  d14_enableOpampBuffer :: bool
  d14_enableDAC :: bool
  d14_WorkMode :: dac14_work_mode
  d14_TriggerSource :: dac14_trigger_source

record hpdac =
  hp_DATA :: u32
  hp_GCR :: u32
  hp_FCR :: u32
  hp_FPR :: u32
  hp_FSR :: u32
  hp_IER :: u32
  hp_DER :: u32
  hp_RCR :: u32
  hp_TCR :: u32
  hp_PCR :: u32

record hpdac_layout =
  HP_GCR_DACEN :: bitfield
  HP_GCR_FIFOEN :: bitfield
  HP_GCR_SWMD :: bitfield
  HP_GCR_TRGSEL :: bitfield
  HP_GCR_PTGEN :: bitfield
  HP_GCR_BUF_EN :: bitfield
  HP_FCR_WML :: bitfield
  HP_PCR_PTG_NUM :: bitfield
  HP_PCR_PTG_PERIOD :: bitfield
  HP_RCR_SWRST :: bitfield
  HP_RCR_FIFORST :: bitfield
  HP_DATA_DATA :: bitfield
  HP_FPR_FIFO_WPT :: bitfield
  HP_FPR_FIFO_RPT :: bitfield
  HP_TCR_SWTRG :: bitfield

type_synonym hpdac_dev = "hpdac \<times> sys_call list"

section \<open>The operations\<close>

definition DAC14_GetInstance :: "'a list \<Rightarrow> 'a \<Rightarrow> nat res" where
  "DAC14_GetInstance s_dac14Bases base = get_instance s_dac14Bases base"

definition DAC14_DoSoftwareReset :: "hpdac_layout \<Rightarrow> hpdac \<Rightarrow> hpdac" where
  "DAC14_DoSoftwareReset L r =
     (let r = r\<lparr>hp_RCR := hp_RCR r OR fmask (HP_RCR_SWRST L)\<rparr>
      in r\<lparr>hp_RCR := hp_RCR r AND NOT (fmask (HP_RCR_SWRST L))\<rparr>)"

definition DAC14_DoFIFOReset :: "hpdac_layout \<Rightarrow> hpdac \<Rightarrow> hpdac" where
  "DAC14_DoFIFOReset L r =
     (let r = r\<lparr>hp_RCR := hp_RCR r OR fmask (HP_RCR_FIFORST L)\<rparr>
      in r\<lparr>hp_RCR := hp_RCR r AND NOT (fmask (HP_RCR_FIFORST L))\<rparr>)"

definition DAC14_AbortPeriodTriggerConvSequence :: "hpdac_layout \<Rightarrow> hpdac \<Rightarrow> hpdac" where
  "DAC14_AbortPeriodTriggerConvSequence L r = r\<lparr>hp_GCR := hp_GCR r AND NOT (fmask (HP_GCR_PTGEN L))\<rparr>"

definition switch_field :: "bitfield \<Rightarrow> bool \<Rightarrow> u32 \<Rightarrow> u32" where
  "switch_field f enable reg = (if enable then reg OR fmask f else reg AND NOT (fmask f))"

definition DAC14_Enable :: "hpdac_layout \<Rightarrow> bool \<Rightarrow> hpdac \<Rightarrow> hpdac" where
  "DAC14_Enable L enable r = r\<lparr>hp_GCR := switch_field (HP_GCR_DACEN L) enable (hp_GCR r)\<rparr>"

definition DAC14_EnableSwingBackMode :: "hpdac_layout \<Rightarrow> bool \<Rightarrow> hpdac \<Rightarrow> hpdac" where
  "DAC14_EnableSwingBackMode L enable r = r\<lparr>hp_GCR := switch_field (HP_GCR_SWMD L) enable (hp_GCR r)\<rparr>"

definition DAC14_EnableFIFOMode :: "hpdac_layout \<Rightarrow> bool \<Rightarrow> hpdac \<Rightarrow> hpdac" where
  "DAC14_EnableFIFOMode L enable r = r\<lparr>hp_GCR := switch_field (HP_GCR_FIFOEN L) enable (hp_GCR r)\<rparr>"

definition DAC14_EnableInterrupts :: "u32 \<Rightarrow> hpdac \<Rightarrow> hpdac" where
  "DAC14_EnableInterrupts m r = r\<lparr>hp_IER := hp_IER r OR m\<rparr>"

definition DAC14_DisableInterrupts :: "u32 \<Rightarrow> hpdac \<Rightarrow> hpdac" where
  "DAC14_DisableInterrupts m r = r\<lparr>hp_IER := hp_IER r AND NOT m\<rparr>"

definition DAC14_EnableDMA :: "u32 \<Rightarrow> bool \<Rightarrow> hpdac \<Rightarrow> hpdac" where
  "DAC14_EnableDMA m enable r = r\<lparr>hp_DER := (if enable then hp_DER r OR m else hp_DER r AND NOT m)\<rparr>"

definition DAC14_GetStatusFlags :: "hpdac \<Rightarrow> u32" where
  "DAC14_GetStatusFlags r = hp_FSR r"

definition DAC14_ClearStatusFlags :: "u32 \<Rightarrow> hpdac \<Rightarrow> hpdac" where
  "DAC14_ClearStatusFlags flags r = r\<lparr>hp_FSR := hp_FSR r AND NOT flags\<rparr>"

definition DAC14_SetData :: "hpdac_layout \<Rightarrow> u32 \<Rightarrow> hpdac \<Rightarrow> hpdac" where
  "DAC14_SetData L v r = r\<lparr>hp_DATA := fval (HP_DATA_DATA L) v\<rparr>"

definition DAC14_GetFIFOWritePointer :: "hpdac_layout \<Rightarrow> hpdac \<Rightarrow> u32" where
  "DAC14_GetFIFOWritePointer L r = fget (HP_FPR_FIFO_WPT L) (hp_FPR r)"

definition DAC14_GetFIFOReadPointer :: "hpdac_layout \<Rightarrow> hpdac \<Rightarrow> u32" where
  "DAC14_GetFIFOReadPointer L r = fget (HP_FPR_FIFO_RPT L) (hp_FPR r)"

definition DAC14_DoSoftwareTrigger :: "hpdac_layout \<Rightarrow> hpdac \<Rightarrow> hpdac" where
  "DAC14_DoSoftwareTrigger L r = r\<lparr>hp_TCR := fmask (HP_TCR_SWTRG L)\<rparr>"

definition DAC14_GetDefaultConfig :: dac14_config where
  "DAC14_GetDefaultConfig =
    \<lparr>d14_periodicTriggerNumber = 0, d14_periodicTriggerWidth = 0, d14_fifoWatermarkLevel = 0,
     d14_enableOpampBuffer = False, d14_enableDAC = False, d14_WorkMode = kDAC14_BufferWorkMode,
     d14_TriggerSource = kDAC14_HardwareTriggerSource\<rparr>"

definition trigger_period :: "hpdac_layout \<Rightarrow> dac14_config \<Rightarrow> u32" where
  "trigger_period L c =
     fval (HP_PCR_PTG_NUM L) (ucast (d14_periodicTriggerNumber c)) OR
     fval (HP_PCR_PTG_PERIOD L) (ucast (d14_periodicTriggerWidth c))"

definition DAC14_Init :: "hpdac_layout \<Rightarrow> nat \<Rightarrow> dac14_config \<Rightarrow> hpdac_dev \<Rightarrow> hpdac_dev" where
  "DAC14_Init L n config d =
     (let (r, calls) = d;
          calls = calls @ [CLOCK_EnableClock (HPDAC n)];
          r = DAC14_DoFIFOReset L (DAC14_DoSoftwareReset L r);
          tmp32 = 0;
          tmp32 = (if d14_enableOpampBuffer config then tmp32 OR fmask (HP_GCR_BUF_EN L) else tmp32);
          tmp32 = (if d14_enableDAC config then tmp32 OR fmask (HP_GCR_DACEN L) else tmp32);
          (r, tmp32) =
            (if d14_WorkMode config \<noteq> kDAC14_BufferWorkMode then
               let tmp32 = (if d14_TriggerSource config = kDAC14_SoftwareTriggerSource
                            then tmp32 OR fmask (HP_GCR_TRGSEL L) else tmp32)
               in if d14_WorkMode config \<noteq> kDAC14_SwingBackWorkMode then
                    if d14_WorkMode config \<noteq> kDAC14_PeriodTriggerAndSwingBackWorkMode then
                      let r = r\<lparr>hp_FCR := fval (HP_FCR_WML L) (ucast (d14_fifoWatermarkLevel config))\<rparr>
                      in if d14_WorkMode config = kDAC14_PeriodTriggerWorkMode
                         then (r\<lparr>hp_PCR := trigger_period L config\<rparr>,
                               tmp32 OR (fmask (HP_GCR_FIFOEN L) OR fmask (HP_GCR_PTGEN L)))
                         else (r, tmp32 OR fmask (HP_GCR_FIFOEN L))
                    else (r\<lparr>hp_PCR := trigger_period L config\<rparr>,
                          tmp32 OR (fmask (HP_GCR_FIFOEN L) OR fmask (HP_GCR_PTGEN L) OR fmask (HP_GCR_SWMD L)))
                  else (r, tmp32 OR (fmask (HP_GCR_FIFOEN L) OR fmask (HP_GCR_SWMD L)))
             else (r, tmp32))
      in (r\<lparr>hp_GCR := tmp32\<rparr>, calls))"

definition DAC14_Deinit :: "hpdac_layout \<Rightarrow> nat \<Rightarrow> hpdac_dev \<Rightarrow> hpdac_dev" where
  "DAC14_Deinit L n d = (DAC14_Enable L False (fst d), snd d @ [CLOCK_DisableClock (HPDAC n)])"

section \<open>Properties\<close>

text \<open>
  What the driver assumes of the header: the control bits are single bits of their own, the two halves of the
  period register do not overlap, the watermark has at least its five bits and the data field its fourteen.
\<close>

definition hpdac_layout_ok :: "hpdac_layout \<Rightarrow> bool" where
  "hpdac_layout_ok L \<longleftrightarrow>
     fields_ok [HP_GCR_DACEN L, HP_GCR_FIFOEN L, HP_GCR_SWMD L, HP_GCR_TRGSEL L, HP_GCR_PTGEN L, HP_GCR_BUF_EN L] \<and>
     list_all (\<lambda>f. fwidth f = 1)
       [HP_GCR_DACEN L, HP_GCR_FIFOEN L, HP_GCR_SWMD L, HP_GCR_TRGSEL L, HP_GCR_PTGEN L, HP_GCR_BUF_EN L] \<and>
     fields_ok [HP_PCR_PTG_NUM L, HP_PCR_PTG_PERIOD L] \<and> fwidth (HP_PCR_PTG_NUM L) = 16 \<and>
     fwidth (HP_PCR_PTG_PERIOD L) = 16 \<and>
     field_ok (HP_FCR_WML L) \<and> 5 \<le> fwidth (HP_FCR_WML L) \<and>
     field_ok (HP_DATA_DATA L) \<and> fwidth (HP_DATA_DATA L) = 14"

text \<open>
  \<open>DAC14_Init\<close> sets each control bit exactly when the configuration asks for it, in every work mode: the FIFO is on except
  in buffer mode, the periodic trigger in the two periodic modes, the swing in the two swing modes, the software trigger only
  with a FIFO; the trigger number and period are written in the periodic modes and the watermark in the
  two modes that use it, without truncation, and otherwise left alone.
\<close>

theorem dac14_init_control_bits:
  assumes "hpdac_layout_ok L"
  shows "\<exists>r'. DAC14_Init L n c (r, calls) = (r', calls @ [CLOCK_EnableClock (HPDAC n)]) \<and>
    fget (HP_GCR_DACEN L) (hp_GCR r') = of_bool (d14_enableDAC c) \<and>
    fget (HP_GCR_BUF_EN L) (hp_GCR r') = of_bool (d14_enableOpampBuffer c) \<and>
    fget (HP_GCR_FIFOEN L) (hp_GCR r') = of_bool (d14_WorkMode c \<noteq> kDAC14_BufferWorkMode) \<and>
    fget (HP_GCR_TRGSEL L) (hp_GCR r') =
      of_bool (d14_WorkMode c \<noteq> kDAC14_BufferWorkMode \<and> d14_TriggerSource c = kDAC14_SoftwareTriggerSource) \<and>
    fget (HP_GCR_PTGEN L) (hp_GCR r') =
      of_bool (d14_WorkMode c \<in> {kDAC14_PeriodTriggerWorkMode, kDAC14_PeriodTriggerAndSwingBackWorkMode}) \<and>
    fget (HP_GCR_SWMD L) (hp_GCR r') =
      of_bool (d14_WorkMode c \<in> {kDAC14_SwingBackWorkMode, kDAC14_PeriodTriggerAndSwingBackWorkMode}) \<and>
    (if d14_WorkMode c \<in> {kDAC14_PeriodTriggerWorkMode, kDAC14_PeriodTriggerAndSwingBackWorkMode}
     then fget (HP_PCR_PTG_NUM L) (hp_PCR r') = ucast (d14_periodicTriggerNumber c) \<and>
       fget (HP_PCR_PTG_PERIOD L) (hp_PCR r') = ucast (d14_periodicTriggerWidth c)
     else hp_PCR r' = hp_PCR r) \<and>
    (if d14_WorkMode c \<in> {kDAC14_FIFOWorkMode, kDAC14_PeriodTriggerWorkMode}
     then fget (HP_FCR_WML L) (hp_FCR r') = ucast (d14_fifoWatermarkLevel c) else hp_FCR r' = hp_FCR r)"
proof -
  have num: "(ucast (w :: u16) :: u32) AND mask 16 = ucast w" for w
    by (rule bit_word_eqI) (auto simp: bit_simps dest: bit_imp_le_length)
  have wml: "(ucast (d14_fifoWatermarkLevel c) :: u32) AND mask (fwidth (HP_FCR_WML L)) =
      ucast (d14_fifoWatermarkLevel c)"
    using assms by (intro bit_word_eqI) (auto simp: bit_simps hpdac_layout_ok_def dest: bit_imp_le_length)
  have one: "(mask (Suc 0) :: u32) = 1" by simp
  show ?thesis
    using assms
    by (cases "d14_WorkMode c")
       (simp_all add: DAC14_Init_def Let_def DAC14_DoFIFOReset_def DAC14_DoSoftwareReset_def hpdac_layout_ok_def
         regs trigger_period_def num wml one)
qed

text \<open>A layout that satisfies the assumptions.\<close>

definition example_hpdac :: hpdac_layout where
  "example_hpdac =
    \<lparr>HP_GCR_DACEN = \<lparr>fshift = 0, fwidth = 1\<rparr>, HP_GCR_FIFOEN = \<lparr>fshift = 3, fwidth = 1\<rparr>,
     HP_GCR_SWMD = \<lparr>fshift = 4, fwidth = 1\<rparr>, HP_GCR_TRGSEL = \<lparr>fshift = 5, fwidth = 1\<rparr>,
     HP_GCR_PTGEN = \<lparr>fshift = 6, fwidth = 1\<rparr>, HP_GCR_BUF_EN = \<lparr>fshift = 17, fwidth = 1\<rparr>,
     HP_FCR_WML = \<lparr>fshift = 0, fwidth = 5\<rparr>, HP_PCR_PTG_NUM = \<lparr>fshift = 0, fwidth = 16\<rparr>,
     HP_PCR_PTG_PERIOD = \<lparr>fshift = 16, fwidth = 16\<rparr>, HP_RCR_SWRST = \<lparr>fshift = 0, fwidth = 1\<rparr>,
     HP_RCR_FIFORST = \<lparr>fshift = 1, fwidth = 1\<rparr>, HP_DATA_DATA = \<lparr>fshift = 0, fwidth = 14\<rparr>,
     HP_FPR_FIFO_WPT = \<lparr>fshift = 16, fwidth = 5\<rparr>, HP_FPR_FIFO_RPT = \<lparr>fshift = 0, fwidth = 5\<rparr>,
     HP_TCR_SWTRG = \<lparr>fshift = 0, fwidth = 1\<rparr>\<rparr>"

lemma example_hpdac_ok: "hpdac_layout_ok example_hpdac"
  by (simp add: hpdac_layout_ok_def example_hpdac_def field_ok_def apart_def)

definition reset_hpdac :: hpdac where
  "reset_hpdac =
    \<lparr>hp_DATA = 0, hp_GCR = 0, hp_FCR = 0, hp_FPR = 0, hp_FSR = 0, hp_IER = 0, hp_DER = 0, hp_RCR = 0,
     hp_TCR = 0, hp_PCR = 0\<rparr>"

text \<open>The configuration of the hot plate: a FIFO with software trigger, the buffer and the DAC on.\<close>

theorem dac14_init_control_bits_witness:
  "\<exists>r'. DAC14_Init example_hpdac 2
      (DAC14_GetDefaultConfig\<lparr>d14_TriggerSource := kDAC14_SoftwareTriggerSource, d14_WorkMode := kDAC14_FIFOWorkMode,
         d14_enableOpampBuffer := True, d14_enableDAC := True\<rparr>) (reset_hpdac, []) =
      (r', [CLOCK_EnableClock (HPDAC 2)]) \<and>
    fget (HP_GCR_DACEN example_hpdac) (hp_GCR r') = 1 \<and> fget (HP_GCR_TRGSEL example_hpdac) (hp_GCR r') = 1 \<and>
    fget (HP_GCR_SWMD example_hpdac) (hp_GCR r') = 0"
  using dac14_init_control_bits[OF example_hpdac_ok, of 2
      "DAC14_GetDefaultConfig\<lparr>d14_TriggerSource := kDAC14_SoftwareTriggerSource, d14_WorkMode := kDAC14_FIFOWorkMode,
         d14_enableOpampBuffer := True, d14_enableDAC := True\<rparr>" reset_hpdac "[]"]
  by auto

lemma DAC14_SetData_field:
  "hpdac_layout_ok L \<Longrightarrow> fget (HP_DATA_DATA L) (hp_DATA (DAC14_SetData L v r)) = v AND mask 14"
  by (simp add: DAC14_SetData_def hpdac_layout_ok_def regs)

end
