(* ===== verification/Lpdac.thy ===== *)
theory Lpdac
  imports Registers
begin

text \<open>
  The driver of the 12 bit DAC (\<open>fsl_dac.c\<close>, \<open>fsl_dac.h\<close>) that makes the excitation voltage, with the features of the MCXN947: periodic trigger, buffer
  speed control, output buffer, latch cycles, internal reference current. The status register is write-one-to-clear.
\<close>

datatype dac_fifo_trigger_mode = kDAC_FIFOTriggerByHardwareMode | kDAC_FIFOTriggerBySoftwareMode

datatype dac_fifo_work_mode =
    kDAC_FIFODisabled | kDAC_FIFOWorkAsNormalMode | kDAC_FIFOWorkAsSwingMode
  | kDAC_FIFOWorkAsPeriodTriggerMode | kDAC_FIFOWorkAsPeriodTriggerAndSwingMode

datatype dac_reference_voltage_source =
  kDAC_ReferenceVoltageSourceAlt1 | kDAC_ReferenceVoltageSourceAlt2 | kDAC_ReferenceVoltageSourceAlt3

primrec reference_voltage_val :: "dac_reference_voltage_source \<Rightarrow> u32" where
  "reference_voltage_val kDAC_ReferenceVoltageSourceAlt1 = 0"
| "reference_voltage_val kDAC_ReferenceVoltageSourceAlt2 = 1"
| "reference_voltage_val kDAC_ReferenceVoltageSourceAlt3 = 2"

datatype dac_reference_current_source = kDAC_ReferenceCurrentSourcePtat | kDAC_ReferenceCurrentSourceZtc

record dac_config =
  dac_fifoWatermarkLevel :: u32
  dac_fifoTriggerMode :: dac_fifo_trigger_mode
  dac_fifoWorkMode :: dac_fifo_work_mode
  dac_enableOpampBuffer :: bool
  dac_enableLowerLowPowerMode :: bool
  dac_periodicTriggerNumber :: u32
  dac_periodicTriggerWidth :: u32
  dac_syncTime :: u32
  dac_referenceCurrentSource :: dac_reference_current_source
  dac_referenceVoltageSource :: dac_reference_voltage_source

record lpdac =
  lp_DATA :: u32
  lp_GCR :: u32
  lp_FCR :: u32
  lp_FPR :: u32
  lp_FSR :: u32
  lp_IER :: u32
  lp_DER :: u32
  lp_RCR :: u32
  lp_TCR :: u32
  lp_PCR :: u32

record lpdac_layout =
  LP_GCR_DACEN :: bitfield
  LP_GCR_DACRFS :: bitfield
  LP_GCR_FIFOEN :: bitfield
  LP_GCR_SWMD :: bitfield
  LP_GCR_TRGSEL :: bitfield
  LP_GCR_PTGEN :: bitfield
  LP_GCR_LATCH_CYC :: bitfield
  LP_GCR_BUF_EN :: bitfield
  LP_GCR_BUF_SPD_CTRL :: bitfield
  LP_GCR_IREF_PTAT_EXT_SEL :: bitfield
  LP_GCR_IREF_ZTC_EXT_SEL :: bitfield
  LP_FCR_WML :: bitfield
  LP_PCR_PTG_NUM :: bitfield
  LP_PCR_PTG_PERIOD :: bitfield
  LP_RCR_SWRST :: bitfield
  LP_RCR_FIFORST :: bitfield
  LP_DATA_DATA :: bitfield
  LP_FPR_FIFO_WPT :: bitfield
  LP_FPR_FIFO_RPT :: bitfield
  LP_TCR_SWTRG :: bitfield

type_synonym lpdac_dev = "lpdac \<times> sys_call list"

section \<open>The operations\<close>

definition DAC_GetInstance :: "'a list \<Rightarrow> 'a \<Rightarrow> nat res" where
  "DAC_GetInstance s_dacBases base = get_instance s_dacBases base"

definition DAC_SetReset :: "u32 \<Rightarrow> lpdac \<Rightarrow> lpdac" where
  "DAC_SetReset m r = r\<lparr>lp_RCR := lp_RCR r OR m\<rparr>"

definition DAC_ClearReset :: "u32 \<Rightarrow> lpdac \<Rightarrow> lpdac" where
  "DAC_ClearReset m r = r\<lparr>lp_RCR := lp_RCR r AND NOT m\<rparr>"

definition DAC_Enable :: "lpdac_layout \<Rightarrow> bool \<Rightarrow> lpdac \<Rightarrow> lpdac" where
  "DAC_Enable L enable r =
     r\<lparr>lp_GCR := (if enable then lp_GCR r OR fmask (LP_GCR_DACEN L) else lp_GCR r AND NOT (fmask (LP_GCR_DACEN L)))\<rparr>"

definition DAC_EnableInterrupts :: "u32 \<Rightarrow> lpdac \<Rightarrow> lpdac" where
  "DAC_EnableInterrupts m r = r\<lparr>lp_IER := lp_IER r OR m\<rparr>"

definition DAC_DisableInterrupts :: "u32 \<Rightarrow> lpdac \<Rightarrow> lpdac" where
  "DAC_DisableInterrupts m r = r\<lparr>lp_IER := lp_IER r AND NOT m\<rparr>"

definition DAC_EnableDMA :: "u32 \<Rightarrow> bool \<Rightarrow> lpdac \<Rightarrow> lpdac" where
  "DAC_EnableDMA m enable r = r\<lparr>lp_DER := (if enable then lp_DER r OR m else lp_DER r AND NOT m)\<rparr>"

definition DAC_GetStatusFlags :: "lpdac \<Rightarrow> u32" where
  "DAC_GetStatusFlags r = lp_FSR r"

definition DAC_ClearStatusFlags :: "u32 \<Rightarrow> lpdac \<Rightarrow> lpdac" where
  "DAC_ClearStatusFlags flags r = r\<lparr>lp_FSR := lp_FSR r AND NOT flags\<rparr>"

definition DAC_SetData :: "lpdac_layout \<Rightarrow> u32 \<Rightarrow> lpdac \<Rightarrow> lpdac" where
  "DAC_SetData L v r = r\<lparr>lp_DATA := fval (LP_DATA_DATA L) v\<rparr>"

definition DAC_GetFIFOWritePointer :: "lpdac_layout \<Rightarrow> lpdac \<Rightarrow> u32" where
  "DAC_GetFIFOWritePointer L r = fget (LP_FPR_FIFO_WPT L) (lp_FPR r)"

definition DAC_GetFIFOReadPointer :: "lpdac_layout \<Rightarrow> lpdac \<Rightarrow> u32" where
  "DAC_GetFIFOReadPointer L r = fget (LP_FPR_FIFO_RPT L) (lp_FPR r)"

definition DAC_DoSoftwareTriggerFIFO :: "lpdac_layout \<Rightarrow> lpdac \<Rightarrow> lpdac" where
  "DAC_DoSoftwareTriggerFIFO L r = r\<lparr>lp_TCR := fmask (LP_TCR_SWTRG L)\<rparr>"

definition DAC_GetDefaultConfig :: dac_config where
  "DAC_GetDefaultConfig =
    \<lparr>dac_fifoWatermarkLevel = 0, dac_fifoTriggerMode = kDAC_FIFOTriggerByHardwareMode,
     dac_fifoWorkMode = kDAC_FIFODisabled, dac_enableOpampBuffer = False, dac_enableLowerLowPowerMode = True,
     dac_periodicTriggerNumber = 0, dac_periodicTriggerWidth = 0, dac_syncTime = 1,
     dac_referenceCurrentSource = kDAC_ReferenceCurrentSourcePtat,
     dac_referenceVoltageSource = kDAC_ReferenceVoltageSourceAlt1\<rparr>"

text \<open>The enumerators of the current source are the masks of two bits of the control register.\<close>

primrec reference_current_val :: "lpdac_layout \<Rightarrow> dac_reference_current_source \<Rightarrow> u32" where
  "reference_current_val L kDAC_ReferenceCurrentSourcePtat = fmask (LP_GCR_IREF_PTAT_EXT_SEL L)"
| "reference_current_val L kDAC_ReferenceCurrentSourceZtc = fmask (LP_GCR_IREF_ZTC_EXT_SEL L)"

definition dac_trigger_period :: "lpdac_layout \<Rightarrow> dac_config \<Rightarrow> u32" where
  "dac_trigger_period L c =
     fval (LP_PCR_PTG_NUM L) (dac_periodicTriggerNumber c) OR fval (LP_PCR_PTG_PERIOD L) (dac_periodicTriggerWidth c)"

definition DAC_Init :: "lpdac_layout \<Rightarrow> nat \<Rightarrow> dac_config \<Rightarrow> lpdac_dev \<Rightarrow> lpdac_dev" where
  "DAC_Init L n config d =
     (let (r, calls) = d;
          calls = calls @ [CLOCK_EnableClock (LPDAC n)];
          r = DAC_ClearReset (fmask (LP_RCR_SWRST L)) (DAC_SetReset (fmask (LP_RCR_SWRST L)) r);
          r = DAC_ClearReset (fmask (LP_RCR_FIFORST L)) (DAC_SetReset (fmask (LP_RCR_FIFORST L)) r);
          tmp32 = 0;
          tmp32 = (if dac_fifoTriggerMode config = kDAC_FIFOTriggerBySoftwareMode
                   then tmp32 OR fmask (LP_GCR_TRGSEL L) else tmp32);
          (r, tmp32) =
            (case dac_fifoWorkMode config of
               kDAC_FIFOWorkAsNormalMode \<Rightarrow> (r, tmp32 OR fmask (LP_GCR_FIFOEN L))
             | kDAC_FIFOWorkAsSwingMode \<Rightarrow> (r, tmp32 OR (fmask (LP_GCR_FIFOEN L) OR fmask (LP_GCR_SWMD L)))
             | kDAC_FIFOWorkAsPeriodTriggerMode \<Rightarrow>
                 (r\<lparr>lp_PCR := dac_trigger_period L config\<rparr>,
                  tmp32 OR (fmask (LP_GCR_FIFOEN L) OR fmask (LP_GCR_PTGEN L)))
             | kDAC_FIFOWorkAsPeriodTriggerAndSwingMode \<Rightarrow>
                 (r\<lparr>lp_PCR := dac_trigger_period L config\<rparr>,
                  tmp32 OR (fmask (LP_GCR_FIFOEN L) OR fmask (LP_GCR_PTGEN L) OR fmask (LP_GCR_SWMD L)))
             | kDAC_FIFODisabled \<Rightarrow> (r, tmp32));
          tmp32 = (if \<not> dac_enableLowerLowPowerMode config then tmp32 OR fmask (LP_GCR_BUF_SPD_CTRL L) else tmp32);
          tmp32 = tmp32 OR fmask (LP_GCR_BUF_EN L);
          tmp32 = tmp32 OR fval (LP_GCR_LATCH_CYC L) (dac_syncTime config);
          tmp32 = tmp32 OR reference_current_val L (dac_referenceCurrentSource config);
          tmp32 = tmp32 OR fval (LP_GCR_DACRFS L) (reference_voltage_val (dac_referenceVoltageSource config))
      in (r\<lparr>lp_GCR := tmp32, lp_FCR := fval (LP_FCR_WML L) (dac_fifoWatermarkLevel config)\<rparr>, calls))"

definition DAC_Deinit :: "lpdac_layout \<Rightarrow> nat \<Rightarrow> lpdac_dev \<Rightarrow> lpdac_dev" where
  "DAC_Deinit L n d = (DAC_Enable L False (fst d), snd d @ [CLOCK_DisableClock (LPDAC n)])"

section \<open>Properties\<close>

definition lpdac_layout_ok :: "lpdac_layout \<Rightarrow> bool" where
  "lpdac_layout_ok L \<longleftrightarrow>
     fields_ok [LP_GCR_DACEN L, LP_GCR_DACRFS L, LP_GCR_FIFOEN L, LP_GCR_SWMD L, LP_GCR_TRGSEL L, LP_GCR_PTGEN L,
       LP_GCR_LATCH_CYC L, LP_GCR_BUF_EN L, LP_GCR_BUF_SPD_CTRL L, LP_GCR_IREF_PTAT_EXT_SEL L, LP_GCR_IREF_ZTC_EXT_SEL L] \<and>
     list_all (\<lambda>f. fwidth f = 1)
       [LP_GCR_DACEN L, LP_GCR_FIFOEN L, LP_GCR_SWMD L, LP_GCR_TRGSEL L, LP_GCR_PTGEN L, LP_GCR_BUF_EN L,
        LP_GCR_BUF_SPD_CTRL L, LP_GCR_IREF_PTAT_EXT_SEL L, LP_GCR_IREF_ZTC_EXT_SEL L] \<and>
     fwidth (LP_GCR_DACRFS L) = 2 \<and> fwidth (LP_GCR_LATCH_CYC L) = 4 \<and>
     fields_ok [LP_PCR_PTG_NUM L, LP_PCR_PTG_PERIOD L] \<and>
     field_ok (LP_DATA_DATA L) \<and> fwidth (LP_DATA_DATA L) = 12"

lemma reference_voltage_bits: "reference_voltage_val v AND mask 2 = reference_voltage_val v"
  by (cases v) (simp_all add: mask_eq_exp_minus_1)

text \<open>
  \<open>DAC_Init\<close> leaves the converter disabled, as its comment promises, selects the reference voltage and exactly one reference current,
  and sets FIFO, swing, periodic trigger, software trigger, buffer speed and latch cycles as the configuration asks; the
  output buffer is always on, whatever \<open>enableOpampBuffer\<close> says.
\<close>

theorem dac_init_control_bits:
  assumes "lpdac_layout_ok L"
  shows "\<exists>r'. DAC_Init L n c (r, calls) = (r', calls @ [CLOCK_EnableClock (LPDAC n)]) \<and>
    fget (LP_GCR_DACEN L) (lp_GCR r') = 0 \<and>
    fget (LP_GCR_DACRFS L) (lp_GCR r') = reference_voltage_val (dac_referenceVoltageSource c) \<and>
    fget (LP_GCR_FIFOEN L) (lp_GCR r') = of_bool (dac_fifoWorkMode c \<noteq> kDAC_FIFODisabled) \<and>
    fget (LP_GCR_SWMD L) (lp_GCR r') =
      of_bool (dac_fifoWorkMode c \<in> {kDAC_FIFOWorkAsSwingMode, kDAC_FIFOWorkAsPeriodTriggerAndSwingMode}) \<and>
    fget (LP_GCR_PTGEN L) (lp_GCR r') =
      of_bool (dac_fifoWorkMode c \<in> {kDAC_FIFOWorkAsPeriodTriggerMode, kDAC_FIFOWorkAsPeriodTriggerAndSwingMode}) \<and>
    fget (LP_GCR_TRGSEL L) (lp_GCR r') = of_bool (dac_fifoTriggerMode c = kDAC_FIFOTriggerBySoftwareMode) \<and>
    fget (LP_GCR_BUF_SPD_CTRL L) (lp_GCR r') = of_bool (\<not> dac_enableLowerLowPowerMode c) \<and>
    fget (LP_GCR_BUF_EN L) (lp_GCR r') = 1 \<and>
    fget (LP_GCR_LATCH_CYC L) (lp_GCR r') = dac_syncTime c AND mask 4 \<and>
    fget (LP_GCR_IREF_PTAT_EXT_SEL L) (lp_GCR r') =
      of_bool (dac_referenceCurrentSource c = kDAC_ReferenceCurrentSourcePtat) \<and>
    fget (LP_GCR_IREF_ZTC_EXT_SEL L) (lp_GCR r') =
      of_bool (dac_referenceCurrentSource c = kDAC_ReferenceCurrentSourceZtc)"
proof -
  have one: "(mask (Suc 0) :: u32) = 1" by simp
  show ?thesis
    using assms
    by (cases "dac_fifoWorkMode c"; cases "dac_referenceCurrentSource c")
       (simp_all add: DAC_Init_def Let_def DAC_SetReset_def DAC_ClearReset_def lpdac_layout_ok_def regs one
         reference_voltage_bits)
qed

definition example_lpdac :: lpdac_layout where
  "example_lpdac =
    \<lparr>LP_GCR_DACEN = \<lparr>fshift = 0, fwidth = 1\<rparr>, LP_GCR_DACRFS = \<lparr>fshift = 1, fwidth = 2\<rparr>,
     LP_GCR_FIFOEN = \<lparr>fshift = 3, fwidth = 1\<rparr>, LP_GCR_SWMD = \<lparr>fshift = 4, fwidth = 1\<rparr>,
     LP_GCR_TRGSEL = \<lparr>fshift = 5, fwidth = 1\<rparr>, LP_GCR_PTGEN = \<lparr>fshift = 6, fwidth = 1\<rparr>,
     LP_GCR_LATCH_CYC = \<lparr>fshift = 8, fwidth = 4\<rparr>, LP_GCR_BUF_EN = \<lparr>fshift = 17, fwidth = 1\<rparr>,
     LP_GCR_BUF_SPD_CTRL = \<lparr>fshift = 23, fwidth = 1\<rparr>,
     LP_GCR_IREF_PTAT_EXT_SEL = \<lparr>fshift = 18, fwidth = 1\<rparr>, LP_GCR_IREF_ZTC_EXT_SEL = \<lparr>fshift = 19, fwidth = 1\<rparr>,
     LP_FCR_WML = \<lparr>fshift = 0, fwidth = 4\<rparr>, LP_PCR_PTG_NUM = \<lparr>fshift = 0, fwidth = 16\<rparr>,
     LP_PCR_PTG_PERIOD = \<lparr>fshift = 16, fwidth = 16\<rparr>, LP_RCR_SWRST = \<lparr>fshift = 0, fwidth = 1\<rparr>,
     LP_RCR_FIFORST = \<lparr>fshift = 1, fwidth = 1\<rparr>, LP_DATA_DATA = \<lparr>fshift = 0, fwidth = 12\<rparr>,
     LP_FPR_FIFO_WPT = \<lparr>fshift = 16, fwidth = 4\<rparr>, LP_FPR_FIFO_RPT = \<lparr>fshift = 0, fwidth = 4\<rparr>,
     LP_TCR_SWTRG = \<lparr>fshift = 0, fwidth = 1\<rparr>\<rparr>"

lemma example_lpdac_ok: "lpdac_layout_ok example_lpdac"
  by (simp add: lpdac_layout_ok_def example_lpdac_def field_ok_def apart_def)

definition reset_lpdac :: lpdac where
  "reset_lpdac =
    \<lparr>lp_DATA = 0, lp_GCR = 0, lp_FCR = 0, lp_FPR = 0, lp_FSR = 0, lp_IER = 0, lp_DER = 0, lp_RCR = 0,
     lp_TCR = 0, lp_PCR = 0\<rparr>"

theorem dac_init_control_bits_witness:
  "\<exists>r'. DAC_Init example_lpdac 0 DAC_GetDefaultConfig (reset_lpdac, []) = (r', [CLOCK_EnableClock (LPDAC 0)]) \<and>
    fget (LP_GCR_DACEN example_lpdac) (lp_GCR r') = 0 \<and> fget (LP_GCR_LATCH_CYC example_lpdac) (lp_GCR r') = 1 \<and>
    fget (LP_GCR_IREF_PTAT_EXT_SEL example_lpdac) (lp_GCR r') = 1"
  using dac_init_control_bits[OF example_lpdac_ok, of 0 DAC_GetDefaultConfig reset_lpdac "[]"]
  by (auto simp: DAC_GetDefaultConfig_def mask_eq_exp_minus_1)

lemma DAC_SetData_field:
  "lpdac_layout_ok L \<Longrightarrow> fget (LP_DATA_DATA L) (lp_DATA (DAC_SetData L v r)) = v AND mask 12"
  by (simp add: DAC_SetData_def lpdac_layout_ok_def regs)

end
