(* ===== verification/Vref.thy ===== *)
theory Vref
  imports Registers
begin

text \<open>
  The voltage reference driver (\<open>fsl_vref.c\<close>, \<open>fsl_vref.h\<close>). The two busy waits for the reference to settle read the
  status register until a bit is set; the values it reads one after the other are an argument of the operation, and a
  wait that uses them all up does not return (\<open>None\<close>).
\<close>

datatype vref_buffer_mode = kVREF_ModeBandgapOnly | kVREF_ModeLowPowerBuffer | kVREF_ModeHighPowerBuffer

record vref_config =
  bufferMode :: vref_buffer_mode
  enableInternalVoltageRegulator :: bool
  enableChopOscillator :: bool
  enableHCBandgap :: bool
  enableCurvatureCompensation :: bool
  enableLowPowerBuff :: bool

record vref =
  vr_CSR :: u32
  vr_UTRIM :: u32

record vref_layout =
  CSR_HCBGEN :: bitfield
  CSR_LPBGEN :: bitfield
  CSR_LPBG_BUF_EN :: bitfield
  CSR_CHOPEN :: bitfield
  CSR_ICOMPEN :: bitfield
  CSR_REGEN :: bitfield
  CSR_HI_PWR_LV :: bitfield
  CSR_BUF21EN :: bitfield
  CSR_VREFST :: bitfield
  UTRIM_TRIM2V1 :: bitfield
  UTRIM_VREFTRIM :: bitfield

type_synonym vref_dev = "vref \<times> sys_call list"

section \<open>The operations\<close>

definition VREF_GetInstance :: "'a list \<Rightarrow> 'a \<Rightarrow> nat res" where
  "VREF_GetInstance s_vrefBases base = get_instance s_vrefBases base"

definition VREF_GetDefaultConfig :: vref_config where
  "VREF_GetDefaultConfig =
    \<lparr>bufferMode = kVREF_ModeHighPowerBuffer, enableInternalVoltageRegulator = True, enableChopOscillator = True,
     enableHCBandgap = True, enableCurvatureCompensation = True, enableLowPowerBuff = True\<rparr>"

definition VREF_Init :: "vref_layout \<Rightarrow> nat \<Rightarrow> vref_config \<Rightarrow> vref_dev \<Rightarrow> vref_dev" where
  "VREF_Init L n config d =
     (let (r, calls) = d;
          calls = calls @ [CLOCK_EnableClock (VREF n)];
          r = r\<lparr>vr_CSR := vr_CSR r OR fmask (CSR_LPBGEN L)\<rparr>;
          calls = calls @ [SDK_DelayAtLeastUs 20];
          r = (if enableLowPowerBuff config then r\<lparr>vr_CSR := vr_CSR r OR fmask (CSR_LPBG_BUF_EN L)\<rparr> else r)
      in if bufferMode config \<noteq> kVREF_ModeBandgapOnly then
           let tmp32 = 0;
               tmp32 = (if enableHCBandgap config then tmp32 OR fmask (CSR_HCBGEN L) else tmp32);
               tmp32 = (if enableInternalVoltageRegulator config then tmp32 OR fmask (CSR_REGEN L) else tmp32);
               tmp32 = (if enableChopOscillator config
                        then tmp32 OR (fmask (CSR_REGEN L) OR fmask (CSR_CHOPEN L)) else tmp32);
               tmp32 = (if enableCurvatureCompensation config then tmp32 OR fmask (CSR_ICOMPEN L) else tmp32);
               tmp32 = (if bufferMode config = kVREF_ModeLowPowerBuffer then tmp32 OR fmask (CSR_BUF21EN L)
                        else tmp32 OR (fmask (CSR_BUF21EN L) OR fmask (CSR_HI_PWR_LV L)))
           in (r\<lparr>vr_CSR := vr_CSR r OR tmp32\<rparr>, calls @ [SDK_DelayAtLeastUs 400])
         else (r, calls))"

definition VREF_Deinit :: "nat \<Rightarrow> vref_dev \<Rightarrow> vref_dev" where
  "VREF_Deinit n d = (fst d, snd d @ [CLOCK_DisableClock (VREF n)])"

text \<open>\<open>while ((base->CSR & VREFST_MASK) == 0) {}\<close> over the successive values of the register.\<close>

primrec wait_stable :: "vref_layout \<Rightarrow> u32 list \<Rightarrow> u32 list option" where
  "wait_stable L [] = None"
| "wait_stable L (v # vs) = (if v AND fmask (CSR_VREFST L) = 0 then wait_stable L vs else Some vs)"

definition wait_after_trim :: "vref_layout \<Rightarrow> u32 list \<Rightarrow> vref_dev \<Rightarrow> vref_dev option" where
  "wait_after_trim L csr d =
     (if vr_CSR (fst d) AND fmask (CSR_CHOPEN L) = fmask (CSR_CHOPEN L)
      then Some (fst d, snd d @ [SDK_DelayAtLeastUs 400])
      else case wait_stable L csr of None \<Rightarrow> None | Some _ \<Rightarrow> Some d)"

definition VREF_SetVrefTrimVal :: "vref_layout \<Rightarrow> u8 \<Rightarrow> u32 list \<Rightarrow> vref_dev \<Rightarrow> vref_dev option" where
  "VREF_SetVrefTrimVal L trimValue csr d =
     (let (r, calls) = d;
          tmp32 = vr_UTRIM r AND NOT (fmask (UTRIM_VREFTRIM L));
          tmp32 = tmp32 OR fval (UTRIM_VREFTRIM L) (ucast trimValue)
      in wait_after_trim L csr (r\<lparr>vr_UTRIM := tmp32\<rparr>, calls))"

definition VREF_SetTrim21Val :: "vref_layout \<Rightarrow> u8 \<Rightarrow> u32 list \<Rightarrow> vref_dev \<Rightarrow> vref_dev option" where
  "VREF_SetTrim21Val L trim21Value csr d =
     (let (r, calls) = d;
          tmp32 = vr_UTRIM r AND NOT (fmask (UTRIM_TRIM2V1 L));
          tmp32 = tmp32 OR fval (UTRIM_TRIM2V1 L) (ucast trim21Value)
      in wait_after_trim L csr (r\<lparr>vr_UTRIM := tmp32\<rparr>, calls))"

definition VREF_GetVrefTrimVal :: "vref_layout \<Rightarrow> vref \<Rightarrow> u8" where
  "VREF_GetVrefTrimVal L r = ucast (fget (UTRIM_VREFTRIM L) (vr_UTRIM r))"

definition VREF_GetTrim21Val :: "vref_layout \<Rightarrow> vref \<Rightarrow> u8" where
  "VREF_GetTrim21Val L r = ucast (fget (UTRIM_TRIM2V1 L) (vr_UTRIM r))"

section \<open>Properties\<close>

definition vref_layout_ok :: "vref_layout \<Rightarrow> bool" where
  "vref_layout_ok L \<longleftrightarrow>
     fields_ok [CSR_HCBGEN L, CSR_LPBGEN L, CSR_LPBG_BUF_EN L, CSR_CHOPEN L, CSR_ICOMPEN L, CSR_REGEN L,
       CSR_HI_PWR_LV L, CSR_BUF21EN L, CSR_VREFST L] \<and>
     list_all (\<lambda>f. fwidth f = 1) [CSR_HCBGEN L, CSR_LPBGEN L, CSR_LPBG_BUF_EN L, CSR_CHOPEN L, CSR_ICOMPEN L,
       CSR_REGEN L, CSR_HI_PWR_LV L, CSR_BUF21EN L, CSR_VREFST L] \<and>
     fields_ok [UTRIM_TRIM2V1 L, UTRIM_VREFTRIM L] \<and> fwidth (UTRIM_TRIM2V1 L) = 4 \<and> fwidth (UTRIM_VREFTRIM L) = 6"

lemma trim_round_trip: "(ucast (ucast (v :: u8) AND mask n :: u32) :: u8) = v AND mask n"
  by (rule bit_word_eqI) (auto simp: bit_simps dest: bit_imp_le_length)

lemma flag_set:
  assumes "fwidth f = 1" and "field_ok f"
  shows "r AND fmask f = fmask f \<longleftrightarrow> fget f r = 1"
proof -
  have "r AND fmask f = (if bit r (fshift f) then fmask f else 0)"
    using assms(1) by (intro bit_word_eqI) (auto simp: bit_and_iff bit_single_field)
  moreover have "fmask f \<noteq> 0"
    using assms by (simp add: fmask_bit field_ok_def)
  ultimately show ?thesis
    using assms by (simp add: fget_bit)
qed

lemma fget_or_1: "fwidth f = 1 \<Longrightarrow> field_ok f \<Longrightarrow> fget f r OR 1 = 1"
  by (simp add: fget_bit)

text \<open>\<open>VREF_Init\<close> only sets bits.\<close>

lemma VREF_Init_monotone: "bit (vr_CSR r) k \<Longrightarrow> bit (vr_CSR (fst (VREF_Init L n c (r, calls)))) k"
  by (simp add: VREF_Init_def Let_def bit_or_iff)

lemma VREF_Init_chop:
  assumes "vref_layout_ok L" and "enableChopOscillator c" and "bufferMode c \<noteq> kVREF_ModeBandgapOnly"
  shows "fget (CSR_CHOPEN L) (vr_CSR (fst (VREF_Init L n c d))) = 1"
  using assms by (cases d) (simp add: VREF_Init_def Let_def vref_layout_ok_def regs fget_or_1)

lemma trim21_after_init:
  assumes "vref_layout_ok L" and "enableChopOscillator c" and "bufferMode c \<noteq> kVREF_ModeBandgapOnly"
  shows "\<exists>r calls'. VREF_SetTrim21Val L v csr (VREF_Init L n c d) = Some (r, calls') \<and>
    VREF_GetTrim21Val L r = v AND mask 4 \<and>
    VREF_GetVrefTrimVal L r = VREF_GetVrefTrimVal L (fst d) \<and>
    vr_CSR r = vr_CSR (fst (VREF_Init L n c d)) \<and> last calls' = SDK_DelayAtLeastUs 400"
proof -
  obtain r calls where init: "VREF_Init L n c d = (r, calls)" by fastforce
  have chop: "fget (CSR_CHOPEN L) (vr_CSR r) = 1"
    using VREF_Init_chop[OF assms, of n d] init by simp
  have trim: "vr_UTRIM r = vr_UTRIM (fst d)"
    using init by (cases d) (auto simp: VREF_Init_def Let_def split: if_splits)
  have L: "field_ok (CSR_CHOPEN L)" "fwidth (CSR_CHOPEN L) = 1" "field_ok (UTRIM_TRIM2V1 L)"
      "fwidth (UTRIM_TRIM2V1 L) = 4" "apart (UTRIM_VREFTRIM L) (UTRIM_TRIM2V1 L)"
    using assms(1) by (simp_all add: vref_layout_ok_def)
  show ?thesis
    using chop trim L
    by (simp add: VREF_SetTrim21Val_def wait_after_trim_def init flag_set VREF_GetTrim21Val_def
        VREF_GetVrefTrimVal_def regs trim_round_trip)
qed

text \<open>
  Setting a trim value returns without waiting for the hardware once the chop oscillator has been enabled, as both
  initialisations of the converters do before; the trim then reads back as its low bits, the other trim is unchanged, and
  the 400 microsecond delay is made. With the chop oscillator off it returns exactly when the status bit is seen.
\<close>

theorem trim21_terminates_after_init:
  assumes "vref_layout_ok L" and "enableChopOscillator c" and "bufferMode c \<noteq> kVREF_ModeBandgapOnly"
  shows "\<exists>r calls'. VREF_SetTrim21Val L v csr (VREF_Init L n c d) = Some (r, calls') \<and>
    VREF_GetTrim21Val L r = v AND mask 4 \<and>
    VREF_GetVrefTrimVal L r = VREF_GetVrefTrimVal L (fst d) \<and>
    vr_CSR r = vr_CSR (fst (VREF_Init L n c d)) \<and> last calls' = SDK_DelayAtLeastUs 400"
  by (rule trim21_after_init[OF assms])

definition example_vref :: vref_layout where
  "example_vref =
    \<lparr>CSR_HCBGEN = \<lparr>fshift = 0, fwidth = 1\<rparr>, CSR_LPBGEN = \<lparr>fshift = 1, fwidth = 1\<rparr>,
     CSR_LPBG_BUF_EN = \<lparr>fshift = 2, fwidth = 1\<rparr>, CSR_CHOPEN = \<lparr>fshift = 3, fwidth = 1\<rparr>,
     CSR_ICOMPEN = \<lparr>fshift = 4, fwidth = 1\<rparr>, CSR_REGEN = \<lparr>fshift = 5, fwidth = 1\<rparr>,
     CSR_HI_PWR_LV = \<lparr>fshift = 11, fwidth = 1\<rparr>, CSR_BUF21EN = \<lparr>fshift = 16, fwidth = 1\<rparr>,
     CSR_VREFST = \<lparr>fshift = 31, fwidth = 1\<rparr>, UTRIM_TRIM2V1 = \<lparr>fshift = 0, fwidth = 4\<rparr>,
     UTRIM_VREFTRIM = \<lparr>fshift = 8, fwidth = 6\<rparr>\<rparr>"

lemma example_vref_ok: "vref_layout_ok example_vref"
  by (simp add: vref_layout_ok_def example_vref_def field_ok_def apart_def)

theorem trim21_terminates_after_init_witness:
  "\<exists>r calls'. VREF_SetTrim21Val example_vref 2 [] (VREF_Init example_vref 0
      (VREF_GetDefaultConfig\<lparr>bufferMode := kVREF_ModeLowPowerBuffer\<rparr>) (\<lparr>vr_CSR = 0, vr_UTRIM = 0\<rparr>, [])) = Some (r, calls') \<and>
    VREF_GetTrim21Val example_vref r = 2"
  using trim21_terminates_after_init[OF example_vref_ok,
      of "VREF_GetDefaultConfig\<lparr>bufferMode := kVREF_ModeLowPowerBuffer\<rparr>" 2 "[]" 0 "(\<lparr>vr_CSR = 0, vr_UTRIM = 0\<rparr>, [])"]
  by (auto simp: VREF_GetDefaultConfig_def mask_eq_exp_minus_1)

end
