(* ===== verification/IEEE_Float.thy ===== *)
theory IEEE_Float
  imports Prelude
begin

text \<open>
  The floating point arithmetic of the target (\<open>float\<close> is IEEE 754 binary32, \<open>double\<close> is
  binary64, round to nearest, ties to even), as the C sources use it: conversions from integers,
  the four operations, comparisons, and the conversion to unsigned integers that truncates and is
  undefined outside the target type. A finite value is kept as the real number it denotes; the sign of
  a zero is not represented (no operation of the sources depends on it: a division by a
  negative zero and one by a positive zero both give an infinity, whose conversion to an integer
  is undefined in either case). The rounding functions are executable.
\<close>

section \<open>Rounding\<close>

text \<open>The exponent of the binade of a positive number.\<close>

function rlog2 :: "real \<Rightarrow> int" where
  "rlog2 x =
     (if x \<le> 0 then 0
      else if x < 1 then rlog2 (2 * x) - 1
      else if x < 2 then 0
      else rlog2 (x / 2) + 1)"
  by pat_completeness auto
termination
proof (relation "measure (\<lambda>x. if x < 1 then nat \<lceil>1 / x\<rceil> + 1 else nat \<lfloor>x\<rfloor>)")
  show "wf (measure (\<lambda>x::real. if x < 1 then nat \<lceil>1 / x\<rceil> + 1 else nat \<lfloor>x\<rfloor>))" by simp
next
  fix x :: real
  assume x: "\<not> x \<le> 0" "x < 1"
  show "(2 * x, x) \<in> measure (\<lambda>x. if x < 1 then nat \<lceil>1 / x\<rceil> + 1 else nat \<lfloor>x\<rfloor>)"
  proof (cases "2 * x < 1")
    case True
    then have "2 < 1 / x" using x by (simp add: field_simps)
    then have "1 / (2 * x) \<le> 1 / x - 1" by (simp add: field_simps)
    then have "\<lceil>1 / (2 * x)\<rceil> \<le> \<lceil>1 / x\<rceil> - 1"
      by (simp add: ceiling_le_iff) linarith
    moreover have "0 < \<lceil>1 / x\<rceil>" using x by simp
    ultimately show ?thesis using True x by simp
  next
    case False
    have "1 < 1 / x" using x by simp
    then have "nat \<lfloor>2 * x\<rfloor> < nat \<lceil>1 / x\<rceil> + 1" using x by linarith
    then show ?thesis using False x by simp
  qed
next
  fix x :: real
  assume x: "\<not> x \<le> 0" "\<not> x < 1" "\<not> x < 2"
  have "\<lfloor>x / 2\<rfloor> \<le> \<lfloor>x\<rfloor> - 1" using x by linarith
  moreover have "2 \<le> \<lfloor>x\<rfloor>" using x by linarith
  ultimately show "(x / 2, x) \<in> measure (\<lambda>x. if x < 1 then nat \<lceil>1 / x\<rceil> + 1 else nat \<lfloor>x\<rfloor>)"
    using x by simp
qed

declare rlog2.simps [simp del]

lemma rlog2_bounds: "0 < x \<Longrightarrow> 2 powi rlog2 x \<le> x \<and> x < 2 powi (rlog2 x + 1)"
proof (induction x rule: rlog2.induct)
  case (1 x)
  consider "x < 1" | "1 \<le> x" "x < 2" | "2 \<le> x" by linarith
  then show ?case
  proof cases
    case 1
    then have "2 powi rlog2 (2 * x) \<le> 2 * x \<and> 2 * x < 2 powi (rlog2 (2 * x) + 1)"
      using "1.IH"(1) "1.prems" by simp
    moreover have "rlog2 x = rlog2 (2 * x) - 1"
      using 1 "1.prems" by (subst rlog2.simps) simp
    ultimately show ?thesis by (simp add: power_int_diff power_int_add)
  next
    case 2
    then show ?thesis by (simp add: rlog2.simps[of x])
  next
    case 3
    then have "2 powi rlog2 (x / 2) \<le> x / 2 \<and> x / 2 < 2 powi (rlog2 (x / 2) + 1)"
      using "1.IH"(2) by simp
    moreover have "rlog2 x = rlog2 (x / 2) + 1"
      using 3 by (subst rlog2.simps) simp
    ultimately show ?thesis by (simp add: power_int_add)
  qed
qed

lemma powi2_pos [simp]: "0 < (2::real) powi e"
  by simp

lemma powi2_less_iff: "(2::real) powi a < 2 powi b \<longleftrightarrow> a < b"
  by (metis not_less_iff_gr_or_eq one_less_numeral_iff power_int_strict_increasing semiring_norm(76))

lemma rlog2_eqI:
  assumes "2 powi e \<le> x" and "x < 2 powi (e + 1)"
  shows "rlog2 x = e"
proof -
  have "0 < x" using assms(1) powi2_pos[of e] by linarith
  then have "2 powi rlog2 x < (2::real) powi (e + 1)" "2 powi e < (2::real) powi (rlog2 x + 1)"
    using rlog2_bounds assms by (meson le_less_trans)+
  then show ?thesis by (simp add: powi2_less_iff)
qed

definition round_half_even :: "real \<Rightarrow> int" where
  "round_half_even q =
     (let f = \<lfloor>q\<rfloor>; d = q - of_int f in
      if d < 1 / 2 then f else if d > 1 / 2 then f + 1 else if even f then f else f + 1)"

lemma round_half_even_error: "\<bar>of_int (round_half_even q) - q\<bar> \<le> 1 / 2"
  using of_int_floor_le[of q] floor_correct[of q]
  by (auto simp: round_half_even_def Let_def)

lemma round_half_even_int [simp]: "round_half_even (of_int k) = k"
  by (simp add: round_half_even_def)

lemma round_half_even_mono_int: "q \<le> of_int k \<Longrightarrow> round_half_even q \<le> k"
  by (auto simp: round_half_even_def Let_def) linarith+

lemma round_half_even_mono_int': "of_int k \<le> q \<Longrightarrow> k \<le> round_half_even q"
  by (auto simp: round_half_even_def Let_def) linarith+

text \<open>
  Rounding to \<open>p\<close> significant bits with the least exponent \<open>qmin\<close> of the last place (subnormals
  below it).
\<close>

definition quantum :: "nat \<Rightarrow> int \<Rightarrow> real \<Rightarrow> int" where
  "quantum p qmin x = max (rlog2 \<bar>x\<bar> - int p + 1) qmin"

definition rnd :: "nat \<Rightarrow> int \<Rightarrow> real \<Rightarrow> real" where
  "rnd p qmin x =
     (if x = 0 then 0
      else of_int (round_half_even (x / 2 powi quantum p qmin x)) * 2 powi quantum p qmin x)"

text \<open>The numbers of the format, without the bound on the exponent from above.\<close>

definition representable :: "nat \<Rightarrow> int \<Rightarrow> real \<Rightarrow> bool" where
  "representable p qmin x \<longleftrightarrow>
     (\<exists>m e. x = of_int m * 2 powi e \<and> \<bar>m\<bar> \<le> 2 ^ p \<and> qmin \<le> e)"

lemma rnd_0 [simp]: "rnd p qmin 0 = 0"
  by (simp add: rnd_def)

text \<open>The scaled significand stays within the precision.\<close>

lemma scaled_le: "\<bar>x\<bar> / 2 powi quantum p qmin x < 2 ^ p"
proof (cases "x = 0")
  case False
  then have "\<bar>x\<bar> < 2 powi (rlog2 \<bar>x\<bar> + 1)" using rlog2_bounds[of "\<bar>x\<bar>"] by simp
  also have "\<dots> \<le> 2 powi (quantum p qmin x + int p)"
    by (intro power_int_increasing) (auto simp: quantum_def)
  finally show ?thesis
    by (simp add: power_int_add field_simps)
qed simp

lemma powi2_add_nat: "(2::real) powi (e + int n) = 2 powi e * 2 ^ n"
  by (simp add: power_int_add)

text \<open>
  A representable number is a multiple of \<open>2 powi q\<close> when it is not below the binade that has this
  last place, or when this is the least one.
\<close>

lemma representable_multiple:
  assumes k: "representable p qmin k" and p: "0 < p"
    and q: "2 powi (q + int p - 1) \<le> k \<or> q \<le> qmin"
  shows "\<exists>j. k = of_int j * 2 powi q"
proof -
  obtain m e where m: "k = of_int m * 2 powi e" "\<bar>m\<bar> \<le> 2 ^ p" "qmin \<le> e"
    using k by (auto simp: representable_def)
  show ?thesis
  proof (cases "q \<le> e")
    case True
    then obtain n where "e = q + int n" using zle_iff_zadd by auto
    then have "k = of_int (m * 2 ^ n) * 2 powi q"
      using m(1) by (simp only: powi2_add_nat) simp
    then show ?thesis by blast
  next
    case False
    then obtain n where n: "q = (e + 1) + int n" using zle_iff_zadd[of "e + 1" q] by auto
    have "2 powi (e + int (n + p)) \<le> k"
      using q m(3) False n by (auto simp: algebra_simps)
    then have "2 powi e * 2 ^ (n + p) \<le> 2 powi e * (of_int m :: real)"
      unfolding powi2_add_nat m(1) by (simp only: mult.commute)
    then have "(2::real) ^ (n + p) \<le> of_int m"
      by (simp only: mult_le_cancel_left_pos[OF powi2_pos])
    then have le: "2 ^ (n + p) \<le> m"
      by (metis of_int_le_iff of_int_numeral of_int_power)
    then have "(2::int) ^ (n + p) \<le> 2 ^ p" using m(2) by linarith
    then have "n = 0" by simp
    then have "m = 2 ^ p" using le m(2) by simp
    moreover have "(2::int) ^ p = 2 ^ (p - 1) * 2" using p by (metis power_minus_mult)
    moreover have "2 powi q = 2 * (2::real) powi e"
      using n \<open>n = 0\<close> by (simp add: power_int_add)
    ultimately have "k = of_int (2 ^ (p - 1)) * 2 powi q" using m(1) by simp
    then show ?thesis by blast
  qed
qed

lemma rnd_pos: "0 < x \<Longrightarrow>
    rnd p qmin x = of_int (round_half_even (x / 2 powi quantum p qmin x)) * 2 powi quantum p qmin x"
  by (simp add: rnd_def)

lemma rnd_upper_pos:
  assumes "representable p qmin k" and "0 < p" and x: "0 < x" "x \<le> k"
  shows "rnd p qmin x \<le> k"
proof -
  define q where "q = quantum p qmin x"
  have "2 powi (q + int p - 1) \<le> k \<or> q \<le> qmin"
  proof (cases "rlog2 x - int p + 1 < qmin")
    case False
    then have "2 powi (q + int p - 1) \<le> x"
      using x rlog2_bounds[OF x(1)] by (simp add: q_def quantum_def)
    then show ?thesis using x by simp
  qed (use x in \<open>simp add: q_def quantum_def\<close>)
  then obtain j where j: "k = of_int j * 2 powi q"
    using representable_multiple[OF assms(1,2)] by blast
  then have "x / 2 powi q \<le> of_int j" using x by (simp add: field_simps)
  then have "round_half_even (x / 2 powi q) \<le> j" by (rule round_half_even_mono_int)
  then show ?thesis using x j by (simp add: rnd_pos q_def)
qed

lemma rnd_lower_pos:
  assumes "representable p qmin k" and "0 < p" and k: "0 < k" "k \<le> x"
  shows "k \<le> rnd p qmin x"
proof -
  define q where "q = quantum p qmin x"
  have x: "0 < x" using k by simp
  show ?thesis
  proof (cases "2 powi (q + int p - 1) \<le> k \<or> q \<le> qmin")
    case True
    then obtain j where j: "k = of_int j * 2 powi q"
      using representable_multiple[OF assms(1,2)] by blast
    then have "of_int j \<le> x / 2 powi q" using k by (simp add: field_simps)
    then have "j \<le> round_half_even (x / 2 powi q)" by (rule round_half_even_mono_int')
    then show ?thesis using x j by (simp add: rnd_pos q_def)
  next
    case False
    then have q: "q = rlog2 x - int p + 1"
      using x by (auto simp: q_def quantum_def)
    obtain p' where p': "p = Suc p'" using assms(2) by (cases p) auto
    have "2 powi (q + int p') \<le> x" using rlog2_bounds[OF x] q p' by simp
    then have "of_int (2 ^ p') \<le> x / 2 powi q"
      by (simp add: powi2_add_nat field_simps)
    then have "2 ^ p' \<le> round_half_even (x / 2 powi q)" by (rule round_half_even_mono_int')
    then have "2 ^ p' * 2 powi q \<le> rnd p qmin x"
      using x by (simp add: rnd_pos flip: q_def)
    moreover have "k < 2 ^ p' * 2 powi q" 
      using False p' by (simp add: powi2_add_nat mult.commute)
    ultimately show ?thesis by simp
  qed
qed

lemma round_half_even_uminus: "round_half_even (- q) = - round_half_even q"
proof (cases "of_int \<lfloor>q\<rfloor> = q")
  case True
  then show ?thesis by (metis of_int_minus round_half_even_int)
next
  case False
  then have "\<lfloor>- q\<rfloor> = - \<lfloor>q\<rfloor> - 1" by linarith
  then show ?thesis by (auto simp: round_half_even_def Let_def)
qed

lemma rnd_uminus: "rnd p qmin (- x) = - rnd p qmin x"
  by (simp add: rnd_def quantum_def round_half_even_uminus)

lemma rnd_nonneg: "0 \<le> x \<Longrightarrow> 0 \<le> rnd p qmin x"
  using round_half_even_mono_int'[of 0 "x / 2 powi quantum p qmin x"]
  by (simp add: rnd_def)

lemma representable_minusI: "representable p qmin x \<Longrightarrow> representable p qmin (- x)"
  unfolding representable_def
  by (elim exE conjE, rename_tac m e, rule_tac x = "- m" in exI, rule_tac x = e in exI) simp

lemma representable_uminus [simp]: "representable p qmin (- x) \<longleftrightarrow> representable p qmin x"
  using representable_minusI[of p qmin x] representable_minusI[of p qmin "- x"] by auto

lemma rnd_upper:
  assumes "representable p qmin k" and "0 < p" and "x \<le> k"
  shows "rnd p qmin x \<le> k"
proof -
  consider "0 < x" | "x = 0" | "x < 0" "0 \<le> k" | "x < 0" "k < 0" by linarith
  then show ?thesis
  proof cases
    case 3
    then have "0 \<le> rnd p qmin (- x)" by (intro rnd_nonneg) simp
    then show ?thesis using 3 by (simp add: rnd_uminus)
  next
    case 4
    then have "- k \<le> rnd p qmin (- x)" using assms by (intro rnd_lower_pos) auto
    then show ?thesis by (simp add: rnd_uminus)
  qed (use assms rnd_upper_pos in auto)
qed

lemma rnd_lower:
  assumes "representable p qmin k" and "0 < p" and "k \<le> x"
  shows "k \<le> rnd p qmin x"
  using rnd_upper[of p qmin "- k" "- x"] assms by (simp add: rnd_uminus)

text \<open>Rounding yields a number of the format.\<close>

lemma representable_rnd:
  assumes "0 < p"
  shows "representable p qmin (rnd p qmin x)"
proof (cases "x = 0")
  case True
  then show ?thesis
    by (auto simp: representable_def intro!: exI[of _ 0] exI[of _ qmin])
next
  case False
  define q where "q = x / 2 powi quantum p qmin x"
  have "\<bar>q\<bar> < 2 ^ p" using scaled_le[of x p qmin] by (simp add: q_def)
  then have "q \<le> of_int (2 ^ p)" "of_int (- (2 ^ p)) \<le> q" by auto
  then have "\<bar>round_half_even q\<bar> \<le> 2 ^ p"
    using round_half_even_mono_int round_half_even_mono_int' by (metis abs_le_iff minus_le_iff)
  moreover have "qmin \<le> quantum p qmin x" by (simp add: quantum_def)
  ultimately show ?thesis
    using False by (auto simp: representable_def rnd_def q_def)
qed

text \<open>The error is at most half a unit of the last place.\<close>

lemma rnd_error: "\<bar>rnd p qmin x - x\<bar> \<le> 2 powi quantum p qmin x / 2"
proof (cases "x = 0")
  case False
  define u where "u = (2::real) powi quantum p qmin x"
  have "0 < u" by (simp add: u_def)
  have "rnd p qmin x - x = (of_int (round_half_even (x / u)) - x / u) * u"
    using False \<open>0 < u\<close> by (simp add: rnd_def u_def[symmetric] field_simps)
  then have "\<bar>rnd p qmin x - x\<bar> = \<bar>of_int (round_half_even (x / u)) - x / u\<bar> * u"
    using \<open>0 < u\<close> by (simp add: abs_mult)
  also have "\<dots> \<le> 1 / 2 * u"
    using \<open>0 < u\<close> round_half_even_error by (intro mult_right_mono) auto
  finally show ?thesis by (simp add: u_def)
qed simp

lemma rnd_relative_error:
  assumes "2 powi (qmin + int p - 1) \<le> \<bar>x\<bar>"
  shows "\<bar>rnd p qmin x - x\<bar> \<le> \<bar>x\<bar> / 2 ^ p"
proof -
  have pos: "0 < \<bar>x\<bar>" using assms powi2_pos[of "qmin + int p - 1"] by linarith
  have "2 powi (qmin + int p - 1) < (2::real) powi (rlog2 \<bar>x\<bar> + 1)"
    using assms rlog2_bounds[OF pos] by linarith
  then have "qmin + int p - 1 < rlog2 \<bar>x\<bar> + 1" by (simp only: powi2_less_iff)
  then have "quantum p qmin x + int p = rlog2 \<bar>x\<bar> + 1" by (simp add: quantum_def)
  then have "2 powi quantum p qmin x * 2 ^ p = 2 * (2::real) powi rlog2 \<bar>x\<bar>"
    by (simp add: power_int_add flip: powi2_add_nat)
  also have "\<dots> \<le> 2 * \<bar>x\<bar>" using rlog2_bounds[OF pos] by simp
  finally have "2 powi quantum p qmin x / 2 \<le> \<bar>x\<bar> / 2 ^ p" by (simp add: field_simps)
  then show ?thesis using rnd_error[of p qmin x] by linarith
qed

section \<open>The interface of a rounding function\<close>

text \<open>
  What the proofs about the firmware use of a rounding: it does not cross a number of the format.
  Everything else (exactness on the format, monotonicity against its numbers, truncation after
  rounding) follows here once, for both formats.
\<close>

locale rounding =
  fixes R :: "real \<Rightarrow> real" and rep :: "real \<Rightarrow> bool"
  assumes upper: "rep k \<Longrightarrow> x \<le> k \<Longrightarrow> R x \<le> k"
    and lower: "rep k \<Longrightarrow> k \<le> x \<Longrightarrow> k \<le> R x"
begin

lemma exact: "rep k \<Longrightarrow> R k = k"
  using upper lower by (simp add: order_antisym)

lemma between: "rep a \<Longrightarrow> rep b \<Longrightarrow> a \<le> x \<Longrightarrow> x \<le> b \<Longrightarrow> a \<le> R x \<and> R x \<le> b"
  using upper lower by simp

lemma floor_ge: "rep (of_int k) \<Longrightarrow> of_int k \<le> x \<Longrightarrow> k \<le> \<lfloor>R x\<rfloor>"
  using lower by (simp add: le_floor_iff)

text \<open>A number of the format strictly above the argument's rounding error is not reached.\<close>

lemma floor_eq:
  assumes "rep (of_int k)" and "of_int k \<le> x" and "\<bar>R x - x\<bar> < of_int k + 1 - x"
  shows "\<lfloor>R x\<rfloor> = k"
  using assms lower[OF assms(1,2)] by (simp add: floor_eq_iff)

end

definition rnd32 :: "real \<Rightarrow> real" where
  "rnd32 = rnd 24 (- 149)"

definition rnd64 :: "real \<Rightarrow> real" where
  "rnd64 = rnd 53 (- 1074)"

abbreviation rep32 :: "real \<Rightarrow> bool" where
  "rep32 \<equiv> representable 24 (- 149)"

abbreviation rep64 :: "real \<Rightarrow> bool" where
  "rep64 \<equiv> representable 53 (- 1074)"

interpretation r32: rounding rnd32 rep32
  by unfold_locales (simp_all add: rnd32_def rnd_upper rnd_lower)

interpretation r64: rounding rnd64 rep64
  by unfold_locales (simp_all add: rnd64_def rnd_upper rnd_lower)

lemma representable_scaled:
  "\<bar>m\<bar> \<le> 2 ^ p \<Longrightarrow> qmin \<le> e \<Longrightarrow> representable p qmin (of_int m * 2 powi e)"
  unfolding representable_def by blast

lemma representable_int: "\<bar>m\<bar> \<le> 2 ^ p \<Longrightarrow> qmin \<le> 0 \<Longrightarrow> representable p qmin (of_int m)"
  using representable_scaled[of m p qmin 0] by simp

lemma representable_nat: "m \<le> 2 ^ p \<Longrightarrow> qmin \<le> 0 \<Longrightarrow> representable p qmin (of_nat m)"
  using representable_int[of "int m" p qmin] by simp

section \<open>Floating point values and operations\<close>

datatype fp = Fin real | PosInf | NegInf | NaN

text \<open>A rounded number beyond the greatest of the format overflows to an infinity.\<close>

definition to_fp :: "real \<Rightarrow> real \<Rightarrow> fp" where
  "to_fp b r = (if b \<le> r then PosInf else if r \<le> - b then NegInf else Fin r)"

definition fl32 :: "real \<Rightarrow> fp" where
  "fl32 x = to_fp (2 ^ 128) (rnd32 x)"

definition fl64 :: "real \<Rightarrow> fp" where
  "fl64 x = to_fp (2 ^ 1024) (rnd64 x)"

text \<open>
  The operations take the rounding of their format. C evaluates an operation with two \<open>float\<close>
  operands in binary32 and one with a \<open>double\<close> operand in binary64.
\<close>

fun fp_neg :: "fp \<Rightarrow> fp" where
  "fp_neg (Fin x) = Fin (- x)"
| "fp_neg PosInf = NegInf"
| "fp_neg NegInf = PosInf"
| "fp_neg NaN = NaN"

fun fp_add :: "(real \<Rightarrow> fp) \<Rightarrow> fp \<Rightarrow> fp \<Rightarrow> fp" where
  "fp_add R (Fin x) (Fin y) = R (x + y)"
| "fp_add R NaN b = NaN"
| "fp_add R a NaN = NaN"
| "fp_add R PosInf NegInf = NaN"
| "fp_add R NegInf PosInf = NaN"
| "fp_add R PosInf b = PosInf"
| "fp_add R NegInf b = NegInf"
| "fp_add R a PosInf = PosInf"
| "fp_add R a NegInf = NegInf"

definition fp_sub :: "(real \<Rightarrow> fp) \<Rightarrow> fp \<Rightarrow> fp \<Rightarrow> fp" where
  "fp_sub R a b = fp_add R a (fp_neg b)"

definition inf_signed :: "bool \<Rightarrow> fp" where
  "inf_signed positive = (if positive then PosInf else NegInf)"

fun fp_mul :: "(real \<Rightarrow> fp) \<Rightarrow> fp \<Rightarrow> fp \<Rightarrow> fp" where
  "fp_mul R (Fin x) (Fin y) = R (x * y)"
| "fp_mul R NaN b = NaN"
| "fp_mul R a NaN = NaN"
| "fp_mul R (Fin x) PosInf = (if x = 0 then NaN else inf_signed (0 < x))"
| "fp_mul R (Fin x) NegInf = (if x = 0 then NaN else inf_signed (x < 0))"
| "fp_mul R PosInf (Fin y) = (if y = 0 then NaN else inf_signed (0 < y))"
| "fp_mul R NegInf (Fin y) = (if y = 0 then NaN else inf_signed (y < 0))"
| "fp_mul R PosInf PosInf = PosInf"
| "fp_mul R PosInf NegInf = NegInf"
| "fp_mul R NegInf PosInf = NegInf"
| "fp_mul R NegInf NegInf = PosInf"

fun fp_div :: "(real \<Rightarrow> fp) \<Rightarrow> fp \<Rightarrow> fp \<Rightarrow> fp" where
  "fp_div R (Fin x) (Fin y) =
     (if y = 0 then if x = 0 then NaN else inf_signed (0 < x) else R (x / y))"
| "fp_div R NaN b = NaN"
| "fp_div R a NaN = NaN"
| "fp_div R PosInf (Fin y) = inf_signed (0 \<le> y)"
| "fp_div R NegInf (Fin y) = inf_signed (y < 0)"
| "fp_div R (Fin x) b = Fin 0"
| "fp_div R a b = NaN"

fun fp_lt :: "fp \<Rightarrow> fp \<Rightarrow> bool" where
  "fp_lt (Fin x) (Fin y) = (x < y)"
| "fp_lt NaN b = False"
| "fp_lt a NaN = False"
| "fp_lt NegInf b = (b \<noteq> NegInf)"
| "fp_lt a PosInf = (a \<noteq> PosInf)"
| "fp_lt a b = False"

text \<open>Change of format (\<open>double\<close> to \<open>float\<close>; the converse is exact).\<close>

fun fp_cast :: "(real \<Rightarrow> fp) \<Rightarrow> fp \<Rightarrow> fp" where
  "fp_cast R (Fin x) = R x"
| "fp_cast R a = a"

definition f32_of_u32 :: "u32 \<Rightarrow> fp" where
  "f32_of_u32 w = fl32 (real (unat w))"

text \<open>Truncation towards zero, undefined when the integral part does not fit.\<close>

definition trunc :: "real \<Rightarrow> int" where
  "trunc x = (if 0 \<le> x then \<lfloor>x\<rfloor> else \<lceil>x\<rceil>)"

fun fp_to_u32 :: "fp \<Rightarrow> u32 res" where
  "fp_to_u32 (Fin x) =
     (if 0 \<le> trunc x \<and> trunc x < 2 ^ 32 then Inr (word_of_int (trunc x)) else Inl CastRange)"
| "fp_to_u32 _ = Inl CastRange"

fun fp_to_int :: "fp \<Rightarrow> c_int res" where
  "fp_to_int (Fin x) =
     (if - (2 ^ 31) \<le> trunc x \<and> trunc x < 2 ^ 31 then Inr (word_of_int (trunc x))
      else Inl CastRange)"
| "fp_to_int _ = Inl CastRange"

lemmas float_eval =
  fl32_def fl64_def to_fp_def rnd32_def rnd64_def rnd_def quantum_def rlog2.simps
  round_half_even_def Let_def trunc_def fp_sub_def inf_signed_def f32_of_u32_def

section \<open>Facts about the two formats\<close>

lemma rep32_power: "representable 24 (- 149) (2 ^ n)"
  using representable_scaled[of 1 24 "- 149" "int n"] by simp

lemma rep64_power: "representable 53 (- 1074) (2 ^ n)"
  using representable_scaled[of 1 53 "- 1074" "int n"] by simp

text \<open>Every \<open>float\<close> is a \<open>double\<close>.\<close>

lemma rep32_rep64: "rep32 x \<Longrightarrow> rep64 x"
  unfolding representable_def
proof (elim exE conjE)
  fix m e
  assume "x = of_int m * 2 powi e" "\<bar>m\<bar> \<le> 2 ^ 24" "- 149 \<le> e"
  then show "\<exists>m e. x = of_int m * 2 powi e \<and> \<bar>m\<bar> \<le> 2 ^ 53 \<and> - 1074 \<le> e"
    by (intro exI[of _ m] exI[of _ e]) simp
qed

text \<open>Numbers well inside the range do not overflow.\<close>

lemma fl32_finite:
  assumes "\<bar>x\<bar> \<le> 2 ^ 100"
  shows "fl32 x = Fin (rnd32 x)"
proof -
  have "- (2 ^ 100) \<le> rnd32 x" "rnd32 x \<le> 2 ^ 100"
    using r32.between[of "- (2 ^ 100)" "2 ^ 100" x] rep32_power[of 100] assms by auto
  moreover have "(2::real) ^ 100 < 2 ^ 128" by simp
  ultimately show ?thesis unfolding fl32_def to_fp_def by simp
qed

lemma fl64_finite:
  assumes "\<bar>x\<bar> \<le> 2 ^ 1000"
  shows "fl64 x = Fin (rnd64 x)"
proof -
  have "- (2 ^ 1000) \<le> rnd64 x" "rnd64 x \<le> 2 ^ 1000"
    using r64.between[of "- (2 ^ 1000)" "2 ^ 1000" x] rep64_power[of 1000] assms by auto
  moreover have "(2::real) ^ 1000 < 2 ^ 1024" by simp
  ultimately show ?thesis unfolding fl64_def to_fp_def by simp
qed

lemma rep32_nat: "n \<le> 2 ^ 24 \<Longrightarrow> rep32 (real n)"
  by (rule representable_nat) simp_all

lemma rep64_nat: "n \<le> 2 ^ 53 \<Longrightarrow> rep64 (real n)"
  by (rule representable_nat) simp_all

text \<open>Integers up to the precision convert exactly.\<close>

lemma fl32_nat: "n \<le> 2 ^ 24 \<Longrightarrow> fl32 (real n) = Fin (real n)"
  using rep32_nat[of n] by (simp add: fl32_def to_fp_def r32.exact)

lemma fl64_nat: "n \<le> 2 ^ 53 \<Longrightarrow> fl64 (real n) = Fin (real n)"
  using rep64_nat[of n] by (subst fl64_finite) (simp_all add: r64.exact)

lemma rnd32_error: "2 powi (- 126) \<le> \<bar>x\<bar> \<Longrightarrow> \<bar>rnd32 x - x\<bar> \<le> \<bar>x\<bar> / 2 ^ 24"
  using rnd_relative_error[of "- 149" 24 x] by (simp add: rnd32_def)

lemma rnd64_error: "2 powi (- 1022) \<le> \<bar>x\<bar> \<Longrightarrow> \<bar>rnd64 x - x\<bar> \<le> \<bar>x\<bar> / 2 ^ 53"
  using rnd_relative_error[of "- 1074" 53 x] by (simp add: rnd64_def)

text \<open>A result between two numbers of the format stays between them, and a result in the range converts.\<close>

lemma fl32_between:
  assumes "rep32 a" and "rep32 b" and "a \<le> x" and "x \<le> b" and "\<bar>a\<bar> \<le> 2 ^ 100" and "\<bar>b\<bar> \<le> 2 ^ 100"
  shows "fl32 x = Fin (rnd32 x)" and "a \<le> rnd32 x" and "rnd32 x \<le> b"
proof -
  have "\<bar>x\<bar> \<le> 2 ^ 100" using assms(3-6) by linarith
  then show "fl32 x = Fin (rnd32 x)" by (rule fl32_finite)
  show "a \<le> rnd32 x" "rnd32 x \<le> b" using r32.between assms(1-4) by auto
qed

lemma fl64_between:
  assumes "rep64 a" and "rep64 b" and "a \<le> x" and "x \<le> b" and "\<bar>a\<bar> \<le> 2 ^ 1000" and "\<bar>b\<bar> \<le> 2 ^ 1000"
  shows "fl64 x = Fin (rnd64 x)" and "a \<le> rnd64 x" and "rnd64 x \<le> b"
proof -
  have "\<bar>x\<bar> \<le> 2 ^ 1000" using assms(3-6) by linarith
  then show "fl64 x = Fin (rnd64 x)" by (rule fl64_finite)
  show "a \<le> rnd64 x" "rnd64 x \<le> b" using r64.between assms(1-4) by auto
qed

lemma fp_to_u32_ok:
  assumes "- 1 < x" and "x < 2 ^ 32"
  shows "fp_to_u32 (Fin x) = Inr (word_of_int (trunc x))" and "unat (word_of_int (trunc x) :: u32) = nat (trunc x)"
    and "0 \<le> trunc x"
proof -
  show nonneg: "0 \<le> trunc x" using assms(1) by (auto simp: trunc_def)
  have lt: "trunc x < 2 ^ 32"
    using assms by (auto simp: trunc_def floor_less_iff)
  show "fp_to_u32 (Fin x) = Inr (word_of_int (trunc x))"
    using nonneg lt by (simp only: fp_to_u32.simps) simp
  show "unat (word_of_int (trunc x) :: u32) = nat (trunc x)"
    using nonneg lt by (simp add: unat_eq_nat_uint uint_word_of_int)
qed

lemma trunc_le: "x \<le> real n \<Longrightarrow> nat (trunc x) \<le> n"
  by (auto simp: trunc_def nat_le_iff floor_le_iff ceiling_le_iff)

text \<open>
  Chains of operations: a rounding with a relative error keeps an argument's interval up to the
  factors \<open>1 - 2 ^ -23\<close> and \<open>1 + 2 ^ -23\<close>. Both formats give such a rounding for arguments that are not tiny.
\<close>

definition rd_low :: real where "rd_low = 1 - 1 / 2 ^ 23"
definition rd_high :: real where "rd_high = 1 + 1 / 2 ^ 23"

lemma rd_bounds: "0 < rd_low" "rd_low < 1" "1 < rd_high"
  by (simp_all add: rd_low_def rd_high_def)

locale relative_rounding = rounding +
  assumes relative: "1 / 2 ^ 20 \<le> x \<Longrightarrow> \<bar>R x - x\<bar> \<le> x / 2 ^ 23"
begin

lemma step:
  assumes "a \<le> x" and "x \<le> b" and "1 / 2 ^ 20 \<le> x"
  shows "a * rd_low \<le> R x" and "R x \<le> b * rd_high"
proof -
  have "R x - x \<le> x / 2 ^ 23" and "x - R x \<le> x / 2 ^ 23"
    using relative[OF assms(3)] by (auto simp only: abs_le_iff minus_diff_eq)
  moreover have "x * rd_low = x - x / 2 ^ 23" and "x * rd_high = x + x / 2 ^ 23"
    by (simp_all add: rd_low_def rd_high_def right_diff_distrib distrib_left)
  moreover have "a * rd_low \<le> x * rd_low" "x * rd_high \<le> b * rd_high"
    using assms(1,2) rd_bounds by (simp_all add: mult_right_mono)
  ultimately show "a * rd_low \<le> R x" "R x \<le> b * rd_high" by linarith+
qed

end

interpretation q32: relative_rounding rnd32 rep32
proof unfold_locales
  fix x :: real
  assume x: "1 / 2 ^ 20 \<le> x"
  have "2 powi (- 126) \<le> 1 / (2::real) ^ 20" by simp
  then have "2 powi (- 126) \<le> x" using x by (rule order_trans)
  then have "\<bar>rnd32 x - x\<bar> \<le> \<bar>x\<bar> / 2 ^ 24" by (intro rnd32_error) simp
  moreover have "0 < x" using x by (rule less_le_trans[rotated]) simp
  ultimately show "\<bar>rnd32 x - x\<bar> \<le> x / 2 ^ 23" by simp
qed

interpretation q64: relative_rounding rnd64 rep64
proof unfold_locales
  fix x :: real
  assume x: "1 / 2 ^ 20 \<le> x"
  have "2 powi (- 1022) \<le> (2::real) powi (- 20)" by (rule power_int_increasing) simp_all
  then have "2 powi (- 1022) \<le> x" using x by (simp add: power_int_minus)
  then have "\<bar>rnd64 x - x\<bar> \<le> \<bar>x\<bar> / 2 ^ 53" by (intro rnd64_error) simp
  moreover have "0 < x" using x by (rule less_le_trans[rotated]) simp
  ultimately show "\<bar>rnd64 x - x\<bar> \<le> x / 2 ^ 23" by simp
qed

text \<open>
  A quotient of integers, rounded to binary32 and truncated, is the integer quotient as long
  as the rounding error of the quotient is below one divisor-th.
\<close>

lemma rnd32_quotient_floor:
  assumes d: "0 < d" "d \<le> 2 ^ 24" and n: "n < 2 ^ 24"
  shows "\<lfloor>rnd32 (real n / real d)\<rfloor> = int (n div d)"
proof (cases "n = 0")
  case False
  let ?x = "real n / real d" and ?k = "int (n div d)"
  have k_le: "of_int ?k \<le> ?x" using of_nat_div_le_of_nat[of n d] by simp
  have "real n = real (n div d) * real d + real (n mod d)"
    by (simp flip: of_nat_mult of_nat_add)
  moreover have "real (n mod d) \<le> real d - 1"
    using d mod_less_divisor[of d n] by linarith
  ultimately have gap: "1 / real d \<le> of_int ?k + 1 - ?x"
    using d by (simp add: field_simps)
  have "2 powi (- 126) \<le> 1 / (2::real) ^ 24" by simp
  also have "\<dots> \<le> 1 / real d" using d by (simp add: frac_le)
  also have "\<dots> \<le> ?x" using False by (simp add: divide_right_mono)
  finally have "\<bar>rnd32 ?x - ?x\<bar> \<le> ?x / 2 ^ 24" using rnd32_error[of ?x] by simp
  also have "\<dots> < 1 / real d" using n d by (simp add: field_simps)
  finally have "\<bar>rnd32 ?x - ?x\<bar> < of_int ?k + 1 - ?x" using gap by simp
  moreover have "rep32 (real (n div d))"
    using n by (intro rep32_nat) (meson div_le_dividend le_trans less_imp_le)
  ultimately show ?thesis using k_le by (intro r32.floor_eq) auto
qed (simp add: rnd32_def)

lemma rnd64_quotient_floor:
  assumes d: "0 < d" "d \<le> 2 ^ 53" and n: "n < 2 ^ 53"
  shows "\<lfloor>rnd64 (real n / real d)\<rfloor> = int (n div d)"
proof (cases "n = 0")
  case False
  let ?x = "real n / real d" and ?k = "int (n div d)"
  have k_le: "of_int ?k \<le> ?x" using of_nat_div_le_of_nat[of n d] by simp
  have "real n = real (n div d) * real d + real (n mod d)"
    by (simp flip: of_nat_mult of_nat_add)
  moreover have "real (n mod d) \<le> real d - 1"
    using d mod_less_divisor[of d n] by linarith
  ultimately have gap: "1 / real d \<le> of_int ?k + 1 - ?x"
    using d by (simp add: field_simps)
  have "2 powi (- 1022) \<le> (2::real) powi (- 53)" by (rule power_int_increasing) simp_all
  also have "\<dots> = 1 / 2 ^ 53" by (simp add: power_int_minus field_simps)
  also have "\<dots> \<le> 1 / real d" using d by (intro frac_le) simp_all
  also have "\<dots> \<le> ?x" using False by (simp add: divide_right_mono)
  finally have "\<bar>rnd64 ?x - ?x\<bar> \<le> ?x / 2 ^ 53" using rnd64_error[of ?x] by simp
  also have "\<dots> < 1 / real d" using n d by (simp add: field_simps)
  finally have "\<bar>rnd64 ?x - ?x\<bar> < of_int ?k + 1 - ?x" using gap by simp
  moreover have "rep64 (real (n div d))"
    using n by (intro rep64_nat) (meson div_le_dividend le_trans less_imp_le)
  ultimately show ?thesis using k_le by (intro r64.floor_eq) auto
qed (simp add: rnd64_def)

end
