(* ===== verification/Lpadc.thy ===== *)
theory Lpadc
  imports Registers IEEE_Float
begin

text \<open>
  The driver of the two converters (\<open>fsl_lpadc.c\<close>, \<open>fsl_lpadc.h\<close>), with the features of the MCXN947: two result FIFOs, calibration on
  request with averaging, command type and resolution fields, alternate channel, wait for trigger. Reading a result
  register takes an entry out of the FIFO, and the calibration waits poll status registers: the words that such reads
  return one after the other are arguments of the operations, and a wait that uses them all up
  does not return (\<open>None\<close>).
\<close>

section \<open>Enumerations and configuration structures\<close>

datatype lpadc_sample_channel_mode =
    kLPADC_SampleChannelSingleEndSideA | kLPADC_SampleChannelSingleEndSideB
  | kLPADC_SampleChannelDiffBothSide | kLPADC_SampleChannelDualSingleEndBothSide

primrec sample_channel_val :: "lpadc_sample_channel_mode \<Rightarrow> u32" where
  "sample_channel_val kLPADC_SampleChannelSingleEndSideA = 0"
| "sample_channel_val kLPADC_SampleChannelSingleEndSideB = 1"
| "sample_channel_val kLPADC_SampleChannelDiffBothSide = 2"
| "sample_channel_val kLPADC_SampleChannelDualSingleEndBothSide = 3"

datatype lpadc_hardware_average_mode =
    kLPADC_HardwareAverageCount1 | kLPADC_HardwareAverageCount2 | kLPADC_HardwareAverageCount4
  | kLPADC_HardwareAverageCount8 | kLPADC_HardwareAverageCount16 | kLPADC_HardwareAverageCount32
  | kLPADC_HardwareAverageCount64 | kLPADC_HardwareAverageCount128 | kLPADC_HardwareAverageCount256
  | kLPADC_HardwareAverageCount512 | kLPADC_HardwareAverageCount1024

primrec hardware_average_val :: "lpadc_hardware_average_mode \<Rightarrow> u32" where
  "hardware_average_val kLPADC_HardwareAverageCount1 = 0"
| "hardware_average_val kLPADC_HardwareAverageCount2 = 1"
| "hardware_average_val kLPADC_HardwareAverageCount4 = 2"
| "hardware_average_val kLPADC_HardwareAverageCount8 = 3"
| "hardware_average_val kLPADC_HardwareAverageCount16 = 4"
| "hardware_average_val kLPADC_HardwareAverageCount32 = 5"
| "hardware_average_val kLPADC_HardwareAverageCount64 = 6"
| "hardware_average_val kLPADC_HardwareAverageCount128 = 7"
| "hardware_average_val kLPADC_HardwareAverageCount256 = 8"
| "hardware_average_val kLPADC_HardwareAverageCount512 = 9"
| "hardware_average_val kLPADC_HardwareAverageCount1024 = 10"

datatype lpadc_sample_time_mode =
    kLPADC_SampleTimeADCK3 | kLPADC_SampleTimeADCK5 | kLPADC_SampleTimeADCK7 | kLPADC_SampleTimeADCK11
  | kLPADC_SampleTimeADCK19 | kLPADC_SampleTimeADCK35 | kLPADC_SampleTimeADCK67 | kLPADC_SampleTimeADCK131

primrec sample_time_val :: "lpadc_sample_time_mode \<Rightarrow> u32" where
  "sample_time_val kLPADC_SampleTimeADCK3 = 0"
| "sample_time_val kLPADC_SampleTimeADCK5 = 1"
| "sample_time_val kLPADC_SampleTimeADCK7 = 2"
| "sample_time_val kLPADC_SampleTimeADCK11 = 3"
| "sample_time_val kLPADC_SampleTimeADCK19 = 4"
| "sample_time_val kLPADC_SampleTimeADCK35 = 5"
| "sample_time_val kLPADC_SampleTimeADCK67 = 6"
| "sample_time_val kLPADC_SampleTimeADCK131 = 7"

datatype lpadc_hardware_compare_mode =
  kLPADC_HardwareCompareDisabled | kLPADC_HardwareCompareStoreOnTrue | kLPADC_HardwareCompareRepeatUntilTrue

primrec hardware_compare_val :: "lpadc_hardware_compare_mode \<Rightarrow> u32" where
  "hardware_compare_val kLPADC_HardwareCompareDisabled = 0"
| "hardware_compare_val kLPADC_HardwareCompareStoreOnTrue = 2"
| "hardware_compare_val kLPADC_HardwareCompareRepeatUntilTrue = 3"

datatype lpadc_conversion_resolution_mode = kLPADC_ConversionResolutionStandard | kLPADC_ConversionResolutionHigh

primrec resolution_val :: "lpadc_conversion_resolution_mode \<Rightarrow> u32" where
  "resolution_val kLPADC_ConversionResolutionStandard = 0"
| "resolution_val kLPADC_ConversionResolutionHigh = 1"

datatype lpadc_conversion_average_mode =
    kLPADC_ConversionAverage1 | kLPADC_ConversionAverage2 | kLPADC_ConversionAverage4 | kLPADC_ConversionAverage8
  | kLPADC_ConversionAverage16 | kLPADC_ConversionAverage32 | kLPADC_ConversionAverage64
  | kLPADC_ConversionAverage128 | kLPADC_ConversionAverage256 | kLPADC_ConversionAverage512
  | kLPADC_ConversionAverage1024

primrec conversion_average_val :: "lpadc_conversion_average_mode \<Rightarrow> u32" where
  "conversion_average_val kLPADC_ConversionAverage1 = 0"
| "conversion_average_val kLPADC_ConversionAverage2 = 1"
| "conversion_average_val kLPADC_ConversionAverage4 = 2"
| "conversion_average_val kLPADC_ConversionAverage8 = 3"
| "conversion_average_val kLPADC_ConversionAverage16 = 4"
| "conversion_average_val kLPADC_ConversionAverage32 = 5"
| "conversion_average_val kLPADC_ConversionAverage64 = 6"
| "conversion_average_val kLPADC_ConversionAverage128 = 7"
| "conversion_average_val kLPADC_ConversionAverage256 = 8"
| "conversion_average_val kLPADC_ConversionAverage512 = 9"
| "conversion_average_val kLPADC_ConversionAverage1024 = 10"

datatype lpadc_reference_voltage_source =
  kLPADC_ReferenceVoltageAlt1 | kLPADC_ReferenceVoltageAlt2 | kLPADC_ReferenceVoltageAlt3

primrec lpadc_reference_val :: "lpadc_reference_voltage_source \<Rightarrow> u32" where
  "lpadc_reference_val kLPADC_ReferenceVoltageAlt1 = 0"
| "lpadc_reference_val kLPADC_ReferenceVoltageAlt2 = 1"
| "lpadc_reference_val kLPADC_ReferenceVoltageAlt3 = 2"

datatype lpadc_power_level_mode =
  kLPADC_PowerLevelAlt1 | kLPADC_PowerLevelAlt2 | kLPADC_PowerLevelAlt3 | kLPADC_PowerLevelAlt4

primrec power_level_val :: "lpadc_power_level_mode \<Rightarrow> u32" where
  "power_level_val kLPADC_PowerLevelAlt1 = 0"
| "power_level_val kLPADC_PowerLevelAlt2 = 1"
| "power_level_val kLPADC_PowerLevelAlt3 = 2"
| "power_level_val kLPADC_PowerLevelAlt4 = 3"

text \<open>The priority policy is a set of bits: two for the pre-emption, then restart, resume and disable.\<close>

datatype lpadc_trigger_priority_policy =
    kLPADC_ConvPreemptImmediatelyNotAutoResumed | kLPADC_ConvPreemptSoftlyNotAutoResumed
  | kLPADC_ConvPreemptImmediatelyAutoRestarted | kLPADC_ConvPreemptSoftlyAutoRestarted
  | kLPADC_ConvPreemptImmediatelyAutoResumed | kLPADC_ConvPreemptSoftlyAutoResumed
  | kLPADC_ConvPreemptSubsequentlyNotAutoResumed | kLPADC_ConvPreemptSubsequentlyAutoRestarted
  | kLPADC_ConvPreemptSubsequentlyAutoResumed | kLPADC_TriggerPriorityExceptionDisabled

primrec priority_policy_val :: "lpadc_trigger_priority_policy \<Rightarrow> u32" where
  "priority_policy_val kLPADC_ConvPreemptImmediatelyNotAutoResumed = 0x0"
| "priority_policy_val kLPADC_ConvPreemptSoftlyNotAutoResumed = 0x1"
| "priority_policy_val kLPADC_ConvPreemptImmediatelyAutoRestarted = 0x4"
| "priority_policy_val kLPADC_ConvPreemptSoftlyAutoRestarted = 0x5"
| "priority_policy_val kLPADC_ConvPreemptImmediatelyAutoResumed = 0xC"
| "priority_policy_val kLPADC_ConvPreemptSoftlyAutoResumed = 0xD"
| "priority_policy_val kLPADC_ConvPreemptSubsequentlyNotAutoResumed = 0x2"
| "priority_policy_val kLPADC_ConvPreemptSubsequentlyAutoRestarted = 0x6"
| "priority_policy_val kLPADC_ConvPreemptSubsequentlyAutoResumed = 0xE"
| "priority_policy_val kLPADC_TriggerPriorityExceptionDisabled = 0x10"

record lpadc_config =
  enableInDozeMode :: bool
  conversionAverageMode :: lpadc_conversion_average_mode
  enableAnalogPreliminary :: bool
  powerUpDelay :: u32
  referenceVoltageSource :: lpadc_reference_voltage_source
  powerLevelMode :: lpadc_power_level_mode
  triggerPriorityPolicy :: lpadc_trigger_priority_policy
  enableConvPause :: bool
  convPauseDelay :: u32
  FIFO0Watermark :: u32
  FIFO1Watermark :: u32

record lpadc_conv_command_config =
  sampleChannelMode :: lpadc_sample_channel_mode
  channelNumber :: u32
  channelBNumber :: u32
  chainedNextCommandNumber :: u32
  enableAutoChannelIncrement :: bool
  loopCount :: u32
  hardwareAverageMode :: lpadc_hardware_average_mode
  sampleTimeMode :: lpadc_sample_time_mode
  hardwareCompareMode :: lpadc_hardware_compare_mode
  hardwareCompareValueHigh :: u32
  hardwareCompareValueLow :: u32
  conversionResolutionMode :: lpadc_conversion_resolution_mode
  enableWaitTrigger :: bool
  enableChannelB :: bool

record lpadc_conv_trigger_config =
  targetCommandId :: u32
  delayPower :: u32
  priority :: u32
  channelAFIFOSelect :: u8
  channelBFIFOSelect :: u8
  enableHardwareTrigger :: bool

record lpadc_conv_result =
  commandIdSource :: u32
  loopCountIndex :: u32
  triggerIdSource :: u32
  convValue :: u16

record lpadc_calibration_value =
  gainCalibrationResultA :: u16
  gainCalibrationResultB :: u16
  generalCalibrationValueA :: "u16 list"
  generalCalibrationValueB :: "u16 list"

section \<open>Registers\<close>

record lpadc =
  ad_VERID :: u32
  ad_CTRL :: u32
  ad_STAT :: u32
  ad_IE :: u32
  ad_DE :: u32
  ad_CFG :: u32
  ad_PAUSE :: u32
  ad_SWTRIG :: u32
  ad_TSTAT :: u32
  ad_OFSTRIM :: u32
  ad_TCTRL :: "u32 list"
  ad_FCTRL :: "u32 list"
  ad_GCR :: "u32 list"
  ad_CMDL :: "u32 list"
  ad_CMDH :: "u32 list"
  ad_CV :: "u32 list"
  ad_CAL_GAR :: "u32 list"
  ad_CAL_GBR :: "u32 list"

record lpadc_layout =
  CTRL_ADCEN :: bitfield
  CTRL_RST :: bitfield
  CTRL_DOZEN :: bitfield
  CTRL_CAL_REQ :: bitfield
  CTRL_CALOFS :: bitfield
  CTRL_RSTFIFO0 :: bitfield
  CTRL_RSTFIFO1 :: bitfield
  CTRL_CAL_AVGS :: bitfield
  STAT_CAL_RDY :: bitfield
  IE_FWMIE0 :: bitfield
  IE_TCOMP_IE :: bitfield
  DE_FWMDE0 :: bitfield
  DE_FWMDE1 :: bitfield
  CFG_TPRICTRL :: bitfield
  CFG_PWRSEL :: bitfield
  CFG_REFSEL :: bitfield
  CFG_TRES :: bitfield
  CFG_TCMDRES :: bitfield
  CFG_HPT_EXDI :: bitfield
  CFG_PUDLY :: bitfield
  CFG_PWREN :: bitfield
  PAUSE_PAUSEEN :: bitfield
  PAUSE_PAUSEDLY :: bitfield
  TSTAT_TEXC_NUM :: bitfield
  TSTAT_TCOMP_FLAG :: bitfield
  OFSTRIM_A :: bitfield
  OFSTRIM_B :: bitfield
  TCTRL_HTEN :: bitfield
  TCTRL_FIFO_SEL_A :: bitfield
  TCTRL_FIFO_SEL_B :: bitfield
  TCTRL_TPRI :: bitfield
  TCTRL_TDLY :: bitfield
  TCTRL_TCMD :: bitfield
  FCTRL_FCOUNT :: bitfield
  FCTRL_FWMARK :: bitfield
  GCC_GAIN_CAL :: bitfield
  GCC_RDY :: bitfield
  GCR_GCALR :: bitfield
  GCR_RDY :: bitfield
  CMDL_ADCH :: bitfield
  CMDL_MODE :: bitfield
  CMDL_ALTB_ADCH :: bitfield
  CMDL_ALTBEN :: bitfield
  CMDH_CMPEN :: bitfield
  CMDH_WAIT_TRIG :: bitfield
  CMDH_LWI :: bitfield
  CMDH_STS :: bitfield
  CMDH_AVGS :: bitfield
  CMDH_LOOP :: bitfield
  CMDH_NEXT :: bitfield
  CV_CVL :: bitfield
  CV_CVH :: bitfield
  RESFIFO_D :: bitfield
  RESFIFO_TSRC :: bitfield
  RESFIFO_LOOPCNT :: bitfield
  RESFIFO_CMDSRC :: bitfield
  RESFIFO_VALID :: bitfield

text \<open>The field of the command register that the driver itself defines, and two bits of the version register.\<close>

definition ADC_CMDL_CHANNEL_MODE :: bitfield where
  "ADC_CMDL_CHANNEL_MODE = \<lparr>fshift = 5, fwidth = 2\<rparr>"

definition ADC_VERID_DIFFEN :: bitfield where
  "ADC_VERID_DIFFEN = \<lparr>fshift = 1, fwidth = 1\<rparr>"

definition ADC_VERID_NUM_SEC :: bitfield where
  "ADC_VERID_NUM_SEC = \<lparr>fshift = 11, fwidth = 1\<rparr>"

definition GET_ADC_CFG_TPRICTRL_VALUE :: "u32 \<Rightarrow> u32" where
  "GET_ADC_CFG_TPRICTRL_VALUE v = v AND 0x3"

definition GET_ADC_CFG_TRES_VALUE :: "u32 \<Rightarrow> u32" where
  "GET_ADC_CFG_TRES_VALUE v = drop_bit 2 (v AND 0x4)"

definition GET_ADC_CFG_TCMDRES_VALUE :: "u32 \<Rightarrow> u32" where
  "GET_ADC_CFG_TCMDRES_VALUE v = drop_bit 3 (v AND 0x8)"

definition GET_ADC_CFG_HPT_EXDI_VALUE :: "u32 \<Rightarrow> u32" where
  "GET_ADC_CFG_HPT_EXDI_VALUE v = drop_bit 4 (v AND 0x10)"

type_synonym lpadc_dev = "lpadc \<times> sys_call list"

section \<open>Simple operations\<close>

definition LPADC_GetInstance :: "'a list \<Rightarrow> 'a \<Rightarrow> nat res" where
  "LPADC_GetInstance s_lpadcBases base = get_instance s_lpadcBases base"

definition LPADC_Enable :: "lpadc_layout \<Rightarrow> bool \<Rightarrow> lpadc \<Rightarrow> lpadc" where
  "LPADC_Enable L enable r =
     r\<lparr>ad_CTRL := (if enable then ad_CTRL r OR fmask (CTRL_ADCEN L) else ad_CTRL r AND NOT (fmask (CTRL_ADCEN L)))\<rparr>"

text \<open>The FIFO reset bits clear themselves; the module reset bit is set and cleared.\<close>

definition LPADC_DoResetFIFO0 :: "lpadc_layout \<Rightarrow> lpadc \<Rightarrow> lpadc" where
  "LPADC_DoResetFIFO0 L r = r\<lparr>ad_CTRL := ad_CTRL r OR fmask (CTRL_RSTFIFO0 L)\<rparr>"

definition LPADC_DoResetFIFO1 :: "lpadc_layout \<Rightarrow> lpadc \<Rightarrow> lpadc" where
  "LPADC_DoResetFIFO1 L r = r\<lparr>ad_CTRL := ad_CTRL r OR fmask (CTRL_RSTFIFO1 L)\<rparr>"

definition LPADC_DoResetConfig :: "lpadc_layout \<Rightarrow> lpadc \<Rightarrow> lpadc" where
  "LPADC_DoResetConfig L r =
     (let r = r\<lparr>ad_CTRL := ad_CTRL r OR fmask (CTRL_RST L)\<rparr>
      in r\<lparr>ad_CTRL := ad_CTRL r AND NOT (fmask (CTRL_RST L))\<rparr>)"

definition LPADC_GetStatusFlags :: "lpadc \<Rightarrow> u32" where
  "LPADC_GetStatusFlags r = ad_STAT r"

definition LPADC_ClearStatusFlags :: "u32 \<Rightarrow> lpadc \<Rightarrow> lpadc" where
  "LPADC_ClearStatusFlags m r = r\<lparr>ad_STAT := ad_STAT r AND NOT m\<rparr>"

definition LPADC_GetTriggerStatusFlags :: "lpadc \<Rightarrow> u32" where
  "LPADC_GetTriggerStatusFlags r = ad_TSTAT r"

definition LPADC_ClearTriggerStatusFlags :: "lpadc_layout \<Rightarrow> u32 \<Rightarrow> lpadc \<Rightarrow> lpadc res" where
  "LPADC_ClearTriggerStatusFlags L m r =
     (if m AND 0xFFFF = m AND fmask (TSTAT_TEXC_NUM L) \<and> m AND 0xFFFF0000 = m AND fmask (TSTAT_TCOMP_FLAG L)
      then Inr (r\<lparr>ad_TSTAT := ad_TSTAT r AND NOT m\<rparr>) else Inl AssertFailed)"

definition trigger_sources_ok :: "lpadc_layout \<Rightarrow> u32 \<Rightarrow> bool" where
  "trigger_sources_ok L m \<longleftrightarrow> m \<le> 0xFFFF \<or> m AND 0xFFFF0000 = m AND fmask (IE_TCOMP_IE L)"

definition LPADC_EnableInterrupts :: "lpadc_layout \<Rightarrow> u32 \<Rightarrow> lpadc \<Rightarrow> lpadc res" where
  "LPADC_EnableInterrupts L m r =
     (if trigger_sources_ok L m then Inr (r\<lparr>ad_IE := ad_IE r OR m\<rparr>) else Inl AssertFailed)"

definition LPADC_DisableInterrupts :: "lpadc_layout \<Rightarrow> u32 \<Rightarrow> lpadc \<Rightarrow> lpadc res" where
  "LPADC_DisableInterrupts L m r =
     (if trigger_sources_ok L m then Inr (r\<lparr>ad_IE := ad_IE r AND NOT m\<rparr>) else Inl AssertFailed)"

definition LPADC_EnableFIFO0WatermarkDMA :: "lpadc_layout \<Rightarrow> bool \<Rightarrow> lpadc \<Rightarrow> lpadc" where
  "LPADC_EnableFIFO0WatermarkDMA L enable r =
     r\<lparr>ad_DE := (if enable then ad_DE r OR fmask (DE_FWMDE0 L) else ad_DE r AND NOT (fmask (DE_FWMDE0 L)))\<rparr>"

definition LPADC_EnableFIFO1WatermarkDMA :: "lpadc_layout \<Rightarrow> bool \<Rightarrow> lpadc \<Rightarrow> lpadc" where
  "LPADC_EnableFIFO1WatermarkDMA L enable r =
     r\<lparr>ad_DE := (if enable then ad_DE r OR fmask (DE_FWMDE1 L) else ad_DE r AND NOT (fmask (DE_FWMDE1 L)))\<rparr>"

definition LPADC_GetConvResultCount :: "lpadc_layout \<Rightarrow> nat \<Rightarrow> lpadc \<Rightarrow> u32 res" where
  "LPADC_GetConvResultCount L index r = rbind (arr_get (ad_FCTRL r) index) (\<lambda>w. Inr (fget (FCTRL_FCOUNT L) w))"

definition LPADC_DoSoftwareTrigger :: "u32 \<Rightarrow> lpadc \<Rightarrow> lpadc" where
  "LPADC_DoSoftwareTrigger triggerIdMask r = r\<lparr>ad_SWTRIG := triggerIdMask\<rparr>"

definition LPADC_SetOffsetValue :: "lpadc_layout \<Rightarrow> c_int \<Rightarrow> c_int \<Rightarrow> lpadc \<Rightarrow> lpadc" where
  "LPADC_SetOffsetValue L valueA valueB r =
     r\<lparr>ad_OFSTRIM := fval (OFSTRIM_A L) valueA OR fval (OFSTRIM_B L) valueB\<rparr>"

text \<open>Sign extension of an offset: \<open>MAX\<close> is the mask moved down, \<open>SIGN\<close> its top bit.\<close>

definition sign_extended :: "bitfield \<Rightarrow> u32 \<Rightarrow> c_int" where
  "sign_extended f reg =
     (let m = drop_bit (fshift f) (fmask f); sign = drop_bit 1 (m + 1); v = fget f reg
      in if v AND sign \<noteq> 0 then v OR NOT m else v)"

definition LPADC_GetOffsetValue :: "lpadc_layout \<Rightarrow> lpadc \<Rightarrow> c_int \<times> c_int" where
  "LPADC_GetOffsetValue L r = (sign_extended (OFSTRIM_A L) (ad_OFSTRIM r), sign_extended (OFSTRIM_B L) (ad_OFSTRIM r))"

definition LPADC_EnableOffsetCalibration :: "lpadc_layout \<Rightarrow> bool \<Rightarrow> lpadc \<Rightarrow> lpadc" where
  "LPADC_EnableOffsetCalibration L enable r =
     r\<lparr>ad_CTRL := (if enable then ad_CTRL r OR fmask (CTRL_CALOFS L) else ad_CTRL r AND NOT (fmask (CTRL_CALOFS L)))\<rparr>"

section \<open>Initialisation\<close>

definition LPADC_GetDefaultConfig :: lpadc_config where
  "LPADC_GetDefaultConfig =
    \<lparr>enableInDozeMode = True, conversionAverageMode = kLPADC_ConversionAverage1, enableAnalogPreliminary = False,
     powerUpDelay = 0x80, referenceVoltageSource = kLPADC_ReferenceVoltageAlt1, powerLevelMode = kLPADC_PowerLevelAlt1,
     triggerPriorityPolicy = kLPADC_ConvPreemptImmediatelyNotAutoResumed, enableConvPause = False, convPauseDelay = 0,
     FIFO0Watermark = 0, FIFO1Watermark = 0\<rparr>"

definition LPADC_Init :: "lpadc_layout \<Rightarrow> nat \<Rightarrow> lpadc_config \<Rightarrow> lpadc_dev \<Rightarrow> lpadc_dev res" where
  "LPADC_Init L n config d =
     (let (r, calls) = d;
          calls = calls @ [CLOCK_EnableClock (LPADC n)];
          r = LPADC_DoResetFIFO1 L (LPADC_DoResetFIFO0 L (LPADC_DoResetConfig L r));
          r = LPADC_Enable L False r;
          r = (if enableInDozeMode config then r\<lparr>ad_CTRL := ad_CTRL r AND NOT (fmask (CTRL_DOZEN L))\<rparr>
               else r\<lparr>ad_CTRL := ad_CTRL r OR fmask (CTRL_DOZEN L)\<rparr>);
          r = r\<lparr>ad_CTRL := ad_CTRL r OR fval (CTRL_CAL_AVGS L) (conversion_average_val (conversionAverageMode config))\<rparr>;
          policy = priority_policy_val (triggerPriorityPolicy config);
          tmp32 = 0;
          tmp32 = (if enableAnalogPreliminary config then tmp32 OR fmask (CFG_PWREN L) else tmp32);
          tmp32 = tmp32 OR (fval (CFG_PUDLY L) (powerUpDelay config) OR
                    fval (CFG_REFSEL L) (lpadc_reference_val (referenceVoltageSource config)) OR
                    fval (CFG_PWRSEL L) (power_level_val (powerLevelMode config)));
          tmp32 = tmp32 OR fval (CFG_TPRICTRL L) (GET_ADC_CFG_TPRICTRL_VALUE policy);
          tmp32 = tmp32 OR fval (CFG_TRES L) (GET_ADC_CFG_TRES_VALUE policy);
          tmp32 = tmp32 OR fval (CFG_TCMDRES L) (GET_ADC_CFG_TCMDRES_VALUE policy);
          tmp32 = tmp32 OR fval (CFG_HPT_EXDI L) (GET_ADC_CFG_HPT_EXDI_VALUE policy);
          r = r\<lparr>ad_CFG := tmp32\<rparr>;
          r = r\<lparr>ad_PAUSE := (if enableConvPause config
                 then fmask (PAUSE_PAUSEEN L) OR fval (PAUSE_PAUSEDLY L) (convPauseDelay config) else 0)\<rparr>
      in rbind (arr_set (ad_FCTRL r) 0 (fval (FCTRL_FWMARK L) (FIFO0Watermark config))) (\<lambda>f.
         rbind (arr_set f 1 (fval (FCTRL_FWMARK L) (FIFO1Watermark config))) (\<lambda>f.
           Inr (LPADC_Enable L True (r\<lparr>ad_FCTRL := f\<rparr>), calls))))"

definition LPADC_Deinit :: "lpadc_layout \<Rightarrow> nat \<Rightarrow> lpadc_dev \<Rightarrow> lpadc_dev" where
  "LPADC_Deinit L n d = (LPADC_Enable L False (fst d), snd d @ [CLOCK_DisableClock (LPADC n)])"

section \<open>Results\<close>

text \<open>\<open>tmp32\<close> is the word that the read of the result FIFO returned.\<close>

definition result_of_word :: "lpadc_layout \<Rightarrow> u32 \<Rightarrow> lpadc_conv_result" where
  "result_of_word L tmp32 =
    \<lparr>commandIdSource = fget (RESFIFO_CMDSRC L) tmp32, loopCountIndex = fget (RESFIFO_LOOPCNT L) tmp32,
     triggerIdSource = fget (RESFIFO_TSRC L) tmp32, convValue = ucast (tmp32 AND fmask (RESFIFO_D L))\<rparr>"

definition LPADC_GetConvResult :: "lpadc_layout \<Rightarrow> u32 \<Rightarrow> lpadc_conv_result \<Rightarrow> bool \<times> lpadc_conv_result" where
  "LPADC_GetConvResult L tmp32 result =
     (if fmask (RESFIFO_VALID L) \<noteq> tmp32 AND fmask (RESFIFO_VALID L) then (False, result)
      else (True, result_of_word L tmp32))"

text \<open>The blocking variant over the words that successive reads return, with the words it has not read.\<close>

primrec LPADC_GetConvResultBlocking :: "lpadc_layout \<Rightarrow> u32 list \<Rightarrow> (lpadc_conv_result \<times> u32 list) option" where
  "LPADC_GetConvResultBlocking L [] = None"
| "LPADC_GetConvResultBlocking L (tmp32 # reads) =
     (if fmask (RESFIFO_VALID L) \<noteq> tmp32 AND fmask (RESFIFO_VALID L) then LPADC_GetConvResultBlocking L reads
      else Some (result_of_word L tmp32, reads))"

section \<open>Triggers and commands\<close>

definition LPADC_GetDefaultConvTriggerConfig :: lpadc_conv_trigger_config where
  "LPADC_GetDefaultConvTriggerConfig =
    \<lparr>targetCommandId = 0, delayPower = 0, priority = 0, channelAFIFOSelect = 0, channelBFIFOSelect = 0,
     enableHardwareTrigger = False\<rparr>"

text \<open>The number of triggers \<open>ADC_TCTRL_COUNT\<close> is the length of the register array.\<close>

definition LPADC_SetConvTriggerConfig ::
  "lpadc_layout \<Rightarrow> nat \<Rightarrow> lpadc_conv_trigger_config \<Rightarrow> lpadc \<Rightarrow> lpadc res" where
  "LPADC_SetConvTriggerConfig L triggerId config r =
     (if \<not> triggerId < length (ad_TCTRL r) then Inl AssertFailed
      else
        let tmp32 = fval (TCTRL_TCMD L) (targetCommandId config) OR fval (TCTRL_TDLY L) (delayPower config) OR
              fval (TCTRL_TPRI L) (priority config) OR
              fval (TCTRL_FIFO_SEL_A L) (ucast (channelAFIFOSelect config)) OR
              fval (TCTRL_FIFO_SEL_B L) (ucast (channelBFIFOSelect config));
            tmp32 = (if enableHardwareTrigger config then tmp32 OR fmask (TCTRL_HTEN L) else tmp32)
        in rbind (arr_set (ad_TCTRL r) triggerId tmp32) (\<lambda>t. Inr (r\<lparr>ad_TCTRL := t\<rparr>)))"

definition LPADC_GetDefaultConvCommandConfig :: lpadc_conv_command_config where
  "LPADC_GetDefaultConvCommandConfig =
    \<lparr>sampleChannelMode = kLPADC_SampleChannelSingleEndSideA, channelNumber = 0, channelBNumber = 0,
     chainedNextCommandNumber = 0, enableAutoChannelIncrement = False, loopCount = 0,
     hardwareAverageMode = kLPADC_HardwareAverageCount1, sampleTimeMode = kLPADC_SampleTimeADCK3,
     hardwareCompareMode = kLPADC_HardwareCompareDisabled, hardwareCompareValueHigh = 0, hardwareCompareValueLow = 0,
     conversionResolutionMode = kLPADC_ConversionResolutionStandard, enableWaitTrigger = False, enableChannelB = False\<rparr>"

text \<open>The assertion on the sample mode: differential and dual modes need the matching capability bit.\<close>

definition sample_mode_allowed :: "lpadc \<Rightarrow> lpadc_sample_channel_mode \<Rightarrow> bool" where
  "sample_mode_allowed r m \<longleftrightarrow>
     (m = kLPADC_SampleChannelDiffBothSide \<and> ad_VERID r AND fmask ADC_VERID_DIFFEN \<noteq> 0) \<or>
     (m = kLPADC_SampleChannelDualSingleEndBothSide \<and> ad_VERID r AND fmask ADC_VERID_NUM_SEC \<noteq> 0) \<or>
     sample_channel_val m < sample_channel_val kLPADC_SampleChannelDualSingleEndBothSide"

text \<open>
  Command \<open>id\<close> is register pair \<open>id - 1\<close>; the counts \<open>ADC_CMDL_COUNT\<close> and \<open>ADC_CV_COUNT\<close> are the lengths of the register arrays. Command 0
  passes the assertion and its decremented number is outside them.
\<close>

definition LPADC_SetConvCommandConfig ::
  "lpadc_layout \<Rightarrow> nat \<Rightarrow> lpadc_conv_command_config \<Rightarrow> lpadc \<Rightarrow> lpadc res" where
  "LPADC_SetConvCommandConfig L commandId config r =
     (if \<not> commandId < length (ad_CMDL r) + 1 then Inl AssertFailed
      else if \<not> sample_mode_allowed r (sampleChannelMode config) then Inl AssertFailed
      else if commandId = 0 then Inl OutOfBounds
      else
        let k = commandId - 1;
            tmp32 = fval (CMDL_ADCH L) (channelNumber config);
            tmp32 = tmp32 OR fval (CMDL_ALTB_ADCH L) (channelBNumber config);
            tmp32 = tmp32 OR fval ADC_CMDL_CHANNEL_MODE (sample_channel_val (sampleChannelMode config));
            tmp32 = tmp32 OR fval (CMDL_MODE L) (resolution_val (conversionResolutionMode config));
            tmp32 = (if enableChannelB config then tmp32 OR fmask (CMDL_ALTBEN L) else tmp32)
        in rbind (arr_set (ad_CMDL r) k tmp32) (\<lambda>cmdl.
           let tmp32 = fval (CMDH_NEXT L) (chainedNextCommandNumber config) OR fval (CMDH_LOOP L) (loopCount config) OR
                 fval (CMDH_AVGS L) (hardware_average_val (hardwareAverageMode config)) OR
                 fval (CMDH_STS L) (sample_time_val (sampleTimeMode config)) OR
                 fval (CMDH_CMPEN L) (hardware_compare_val (hardwareCompareMode config));
               tmp32 = (if enableWaitTrigger config then tmp32 OR fmask (CMDH_WAIT_TRIG L) else tmp32);
               tmp32 = (if enableAutoChannelIncrement config then tmp32 OR fmask (CMDH_LWI L) else tmp32)
           in rbind (arr_set (ad_CMDH r) k tmp32) (\<lambda>cmdh.
              if hardwareCompareMode config \<noteq> kLPADC_HardwareCompareDisabled \<and> k < length (ad_CV r)
              then rbind (arr_set (ad_CV r) k (fval (CV_CVH L) (hardwareCompareValueHigh config) OR
                            fval (CV_CVL L) (hardwareCompareValueLow config))) (\<lambda>cv.
                     Inr (r\<lparr>ad_CMDL := cmdl, ad_CMDH := cmdh, ad_CV := cv\<rparr>))
              else Inr (r\<lparr>ad_CMDL := cmdl, ad_CMDH := cmdh\<rparr>))))"

section \<open>Calibration\<close>

text \<open>Polling: the first word in which the bit is set, and the words after it.\<close>

primrec poll :: "bitfield \<Rightarrow> u32 list \<Rightarrow> u32 list option" where
  "poll f [] = None"
| "poll f (w # ws) = (if fmask f \<noteq> w AND fmask f then poll f ws else Some ws)"

definition LPADC_DoOffsetCalibration :: "lpadc_layout \<Rightarrow> u32 list \<Rightarrow> lpadc \<Rightarrow> lpadc option" where
  "LPADC_DoOffsetCalibration L stat r =
     (let r = LPADC_EnableOffsetCalibration L True r
      in case poll (STAT_CAL_RDY L) stat of None \<Rightarrow> None | Some _ \<Rightarrow> Some r)"

definition LPADC_PrepareAutoCalibration :: "lpadc_layout \<Rightarrow> lpadc \<Rightarrow> lpadc res" where
  "LPADC_PrepareAutoCalibration L r =
     rbind (LPADC_GetConvResultCount L 0 r) (\<lambda>c0.
     if c0 \<noteq> 0 then Inl AssertFailed
     else rbind (LPADC_GetConvResultCount L 1 r) (\<lambda>c1.
     if c1 \<noteq> 0 then Inl AssertFailed
     else Inr (r\<lparr>ad_CTRL := ad_CTRL r OR fmask (CTRL_CAL_REQ L)\<rparr>)))"

text \<open>
  The gain as a binary fraction: seventeen digits, from \<open>2 ^ 0\<close> down to \<open>2 ^ -16\<close>, each found by a division, a truncation and a subtraction in
  single precision.
\<close>

definition gain_unit :: "nat \<Rightarrow> fp" where
  "gain_unit k = fp_cast fl32 (fp_div fl64 (fl64 1) (Fin (real (2 ^ k))))"

definition gain_digit :: "nat \<Rightarrow> fp \<Rightarrow> (u32 \<times> fp) res" where
  "gain_digit k gainAdjustment =
     rbind (fp_to_u32 (fp_div fl32 gainAdjustment (gain_unit k))) (\<lambda>tmp32.
       Inr (tmp32, fp_sub fl32 gainAdjustment (fp_mul fl32 (f32_of_u32 tmp32) (gain_unit k))))"

primrec gain_digits :: "nat list \<Rightarrow> fp \<Rightarrow> u32 list res" where
  "gain_digits [] gainAdjustment = Inr []"
| "gain_digits (k # ks) gainAdjustment =
     rbind (gain_digit k gainAdjustment) (\<lambda>(t, g). rbind (gain_digits ks g) (\<lambda>ts. Inr (t # ts)))"

definition LPADC_GetGainConvResult :: "fp \<Rightarrow> u32 res" where
  "LPADC_GetGainConvResult gainAdjustment =
     rbind (gain_digits [0..<17] gainAdjustment) (\<lambda>ts.
       Inr (sum_list (map2 (\<lambda>t k. t * push_bit (16 - k) 1) ts [0..<17])))"

text \<open>\<open>(float)(131072.0 / (131072.0 - (double)GCC))\<close>\<close>

definition calibration_gain :: "u32 \<Rightarrow> fp" where
  "calibration_gain GCC =
     fp_cast fl32 (fp_div fl64 (fl64 131072) (fp_sub fl64 (fl64 131072) (fl64 (real (unat GCC)))))"

text \<open>
  The wait for both gain registers, over the pairs of words they hold at each turn of the loop; the
  values used afterwards are those that ended the wait.
\<close>

primrec poll_gain :: "lpadc_layout \<Rightarrow> (u32 \<times> u32) list \<Rightarrow> (u32 \<times> u32) option" where
  "poll_gain L [] = None"
| "poll_gain L (g # gs) =
     (if fmask (GCC_RDY L) \<noteq> fst g AND fmask (GCC_RDY L) \<or> fmask (GCC_RDY L) \<noteq> snd g AND fmask (GCC_RDY L)
      then poll_gain L gs else Some g)"

definition write_gain :: "lpadc_layout \<Rightarrow> u32 \<Rightarrow> u32 \<Rightarrow> lpadc \<Rightarrow> lpadc res" where
  "write_gain L gcc0 gcc1 r =
     rbind (LPADC_GetGainConvResult (calibration_gain (gcc0 AND fmask (GCC_GAIN_CAL L)))) (\<lambda>a.
     rbind (arr_set (ad_GCR r) 0 a) (\<lambda>gcr.
     rbind (LPADC_GetGainConvResult (calibration_gain (gcc1 AND fmask (GCC_GAIN_CAL L)))) (\<lambda>b.
     rbind (arr_set gcr 1 b) (\<lambda>gcr.
     rbind (arr_get gcr 0) (\<lambda>a. rbind (arr_set gcr 0 (a OR fmask (GCR_RDY L))) (\<lambda>gcr.
     rbind (arr_get gcr 1) (\<lambda>b. rbind (arr_set gcr 1 (b OR fmask (GCR_RDY L))) (\<lambda>gcr.
       Inr (r\<lparr>ad_GCR := gcr\<rparr>)))))))))"

definition LPADC_FinishAutoCalibration ::
  "lpadc_layout \<Rightarrow> (u32 \<times> u32) list \<Rightarrow> u32 list \<Rightarrow> lpadc \<Rightarrow> lpadc res option" where
  "LPADC_FinishAutoCalibration L gcc stat r =
     (case poll_gain L gcc of
        None \<Rightarrow> None
      | Some (gcc0, gcc1) \<Rightarrow>
          (case write_gain L gcc0 gcc1 r of
             Inl e \<Rightarrow> Some (Inl e)
           | Inr r \<Rightarrow> (case poll (STAT_CAL_RDY L) stat of None \<Rightarrow> None | Some _ \<Rightarrow> Some (Inr r))))"

definition LPADC_DoAutoCalibration ::
  "lpadc_layout \<Rightarrow> (u32 \<times> u32) list \<Rightarrow> u32 list \<Rightarrow> lpadc \<Rightarrow> lpadc res option" where
  "LPADC_DoAutoCalibration L gcc stat r =
     (case LPADC_PrepareAutoCalibration L r of
        Inl e \<Rightarrow> Some (Inl e)
      | Inr r \<Rightarrow> LPADC_FinishAutoCalibration L gcc stat r)"

text \<open>Saving and restoring the calibration, with the converter disabled meanwhile if it was enabled.\<close>

definition read16 :: "u32 list \<Rightarrow> u16 list res" where
  "read16 ws = (if length ws < 33 then Inl OutOfBounds else Inr (map (\<lambda>w. ucast (w AND 0xFFFF)) (take 33 ws)))"

definition LPADC_GetCalibrationValue ::
  "lpadc_layout \<Rightarrow> lpadc \<Rightarrow> (lpadc_calibration_value \<times> lpadc) res" where
  "LPADC_GetCalibrationValue L r =
     (let adcEnabled = (ad_CTRL r AND fmask (CTRL_ADCEN L) \<noteq> 0);
          r = (if adcEnabled then LPADC_Enable L False r else r)
      in rbind (read16 (ad_CAL_GAR r)) (\<lambda>a. rbind (read16 (ad_CAL_GBR r)) (\<lambda>b.
         rbind (arr_get (ad_GCR r) 0) (\<lambda>ga. rbind (arr_get (ad_GCR r) 1) (\<lambda>gb.
           Inr (\<lparr>gainCalibrationResultA = ucast (ga AND fmask (GCR_GCALR L)),
                 gainCalibrationResultB = ucast (gb AND fmask (GCR_GCALR L)),
                 generalCalibrationValueA = a, generalCalibrationValueB = b\<rparr>,
                if adcEnabled then LPADC_Enable L True r else r))))))"

definition write16 :: "u16 list \<Rightarrow> u32 list \<Rightarrow> u32 list res" where
  "write16 vs ws = (if length vs < 33 \<or> length ws < 33 then Inl OutOfBounds
                    else Inr (map ucast (take 33 vs) @ drop 33 ws))"

definition LPADC_SetCalibrationValue ::
  "lpadc_layout \<Rightarrow> lpadc_calibration_value \<Rightarrow> u32 list \<Rightarrow> lpadc \<Rightarrow> lpadc res option" where
  "LPADC_SetCalibrationValue L v stat r =
     (let adcEnabled = (ad_CTRL r AND fmask (CTRL_ADCEN L) \<noteq> 0);
          r = (if adcEnabled then LPADC_Enable L False r else r)
      in case rbind (write16 (generalCalibrationValueA v) (ad_CAL_GAR r)) (\<lambda>a.
              rbind (write16 (generalCalibrationValueB v) (ad_CAL_GBR r)) (\<lambda>b.
              rbind (arr_set (ad_GCR r) 0 (fval (GCR_GCALR L) (ucast (gainCalibrationResultA v)) OR fmask (GCR_RDY L))) (\<lambda>g.
              rbind (arr_set g 1 (fval (GCR_GCALR L) (ucast (gainCalibrationResultB v)) OR fmask (GCR_RDY L))) (\<lambda>g.
                Inr (r\<lparr>ad_CAL_GAR := a, ad_CAL_GBR := b, ad_GCR := g\<rparr>))))) of
           Inl e \<Rightarrow> Some (Inl e)
         | Inr r \<Rightarrow>
             (case poll (STAT_CAL_RDY L) stat of
                None \<Rightarrow> None
              | Some _ \<Rightarrow> Some (Inr (if adcEnabled then LPADC_Enable L True r else r))))"

section \<open>The gain conversion is exact\<close>

text \<open>Scaling a number of the format up, and taking its leading binary digit off, stay in the format.\<close>

lemma rep32_scale: "rep32 x \<Longrightarrow> rep32 (x * 2 ^ k)"
proof -
  assume "rep32 x"
  then obtain m e where m: "x = of_int m * 2 powi e" "\<bar>m\<bar> \<le> 2 ^ 24" "- 149 \<le> e"
    by (auto simp: representable_def)
  then have "x * 2 ^ k = of_int m * 2 powi (e + int k)"
    by (simp add: powi2_add_nat)
  then show "rep32 (x * 2 ^ k)"
    using m(2,3) representable_scaled[of m 24 "- 149" "e + int k"] by simp
qed

lemma rep32_sub_lead:
  assumes "rep32 x" and "1 / 2 ^ k \<le> x" and "x < 2 / 2 ^ k"
  shows "rep32 (x - 1 / 2 ^ k)"
proof -
  obtain m e where m: "x = of_int m * 2 powi e" "\<bar>m\<bar> \<le> 2 ^ 24" "- 149 \<le> e"
    using assms(1) by (auto simp: representable_def)
  have unit: "1 / 2 ^ k = (2::real) powi (- int k)"
    by (simp add: power_int_minus field_simps)
  have "0 < x" using assms(2) by (smt (verit) divide_pos_pos zero_less_power)
  then have "0 < m" using m(1) powi2_pos[of e] by (simp add: zero_less_mult_iff)
  have "2 powi e * 1 \<le> (2::real) powi e * of_int m"
    using \<open>0 < m\<close> by (intro mult_left_mono) auto
  then have "2 powi e \<le> x" using m(1) by (simp add: mult.commute)
  moreover have "2 / 2 ^ k = (2::real) powi (1 - int k)"
    by (simp add: power_int_diff)
  ultimately have "2 powi e < (2::real) powi (1 - int k)"
    using assms(3) by linarith
  then have "e \<le> - int k" by (simp add: powi2_less_iff)
  then obtain n where n: "- int k = e + int n" using zle_iff_zadd by auto
  have diff: "x - 1 / 2 ^ k = of_int (m - 2 ^ n) * 2 powi e"
    unfolding unit n powi2_add_nat m(1) by (simp add: algebra_simps)
  have "0 \<le> x - 1 / 2 ^ k" using assms(2) by simp
  then have "0 \<le> of_int (m - 2 ^ n) * (2::real) powi e" by (simp only: diff)
  then have "0 \<le> m - 2 ^ n"
    by (metis mult_less_0_iff not_less of_int_less_0_iff powi2_pos)
  moreover have "m - 2 ^ n \<le> 2 ^ 24"
    using m(2) by (smt (verit) zero_less_power)
  ultimately show ?thesis
    unfolding diff using m(3) by (intro representable_scaled) auto
qed

lemma fl32_exact: "rep32 x \<Longrightarrow> \<bar>x\<bar> \<le> 2 ^ 100 \<Longrightarrow> fl32 x = Fin x"
  by (simp add: fl32_finite r32.exact)

lemma rep32_unit: "k \<le> 17 \<Longrightarrow> rep32 (1 / 2 ^ k)"
  using representable_scaled[of 1 24 "- 149" "- int k"] by (simp add: power_int_minus field_simps)

lemma gain_unit_exact:
  assumes "k \<le> 17"
  shows "gain_unit k = Fin (1 / 2 ^ k)"
proof -
  have "rep64 (1 / 2 ^ k)"
    using representable_scaled[of 1 53 "- 1074" "- int k"] assms by (simp add: power_int_minus field_simps)
  moreover have "1 / 2 ^ k \<le> (1::real)" by simp
  then have small: "\<bar>1 / 2 ^ k\<bar> \<le> (2::real) ^ 1000" "\<bar>1 / 2 ^ k\<bar> \<le> (2::real) ^ 100"
    by (smt (verit) divide_nonneg_nonneg one_le_power zero_le_power)+
  ultimately have "fl64 (1 / 2 ^ k) = Fin (1 / 2 ^ k)"
    by (simp add: fl64_finite r64.exact)
  moreover have "fl64 1 = Fin 1" using fl64_nat[of 1] by simp
  ultimately show ?thesis
    using small rep32_unit[OF assms] by (simp add: gain_unit_def fl32_exact)
qed

text \<open>One step takes the digit of weight \<open>2 ^ -k\<close> off, without any rounding.\<close>

lemma gain_digit_exact:
  assumes "rep32 g" and "0 \<le> g" and "g < 2 / 2 ^ k" and "k \<le> 17"
  shows "gain_digit k (Fin g) =
      (if 1 / 2 ^ k \<le> g then Inr (1, Fin (g - 1 / 2 ^ k)) else Inr (0, Fin g))"
    and "1 / 2 ^ k \<le> g \<Longrightarrow> rep32 (g - 1 / 2 ^ k)"
proof -
  let ?x = "g * 2 ^ k"
  have le2: "?x < 2" using assms(3) by (simp add: field_simps)
  have "1 \<le> (2::real) ^ k" by simp
  then have "g \<le> ?x" using assms(2) mult_left_mono[of 1 "2 ^ k" g] by simp
  then have "g \<le> 2" using le2 by simp
  have big: "(2::real) \<le> 2 ^ 100" by simp
  have f: "fl32 ?x = Fin ?x" "fl32 g = Fin g"
    using rep32_scale[OF assms(1)] assms(1,2) le2 \<open>g \<le> 2\<close> big by (auto intro!: fl32_exact)
  have quot: "fp_div fl32 (Fin g) (gain_unit k) = Fin ?x"
    using assms(4) f by (simp add: gain_unit_exact)
  have conv: "fp_to_u32 (Fin ?x) = Inr (if 1 / 2 ^ k \<le> g then 1 else 0)"
  proof -
    have "0 \<le> ?x" using assms(2) by simp
    then have "\<lfloor>?x\<rfloor> = (if 1 / 2 ^ k \<le> g then 1 else 0)"
      using le2 by (auto simp: floor_eq_iff field_simps)
    then show ?thesis using \<open>0 \<le> ?x\<close> by (simp add: trunc_def)
  qed
  have one: "1 / 2 ^ k \<le> (1::real)" by simp
  moreover have "\<bar>1 / 2 ^ k\<bar> = (1::real) / 2 ^ k" by simp
  ultimately have "\<bar>1 / 2 ^ k\<bar> \<le> (2::real) ^ 100" using big by linarith
  then have unit: "fl32 (1 / 2 ^ k) = Fin (1 / 2 ^ k)"
    using rep32_unit[OF assms(4)] by (intro fl32_exact)
  have int: "f32_of_u32 1 = Fin 1" "f32_of_u32 0 = Fin 0"
    using fl32_nat[of 1] fl32_nat[of 0] by (simp_all add: f32_of_u32_def)
  have zero: "fl32 0 = Fin 0" using fl32_nat[of 0] by simp
  show rep: "1 / 2 ^ k \<le> g \<Longrightarrow> rep32 (g - 1 / 2 ^ k)"
    using rep32_sub_lead assms by blast
  have "0 \<le> 1 / (2::real) ^ k" by simp
  then have "1 / 2 ^ k \<le> g \<Longrightarrow> \<bar>g - 1 / 2 ^ k\<bar> \<le> 2"
    using \<open>g \<le> 2\<close> by linarith
  then have sub: "1 / 2 ^ k \<le> g \<Longrightarrow> fl32 (g - 1 / 2 ^ k) = Fin (g - 1 / 2 ^ k)"
    using rep big by (intro fl32_exact) auto
  show "gain_digit k (Fin g) =
      (if 1 / 2 ^ k \<le> g then Inr (1, Fin (g - 1 / 2 ^ k)) else Inr (0, Fin g))"
    unfolding gain_digit_def quot conv
    using assms(4) unit int zero f sub by (simp add: gain_unit_exact fp_sub_def)
qed

text \<open>The digits from weight \<open>2 ^ -k\<close> down, weighted and summed as the code does.\<close>

lemma gain_digits_exact:
  assumes "rep32 g" and "0 \<le> g" and "g < 2 / 2 ^ k" and "k \<le> 17"
  shows "\<exists>ts. gain_digits [k..<17] (Fin g) = Inr ts \<and>
      sum_list (map2 (\<lambda>t k. t * push_bit (16 - k) 1) ts [k..<17]) = word_of_int \<lfloor>g * 65536\<rfloor>"
  using assms
proof (induction "17 - k" arbitrary: k g)
  case 0
  then have "k = 17" by simp
  then have "\<lfloor>g * 65536\<rfloor> = 0" using "0.prems" by (simp add: floor_eq_iff)
  then show ?case using \<open>k = 17\<close> by simp
next
  case (Suc n)
  then have k: "k < 17" by simp
  define t :: u32 where "t = (if 1 / 2 ^ k \<le> g then 1 else 0)"
  define g' where "g' = (if 1 / 2 ^ k \<le> g then g - 1 / 2 ^ k else g)"
  have step: "gain_digit k (Fin g) = Inr (t, Fin g')"
    using Suc.prems by (simp add: gain_digit_exact(1) t_def g'_def)
  have "rep32 g'" "0 \<le> g'" "g' < 2 / 2 ^ Suc k"
    using Suc.prems gain_digit_exact(2)[OF Suc.prems] by (auto simp: g'_def field_simps)
  moreover have "n = 17 - Suc k" using Suc.hyps(2) k by simp
  ultimately obtain ts where ts: "gain_digits [Suc k..<17] (Fin g') = Inr ts"
      "sum_list (map2 (\<lambda>t k. t * push_bit (16 - k) 1) ts [Suc k..<17]) = word_of_int \<lfloor>g' * 65536\<rfloor>"
    using Suc.hyps(1)[of "Suc k" g'] k by (metis Suc_leI)
  have "(65536::real) = 2 ^ k * 2 ^ (16 - k)"
    using k by (simp flip: power_add)
  then have "1 / 2 ^ k * 65536 = (of_int (2 ^ (16 - k)) :: real)" by (simp add: field_simps)
  then have "\<lfloor>(g - 1 / 2 ^ k) * 65536\<rfloor> = \<lfloor>g * 65536\<rfloor> - 2 ^ (16 - k)"
    by (simp only: left_diff_distrib floor_diff_of_int)
  then have "t * push_bit (16 - k) 1 + word_of_int \<lfloor>g' * 65536\<rfloor> = word_of_int \<lfloor>g * 65536\<rfloor>"
    by (simp add: t_def g'_def word_of_int_2p)
  moreover have "[k..<17] = k # [Suc k..<17]" using k by (simp add: upt_conv_Cons)
  ultimately show ?case
    using step ts by simp
qed

section \<open>Properties\<close>

text \<open>
  What the driver assumes of the header for the calibration: the gain that the converter reports has 16 bits, the gain that it is given has 17
  (one integral bit and 16 of the fraction), both at the bottom of their registers, with a ready bit of its own.
\<close>

definition lpadc_gain_layout_ok :: "lpadc_layout \<Rightarrow> bool" where
  "lpadc_gain_layout_ok L \<longleftrightarrow>
     fields_ok [GCC_GAIN_CAL L, GCC_RDY L] \<and> fshift (GCC_GAIN_CAL L) = 0 \<and> fwidth (GCC_GAIN_CAL L) = 16 \<and>
     fwidth (GCC_RDY L) = 1 \<and>
     fields_ok [GCR_GCALR L, GCR_RDY L] \<and> fshift (GCR_GCALR L) = 0 \<and> fwidth (GCR_GCALR L) = 17 \<and>
     fwidth (GCR_RDY L) = 1 \<and>
     field_ok (STAT_CAL_RDY L) \<and> fwidth (STAT_CAL_RDY L) = 1"

text \<open>
  C35: The conversion of a gain to a binary fraction, seventeen steps of division, truncation and subtraction in single precision, is
  exact: every single precision number from 0 up to (not including) 2 becomes the integral part of its
  65536-fold, with no rounding in any step and no conversion outside its range.
\<close>

theorem gain_conversion_exact:
  assumes "rep32 g" and "0 \<le> g" and "g < 2"
  shows "LPADC_GetGainConvResult (Fin g) = Inr (word_of_int \<lfloor>g * 65536\<rfloor>)"
  using gain_digits_exact[of g 0] assms by (auto simp: LPADC_GetGainConvResult_def)

theorem gain_conversion_exact_witness:
  "LPADC_GetGainConvResult (Fin (3 / 2)) = Inr 0x18000"
proof -
  have "rep32 (3 / 2)" using representable_scaled[of 3 24 "- 149" "- 1"] by simp
  then show ?thesis using gain_conversion_exact[of "3 / 2"] by simp
qed

lemma gain_conversion_bound:
  assumes "rep32 g" and "0 \<le> g" and "g < 2"
  shows "\<exists>v. LPADC_GetGainConvResult (Fin g) = Inr v \<and> unat v = nat \<lfloor>g * 65536\<rfloor> \<and> unat v < 2 ^ 17"
proof -
  have "0 \<le> \<lfloor>g * 65536\<rfloor>" "\<lfloor>g * 65536\<rfloor> < 2 ^ 17"
    using assms by (auto simp: floor_less_iff)
  then have "unat (word_of_int \<lfloor>g * 65536\<rfloor> :: u32) = nat \<lfloor>g * 65536\<rfloor>"
    by (simp add: unat_eq_nat_uint uint_word_of_int)
  moreover have "LPADC_GetGainConvResult (Fin g) = Inr (word_of_int \<lfloor>g * 65536\<rfloor>)"
    using gain_digits_exact[of g 0] assms by (auto simp: LPADC_GetGainConvResult_def)
  moreover have "nat \<lfloor>g * 65536\<rfloor> < 2 ^ 17"
    using \<open>\<lfloor>g * 65536\<rfloor> < 2 ^ 17\<close> \<open>0 \<le> \<lfloor>g * 65536\<rfloor>\<close> by (simp add: nat_less_iff)
  ultimately show ?thesis by simp
qed

text \<open>The gain computed from a reported 16 bit value lies in the range of the conversion.\<close>

lemma calibration_gain_bounds:
  assumes "unat G < 2 ^ 16"
  defines "x \<equiv> 131072 / (131072 - real (unat G))"
  shows "\<exists>g. calibration_gain G = Fin g \<and> rep32 g \<and> 1 \<le> g \<and> g < 2 \<and> \<bar>g - x\<bar> \<le> 1 / 2 ^ 22"
proof -
  let ?n = "unat G"
  let ?top = "131071 / 65536 :: real"
  have G: "real ?n \<le> 65535" using assms(1) by simp
  then have x: "1 \<le> x" "x \<le> ?top"
    by (auto simp: x_def field_simps)
  have "fl64 131072 = Fin 131072" using fl64_nat[of 131072] by simp
  moreover have "fl64 (real ?n) = Fin (real ?n)" using assms(1) by (intro fl64_nat) simp
  moreover have "fl64 (131072 - real ?n) = Fin (131072 - real ?n)"
    using fl64_nat[of "131072 - ?n"] assms(1) by (simp add: of_nat_diff)
  moreover have "fl64 x = Fin (rnd64 x)" using x by (intro fl64_finite) simp
  ultimately have "fp_div fl64 (fl64 131072) (fp_sub fl64 (fl64 131072) (fl64 (real ?n))) = Fin (rnd64 x)"
    using G by (simp add: fp_sub_def x_def)
  moreover have "rep64 1" "rep32 1" using rep64_nat[of 1] rep32_nat[of 1] by simp_all
  moreover have top: "rep64 ?top" "rep32 ?top"
    using representable_scaled[of 131071 53 "- 1074" "- 16"] representable_scaled[of 131071 24 "- 149" "- 16"]
    by (simp_all add: power_int_minus)
  ultimately have y: "1 \<le> rnd64 x" "rnd64 x \<le> ?top"
      and g: "1 \<le> rnd32 (rnd64 x)" "rnd32 (rnd64 x) \<le> ?top"
      and gain: "calibration_gain G = fl32 (rnd64 x)"
    using x r64.between[of 1 ?top x] r32.between[of 1 ?top "rnd64 x"] by (auto simp: calibration_gain_def)
  have "\<bar>rnd64 x - x\<bar> \<le> x / 2 ^ 53"
    using rnd64_error[of x] x by simp
  moreover have "\<bar>rnd32 (rnd64 x) - rnd64 x\<bar> \<le> rnd64 x / 2 ^ 24"
    using rnd32_error[of "rnd64 x"] y by simp
  moreover have split: "x / 2 ^ 53 \<le> 1 / 2 ^ 23" "rnd64 x / 2 ^ 24 \<le> 1 / 2 ^ 23" "1 / 2 ^ 23 + 1 / 2 ^ 23 = 1 / (2 :: real) ^ 22"
    using x(2) y(2) by simp_all
  ultimately have "\<bar>rnd32 (rnd64 x) - x\<bar> \<le> 1 / 2 ^ 22"
    using split by linarith
  moreover have "rep32 (rnd32 (rnd64 x))"
    unfolding rnd32_def by (rule representable_rnd) simp
  moreover have "calibration_gain G = Fin (rnd32 (rnd64 x))"
    using gain y by (simp add: fl32_finite)
  ultimately show ?thesis using g by auto
qed

text \<open>
  What the calibration promises of a gain register: it is marked ready and its value is the exact
  quotient, as a fraction with 16 places, up to the last place.
\<close>

definition gain_written :: "lpadc_layout \<Rightarrow> u32 \<Rightarrow> u32 \<Rightarrow> bool" where
  "gain_written L gcc gcr \<longleftrightarrow>
     fget (GCR_RDY L) gcr = 1 \<and>
     \<bar>real (unat (fget (GCR_GCALR L) gcr)) - 65536 * (131072 / (131072 - real (unat (fget (GCC_GAIN_CAL L) gcc))))\<bar>
       < 65 / 64"

lemma gain_register:
  assumes L: "lpadc_gain_layout_ok L"
  shows "\<exists>v. LPADC_GetGainConvResult (calibration_gain (gcc AND fmask (GCC_GAIN_CAL L))) = Inr v \<and>
      gain_written L gcc (v OR fmask (GCR_RDY L))"
proof -
  have G: "gcc AND fmask (GCC_GAIN_CAL L) = fget (GCC_GAIN_CAL L) gcc"
    using L by (simp add: fget_def lpadc_gain_layout_ok_def)
  have "unat (fget (GCC_GAIN_CAL L) gcc) < 2 ^ 16"
    using L unat_fget_less[of "GCC_GAIN_CAL L" gcc] by (simp add: lpadc_gain_layout_ok_def)
  then obtain g where g: "calibration_gain (fget (GCC_GAIN_CAL L) gcc) = Fin g" "rep32 g" "1 \<le> g" "g < 2"
      "\<bar>g - 131072 / (131072 - real (unat (fget (GCC_GAIN_CAL L) gcc)))\<bar> \<le> 1 / 2 ^ 22"
    using calibration_gain_bounds by blast
  obtain v where v: "LPADC_GetGainConvResult (Fin g) = Inr v" "unat v = nat \<lfloor>g * 65536\<rfloor>" "unat v < 2 ^ 17"
    using gain_conversion_bound[of g] g by auto
  have "fget (GCR_GCALR L) (v OR fmask (GCR_RDY L)) = fget (GCR_GCALR L) v"
    using L by (simp add: regs lpadc_gain_layout_ok_def)
  also have "\<dots> = v AND mask 17"
    using L by (simp add: fget_def fmask_def lpadc_gain_layout_ok_def)
  also have "\<dots> = v"
    using v(3) by (simp add: less_mask_eq word_less_nat_alt)
  finally have val: "fget (GCR_GCALR L) (v OR fmask (GCR_RDY L)) = v" .
  have "real (unat v) = of_int \<lfloor>g * 65536\<rfloor>"
    using v(2) g(3) by simp
  moreover have "of_int \<lfloor>g * 65536\<rfloor> \<le> g * 65536" "g * 65536 < of_int \<lfloor>g * 65536\<rfloor> + 1" by simp_all
  moreover have close: "\<bar>w - 65536 * q\<bar> < 65 / 64"
    if "w \<le> h * 65536" "h * 65536 < w + 1" "\<bar>h - q\<bar> \<le> 1 / 2 ^ 22" for w h q :: real
  proof -
    have "(2::real) ^ 22 = 4194304" by simp
    then have "h - q \<le> 1 / 4194304" "q - h \<le> 1 / 4194304"
      using that(3) unfolding abs_le_iff by (simp_all only: minus_diff_eq)
    then show ?thesis using that(1,2) unfolding abs_less_iff by linarith
  qed
  ultimately have "\<bar>real (unat v) - 65536 * (131072 / (131072 - real (unat (fget (GCC_GAIN_CAL L) gcc))))\<bar> < 65 / 64"
    using g(5) by (intro close[of _ g]) simp_all
  moreover have "fget (GCR_RDY L) (v OR fmask (GCR_RDY L)) = 1"
    using L by (intro bit_word_eqI)
      (auto simp: bit_fget bit_or_iff bit_fmask bit_1_iff lpadc_gain_layout_ok_def field_ok_def)
  ultimately show ?thesis
    using g(1) v(1) G val by (simp add: gain_written_def)
qed

definition gain_ready :: "lpadc_layout \<Rightarrow> u32 \<times> u32 \<Rightarrow> bool" where
  "gain_ready L g \<longleftrightarrow> fget (GCC_RDY L) (fst g) = 1 \<and> fget (GCC_RDY L) (snd g) = 1"

definition poll_set :: "bitfield \<Rightarrow> u32 list \<Rightarrow> bool" where
  "poll_set f ws \<longleftrightarrow> (\<exists>w \<in> set ws. fget f w = 1)"

lemma single_bit_set:
  assumes "field_ok f" and "fwidth f = 1"
  shows "fmask f \<noteq> w AND fmask f \<longleftrightarrow> fget f w \<noteq> 1"
proof -
  have "w AND fmask f = fmask f \<longleftrightarrow> bit w (fshift f)"
  proof
    assume "w AND fmask f = fmask f"
    then have "bit (w AND fmask f) (fshift f) = bit (fmask f) (fshift f)" by simp
    then show "bit w (fshift f)"
      using assms by (simp add: bit_and_iff bit_single_field field_ok_def)
  next
    assume "bit w (fshift f)"
    then show "w AND fmask f = fmask f"
      using assms by (intro bit_word_eqI) (auto simp: bit_and_iff bit_single_field)
  qed
  then show ?thesis using assms by (auto simp: fget_bit)
qed

lemma poll_some: "field_ok f \<Longrightarrow> fwidth f = 1 \<Longrightarrow> poll f ws \<noteq> None \<longleftrightarrow> poll_set f ws"
  by (induction ws) (auto simp: single_bit_set poll_set_def)

lemma poll_gain_first:
  assumes "lpadc_gain_layout_ok L" and "\<forall>g \<in> set busy. \<not> gain_ready L g" and "gain_ready L g"
  shows "poll_gain L (busy @ g # rest) = Some g"
  using assms(2)
proof (induction busy)
  case Nil
  then show ?case
    using assms(1,3) by (simp add: gain_ready_def single_bit_set lpadc_gain_layout_ok_def)
next
  case (Cons b busy)
  then show ?case
    using assms(1) by (auto simp: gain_ready_def single_bit_set lpadc_gain_layout_ok_def)
qed

lemma write_gain_ok:
  assumes L: "lpadc_gain_layout_ok L" and len: "2 \<le> length (ad_GCR r)"
  shows "\<exists>a b. write_gain L g0 g1 r = Inr (r\<lparr>ad_GCR := (ad_GCR r)[0 := a, 1 := b]\<rparr>) \<and>
    gain_written L g0 a \<and> gain_written L g1 b"
proof -
  obtain a where a: "LPADC_GetGainConvResult (calibration_gain (g0 AND fmask (GCC_GAIN_CAL L))) = Inr a"
      "gain_written L g0 (a OR fmask (GCR_RDY L))"
    using gain_register[OF L] by blast
  obtain b where b: "LPADC_GetGainConvResult (calibration_gain (g1 AND fmask (GCC_GAIN_CAL L))) = Inr b"
      "gain_written L g1 (b OR fmask (GCR_RDY L))"
    using gain_register[OF L] by blast
  obtain x y zs where r: "ad_GCR r = x # y # zs"
    using len by (auto simp: numeral_2_eq_2 Suc_le_length_iff)
  show ?thesis
    using a b by (auto simp: write_gain_def r arr_get_def arr_set_def)
qed

text \<open>
  The automatic calibration, with both FIFOs empty, ends as soon as the converter has reported both gains and then its readiness: it
  has requested the calibration, uses the gains of the turn at which both were ready (not those of an earlier
  turn), writes to each gain register the reciprocal quotient to within one unit of its last place, marks it
  ready, and changes no other register.
\<close>

theorem auto_calibration_effect:
  assumes "lpadc_gain_layout_ok L" and "2 \<le> length (ad_GCR r)"
    and "LPADC_GetConvResultCount L 0 r = Inr 0" and "LPADC_GetConvResultCount L 1 r = Inr 0"
    and "\<forall>g \<in> set busy. \<not> gain_ready L g" and "gain_ready L (g0, g1)" and "poll_set (STAT_CAL_RDY L) stat"
  shows "\<exists>a b. LPADC_DoAutoCalibration L (busy @ (g0, g1) # rest) stat r =
      Some (Inr (r\<lparr>ad_CTRL := ad_CTRL r OR fmask (CTRL_CAL_REQ L), ad_GCR := (ad_GCR r)[0 := a, 1 := b]\<rparr>)) \<and>
    gain_written L g0 a \<and> gain_written L g1 b"
proof -
  let ?r = "r\<lparr>ad_CTRL := ad_CTRL r OR fmask (CTRL_CAL_REQ L)\<rparr>"
  have "2 \<le> length (ad_GCR ?r)" using assms(2) by simp
  from write_gain_ok[OF assms(1) this]
  obtain a b where w: "write_gain L g0 g1 ?r = Inr (?r\<lparr>ad_GCR := (ad_GCR ?r)[0 := a, 1 := b]\<rparr>)"
      "gain_written L g0 a" "gain_written L g1 b"
    by blast
  obtain ws where "poll (STAT_CAL_RDY L) stat = Some ws"
    using poll_some[of "STAT_CAL_RDY L" stat] assms(1,7) by (auto simp: lpadc_gain_layout_ok_def)
  then show ?thesis
    using w assms poll_gain_first[OF assms(1,5,6)]
    by (simp add: LPADC_DoAutoCalibration_def LPADC_PrepareAutoCalibration_def LPADC_FinishAutoCalibration_def)
       blast
qed

text \<open>A layout that satisfies the assumptions on the gain registers and, below, on the commands.\<close>

definition lpadc_command_layout_ok :: "lpadc_layout \<Rightarrow> bool" where
  "lpadc_command_layout_ok L \<longleftrightarrow>
     fields_ok [CMDL_ADCH L, ADC_CMDL_CHANNEL_MODE, CMDL_MODE L, CMDL_ALTB_ADCH L, CMDL_ALTBEN L] \<and>
     fields_ok [CMDH_CMPEN L, CMDH_WAIT_TRIG L, CMDH_LWI L, CMDH_STS L, CMDH_AVGS L, CMDH_LOOP L, CMDH_NEXT L] \<and>
     fwidth (CMDL_ADCH L) = 5 \<and> fwidth (CMDL_MODE L) = 1 \<and> fwidth (CMDL_ALTB_ADCH L) = 5 \<and>
     fwidth (CMDL_ALTBEN L) = 1 \<and> fwidth (CMDH_CMPEN L) = 2 \<and> fwidth (CMDH_WAIT_TRIG L) = 1 \<and>
     fwidth (CMDH_LWI L) = 1 \<and> fwidth (CMDH_STS L) = 3 \<and> fwidth (CMDH_AVGS L) = 4 \<and> fwidth (CMDH_LOOP L) = 4 \<and>
     fwidth (CMDH_NEXT L) = 4"

text \<open>The word of the result FIFO, the FIFO control registers and the interrupt bit of the first FIFO.\<close>

definition lpadc_fifo_layout_ok :: "lpadc_layout \<Rightarrow> bool" where
  "lpadc_fifo_layout_ok L \<longleftrightarrow>
     fields_ok [RESFIFO_D L, RESFIFO_TSRC L, RESFIFO_LOOPCNT L, RESFIFO_CMDSRC L, RESFIFO_VALID L] \<and>
     fshift (RESFIFO_D L) = 0 \<and> fwidth (RESFIFO_D L) = 16 \<and> fwidth (RESFIFO_VALID L) = 1 \<and>
     fields_ok [FCTRL_FCOUNT L, FCTRL_FWMARK L] \<and> field_ok (IE_FWMIE0 L) \<and> fshift (IE_FWMIE0 L) + fwidth (IE_FWMIE0 L) \<le> 16"

definition example_lpadc :: lpadc_layout where
  "example_lpadc =
    \<lparr>CTRL_ADCEN = \<lparr>fshift = 0, fwidth = 1\<rparr>, CTRL_RST = \<lparr>fshift = 1, fwidth = 1\<rparr>,
     CTRL_DOZEN = \<lparr>fshift = 2, fwidth = 1\<rparr>, CTRL_CAL_REQ = \<lparr>fshift = 3, fwidth = 1\<rparr>,
     CTRL_CALOFS = \<lparr>fshift = 4, fwidth = 1\<rparr>, CTRL_RSTFIFO0 = \<lparr>fshift = 8, fwidth = 1\<rparr>,
     CTRL_RSTFIFO1 = \<lparr>fshift = 9, fwidth = 1\<rparr>, CTRL_CAL_AVGS = \<lparr>fshift = 16, fwidth = 4\<rparr>,
     STAT_CAL_RDY = \<lparr>fshift = 10, fwidth = 1\<rparr>, IE_FWMIE0 = \<lparr>fshift = 0, fwidth = 1\<rparr>, IE_TCOMP_IE = \<lparr>fshift = 16, fwidth = 4\<rparr>,
     DE_FWMDE0 = \<lparr>fshift = 0, fwidth = 1\<rparr>, DE_FWMDE1 = \<lparr>fshift = 1, fwidth = 1\<rparr>,
     CFG_TPRICTRL = \<lparr>fshift = 0, fwidth = 2\<rparr>, CFG_PWRSEL = \<lparr>fshift = 4, fwidth = 2\<rparr>,
     CFG_REFSEL = \<lparr>fshift = 6, fwidth = 2\<rparr>, CFG_TRES = \<lparr>fshift = 8, fwidth = 1\<rparr>,
     CFG_TCMDRES = \<lparr>fshift = 9, fwidth = 1\<rparr>, CFG_HPT_EXDI = \<lparr>fshift = 10, fwidth = 1\<rparr>,
     CFG_PUDLY = \<lparr>fshift = 16, fwidth = 8\<rparr>, CFG_PWREN = \<lparr>fshift = 28, fwidth = 1\<rparr>,
     PAUSE_PAUSEEN = \<lparr>fshift = 31, fwidth = 1\<rparr>, PAUSE_PAUSEDLY = \<lparr>fshift = 0, fwidth = 9\<rparr>,
     TSTAT_TEXC_NUM = \<lparr>fshift = 0, fwidth = 4\<rparr>, TSTAT_TCOMP_FLAG = \<lparr>fshift = 16, fwidth = 4\<rparr>,
     OFSTRIM_A = \<lparr>fshift = 0, fwidth = 5\<rparr>, OFSTRIM_B = \<lparr>fshift = 16, fwidth = 5\<rparr>,
     TCTRL_HTEN = \<lparr>fshift = 0, fwidth = 1\<rparr>, TCTRL_FIFO_SEL_A = \<lparr>fshift = 1, fwidth = 1\<rparr>,
     TCTRL_FIFO_SEL_B = \<lparr>fshift = 2, fwidth = 1\<rparr>, TCTRL_TPRI = \<lparr>fshift = 8, fwidth = 2\<rparr>,
     TCTRL_TDLY = \<lparr>fshift = 16, fwidth = 4\<rparr>, TCTRL_TCMD = \<lparr>fshift = 24, fwidth = 4\<rparr>,
     FCTRL_FCOUNT = \<lparr>fshift = 0, fwidth = 5\<rparr>, FCTRL_FWMARK = \<lparr>fshift = 16, fwidth = 4\<rparr>,
     GCC_GAIN_CAL = \<lparr>fshift = 0, fwidth = 16\<rparr>, GCC_RDY = \<lparr>fshift = 24, fwidth = 1\<rparr>,
     GCR_GCALR = \<lparr>fshift = 0, fwidth = 17\<rparr>, GCR_RDY = \<lparr>fshift = 24, fwidth = 1\<rparr>,
     CMDL_ADCH = \<lparr>fshift = 0, fwidth = 5\<rparr>, CMDL_MODE = \<lparr>fshift = 7, fwidth = 1\<rparr>,
     CMDL_ALTB_ADCH = \<lparr>fshift = 16, fwidth = 5\<rparr>, CMDL_ALTBEN = \<lparr>fshift = 21, fwidth = 1\<rparr>,
     CMDH_CMPEN = \<lparr>fshift = 0, fwidth = 2\<rparr>, CMDH_WAIT_TRIG = \<lparr>fshift = 2, fwidth = 1\<rparr>,
     CMDH_LWI = \<lparr>fshift = 7, fwidth = 1\<rparr>, CMDH_STS = \<lparr>fshift = 8, fwidth = 3\<rparr>,
     CMDH_AVGS = \<lparr>fshift = 12, fwidth = 4\<rparr>, CMDH_LOOP = \<lparr>fshift = 16, fwidth = 4\<rparr>,
     CMDH_NEXT = \<lparr>fshift = 24, fwidth = 4\<rparr>, CV_CVL = \<lparr>fshift = 0, fwidth = 16\<rparr>,
     CV_CVH = \<lparr>fshift = 16, fwidth = 16\<rparr>, RESFIFO_D = \<lparr>fshift = 0, fwidth = 16\<rparr>,
     RESFIFO_TSRC = \<lparr>fshift = 16, fwidth = 2\<rparr>, RESFIFO_LOOPCNT = \<lparr>fshift = 20, fwidth = 4\<rparr>,
     RESFIFO_CMDSRC = \<lparr>fshift = 24, fwidth = 4\<rparr>, RESFIFO_VALID = \<lparr>fshift = 31, fwidth = 1\<rparr>\<rparr>"

definition reset_lpadc :: lpadc where
  "reset_lpadc =
    \<lparr>ad_VERID = 0x02002C0B, ad_CTRL = 0, ad_STAT = 0, ad_IE = 0, ad_DE = 0, ad_CFG = 0x00800000, ad_PAUSE = 0,
     ad_SWTRIG = 0, ad_TSTAT = 0, ad_OFSTRIM = 0, ad_TCTRL = replicate 4 0, ad_FCTRL = [0, 0], ad_GCR = [0, 0],
     ad_CMDL = replicate 15 0, ad_CMDH = replicate 15 0, ad_CV = replicate 15 0, ad_CAL_GAR = replicate 33 0,
     ad_CAL_GBR = replicate 33 0\<rparr>"

lemma example_lpadc_gain_ok: "lpadc_gain_layout_ok example_lpadc"
  by (simp add: lpadc_gain_layout_ok_def example_lpadc_def field_ok_def apart_def)

lemma example_lpadc_command_ok: "lpadc_command_layout_ok example_lpadc"
  by (simp add: lpadc_command_layout_ok_def example_lpadc_def field_ok_def apart_def ADC_CMDL_CHANNEL_MODE_def)

lemma example_lpadc_fifo_ok: "lpadc_fifo_layout_ok example_lpadc"
  by (simp add: lpadc_fifo_layout_ok_def example_lpadc_def field_ok_def apart_def)

text \<open>Two turns of the wait: at the first only one gain is ready.\<close>

theorem auto_calibration_effect_witness:
  "\<exists>a b. LPADC_DoAutoCalibration example_lpadc ([(0x01000005, 7)] @ (0x01000010, 0x0100FFFF) # []) [0, 0x400] reset_lpadc =
      Some (Inr (reset_lpadc\<lparr>ad_CTRL := 8, ad_GCR := [a, b]\<rparr>)) \<and>
    gain_written example_lpadc 0x01000010 a \<and> gain_written example_lpadc 0x0100FFFF b"
proof -
  have "LPADC_GetConvResultCount example_lpadc 0 reset_lpadc = Inr 0"
       "LPADC_GetConvResultCount example_lpadc 1 reset_lpadc = Inr 0"
    by (simp_all add: LPADC_GetConvResultCount_def reset_lpadc_def)
  moreover have "\<forall>g \<in> set [(0x01000005 :: u32, 7)]. \<not> gain_ready example_lpadc g"
    by (simp add: gain_ready_def fget_def fmask_def example_lpadc_def)
  moreover have "gain_ready example_lpadc (0x01000010, 0x0100FFFF)"
    by (simp add: gain_ready_def fget_def fmask_def example_lpadc_def)
  moreover have "poll_set (STAT_CAL_RDY example_lpadc) [0, 0x400]"
    by (simp add: poll_set_def fget_def fmask_def example_lpadc_def)
  moreover have "2 \<le> length (ad_GCR reset_lpadc)" by (simp add: reset_lpadc_def)
  ultimately have "\<exists>a b. LPADC_DoAutoCalibration example_lpadc ([(0x01000005, 7)] @ (0x01000010, 0x0100FFFF) # []) [0, 0x400] reset_lpadc =
      Some (Inr (reset_lpadc\<lparr>ad_CTRL := ad_CTRL reset_lpadc OR fmask (CTRL_CAL_REQ example_lpadc),
        ad_GCR := (ad_GCR reset_lpadc)[0 := a, 1 := b]\<rparr>)) \<and>
    gain_written example_lpadc 0x01000010 a \<and> gain_written example_lpadc 0x0100FFFF b"
    by (intro auto_calibration_effect example_lpadc_gain_ok)
  then show ?thesis
    by (simp add: reset_lpadc_def example_lpadc_def fmask_def)
qed

lemma sample_channel_width: "sample_channel_val m AND mask 2 = sample_channel_val m"
  by (cases m) (simp_all add: mask_eq_exp_minus_1)

lemma resolution_width: "resolution_val m AND 1 = resolution_val m"
  by (cases m) simp_all

lemma hardware_average_width: "hardware_average_val m AND mask 4 = hardware_average_val m"
  by (cases m) (simp_all add: mask_eq_exp_minus_1)

lemma sample_time_width: "sample_time_val m AND mask 3 = sample_time_val m"
  by (cases m) (simp_all add: mask_eq_exp_minus_1)

lemma hardware_compare_width: "hardware_compare_val m AND mask 2 = hardware_compare_val m"
  by (cases m) (simp_all add: mask_eq_exp_minus_1)

lemmas lpadc_widths =
  sample_channel_width resolution_width hardware_average_width sample_time_width hardware_compare_width

text \<open>The two halves of command \<open>k + 1\<close>, read field by field.\<close>

definition command_set :: "lpadc_layout \<Rightarrow> lpadc_conv_command_config \<Rightarrow> u32 \<Rightarrow> u32 \<Rightarrow> bool" where
  "command_set L c l h \<longleftrightarrow>
     fget (CMDL_ADCH L) l = channelNumber c AND mask 5 \<and>
     fget (CMDL_ALTB_ADCH L) l = channelBNumber c AND mask 5 \<and>
     fget ADC_CMDL_CHANNEL_MODE l = sample_channel_val (sampleChannelMode c) \<and>
     fget (CMDL_MODE L) l = resolution_val (conversionResolutionMode c) \<and>
     fget (CMDL_ALTBEN L) l = of_bool (enableChannelB c) \<and>
     fget (CMDH_NEXT L) h = chainedNextCommandNumber c AND mask 4 \<and>
     fget (CMDH_LOOP L) h = loopCount c AND mask 4 \<and>
     fget (CMDH_AVGS L) h = hardware_average_val (hardwareAverageMode c) \<and>
     fget (CMDH_STS L) h = sample_time_val (sampleTimeMode c) \<and>
     fget (CMDH_CMPEN L) h = hardware_compare_val (hardwareCompareMode c) \<and>
     fget (CMDH_WAIT_TRIG L) h = of_bool (enableWaitTrigger c) \<and>
     fget (CMDH_LWI L) h = of_bool (enableAutoChannelIncrement c)"

lemma command_effect:
  assumes "lpadc_command_layout_ok L" and "0 < commandId" and "commandId \<le> length (ad_CMDL r)"
    and "length (ad_CMDH r) = length (ad_CMDL r)" and "sample_mode_allowed r (sampleChannelMode c)"
  shows "\<exists>l h cv. LPADC_SetConvCommandConfig L commandId c r =
      Inr (r\<lparr>ad_CMDL := (ad_CMDL r)[commandId - 1 := l], ad_CMDH := (ad_CMDH r)[commandId - 1 := h], ad_CV := cv\<rparr>) \<and>
    command_set L c l h \<and>
    (hardwareCompareMode c = kLPADC_HardwareCompareDisabled \<longrightarrow> cv = ad_CV r)"
proof -
  obtain k where k: "commandId = Suc k" using assms(2) by (cases commandId) auto
  have one: "(mask (Suc 0) :: u32) = 1" by simp
  define l where "l = (let tmp32 = ((fval (CMDL_ADCH L) (channelNumber c) OR fval (CMDL_ALTB_ADCH L) (channelBNumber c)) OR
      fval ADC_CMDL_CHANNEL_MODE (sample_channel_val (sampleChannelMode c))) OR
      fval (CMDL_MODE L) (resolution_val (conversionResolutionMode c))
    in if enableChannelB c then tmp32 OR fmask (CMDL_ALTBEN L) else tmp32)"
  define h where "h = (let tmp32 = fval (CMDH_NEXT L) (chainedNextCommandNumber c) OR fval (CMDH_LOOP L) (loopCount c) OR
      fval (CMDH_AVGS L) (hardware_average_val (hardwareAverageMode c)) OR
      fval (CMDH_STS L) (sample_time_val (sampleTimeMode c)) OR
      fval (CMDH_CMPEN L) (hardware_compare_val (hardwareCompareMode c));
      tmp32 = (if enableWaitTrigger c then tmp32 OR fmask (CMDH_WAIT_TRIG L) else tmp32)
    in if enableAutoChannelIncrement c then tmp32 OR fmask (CMDH_LWI L) else tmp32)"
  have "fwidth ADC_CMDL_CHANNEL_MODE = 2" by (simp add: ADC_CMDL_CHANNEL_MODE_def)
  then have "command_set L c l h"
    using assms(1)
    by (simp add: command_set_def lpadc_command_layout_ok_def l_def h_def Let_def regs lpadc_widths one)
  moreover have "\<exists>cv. LPADC_SetConvCommandConfig L commandId c r =
      Inr (r\<lparr>ad_CMDL := (ad_CMDL r)[k := l], ad_CMDH := (ad_CMDH r)[k := h], ad_CV := cv\<rparr>) \<and>
    (hardwareCompareMode c = kLPADC_HardwareCompareDisabled \<longrightarrow> cv = ad_CV r)"
  proof (cases "hardwareCompareMode c \<noteq> kLPADC_HardwareCompareDisabled \<and> k < length (ad_CV r)")
    case True
    then show ?thesis
      using assms(3-5)
      by (intro exI[of _ "(ad_CV r)[k := fval (CV_CVH L) (hardwareCompareValueHigh c) OR
             fval (CV_CVL L) (hardwareCompareValueLow c)]"])
         (auto simp: LPADC_SetConvCommandConfig_def k Let_def l_def h_def)
  next
    case False
    then have "LPADC_SetConvCommandConfig L commandId c r =
        Inr (r\<lparr>ad_CMDL := (ad_CMDL r)[k := l], ad_CMDH := (ad_CMDH r)[k := h]\<rparr>)"
      using assms(3-5) by (auto simp: LPADC_SetConvCommandConfig_def k Let_def l_def h_def)
    then show ?thesis by (intro exI[of _ "ad_CV r"]) simp
  qed
  ultimately show ?thesis using k by auto
qed

text \<open>
  A conversion command with a number from 1 to the number of commands and a mode the converter supports is written to the register pair one
  below its number, with every field of the configuration in its place (numbers too large for their field
  lose their upper bits); no other command, and no register but the compare value, changes.
\<close>

theorem conv_command_fields:
  assumes "lpadc_command_layout_ok L" and "0 < commandId" and "commandId \<le> length (ad_CMDL r)"
    and "length (ad_CMDH r) = length (ad_CMDL r)" and "sample_mode_allowed r (sampleChannelMode c)"
  shows "\<exists>l h cv. LPADC_SetConvCommandConfig L commandId c r =
      Inr (r\<lparr>ad_CMDL := (ad_CMDL r)[commandId - 1 := l], ad_CMDH := (ad_CMDH r)[commandId - 1 := h], ad_CV := cv\<rparr>) \<and>
    command_set L c l h \<and>
    (hardwareCompareMode c = kLPADC_HardwareCompareDisabled \<longrightarrow> cv = ad_CV r)"
  by (rule command_effect[OF assms])

theorem conv_command_fields_witness:
  "\<exists>l h cv. LPADC_SetConvCommandConfig example_lpadc 1
      (LPADC_GetDefaultConvCommandConfig\<lparr>channelNumber := 2, conversionResolutionMode := kLPADC_ConversionResolutionHigh\<rparr>)
      reset_lpadc = Inr (reset_lpadc\<lparr>ad_CMDL := (ad_CMDL reset_lpadc)[0 := l],
        ad_CMDH := (ad_CMDH reset_lpadc)[0 := h], ad_CV := cv\<rparr>) \<and>
    fget (CMDL_ADCH example_lpadc) l = 2 \<and> fget (CMDL_MODE example_lpadc) l = 1 \<and>
    fget (CMDH_AVGS example_lpadc) h = 0"
proof -
  let ?c = "LPADC_GetDefaultConvCommandConfig\<lparr>channelNumber := 2, conversionResolutionMode := kLPADC_ConversionResolutionHigh\<rparr>"
  have "command_set example_lpadc ?c l h \<Longrightarrow>
      fget (CMDL_ADCH example_lpadc) l = 2 \<and> fget (CMDL_MODE example_lpadc) l = 1 \<and>
      fget (CMDH_AVGS example_lpadc) h = 0" for l h
    by (simp add: command_set_def LPADC_GetDefaultConvCommandConfig_def mask_eq_exp_minus_1)
  moreover have "sample_mode_allowed reset_lpadc (sampleChannelMode ?c)"
    by (simp add: sample_mode_allowed_def LPADC_GetDefaultConvCommandConfig_def)
  moreover have "1 \<le> length (ad_CMDL reset_lpadc)" "length (ad_CMDH reset_lpadc) = length (ad_CMDL reset_lpadc)"
    by (simp_all add: reset_lpadc_def)
  ultimately show ?thesis
    using conv_command_fields[OF example_lpadc_command_ok, of 1 reset_lpadc ?c]
    by (metis diff_self_eq_0 zero_less_one)
qed

end
