(* ===== verification/Gpio.thy ===== *)
theory Gpio
  imports Registers
begin

text \<open>
  The pin driver (\<open>fsl_gpio.c\<close>, \<open>fsl_gpio.h\<close> of the SDK) with the features of the MCXN947: version
  register, secure and privilege control, input disable, interrupts in the port itself with two channels, independent
  output control. The port writes an output through three registers that act on the output register: a one in
  \<open>PSOR\<close> sets, in \<open>PCOR\<close> clears and in \<open>PTOR\<close> reverses the pin. A status flag is cleared by writing a one to it.
\<close>

datatype gpio_pin_direction = kGPIO_DigitalInput | kGPIO_DigitalOutput

record gpio_pin_config =
  pinDirection :: gpio_pin_direction
  outputLogic :: u8

datatype gpio_interrupt_config =
    kGPIO_InterruptStatusFlagDisabled | kGPIO_DMARisingEdge | kGPIO_DMAFallingEdge | kGPIO_DMAEitherEdge
  | kGPIO_FlagRisingEdge | kGPIO_FlagFallingEdge | kGPIO_FlagEitherEdge | kGPIO_InterruptLogicZero
  | kGPIO_InterruptRisingEdge | kGPIO_InterruptFallingEdge | kGPIO_InterruptEitherEdge | kGPIO_InterruptLogicOne
  | kGPIO_ActiveHighTriggerOutputEnable | kGPIO_ActiveLowTriggerOutputEnable

primrec interrupt_config_val :: "gpio_interrupt_config \<Rightarrow> u32" where
  "interrupt_config_val kGPIO_InterruptStatusFlagDisabled = 0x0"
| "interrupt_config_val kGPIO_DMARisingEdge = 0x1"
| "interrupt_config_val kGPIO_DMAFallingEdge = 0x2"
| "interrupt_config_val kGPIO_DMAEitherEdge = 0x3"
| "interrupt_config_val kGPIO_FlagRisingEdge = 0x5"
| "interrupt_config_val kGPIO_FlagFallingEdge = 0x6"
| "interrupt_config_val kGPIO_FlagEitherEdge = 0x7"
| "interrupt_config_val kGPIO_InterruptLogicZero = 0x8"
| "interrupt_config_val kGPIO_InterruptRisingEdge = 0x9"
| "interrupt_config_val kGPIO_InterruptFallingEdge = 0xA"
| "interrupt_config_val kGPIO_InterruptEitherEdge = 0xB"
| "interrupt_config_val kGPIO_InterruptLogicOne = 0xC"
| "interrupt_config_val kGPIO_ActiveHighTriggerOutputEnable = 0xD"
| "interrupt_config_val kGPIO_ActiveLowTriggerOutputEnable = 0xE"

datatype gpio_interrupt_selection = kGPIO_InterruptOutput0 | kGPIO_InterruptOutput1

primrec interrupt_selection_val :: "gpio_interrupt_selection \<Rightarrow> u32" where
  "interrupt_selection_val kGPIO_InterruptOutput0 = 0"
| "interrupt_selection_val kGPIO_InterruptOutput1 = 1"

datatype gpio_pin_interrupt_control =
    kGPIO_PinControlNonSecure | kGPIO_InterruptControlNonSecure
  | kGPIO_PinControlNonPrivilege | kGPIO_InterruptControlNonPrivilege

primrec pin_interrupt_control_val :: "gpio_pin_interrupt_control \<Rightarrow> u32" where
  "pin_interrupt_control_val kGPIO_PinControlNonSecure = 1"
| "pin_interrupt_control_val kGPIO_InterruptControlNonSecure = 2"
| "pin_interrupt_control_val kGPIO_PinControlNonPrivilege = 4"
| "pin_interrupt_control_val kGPIO_InterruptControlNonPrivilege = 8"

record gpio_version_info =
  feature :: u16
  minor :: u8
  major :: u8

record gpio =
  gp_VERID :: u32
  gp_LOCK :: u32
  gp_PCNS :: u32
  gp_ICNS :: u32
  gp_PCNP :: u32
  gp_ICNP :: u32
  gp_PDOR :: u32
  gp_PDIR :: u32
  gp_PDDR :: u32
  gp_PIDR :: u32
  gp_ICR :: "u32 list"
  gp_GICLR :: u32
  gp_GICHR :: u32
  gp_ISFR :: "u32 list"

record gpio_layout =
  VERID_MINOR :: bitfield
  VERID_MAJOR :: bitfield
  ICR_IRQC :: bitfield
  ICR_IRQS :: bitfield
  ICR_ISF :: bitfield

section \<open>The operations\<close>

text \<open>\<open>1UL << pin\<close>, undefined from the width on.\<close>

definition pin_mask :: "nat \<Rightarrow> u32 res" where
  "pin_mask pin = (if pin < 32 then Inr (push_bit pin 1) else Inl BadShift)"

definition GPIO_GetVersionInfo :: "gpio_layout \<Rightarrow> gpio \<Rightarrow> gpio_version_info" where
  "GPIO_GetVersionInfo L r =
    \<lparr>feature = ucast (gp_VERID r), minor = ucast (drop_bit (fshift (VERID_MINOR L)) (gp_VERID r)),
     major = ucast (drop_bit (fshift (VERID_MAJOR L)) (gp_VERID r))\<rparr>"

definition GPIO_SecurePrivilegeLock :: "gpio_pin_interrupt_control \<Rightarrow> gpio \<Rightarrow> gpio" where
  "GPIO_SecurePrivilegeLock m r = r\<lparr>gp_LOCK := gp_LOCK r OR pin_interrupt_control_val m\<rparr>"

definition GPIO_EnablePinControlNonSecure :: "u32 \<Rightarrow> gpio \<Rightarrow> gpio" where
  "GPIO_EnablePinControlNonSecure m r = r\<lparr>gp_PCNS := gp_PCNS r OR m\<rparr>"

definition GPIO_DisablePinControlNonSecure :: "u32 \<Rightarrow> gpio \<Rightarrow> gpio" where
  "GPIO_DisablePinControlNonSecure m r = r\<lparr>gp_PCNS := gp_PCNS r AND NOT m\<rparr>"

definition GPIO_EnablePinControlNonPrivilege :: "u32 \<Rightarrow> gpio \<Rightarrow> gpio" where
  "GPIO_EnablePinControlNonPrivilege m r = r\<lparr>gp_PCNP := gp_PCNP r OR m\<rparr>"

definition GPIO_DisablePinControlNonPrivilege :: "u32 \<Rightarrow> gpio \<Rightarrow> gpio" where
  "GPIO_DisablePinControlNonPrivilege m r = r\<lparr>gp_PCNP := gp_PCNP r AND NOT m\<rparr>"

definition GPIO_EnableInterruptControlNonSecure :: "u32 \<Rightarrow> gpio \<Rightarrow> gpio" where
  "GPIO_EnableInterruptControlNonSecure m r = r\<lparr>gp_ICNS := gp_ICNS r OR m\<rparr>"

definition GPIO_DisableInterruptControlNonSecure :: "u32 \<Rightarrow> gpio \<Rightarrow> gpio" where
  "GPIO_DisableInterruptControlNonSecure m r = r\<lparr>gp_ICNS := gp_ICNS r AND NOT m\<rparr>"

definition GPIO_EnableInterruptControlNonPrivilege :: "u32 \<Rightarrow> gpio \<Rightarrow> gpio" where
  "GPIO_EnableInterruptControlNonPrivilege m r = r\<lparr>gp_ICNP := gp_ICNP r OR m\<rparr>"

definition GPIO_DisableInterruptControlNonPrivilege :: "u32 \<Rightarrow> gpio \<Rightarrow> gpio" where
  "GPIO_DisableInterruptControlNonPrivilege m r = r\<lparr>gp_ICNP := gp_ICNP r AND NOT m\<rparr>"

definition GPIO_PortInputEnable :: "u32 \<Rightarrow> gpio \<Rightarrow> gpio" where
  "GPIO_PortInputEnable m r = r\<lparr>gp_PIDR := gp_PIDR r AND NOT m\<rparr>"

definition GPIO_PortInputDisable :: "u32 \<Rightarrow> gpio \<Rightarrow> gpio" where
  "GPIO_PortInputDisable m r = r\<lparr>gp_PIDR := gp_PIDR r OR m\<rparr>"

text \<open>Writes to \<open>PSOR\<close>, \<open>PCOR\<close> and \<open>PTOR\<close> act on the output register.\<close>

definition GPIO_PortSet :: "u32 \<Rightarrow> gpio \<Rightarrow> gpio" where
  "GPIO_PortSet m r = r\<lparr>gp_PDOR := gp_PDOR r OR m\<rparr>"

definition GPIO_PortClear :: "u32 \<Rightarrow> gpio \<Rightarrow> gpio" where
  "GPIO_PortClear m r = r\<lparr>gp_PDOR := gp_PDOR r AND NOT m\<rparr>"

definition GPIO_PortToggle :: "u32 \<Rightarrow> gpio \<Rightarrow> gpio" where
  "GPIO_PortToggle m r = r\<lparr>gp_PDOR := gp_PDOR r XOR m\<rparr>"

definition GPIO_PinWrite :: "nat \<Rightarrow> u8 \<Rightarrow> gpio \<Rightarrow> gpio res" where
  "GPIO_PinWrite pin output r =
     rbind (pin_mask pin) (\<lambda>m. Inr (if output = 0 then GPIO_PortClear m r else GPIO_PortSet m r))"

definition GPIO_PinRead :: "nat \<Rightarrow> gpio \<Rightarrow> u32 res" where
  "GPIO_PinRead pin r = (if pin < 32 then Inr (drop_bit pin (gp_PDIR r) AND 1) else Inl BadShift)"

definition GPIO_PinInit :: "nat \<Rightarrow> gpio_pin_config \<Rightarrow> gpio \<Rightarrow> gpio res" where
  "GPIO_PinInit pin config r =
     (if pinDirection config = kGPIO_DigitalInput
      then rbind (pin_mask pin) (\<lambda>m. Inr (r\<lparr>gp_PDDR := gp_PDDR r AND NOT m\<rparr>))
      else rbind (GPIO_PinWrite pin (outputLogic config) r) (\<lambda>r.
           rbind (pin_mask pin) (\<lambda>m. Inr (r\<lparr>gp_PDDR := gp_PDDR r OR m\<rparr>))))"

section \<open>Interrupts of the port\<close>

definition GPIO_SetPinInterruptConfig :: "gpio_layout \<Rightarrow> nat \<Rightarrow> gpio_interrupt_config \<Rightarrow> gpio \<Rightarrow> gpio res" where
  "GPIO_SetPinInterruptConfig L pin config r =
     rbind (arr_get (gp_ICR r) pin) (\<lambda>w.
     rbind (arr_set (gp_ICR r) pin ((w AND NOT (fmask (ICR_IRQC L))) OR fval (ICR_IRQC L) (interrupt_config_val config)))
       (\<lambda>icr. Inr (r\<lparr>gp_ICR := icr\<rparr>)))"

definition GPIO_SetPinInterruptChannel :: "gpio_layout \<Rightarrow> nat \<Rightarrow> gpio_interrupt_selection \<Rightarrow> gpio \<Rightarrow> gpio res" where
  "GPIO_SetPinInterruptChannel L pin selection r =
     rbind (arr_get (gp_ICR r) pin) (\<lambda>w.
     rbind (arr_set (gp_ICR r) pin ((w AND NOT (fmask (ICR_IRQS L))) OR fval (ICR_IRQS L) (interrupt_selection_val selection)))
       (\<lambda>icr. Inr (r\<lparr>gp_ICR := icr\<rparr>)))"

definition GPIO_GpioGetInterruptFlags :: "gpio \<Rightarrow> u32 res" where
  "GPIO_GpioGetInterruptFlags r = arr_get (gp_ISFR r) 0"

definition GPIO_GpioGetInterruptChannelFlags :: "nat \<Rightarrow> gpio \<Rightarrow> u32 res" where
  "GPIO_GpioGetInterruptChannelFlags channel r =
     (if \<not> channel < 2 then Inl AssertFailed else arr_get (gp_ISFR r) channel)"

definition GPIO_PinGetInterruptFlag :: "gpio_layout \<Rightarrow> nat \<Rightarrow> gpio \<Rightarrow> u8 res" where
  "GPIO_PinGetInterruptFlag L pin r = rbind (arr_get (gp_ICR r) pin) (\<lambda>w. Inr (ucast (fget (ICR_ISF L) w)))"

text \<open>A store to a flag register clears the flags that the stored word has set.\<close>

definition clear_flags :: "nat \<Rightarrow> u32 \<Rightarrow> gpio \<Rightarrow> gpio res" where
  "clear_flags channel m r =
     rbind (arr_get (gp_ISFR r) channel) (\<lambda>w. rbind (arr_set (gp_ISFR r) channel (w AND NOT m)) (\<lambda>f. Inr (r\<lparr>gp_ISFR := f\<rparr>)))"

definition GPIO_GpioClearInterruptFlags :: "u32 \<Rightarrow> gpio \<Rightarrow> gpio res" where
  "GPIO_GpioClearInterruptFlags m r = clear_flags 0 m r"

definition GPIO_GpioClearInterruptChannelFlags :: "u32 \<Rightarrow> nat \<Rightarrow> gpio \<Rightarrow> gpio res" where
  "GPIO_GpioClearInterruptChannelFlags m channel r =
     (if \<not> channel < 2 then Inl AssertFailed else clear_flags channel m r)"

text \<open>\<open>ICR |= ISF\<close> stores a one to the flag bit of the pin, which clears it.\<close>

definition GPIO_PinClearInterruptFlag :: "gpio_layout \<Rightarrow> nat \<Rightarrow> gpio \<Rightarrow> gpio res" where
  "GPIO_PinClearInterruptFlag L pin r =
     rbind (arr_get (gp_ICR r) pin) (\<lambda>w.
     rbind (arr_set (gp_ICR r) pin (w AND NOT (fval (ICR_ISF L) 1))) (\<lambda>icr. Inr (r\<lparr>gp_ICR := icr\<rparr>)))"

definition GPIO_GetPinsDMARequestFlags :: "gpio \<Rightarrow> u32 res" where
  "GPIO_GetPinsDMARequestFlags r = arr_get (gp_ISFR r) 1"

definition GPIO_SetMultipleInterruptPinsConfig ::
  "gpio_layout \<Rightarrow> u32 \<Rightarrow> gpio_interrupt_config \<Rightarrow> gpio \<Rightarrow> gpio" where
  "GPIO_SetMultipleInterruptPinsConfig L m config r =
     (let irqc = fval (ICR_IRQC L) (interrupt_config_val config);
          r = (if m AND 0xFFFF \<noteq> 0 then r\<lparr>gp_GICLR := irqc OR (m AND 0xFFFF)\<rparr> else r);
          m = drop_bit 16 m
      in if m \<noteq> 0 then r\<lparr>gp_GICHR := irqc OR (m AND 0xFFFF)\<rparr> else r)"

section \<open>Pins\<close>

text \<open>The level of an output pin, and its direction.\<close>

definition pin_level :: "nat \<Rightarrow> gpio \<Rightarrow> bool" where
  "pin_level pin r = bit (gp_PDOR r) pin"

definition pin_is_output :: "nat \<Rightarrow> gpio \<Rightarrow> bool" where
  "pin_is_output pin r = bit (gp_PDDR r) pin"

text \<open>
  What the drivers of the multiplexers ask of a port: an operation that writes one pin always succeeds on a valid pin,
  gives it the level that was asked for and leaves every other pin alone.
\<close>

locale output_pins =
  fixes put :: "nat \<Rightarrow> u8 \<Rightarrow> 's \<Rightarrow> 's res"
    and level :: "nat \<Rightarrow> 's \<Rightarrow> bool"
  assumes write_ok: "p < 32 \<Longrightarrow> \<exists>s'. put p v s = Inr s' \<and> level p s' = (v \<noteq> 0) \<and>
      (\<forall>q. q \<noteq> p \<longrightarrow> level q s' = level q s)"
begin

text \<open>A sequence of writes to pins: the last put to a pin gives its level.\<close>

definition writes :: "(nat \<times> u8) list \<Rightarrow> 's \<Rightarrow> 's res" where
  "writes ws = for_each ws (\<lambda>(p, v) s. put p v s)"

lemma writes_single: "writes [(p, v)] = put p v"
  by (rule ext) (simp add: writes_def for_each_Nil)

lemma writes_Cons: "writes ((p, v) # w # ws) = (\<lambda>s. rbind (put p v s) (writes (w # ws)))"
proof (rule ext)
  fix s
  have "for_each (w # ws) (\<lambda>(p, v) s. put p v s) = writes (w # ws)"
    by (rule ext) (simp add: writes_def)
  then show "writes ((p, v) # w # ws) s = rbind (put p v s) (writes (w # ws))"
    by (subst writes_def) (simp only: for_each.simps prod.case)
qed

lemma writes_ok:
  assumes "\<forall>(p, v) \<in> set ws. p < 32" and "distinct (map fst ws)"
  shows "\<exists>s'. writes ws s = Inr s' \<and> (\<forall>(p, v) \<in> set ws. level p s' = (v \<noteq> 0)) \<and>
    (\<forall>q. q \<notin> fst ` set ws \<longrightarrow> level q s' = level q s)"
  using assms
proof (induction ws arbitrary: s)
  case Nil
  then show ?case by (simp add: writes_def)
next
  case (Cons w ws)
  obtain p v where w: "w = (p, v)" by (cases w)
  then obtain s1 where s1: "put p v s = Inr s1" "level p s1 = (v \<noteq> 0)" "\<forall>q. q \<noteq> p \<longrightarrow> level q s1 = level q s"
    using write_ok[of p v s] Cons.prems by auto
  obtain s2 where s2: "writes ws s1 = Inr s2" "\<forall>(p, v) \<in> set ws. level p s2 = (v \<noteq> 0)"
      "\<forall>q. q \<notin> fst ` set ws \<longrightarrow> level q s2 = level q s1"
    using Cons.IH[of s1] Cons.prems by auto
  have "p \<notin> fst ` set ws" using Cons.prems(2) w by auto
  then have "level p s2 = (v \<noteq> 0)" using s1(2) s2(3) by simp
  moreover have "writes (w # ws) s = Inr s2"
    using s1(1) s2(1) w by (simp add: writes_def)
  ultimately show ?case
    using s1(3) s2(2,3) w by (intro exI[of _ s2]) auto
qed

end

lemma bit_pin: "p < 32 \<Longrightarrow> bit (push_bit p 1 :: u32) q \<longleftrightarrow> q = p"
  by (auto simp: bit_push_bit_iff bit_1_iff simp del: push_bit_of_1)

interpretation pins: output_pins GPIO_PinWrite pin_level
proof unfold_locales
  fix p :: nat and v :: u8 and s :: gpio
  assume "p < 32"
  then show "\<exists>s'. GPIO_PinWrite p v s = Inr s' \<and> pin_level p s' = (v \<noteq> 0) \<and>
      (\<forall>q. q \<noteq> p \<longrightarrow> pin_level q s' = pin_level q s)"
    by (auto simp: GPIO_PinWrite_def pin_mask_def pin_level_def GPIO_PortClear_def GPIO_PortSet_def
        bit_or_iff bit_and_iff bit_not_iff bit_pin simp del: push_bit_of_1 dest: bit_imp_le_length)
qed

lemma PinWrite_only_output:
  "GPIO_PinWrite p v r = Inr r' \<Longrightarrow> r' = r\<lparr>gp_PDOR := gp_PDOR r'\<rparr>"
  by (auto simp: GPIO_PinWrite_def GPIO_PortClear_def GPIO_PortSet_def res)

lemma PinRead_ok: "p < 32 \<Longrightarrow> GPIO_PinRead p r = Inr (of_bool (bit (gp_PDIR r) p))"
  by (simp add: GPIO_PinRead_def and_one_eq mod_2_eq_odd bit_iff_odd_drop_bit)

text \<open>
  Initialising a pin gives it the configured direction and, as an output, the configured level; no other pin's
  level or direction changes.
\<close>

theorem pin_init_effect:
  assumes "p < 32"
  shows "\<exists>r'. GPIO_PinInit p c r = Inr r' \<and>
    pin_is_output p r' = (pinDirection c = kGPIO_DigitalOutput) \<and>
    (pinDirection c = kGPIO_DigitalOutput \<longrightarrow> pin_level p r' = (outputLogic c \<noteq> 0)) \<and>
    (\<forall>q. q \<noteq> p \<longrightarrow> pin_level q r' = pin_level q r \<and> pin_is_output q r' = pin_is_output q r)"
proof (cases "pinDirection c")
  case kGPIO_DigitalInput
  then show ?thesis
    using assms
    by (auto simp: GPIO_PinInit_def pin_mask_def pin_is_output_def pin_level_def bit_and_iff bit_not_iff bit_pin
        simp del: push_bit_of_1 dest: bit_imp_le_length)
next
  case kGPIO_DigitalOutput
  obtain r1 where r1: "GPIO_PinWrite p (outputLogic c) r = Inr r1" "pin_level p r1 = (outputLogic c \<noteq> 0)"
      "\<forall>q. q \<noteq> p \<longrightarrow> pin_level q r1 = pin_level q r"
    using pins.write_ok[OF assms] by blast
  have "gp_PDDR r1 = gp_PDDR r" using PinWrite_only_output[OF r1(1)] by (metis gpio.select_convs(9) gpio.surjective gpio.update_convs(7))
  then show ?thesis
    using r1 assms kGPIO_DigitalOutput
    by (auto simp: GPIO_PinInit_def pin_mask_def pin_is_output_def pin_level_def bit_or_iff bit_pin
        simp del: push_bit_of_1)
qed

text \<open>A port where all pins are low.\<close>

definition idle_gpio :: gpio where
  "idle_gpio =
    \<lparr>gp_VERID = 0, gp_LOCK = 0, gp_PCNS = 0, gp_ICNS = 0, gp_PCNP = 0, gp_ICNP = 0, gp_PDOR = 0, gp_PDIR = 0, gp_PDDR = 0,
     gp_PIDR = 0, gp_ICR = replicate 32 0, gp_GICLR = 0, gp_GICHR = 0, gp_ISFR = [0, 0]\<rparr>"

lemma idle_gpio_low [simp]: "\<not> pin_level q idle_gpio"
  by (simp add: idle_gpio_def pin_level_def)

theorem pin_init_effect_witness:
  "\<exists>r'. GPIO_PinInit 18 \<lparr>pinDirection = kGPIO_DigitalOutput, outputLogic = 1\<rparr> idle_gpio = Inr r' \<and>
    pin_is_output 18 r' \<and> pin_level 18 r' \<and> \<not> pin_level 12 r'"
proof -
  have "(18::nat) < 32" by simp
  from pin_init_effect[OF this, of "\<lparr>pinDirection = kGPIO_DigitalOutput, outputLogic = 1\<rparr>" idle_gpio]
  show ?thesis by auto
qed

end
