(* ===== verification/Globals.thy ===== *)
theory Globals
  imports IEEE_Float
begin

text \<open>
  The shared variables of the firmware (\<open>global.c\<close>, \<open>global.h\<close>), with their C types and initial values.
  Every component of the firmware reads or writes some of them; a component's own file-level
  variables are in its own record.
\<close>

definition MAX_ARRAY_SIZE :: nat where "MAX_ARRAY_SIZE = 12500"
definition SAMPLE_RATE :: nat where "SAMPLE_RATE = 25"
definition OPAMP_GAIN :: u32 where "OPAMP_GAIN = 7"
definition MAX_STRIP_COUNT :: nat where "MAX_STRIP_COUNT = 8"

text \<open>The \<open>double\<close> constant 0.002 of \<open>global.h\<close>.\<close>

definition LOWEST_FREQ_POSSIBLE :: fp where
  "LOWEST_FREQ_POSSIBLE = fl64 (2 / 1000)"

record globals =
  g_Dac14InputIndex :: u32
  g_Dac14Values :: "u32 list"
  g_Dac14ValueArraySize :: u32
  waveType :: u32
  dutyCycle :: u32
  desiredFrequency :: fp
  desiredAmplitude :: u32
  I_sens_strip_values_ready :: bool
  V_sens_strip_values_ready :: bool
  I_sens_AdcValue :: u16
  V_sens_AdcValue :: u16
  g_strip_count :: u8
  I_sens_strip_values :: "(u32 \<times> u32) list"
  V_sens_strip_values :: "(u32 \<times> u32) list"
  resistance_array :: "(c_int \<times> c_int) list"
  g_timestamp_ms :: u32
  MUX_enable :: u8
  MUX_channel :: u8
  MUX_freq :: u16
  g_excitation_voltage_on :: bool
  g_excitation_voltage_per_resistor :: fp
  g_resistor_formation :: u8
  active_strips :: "bool list"
  ModbusParamChanged :: bool
  ModbusFlag :: bool

definition init_globals :: globals where
  "init_globals =
    \<lparr>g_Dac14InputIndex = 0,
     g_Dac14Values = replicate MAX_ARRAY_SIZE 0,
     g_Dac14ValueArraySize = 0,
     waveType = 0,
     dutyCycle = 50,
     desiredFrequency = fp_cast fl32 (fl64 (5 / 100)),
     desiredAmplitude = 21,
     I_sens_strip_values_ready = False,
     V_sens_strip_values_ready = False,
     I_sens_AdcValue = 0,
     V_sens_AdcValue = 0,
     g_strip_count = 0,
     I_sens_strip_values = replicate MAX_STRIP_COUNT (0, 0),
     V_sens_strip_values = replicate MAX_STRIP_COUNT (0, 0),
     resistance_array = replicate 8 (0, 0),
     g_timestamp_ms = 0,
     MUX_enable = 0,
     MUX_channel = 0,
     MUX_freq = 8,
     g_excitation_voltage_on = True,
     g_excitation_voltage_per_resistor = fp_cast fl32 (fl64 1),
     g_resistor_formation = 8,
     active_strips = replicate 8 False,
     ModbusParamChanged = False,
     ModbusFlag = False\<rparr>"

text \<open>The shape of the arrays, which no operation changes.\<close>

definition arrays_ok :: "globals \<Rightarrow> bool" where
  "arrays_ok g \<longleftrightarrow>
     length (g_Dac14Values g) = MAX_ARRAY_SIZE \<and>
     length (I_sens_strip_values g) = MAX_STRIP_COUNT \<and>
     length (V_sens_strip_values g) = MAX_STRIP_COUNT \<and>
     length (resistance_array g) = 8 \<and>
     length (active_strips g) = 8"

lemma init_not_changed [simp]: "\<not> ModbusParamChanged init_globals"
  by (simp add: init_globals_def)

text \<open>The number of selected strips, and the agreement of \<open>g_strip_count\<close> with \<open>active_strips\<close>.\<close>

definition n_active :: "globals \<Rightarrow> nat" where
  "n_active g = length (filter id (active_strips g))"

definition count_ok :: "globals \<Rightarrow> bool" where
  "count_ok g \<longleftrightarrow> unat (g_strip_count g) = n_active g"

lemma arrays_ok_init [simp]: "arrays_ok init_globals"
  by (simp add: arrays_ok_def init_globals_def MAX_STRIP_COUNT_def)

lemma count_ok_init [simp]: "count_ok init_globals"
  by (simp add: count_ok_def n_active_def init_globals_def)

lemma n_active_le: "arrays_ok g \<Longrightarrow> n_active g \<le> 8"
  using length_filter_le[of id "active_strips g"] by (simp add: arrays_ok_def n_active_def)

text \<open>
  Counting the selected strips while setting them one after the other: the loop that both
  the Modbus handler and the command parser run over \<open>active_strips\<close>.
\<close>

lemma filter_take_Suc:
  "i < length bs \<Longrightarrow>
    length (filter id (take (Suc i) bs)) = length (filter id (take i bs)) + of_bool (bs ! i)"
  by (simp add: take_Suc_conv_app_nth)

end
