(* ===== verification/Mux.thy ===== *)
theory Mux
  imports Gpio Globals
begin

text \<open>
  The analog multiplexer that connects one of the eight strips (\<open>MUX_files/gpio_for_mux.c\<close>, \<open>gpio_for_mux.h\<close>), on four pins of port 4, and the
  power multiplexer (\<open>PowerMUX_files/powermux.c\<close>), one input pin of port 2 that tells whether the board is powered by USB or from the
  Modbus line.
\<close>

definition GPIO_PIN_S0 :: nat where "GPIO_PIN_S0 = 12"
definition GPIO_PIN_S1 :: nat where "GPIO_PIN_S1 = 14"
definition GPIO_PIN_S2 :: nat where "GPIO_PIN_S2 = 16"
definition GPIO_PIN_ENABLE :: nat where "GPIO_PIN_ENABLE = 18"
definition POWER_MUX_PIN :: nat where "POWER_MUX_PIN = 10"

lemmas mux_pins = GPIO_PIN_S0_def GPIO_PIN_S1_def GPIO_PIN_S2_def GPIO_PIN_ENABLE_def

section \<open>The analog multiplexer\<close>

definition InitMuxGpio :: "gpio \<times> sys_call list \<Rightarrow> (gpio \<times> sys_call list) res" where
  "InitMuxGpio d =
     (let gpioConfig = \<lparr>pinDirection = kGPIO_DigitalOutput, outputLogic = 0\<rparr>;
          calls = snd d @ [CLOCK_EnableClock (GPIO 4)]
      in rbind (GPIO_PinInit GPIO_PIN_S0 gpioConfig (fst d)) (\<lambda>r.
         rbind (GPIO_PinInit GPIO_PIN_S1 gpioConfig r) (\<lambda>r.
         rbind (GPIO_PinInit GPIO_PIN_S2 gpioConfig r) (\<lambda>r.
         rbind (GPIO_PinInit GPIO_PIN_ENABLE gpioConfig r) (\<lambda>r. Inr (r, calls))))))"

definition SelectMuxChannel :: "u8 \<Rightarrow> gpio \<Rightarrow> gpio res" where
  "SelectMuxChannel channel r =
     (let adjustedChannel = channel
      in rbind (GPIO_PinWrite GPIO_PIN_S0 (adjustedChannel AND 0x01) r) (\<lambda>r.
         rbind (GPIO_PinWrite GPIO_PIN_S1 (drop_bit 1 (adjustedChannel AND 0x02)) r) (\<lambda>r.
         GPIO_PinWrite GPIO_PIN_S2 (drop_bit 2 (adjustedChannel AND 0x04)) r)))"

definition EnableMux :: "gpio \<Rightarrow> gpio res" where
  "EnableMux r = GPIO_PinWrite GPIO_PIN_ENABLE 1 r"

definition DisableMux :: "gpio \<Rightarrow> gpio res" where
  "DisableMux r =
     rbind (GPIO_PinWrite GPIO_PIN_ENABLE 0 r) (\<lambda>r.
     rbind (GPIO_PinWrite GPIO_PIN_S0 0 r) (\<lambda>r.
     rbind (GPIO_PinWrite GPIO_PIN_S1 0 r) (\<lambda>r.
     GPIO_PinWrite GPIO_PIN_S2 0 r)))"

definition ProcessMuxControl :: "globals \<Rightarrow> gpio \<Rightarrow> gpio res" where
  "ProcessMuxControl g r =
     (if MUX_enable g \<noteq> 0 then rbind (SelectMuxChannel (MUX_channel g) r) EnableMux else DisableMux r)"

section \<open>The power multiplexer\<close>

definition InitPowerMux :: "gpio \<Rightarrow> gpio res" where
  "InitPowerMux r = GPIO_PinInit POWER_MUX_PIN \<lparr>pinDirection = kGPIO_DigitalInput, outputLogic = 0\<rparr> r"

definition readPowerSource :: "gpio \<Rightarrow> globals \<Rightarrow> globals res" where
  "readPowerSource r g =
     rbind (GPIO_PinRead POWER_MUX_PIN r) (\<lambda>v.
       let powerSource = (v \<noteq> 0)
       in Inr (if powerSource then g\<lparr>ModbusFlag := False\<rparr> else g\<lparr>ModbusFlag := True\<rparr>))"

section \<open>Properties\<close>

text \<open>
  The specification: the channel that the pins of the port select, if the multiplexer is enabled at all.
\<close>

definition selected_channel :: "gpio \<Rightarrow> nat" where
  "selected_channel r =
     of_bool (pin_level GPIO_PIN_S0 r) + 2 * of_bool (pin_level GPIO_PIN_S1 r) + 4 * of_bool (pin_level GPIO_PIN_S2 r)"

definition mux_enabled :: "gpio \<Rightarrow> bool" where
  "mux_enabled r = pin_level GPIO_PIN_ENABLE r"

definition mux_pin_set :: "nat set" where
  "mux_pin_set = {GPIO_PIN_S0, GPIO_PIN_S1, GPIO_PIN_S2, GPIO_PIN_ENABLE}"

lemma SelectMuxChannel_writes:
  "SelectMuxChannel ch r = pins.writes
     [(GPIO_PIN_S0, ch AND 0x01), (GPIO_PIN_S1, drop_bit 1 (ch AND 0x02)), (GPIO_PIN_S2, drop_bit 2 (ch AND 0x04))] r"
  by (simp add: SelectMuxChannel_def pins.writes_Cons pins.writes_single Let_def)

lemma DisableMux_writes:
  "DisableMux r = pins.writes [(GPIO_PIN_ENABLE, 0), (GPIO_PIN_S0, 0), (GPIO_PIN_S1, 0), (GPIO_PIN_S2, 0)] r"
  by (simp add: DisableMux_def pins.writes_Cons pins.writes_single)

lemma channel_bits:
  fixes ch :: u8
  shows "(ch AND 1 \<noteq> 0) = bit ch 0" "(drop_bit 1 (ch AND 2) \<noteq> 0) = bit ch 1" "(drop_bit 2 (ch AND 4) \<noteq> 0) = bit ch 2"
proof -
  have two: "(2 :: u8) = push_bit 1 1" and four: "(4 :: u8) = push_bit 2 1" by simp_all
  have *: "drop_bit k (ch AND push_bit k 1) = of_bool (bit ch k)" if "k < 8" for k
    using that by (intro bit_word_eqI) (auto simp: bit_simps bit_1_iff simp del: push_bit_of_1)
  show "(ch AND 1 \<noteq> 0) = bit ch 0" using *[of 0] by simp
  show "(drop_bit 1 (ch AND 2) \<noteq> 0) = bit ch 1" unfolding two using *[of 1] by (simp del: push_bit_of_1)
  show "(drop_bit 2 (ch AND 4) \<noteq> 0) = bit ch 2" unfolding four using *[of 2] by (simp del: push_bit_of_1)
qed

lemma low_three_bits: "of_bool (bit ch 0) + 2 * of_bool (bit ch 1) + 4 * of_bool (bit ch 2) = unat (ch :: u8) mod 8"
proof -
  have "unat ch mod 8 = unat ch mod 2 + 2 * ((unat ch div 2) mod 2) + 4 * ((unat ch div 4) mod 2)"
    using mod_mult2_eq[of "unat ch" 2 4] mod_mult2_eq[of "unat ch div 2" 2 2] by (simp flip: div_mult2_eq)
  moreover have "(of_bool (bit ch k) :: nat) = unat ch div 2 ^ k mod 2" for k
  proof -
    have "bit ch k = bit (unat ch) k" by (auto simp: bit_unsigned_iff dest: bit_imp_le_length)
    then show ?thesis by (simp add: bit_iff_odd mod_2_eq_odd)
  qed
  note this[of 0] this[of 1] this[of 2]
  ultimately show ?thesis by simp
qed

text \<open>
  Selecting a channel makes the three address pins show the channel number modulo 8, and leaves every other pin
  of the port, the enable pin included, as it was.
\<close>

theorem mux_selects_channel:
  "\<exists>r'. SelectMuxChannel ch r = Inr r' \<and> selected_channel r' = unat ch mod 8 \<and> mux_enabled r' = mux_enabled r \<and>
    (\<forall>q. q \<notin> {GPIO_PIN_S0, GPIO_PIN_S1, GPIO_PIN_S2} \<longrightarrow> pin_level q r' = pin_level q r)"
proof -
  let ?ws = "[(GPIO_PIN_S0, ch AND 0x01), (GPIO_PIN_S1, drop_bit 1 (ch AND 0x02)), (GPIO_PIN_S2, drop_bit 2 (ch AND 0x04))]"
  obtain r' where r': "pins.writes ?ws r = Inr r'" "\<forall>(p, v) \<in> set ?ws. pin_level p r' = (v \<noteq> 0)"
      "\<forall>q. q \<notin> fst ` set ?ws \<longrightarrow> pin_level q r' = pin_level q r"
    using pins.writes_ok[of ?ws r] by (auto simp: mux_pins)
  then have "selected_channel r' = unat ch mod 8"
    using low_three_bits[of ch] channel_bits[of ch] by (simp add: selected_channel_def)
  then show ?thesis
    using r' by (simp add: SelectMuxChannel_writes mux_enabled_def mux_pins)
qed

theorem mux_selects_channel_witness:
  "\<exists>r'. SelectMuxChannel 255 idle_gpio = Inr r' \<and> selected_channel r' = 7 \<and> \<not> mux_enabled r'"
  using mux_selects_channel[of 255 idle_gpio] by (auto simp: mux_enabled_def)

text \<open>
  The control operation refines its specification: with the enable variable set, the chosen channel is connected; otherwise the
  multiplexer is off and all four pins are low. No pin of another function changes.
\<close>

theorem mux_control_refines:
  "\<exists>r'. ProcessMuxControl g r = Inr r' \<and>
    mux_enabled r' = (MUX_enable g \<noteq> 0) \<and>
    selected_channel r' = (if MUX_enable g \<noteq> 0 then unat (MUX_channel g) mod 8 else 0) \<and>
    (\<forall>q. q \<notin> mux_pin_set \<longrightarrow> pin_level q r' = pin_level q r)"
proof (cases "MUX_enable g = 0")
  case True
  let ?ws = "[(GPIO_PIN_ENABLE, 0), (GPIO_PIN_S0, 0), (GPIO_PIN_S1, 0), (GPIO_PIN_S2, 0)]"
  obtain r' where r': "pins.writes ?ws r = Inr r'" "\<forall>(p, v) \<in> set ?ws. pin_level p r' = (v \<noteq> 0)"
      "\<forall>q. q \<notin> fst ` set ?ws \<longrightarrow> pin_level q r' = pin_level q r"
    using pins.writes_ok[of ?ws r] by (auto simp: mux_pins)
  then show ?thesis
    using True by (simp add: ProcessMuxControl_def DisableMux_writes mux_enabled_def selected_channel_def mux_pin_set_def)
next
  case False
  let ?ws = "[(GPIO_PIN_S0, MUX_channel g AND 0x01), (GPIO_PIN_S1, drop_bit 1 (MUX_channel g AND 0x02)),
    (GPIO_PIN_S2, drop_bit 2 (MUX_channel g AND 0x04)), (GPIO_PIN_ENABLE, 1)]"
  obtain r' where r': "pins.writes ?ws r = Inr r'" "\<forall>(p, v) \<in> set ?ws. pin_level p r' = (v \<noteq> 0)"
      "\<forall>q. q \<notin> fst ` set ?ws \<longrightarrow> pin_level q r' = pin_level q r"
    using pins.writes_ok[of ?ws r] by (auto simp: mux_pins)
  then have "selected_channel r' = unat (MUX_channel g) mod 8"
    using low_three_bits[of "MUX_channel g"] channel_bits[of "MUX_channel g"] by (simp add: selected_channel_def)
  moreover have "EnableMux = GPIO_PinWrite GPIO_PIN_ENABLE 1"
    by (rule ext) (simp add: EnableMux_def)
  then have "rbind (SelectMuxChannel (MUX_channel g) r) EnableMux = Inr r'"
    using r'(1) by (simp add: SelectMuxChannel_writes EnableMux_def pins.writes_Cons pins.writes_single rbind_assoc)
  ultimately show ?thesis
    using False r' by (simp add: ProcessMuxControl_def mux_enabled_def mux_pin_set_def)
qed

theorem mux_control_refines_witness:
  "\<exists>r'. ProcessMuxControl (init_globals\<lparr>MUX_enable := 1, MUX_channel := 5\<rparr>) idle_gpio = Inr r' \<and>
    mux_enabled r' \<and> selected_channel r' = 5"
  using mux_control_refines[of "init_globals\<lparr>MUX_enable := 1, MUX_channel := 5\<rparr>" idle_gpio] by auto

lemma SelectMuxChannel_ok: "\<exists>r'. SelectMuxChannel ch r = Inr r' \<and> selected_channel r' = unat ch mod 8"
proof -
  let ?ws = "[(GPIO_PIN_S0, ch AND 0x01), (GPIO_PIN_S1, drop_bit 1 (ch AND 0x02)), (GPIO_PIN_S2, drop_bit 2 (ch AND 0x04))]"
  obtain r' where r': "pins.writes ?ws r = Inr r'" "\<forall>(p, v) \<in> set ?ws. pin_level p r' = (v \<noteq> 0)"
    using pins.writes_ok[of ?ws r] by (auto simp: mux_pins)
  then show ?thesis
    using low_three_bits[of ch] channel_bits[of ch] by (simp add: selected_channel_def SelectMuxChannel_writes)
qed

lemma InitMuxGpio_ok: "\<exists>r'. InitMuxGpio (r, calls) = Inr (r', calls @ [CLOCK_EnableClock (GPIO 4)])"
  by (simp add: InitMuxGpio_def GPIO_PinInit_def GPIO_PinWrite_def pin_mask_def mux_pins)

lemma EnableMux_ok: "\<exists>r'. EnableMux r = Inr r'"
  using pins.write_ok[of 18 1 r] by (auto simp: EnableMux_def mux_pins)

lemma InitPowerMux_ok: "\<exists>r'. InitPowerMux r = Inr r'"
  by (simp add: InitPowerMux_def GPIO_PinInit_def pin_mask_def POWER_MUX_PIN_def)

lemma readPowerSource_ok:
  "readPowerSource r g = Inr (g\<lparr>ModbusFlag := \<not> bit (gp_PDIR r) POWER_MUX_PIN\<rparr>)"
  by (simp add: readPowerSource_def PinRead_ok POWER_MUX_PIN_def)

end
