(* ===== verification/Board.thy ===== *)
theory Board
  imports Ctimer Hpdac Lpdac Vref Lpadc Mux
begin

text \<open>
  The peripherals of the board that the firmware uses, with their registers, and the calls made to the rest of the SDK and to the
  processor, in order. The chip is described by the register layouts of its peripherals and the reset values
  of a timer, which are parameters.
\<close>

record chip =
  L_ctimer :: ctimer_layout
  L_hpdac :: hpdac_layout
  L_lpdac :: lpdac_layout
  L_lpadc :: lpadc_layout
  L_vref :: vref_layout
  ctimer_reset :: ctimer
  SysTick_CTRL_ENABLE :: bitfield

text \<open>
  Of the hardware the sources address directly: two ports, two timers, the two kinds of digital to analog converters, the two
  analog to digital converters, the reference, one register of the power controller and the control register of the system tick.
\<close>

text \<open>The function that the firmware registers with the timer driver; the driver keeps the registration.\<close>

datatype registered = DacUpdateCallback

record board =
  GPIO2 :: gpio
  GPIO4 :: gpio
  CTIMER2 :: ctimer
  CTIMER4 :: ctimer
  DAC2 :: hpdac
  DAC0 :: lpdac
  ADC0 :: lpadc
  ADC1 :: lpadc
  VREF0 :: vref
  SPC0_ACTIVE_CFG1 :: u32
  SysTick_CTRL :: u32
  s_ctimerCallback4 :: "registered ctimer_callbacks"
  sys_calls :: "sys_call list"

definition call :: "sys_call \<Rightarrow> board \<Rightarrow> board" where
  "call c b = b\<lparr>sys_calls := sys_calls b @ [c]\<rparr>"

text \<open>
  A driver operation on one of the peripherals: on its registers with the calls it makes, possibly with a fault, or on its
  registers alone with a fault. One
  accessor and one update function describe the peripheral.
\<close>

definition on_dev ::
  "('r \<times> sys_call list \<Rightarrow> 'r \<times> sys_call list) \<Rightarrow> (board \<Rightarrow> 'r) \<Rightarrow> (('r \<Rightarrow> 'r) \<Rightarrow> board \<Rightarrow> board) \<Rightarrow> board \<Rightarrow> board" where
  "on_dev f sel upd b = (let (r, cs) = f (sel b, sys_calls b) in upd (\<lambda>_. r) (b\<lparr>sys_calls := cs\<rparr>))"

definition on_dev_res ::
  "('r \<times> sys_call list \<Rightarrow> ('r \<times> sys_call list) res) \<Rightarrow> (board \<Rightarrow> 'r) \<Rightarrow> (('r \<Rightarrow> 'r) \<Rightarrow> board \<Rightarrow> board) \<Rightarrow> board \<Rightarrow> board res" where
  "on_dev_res f sel upd b = rbind (f (sel b, sys_calls b)) (\<lambda>(r, cs). Inr (upd (\<lambda>_. r) (b\<lparr>sys_calls := cs\<rparr>)))"

definition on_regs_res ::
  "('r \<Rightarrow> 'r res) \<Rightarrow> (board \<Rightarrow> 'r) \<Rightarrow> (('r \<Rightarrow> 'r) \<Rightarrow> board \<Rightarrow> board) \<Rightarrow> board \<Rightarrow> board res" where
  "on_regs_res f sel upd b = rbind (f (sel b)) (\<lambda>r. Inr (upd (\<lambda>_. r) b))"

definition on_dev_wait ::
  "('r \<times> sys_call list \<Rightarrow> ('r \<times> sys_call list) option) \<Rightarrow> (board \<Rightarrow> 'r) \<Rightarrow> (('r \<Rightarrow> 'r) \<Rightarrow> board \<Rightarrow> board) \<Rightarrow> board \<Rightarrow> board run" where
  "on_dev_wait f sel upd b =
     (case f (sel b, sys_calls b) of None \<Rightarrow> None | Some (r, cs) \<Rightarrow> Some (Inr (upd (\<lambda>_. r) (b\<lparr>sys_calls := cs\<rparr>))))"

definition on_regs_run ::
  "('r \<Rightarrow> 'r run) \<Rightarrow> (board \<Rightarrow> 'r) \<Rightarrow> (('r \<Rightarrow> 'r) \<Rightarrow> board \<Rightarrow> board) \<Rightarrow> board \<Rightarrow> board run" where
  "on_regs_run f sel upd b = run_bind (f (sel b)) (\<lambda>r. Some (Inr (upd (\<lambda>_. r) b)))"

lemma on_dev_res_Inr: "f (sel b, sys_calls b) = Inr (r, cs) \<Longrightarrow> on_dev_res f sel upd b = Inr (upd (\<lambda>_. r) (b\<lparr>sys_calls := cs\<rparr>))"
  by (simp add: on_dev_res_def)

lemma on_regs_res_Inr: "f (sel b) = Inr r \<Longrightarrow> on_regs_res f sel upd b = Inr (upd (\<lambda>_. r) b)"
  by (simp add: on_regs_res_def)

lemma call_simps [simp]:
  "GPIO2 (call c b) = GPIO2 b" "GPIO4 (call c b) = GPIO4 b" "CTIMER2 (call c b) = CTIMER2 b"
  "CTIMER4 (call c b) = CTIMER4 b" "DAC2 (call c b) = DAC2 b" "DAC0 (call c b) = DAC0 b"
  "ADC0 (call c b) = ADC0 b" "ADC1 (call c b) = ADC1 b" "VREF0 (call c b) = VREF0 b"
  "SPC0_ACTIVE_CFG1 (call c b) = SPC0_ACTIVE_CFG1 b" "SysTick_CTRL (call c b) = SysTick_CTRL b"
  "s_ctimerCallback4 (call c b) = s_ctimerCallback4 b"
  "sys_calls (call c b) = sys_calls b @ [c]"
  by (simp_all add: call_def)

text \<open>What the development asks of the chip: each peripheral has a layout as its driver assumes it.\<close>

definition chip_ok :: "chip \<Rightarrow> bool" where
  "chip_ok C \<longleftrightarrow>
     ctimer_layout_ok (L_ctimer C) \<and> hpdac_layout_ok (L_hpdac C) \<and> lpdac_layout_ok (L_lpdac C) \<and>
     vref_layout_ok (L_vref C) \<and> lpadc_fifo_layout_ok (L_lpadc C) \<and> lpadc_gain_layout_ok (L_lpadc C) \<and> lpadc_command_layout_ok (L_lpadc C) \<and>
     length (ct_MR (ctimer_reset C)) = 4"

definition example_chip :: chip where
  "example_chip =
    \<lparr>L_ctimer = LPC55S36_ctimer, L_hpdac = example_hpdac, L_lpdac = example_lpdac, L_lpadc = example_lpadc,
     L_vref = example_vref, ctimer_reset = reset_ctimer, SysTick_CTRL_ENABLE = \<lparr>fshift = 0, fwidth = 1\<rparr>\<rparr>"

definition reset_board :: board where
  "reset_board =
    \<lparr>GPIO2 = idle_gpio, GPIO4 = idle_gpio, CTIMER2 = reset_ctimer, CTIMER4 = reset_ctimer, DAC2 = reset_hpdac,
     DAC0 = reset_lpdac, ADC0 = reset_lpadc, ADC1 = reset_lpadc, VREF0 = \<lparr>vr_CSR = 0, vr_UTRIM = 0\<rparr>,
     SPC0_ACTIVE_CFG1 = 0, SysTick_CTRL = 0, s_ctimerCallback4 = init_callbacks, sys_calls = []\<rparr>"

lemma example_chip_ok: "chip_ok example_chip"
  using LPC55S36_ctimer_ok example_hpdac_ok example_lpdac_ok example_vref_ok example_lpadc_gain_ok example_lpadc_fifo_ok
    example_lpadc_command_ok
  by (simp add: chip_ok_def example_chip_def reset_ctimer_def)

end
