(* ===== verification/AdcStrip.thy ===== *)
theory AdcStrip
  imports Board Globals
begin

text \<open>
  The measurement (\<open>ADC_files/adc_16_strip.c\<close>): two analog to digital converters, one for the voltage of the selected strip and one for the current,
  triggered by a timer interrupt and read by their own interrupts; thirty timer ticks make one value of a strip, and
  after the last active strip the resistances are computed. The messages are not modelled.
\<close>

section \<open>Variables of the file\<close>

text \<open>
  The array of active strips is allocated by \<open>malloc\<close>: \<open>None\<close> is the null pointer, and a block is the list of its bytes. What
  \<open>malloc\<close> returns for a number of bytes is a parameter: the null pointer, or a block with whatever bytes it holds.
\<close>

record adc_vars =
  I_sens_LpadcConversionCompletedFlag :: bool
  I_sens_LpadcResultConfigStruct :: lpadc_conv_result
  V_sens_LpadcConversionCompletedFlag :: bool
  V_sens_LpadcResultConfigStruct :: lpadc_conv_result
  SoftwareAverageCount :: u8
  currentCountIndex :: u8
  VoltageSum :: u32
  CurrentSum :: u32
  resultVoltage :: u32
  current_adc_result :: u32
  Total_averaged_current :: u32
  Total_adc_summation :: u32
  current_active_strip_index :: u8
  active_strip_indices :: "u8 list option"

definition I_sens_LpadcResultShift :: nat where "I_sens_LpadcResultShift = 0"
definition V_sens_LpadcResultShift :: nat where "V_sens_LpadcResultShift = 0"

definition init_adc_vars :: adc_vars where
  "init_adc_vars =
    \<lparr>I_sens_LpadcConversionCompletedFlag = False,
     I_sens_LpadcResultConfigStruct = \<lparr>commandIdSource = 0, loopCountIndex = 0, triggerIdSource = 0, convValue = 0\<rparr>,
     V_sens_LpadcConversionCompletedFlag = False,
     V_sens_LpadcResultConfigStruct = \<lparr>commandIdSource = 0, loopCountIndex = 0, triggerIdSource = 0, convValue = 0\<rparr>,
     SoftwareAverageCount = 30,
     currentCountIndex = 0,
     VoltageSum = 0,
     CurrentSum = 0,
     resultVoltage = 0,
     current_adc_result = 0,
     Total_averaged_current = 0,
     Total_adc_summation = 0,
     current_active_strip_index = 0,
     active_strip_indices = None\<rparr>"

section \<open>The interrupts of the converters\<close>

text \<open>\<open>w\<close> is the word read from the result FIFO.\<close>

definition ADC0_IRQHandler :: "lpadc_layout \<Rightarrow> u32 \<Rightarrow> adc_vars \<Rightarrow> adc_vars" where
  "ADC0_IRQHandler L w a =
     (let (ok, result) = LPADC_GetConvResult L w (V_sens_LpadcResultConfigStruct a);
          a = a\<lparr>V_sens_LpadcResultConfigStruct := result\<rparr>
      in if ok then
           a\<lparr>V_sens_LpadcConversionCompletedFlag := True,
             VoltageSum := VoltageSum a + drop_bit V_sens_LpadcResultShift (ucast (convValue result))\<rparr>
         else a)"

definition ADC1_IRQHandler :: "lpadc_layout \<Rightarrow> u32 \<Rightarrow> adc_vars \<Rightarrow> adc_vars" where
  "ADC1_IRQHandler L w a =
     (let (ok, result) = LPADC_GetConvResult L w (I_sens_LpadcResultConfigStruct a);
          a = a\<lparr>I_sens_LpadcResultConfigStruct := result\<rparr>
      in if ok then
           a\<lparr>I_sens_LpadcConversionCompletedFlag := True,
             CurrentSum := CurrentSum a + drop_bit I_sens_LpadcResultShift (ucast (convValue result))\<rparr>
         else a)"

section \<open>The active strips\<close>

definition FirstActiveStrip :: "globals \<Rightarrow> c_int" where
  "FirstActiveStrip g =
     (case filter (\<lambda>i. active_strips g ! i) [0..<8] of [] \<Rightarrow> - 1 | i # _ \<Rightarrow> of_nat i)"

text \<open>The loop of \<open>ConvertActiveStrips\<close>, with the block and the running index.\<close>

definition collect_strip :: "globals \<Rightarrow> nat \<Rightarrow> u8 list \<times> u8 \<Rightarrow> (u8 list \<times> u8) res" where
  "collect_strip g i s =
     (let (block, index) = s
      in rbind (arr_get (active_strips g) i) (\<lambda>active.
         if active then rbind (arr_set block (unat index) (of_nat i)) (\<lambda>block. Inr (block, index + 1))
         else Inr s))"

definition ConvertActiveStrips :: "(nat \<Rightarrow> u8 list option) \<Rightarrow> globals \<Rightarrow> adc_vars \<Rightarrow> adc_vars res" where
  "ConvertActiveStrips malloc g a =
     (case malloc (unat (g_strip_count g)) of
        None \<Rightarrow> Inr (a\<lparr>active_strip_indices := None\<rparr>)
      | Some block \<Rightarrow>
          rbind (for_each [0..<8] (collect_strip g) (block, 0)) (\<lambda>(block, index).
            Inr (a\<lparr>active_strip_indices := Some block\<rparr>)))"

section \<open>The resistances\<close>

definition resistance :: "u32 \<Rightarrow> u32 \<Rightarrow> c_int res" where
  "resistance voltage current =
     fp_to_int (fp_add fl64
       (fp_mul fl32 (fp_mul fl32 (fp_div fl32 (f32_of_u32 voltage) (f32_of_u32 current)) (fl32 120)) (fl32 75))
       (fl64 (1 / 2)))"

definition strip_resistance :: "nat \<Rightarrow> globals \<times> adc_vars \<Rightarrow> (globals \<times> adc_vars) res" where
  "strip_resistance i s =
     (let (g, a) = s
      in rbind (arr_get (active_strips g) i) (\<lambda>active.
         if active then
           rbind (arr_get (V_sens_strip_values g) i) (\<lambda>v.
           rbind (arr_get (resistance_array g) i) (\<lambda>r.
           rbind (arr_set (resistance_array g) i (fst r, snd v)) (\<lambda>rs.
           if g_strip_count g = 0 then Inl DivByZero
           else
             let a = a\<lparr>Total_averaged_current := Total_adc_summation a div ucast (g_strip_count g)\<rparr>
             in rbind (resistance (fst v) (Total_averaged_current a)) (\<lambda>ohm.
                rbind (arr_set rs i (ohm, snd v)) (\<lambda>rs.
                  Inr (g\<lparr>resistance_array := rs\<rparr>, a))))))
         else Inr s))"

definition calculate_resistance_array :: "globals \<times> adc_vars \<Rightarrow> (globals \<times> adc_vars) res" where
  "calculate_resistance_array s =
     rbind (for_each [0..<MAX_STRIP_COUNT] strip_resistance s) (\<lambda>(g, a).
       Inr (g, a\<lparr>Total_adc_summation := 0, Total_averaged_current := 0\<rparr>))"

section \<open>The timer interrupt\<close>

definition read_strip_index :: "adc_vars \<Rightarrow> u8 res" where
  "read_strip_index a =
     (case active_strip_indices a of
        None \<Rightarrow> Inl BadPointer
      | Some block \<Rightarrow> arr_get block (unat (current_active_strip_index a)))"

definition trigger_converters :: "board \<Rightarrow> board" where
  "trigger_converters b =
     b\<lparr>ADC0 := LPADC_DoSoftwareTrigger 1 (ADC0 b), ADC1 := LPADC_DoSoftwareTrigger 1 (ADC1 b)\<rparr>"

text \<open>After the last active strip the resistances are computed.\<close>

definition end_of_round :: "globals \<Rightarrow> adc_vars \<Rightarrow> (globals \<times> adc_vars) res" where
  "end_of_round g a = (if current_active_strip_index a = 0 then calculate_resistance_array (g, a) else Inr (g, a))"

definition finish_strip :: "globals \<times> adc_vars \<times> board \<Rightarrow> (globals \<times> adc_vars \<times> board) res" where
  "finish_strip s =
     (let (g, a, b) = s
      in if SoftwareAverageCount a = 0 then Inl DivByZero
         else
           let a = a\<lparr>current_adc_result := CurrentSum a div ucast (SoftwareAverageCount a)\<rparr>;
               a = a\<lparr>resultVoltage := VoltageSum a div ucast (SoftwareAverageCount a)\<rparr>;
               a = a\<lparr>Total_adc_summation := Total_adc_summation a + current_adc_result a\<rparr>
           in rbind (read_strip_index a) (\<lambda>currentChannel.
              rbind (arr_get (V_sens_strip_values g) (unat currentChannel)) (\<lambda>v.
              rbind (arr_set (V_sens_strip_values g) (unat currentChannel) (resultVoltage a, g_timestamp_ms g)) (\<lambda>vs.
              let g = g\<lparr>V_sens_strip_values := vs\<rparr>;
                  a = a\<lparr>CurrentSum := 0, VoltageSum := 0, currentCountIndex := 0\<rparr>
              in if g_strip_count g = 0 then Inl DivByZero
                 else
                   let a = a\<lparr>current_active_strip_index :=
                           of_nat ((unat (current_active_strip_index a) + 1) mod unat (g_strip_count g))\<rparr>
                   in rbind (end_of_round g a) (\<lambda>(g, a).
                      rbind (read_strip_index a) (\<lambda>channel.
                      rbind (on_regs_res (SelectMuxChannel channel) GPIO4 GPIO4_update b) (\<lambda>b.
                        Inr (g, a, b))))))))"

definition CTIMER2_IRQHandler :: "chip \<Rightarrow> globals \<times> adc_vars \<times> board \<Rightarrow> (globals \<times> adc_vars \<times> board) res" where
  "CTIMER2_IRQHandler C s =
     (let (g, a, b) = s;
          b = b\<lparr>CTIMER2 := CTIMER_ClearStatusFlags (fmask (IR_MR0INT (L_ctimer C))) (CTIMER2 b)\<rparr>
      in if g_strip_count g = 0 \<and> \<not> ModbusFlag g then Inr (g, a, b)
         else if int (unat (currentCountIndex a)) < int (unat (SoftwareAverageCount a)) - 1 then
           let b = trigger_converters b
           in Inr (g, a\<lparr>currentCountIndex := currentCountIndex a + 1\<rparr>, b)
         else
           let b = trigger_converters b
           in finish_strip (g, a, b))"

section \<open>Setting up the converters and the timer\<close>

text \<open>
  The values that the hardware returns to the waits of the set-up: the status register of the reference, that of the converter during the
  offset calibration, the two gain registers, and the status register at the end.
\<close>

record adc_reads =
  csr_reads :: "u32 list"
  offset_reads :: "u32 list"
  gain_reads :: "(u32 \<times> u32) list"
  ready_reads :: "u32 list"

text \<open>The reference: 1.2 V with the low power buffer.\<close>

definition reference_setup :: "chip \<Rightarrow> adc_reads \<Rightarrow> board \<Rightarrow> board run" where
  "reference_setup C rd b =
     (let b = b\<lparr>SPC0_ACTIVE_CFG1 := SPC0_ACTIVE_CFG1 b OR 0x1\<rparr>;
          vrefConfig_12 = VREF_GetDefaultConfig\<lparr>bufferMode := kVREF_ModeLowPowerBuffer\<rparr>;
          b = on_dev (VREF_Init (L_vref C) 0 vrefConfig_12) VREF0 VREF0_update b
      in on_dev_wait (VREF_SetTrim21Val (L_vref C) 2 (csr_reads rd)) VREF0 VREF0_update b)"

text \<open>Clocks, and the reference again, in the mode that only starts the bandgap.\<close>

definition converter_clocks :: "chip \<Rightarrow> clock_div \<Rightarrow> clock_attach \<Rightarrow> board \<Rightarrow> board" where
  "converter_clocks C divider attach b =
     (let b = call (CLOCK_AttachClk BOARD_DEBUG_UART_CLK_ATTACH) (call (CLOCK_SetClkDiv kCLOCK_DivFlexcom4Clk 1) b);
          b = call (CLOCK_AttachClk attach) (call (CLOCK_SetClkDiv divider 1) b);
          b = call SPC_EnableActiveModeAnalogModules_controlVref b;
          vrefConfig = VREF_GetDefaultConfig\<lparr>bufferMode := kVREF_ModeBandgapOnly\<rparr>
      in on_dev (VREF_Init (L_vref C) 0 vrefConfig) VREF0 VREF0_update b)"

definition converter_config :: lpadc_config where
  "converter_config = LPADC_GetDefaultConfig
    \<lparr>enableAnalogPreliminary := True, referenceVoltageSource := kLPADC_ReferenceVoltageAlt2,
     triggerPriorityPolicy := kLPADC_ConvPreemptSubsequentlyNotAutoResumed,
     conversionAverageMode := kLPADC_ConversionAverage1024\<rparr>"

definition trigger_config :: lpadc_conv_trigger_config where
  "trigger_config = LPADC_GetDefaultConvTriggerConfig\<lparr>targetCommandId := 1, enableHardwareTrigger := False\<rparr>"

definition converter_setup :: "lpadc_layout \<Rightarrow> lpadc_conv_command_config \<Rightarrow> adc_reads \<Rightarrow> lpadc \<Rightarrow> lpadc run" where
  "converter_setup L command rd r =
     run_bind (map_option Inr (LPADC_DoOffsetCalibration L (offset_reads rd) r)) (\<lambda>r.
     run_bind (LPADC_DoAutoCalibration L (gain_reads rd) (ready_reads rd) r) (\<lambda>r.
     Some
      (rbind (LPADC_SetConvCommandConfig L 1 command r) (\<lambda>r.
       rbind (LPADC_SetConvTriggerConfig L 0 trigger_config r) (\<lambda>r.
       LPADC_EnableInterrupts L (fmask (IE_FWMIE0 L)) r)))))"

definition voltage_command :: lpadc_conv_command_config where
  "voltage_command = LPADC_GetDefaultConvCommandConfig
    \<lparr>sampleTimeMode := kLPADC_SampleTimeADCK131, channelNumber := 2,
     conversionResolutionMode := kLPADC_ConversionResolutionHigh\<rparr>"

definition current_command :: lpadc_conv_command_config where
  "current_command = LPADC_GetDefaultConvCommandConfig
    \<lparr>sampleTimeMode := kLPADC_SampleTimeADCK131, sampleChannelMode := kLPADC_SampleChannelSingleEndSideB,
     channelNumber := 6, conversionResolutionMode := kLPADC_ConversionResolutionHigh\<rparr>"

definition ADC_Voltage_Initialize :: "chip \<Rightarrow> adc_reads \<Rightarrow> board \<Rightarrow> board run" where
  "ADC_Voltage_Initialize C rd b =
     run_bind (reference_setup C rd b) (\<lambda>b.
     run_bind (Some (on_dev_res (LPADC_Init (L_lpadc C) 0 converter_config) ADC0 ADC0_update
                 (converter_clocks C kCLOCK_DivAdc0Clk kFRO_HF_to_ADC0 b))) (\<lambda>b.
     run_bind (on_regs_run (converter_setup (L_lpadc C) voltage_command rd) ADC0 ADC0_update b) (\<lambda>b.
       Some (Inr (call (EnableIRQWithPriority (LPADC 0) 3) b)))))"

definition ADC_Current_Initialize :: "chip \<Rightarrow> adc_reads \<Rightarrow> board \<Rightarrow> board run" where
  "ADC_Current_Initialize C rd b =
     run_bind (reference_setup C rd b) (\<lambda>b.
     run_bind (Some (on_dev_res (LPADC_Init (L_lpadc C) 1 converter_config) ADC1 ADC1_update
                 (converter_clocks C kCLOCK_DivAdc1Clk kFRO_HF_to_ADC1 b))) (\<lambda>b.
     run_bind (on_regs_run (converter_setup (L_lpadc C) current_command rd) ADC1 ADC1_update b) (\<lambda>b.
       Some (Inr (call (EnableIRQWithPriority (LPADC 1) 3) b)))))"

definition adc_timer_match :: "u32 \<Rightarrow> ctimer_match_config" where
  "adc_timer_match v =
    \<lparr>matchValue = v, enableCounterReset = True, enableCounterStop = False,
     outControl = kCTIMER_Output_NoAction, outPinInitState = False, enableInterrupt = True\<rparr>"

definition ADC_Voltage_timer_setup :: "chip \<Rightarrow> globals \<Rightarrow> adc_vars \<times> board \<Rightarrow> (adc_vars \<times> board) res" where
  "ADC_Voltage_timer_setup C g s =
     (let (a, b) = s;
          b = b\<lparr>CTIMER2 := CTIMER_StopTimer (L_ctimer C) (CTIMER2 b)\<rparr>;
          b = call (CLOCK_AttachClk kFRO_HF_to_CTIMER2) (call (CLOCK_SetClkDiv kCLOCK_DivCtimer2Clk 1) b);
          b = on_dev (CTIMER_Init (L_ctimer C) (ctimer_reset C) 2 CTIMER_GetDefaultConfig) CTIMER2 CTIMER2_update b;
          ticks = unat (MUX_freq g) * unat (SoftwareAverageCount a)
      in if ticks = 0 then Inl DivByZero
         else
           let matchValue = of_nat (48000000 div ticks);
               b = call (NVIC_SetPriority (CTIMER 2) 2) (call (EnableIRQ (CTIMER 2)) b)
           in rbind (on_dev_res (CTIMER_SetupMatch (L_ctimer C) 2 0 (adc_timer_match matchValue)) CTIMER2 CTIMER2_update b) (\<lambda>b.
              let b = b\<lparr>CTIMER2 := CTIMER_StartTimer (L_ctimer C) (CTIMER2 b)\<rparr>
              in Inr (a\<lparr>current_active_strip_index := 0, currentCountIndex := 0\<rparr>, b)))"
section \<open>The list of active strips\<close>

definition strip_list :: "globals \<Rightarrow> nat list" where
  "strip_list g = filter (\<lambda>i. active_strips g ! i) [0..<8]"

lemma strip_list_less: "i \<in> set (strip_list g) \<Longrightarrow> i < 8"
  by (simp add: strip_list_def)

lemma length_strip_list: "arrays_ok g \<Longrightarrow> length (strip_list g) = n_active g"
proof -
  assume "arrays_ok g"
  then have "active_strips g = map (\<lambda>i. active_strips g ! i) [0..<8]"
    using map_nth[of "active_strips g"] by (simp add: arrays_ok_def)
  then have "n_active g = length (filter id (map (\<lambda>i. active_strips g ! i) [0..<8]))"
    by (simp add: n_active_def)
  then show ?thesis by (simp add: strip_list_def filter_map o_def)
qed

text \<open>The strips below a number, as the loop sees them.\<close>

definition strips_below :: "globals \<Rightarrow> nat \<Rightarrow> nat list" where
  "strips_below g k = filter (\<lambda>i. active_strips g ! i) [0..<k]"

lemma strips_below_Suc: "strips_below g (Suc k) = strips_below g k @ (if active_strips g ! k then [k] else [])"
  by (simp add: strips_below_def)

lemma strips_below_8: "strips_below g 8 = strip_list g"
  by (simp add: strips_below_def strip_list_def)

lemma strips_below_length:
  assumes "k < 8" and "active_strips g ! k"
  shows "length (strips_below g k) < length (strip_list g)"
proof -
  have "[0..<8] = [0..<k] @ k # [Suc k..<8]"
    using assms(1) upt_add_eq_append[of 0 k "8 - k"] by (simp add: upt_conv_Cons)
  then show ?thesis using assms(2) by (simp add: strip_list_def strips_below_def)
qed

lemma collect_all:
  assumes "arrays_ok g" and "length block = length (strip_list g)"
  shows "\<exists>index. for_each [0..<8] (collect_strip g) (block, 0) = Inr (map of_nat (strip_list g), index)"
proof -
  have len8: "length (strips_below g k) \<le> k" for k
    using length_filter_le[of _ "[0..<k]"] by (simp add: strips_below_def)
  let ?P = "\<lambda>k (bl :: u8 list, index :: u8). length bl = length (strip_list g) \<and>
    index = of_nat (length (strips_below g k)) \<and> take (length (strips_below g k)) bl = map of_nat (strips_below g k)"
  have "\<exists>s'. for_each [0..<8] (collect_strip g) (block, 0) = Inr s' \<and> ?P 8 s'"
  proof (rule for_each_upt_inv[where P = ?P])
    fix k and s :: "u8 list \<times> u8"
    assume k: "k < 8" and P: "?P k s"
    obtain bl index where s: "s = (bl, index)" by fastforce
    have idx: "unat index = length (strips_below g k)"
      using P s k len8[of k] by (simp add: unat_of_nat)
    show "\<exists>s'. collect_strip g k s = Inr s' \<and> ?P (Suc k) s'"
    proof (cases "active_strips g ! k")
      case True
      have lt: "length (strips_below g k) < length bl" using strips_below_length[OF k True] P s by simp
      have "take (Suc (length (strips_below g k))) (bl[length (strips_below g k) := of_nat k]) =
          map of_nat (strips_below g k) @ [of_nat k]"
        using lt P s by (simp add: take_Suc_conv_app_nth)
      then show ?thesis
        using True lt idx P s k assms(1) by (simp add: collect_strip_def strips_below_Suc arrays_ok_def)
    next
      case False
      then show ?thesis
        using P s k assms(1) by (simp add: collect_strip_def strips_below_Suc arrays_ok_def)
    qed
  qed (use assms in \<open>simp_all add: strips_below_def\<close>)
  then show ?thesis by (auto simp: strips_below_8)
qed

lemma first_strip:
  "FirstActiveStrip g = (if strip_list g = [] then - 1 else of_nat (hd (strip_list g)))"
  by (simp add: FirstActiveStrip_def strip_list_def split: list.split)

text \<open>
  When the number of strips agrees with the selection and \<open>malloc\<close> gives the block it is asked for, the block ends up holding the
  numbers of the active strips in increasing order, no byte of it is left uninitialised and none outside it is written.
\<close>

theorem convert_lists_active_strips:
  assumes "arrays_ok g" and "count_ok g" and "malloc (n_active g) = Some block" and "length block = n_active g"
  shows "ConvertActiveStrips malloc g a = Inr (a\<lparr>active_strip_indices := Some (map of_nat (strip_list g))\<rparr>)"
  using collect_all[OF assms(1), of block] assms(2-4) length_strip_list[OF assms(1)]
  by (auto simp: ConvertActiveStrips_def count_ok_def)

theorem convert_lists_active_strips_witness:
  "ConvertActiveStrips (\<lambda>n. Some (replicate n 0xA5))
     (init_globals\<lparr>active_strips := [False, True, False, True, True, False, False, False], g_strip_count := 3\<rparr>) init_adc_vars =
   Inr (init_adc_vars\<lparr>active_strip_indices := Some [1, 3, 4]\<rparr>)"
proof -
  let ?g = "init_globals\<lparr>active_strips := [False, True, False, True, True, False, False, False], g_strip_count := 3\<rparr>"
  have g: "arrays_ok ?g" "n_active ?g = 3"
    using arrays_ok_init by (simp_all add: arrays_ok_def n_active_def)
  then have "count_ok ?g" by (simp add: count_ok_def)
  from convert_lists_active_strips[OF g(1) this, of "\<lambda>n. Some (replicate n 0xA5)" _ init_adc_vars] g(2)
  show ?thesis by (simp add: strip_list_def upt_rec)
qed
section \<open>The resistance of one strip\<close>

lemma small_f32: "unat w \<le> 2 ^ 24 \<Longrightarrow> f32_of_u32 w = Fin (real (unat w))"
  by (simp add: f32_of_u32_def fl32_nat)

lemma fl64_half: "fl64 (1 / 2) = Fin (1 / 2)"
proof -
  have "rep64 (1 / 2)"
    using representable_scaled[of 1 53 "- 1074" "- 1"] by (simp add: power_int_minus)
  then show ?thesis by (subst fl64_finite) (simp_all add: r64.exact)
qed

lemma resistance_zero_current: "unat v \<le> 2 ^ 24 \<Longrightarrow> resistance v 0 = Inl CastRange"
  using small_f32[of v] small_f32[of 0] fl32_nat[of 120] fl32_nat[of 75]
  by (simp add: resistance_def fl64_half inf_signed_def)

text \<open>The three roundings of the quotient and the products, with their range.\<close>

definition scaled_quotient :: "real \<Rightarrow> real" where
  "scaled_quotient x = rnd32 (rnd32 (rnd32 x * 120) * 75)"

lemma scaled_quotient_range:
  assumes "0 \<le> x" and "x \<le> 200000"
  shows "fp_mul fl32 (fp_mul fl32 (fl32 x) (fl32 120)) (fl32 75) = Fin (scaled_quotient x)"
    and "0 \<le> scaled_quotient x" and "scaled_quotient x \<le> 9000 * 200000"
proof -
  have rep: "rep32 0" "rep32 200000" "rep32 (120 * 200000)" "rep32 (9000 * 200000)"
    using rep32_nat[of 0] rep32_nat[of 200000] representable_scaled[of 46875 24 "- 149" 9]
      representable_scaled[of 3515625 24 "- 149" 9] by simp_all
  have c: "fl32 120 = Fin 120" "fl32 75 = Fin 75" using fl32_nat[of 120] fl32_nat[of 75] by simp_all
  let ?q = "rnd32 x"
  have q: "fl32 x = Fin ?q" "0 \<le> ?q" "?q \<le> 200000"
    using fl32_between[OF rep(1,2) assms] by simp_all
  let ?r = "rnd32 (?q * 120)"
  have r: "fl32 (?q * 120) = Fin ?r" "0 \<le> ?r" "?r \<le> 120 * 200000"
    using fl32_between[OF rep(1,3), of "?q * 120"] q by simp_all
  have s: "fl32 (?r * 75) = Fin (scaled_quotient x)" "0 \<le> scaled_quotient x" "scaled_quotient x \<le> 9000 * 200000"
    using fl32_between[OF rep(1,4), of "?r * 75"] r by (simp_all add: scaled_quotient_def)
  show "fp_mul fl32 (fp_mul fl32 (fl32 x) (fl32 120)) (fl32 75) = Fin (scaled_quotient x)"
    using q(1) r(1) s(1) c by simp
  show "0 \<le> scaled_quotient x" "scaled_quotient x \<le> 9000 * 200000" by (rule s)+
qed

lemma rd_three: "1 - 1 / 2 ^ 21 \<le> rd_low ^ 3" "rd_high ^ 3 \<le> 1 + 1 / 2 ^ 21"
  by (simp_all add: rd_low_def rd_high_def power_divide)

lemma scaled_quotient_near:
  assumes "1 / 2 ^ 20 \<le> x"
  shows "\<bar>scaled_quotient x - 9000 * x\<bar> \<le> 9000 * x / 2 ^ 21"
proof -
  have q: "x * rd_low \<le> rnd32 x" "rnd32 x \<le> x * rd_high"
    using q32.step[of x x x] assms by simp_all
  have "1 / 2 ^ 20 * rd_low \<le> rnd32 x" using q32.step(1)[of "1 / 2 ^ 20" x x] assms by simp
  then have big: "1 / 2 ^ 20 \<le> rnd32 x * 120" by (simp add: rd_low_def)
  have t: "x * rd_low * 120 \<le> rnd32 x * 120" "rnd32 x * 120 \<le> x * rd_high * 120"
    using q by (intro mult_right_mono; simp)+
  note r = q32.step[OF t big] q32.step(1)[OF big order_refl big]
  from r(3) have "1 / 2 ^ 20 \<le> rnd32 (rnd32 x * 120) * 75" by (simp add: rd_low_def)
  moreover have "x * rd_low * 120 * rd_low * 75 \<le> rnd32 (rnd32 x * 120) * 75"
      "rnd32 (rnd32 x * 120) * 75 \<le> x * rd_high * 120 * rd_high * 75"
    using r by (intro mult_right_mono; simp)+
  ultimately have s: "x * rd_low * 120 * rd_low * 75 * rd_low \<le> scaled_quotient x"
      "scaled_quotient x \<le> x * rd_high * 120 * rd_high * 75 * rd_high"
    unfolding scaled_quotient_def using q32.step by blast+
  have "x * rd_low * 120 * rd_low * 75 * rd_low = 9000 * x * rd_low ^ 3"
    "x * rd_high * 120 * rd_high * 75 * rd_high = 9000 * x * rd_high ^ 3"
    by (simp_all add: power3_eq_cube)
  moreover have "0 \<le> 9000 * x" using assms order_trans[of 0 "1 / 2 ^ 20" x] by simp
  then have "9000 * x * (1 - 1 / 2 ^ 21) \<le> 9000 * x * rd_low ^ 3" "9000 * x * rd_high ^ 3 \<le> 9000 * x * (1 + 1 / 2 ^ 21)"
    using rd_three by (intro mult_left_mono; simp)+
  ultimately have "9000 * x * (1 - 1 / 2 ^ 21) \<le> scaled_quotient x" "scaled_quotient x \<le> 9000 * x * (1 + 1 / 2 ^ 21)"
    using s by linarith+
  then have "9000 * x - 9000 * x / 2 ^ 21 \<le> scaled_quotient x" "scaled_quotient x \<le> 9000 * x + 9000 * x / 2 ^ 21"
    by (simp_all only: right_diff_distrib distrib_left times_divide_eq_right mult_1_right)
  then show ?thesis by linarith
qed

text \<open>Adding one half and truncating.\<close>

lemma rounded_half_up:
  assumes "0 \<le> y" and "y \<le> 9000 * 200000"
  shows "\<exists>w. fp_to_int (fp_add fl64 (Fin y) (Fin (1 / 2))) = Inr w \<and> \<bar>real_of_int (sint w) - y\<bar> \<le> 501 / 1000 \<and> 0 \<le> sint w"
proof -
  let ?z = "rnd64 (y + 1 / 2)"
  have rep: "rep64 0" "rep64 (9000 * 200000 + 1)"
    using rep64_nat[of 0] rep64_nat[of "9000 * 200000 + 1"] by simp_all
  have z: "fl64 (y + 1 / 2) = Fin ?z" "0 \<le> ?z" "?z \<le> 9000 * 200000 + 1"
    using fl64_between[OF rep, of "y + 1 / 2"] assms by simp_all
  have "2 powi (- 1022) \<le> (2 :: real) powi (- 1)" by (rule power_int_increasing) simp_all
  then have "2 powi (- 1022) \<le> (1 :: real) / 2" by (simp add: power_int_minus)
  then have "2 powi (- 1022) \<le> \<bar>y + 1 / 2\<bar>" using assms(1) by linarith
  then have "\<bar>?z - (y + 1 / 2)\<bar> \<le> \<bar>y + 1 / 2\<bar> / 2 ^ 53" by (rule rnd64_error)
  also have "\<dots> \<le> 1 / 1000" using assms by (simp add: field_simps)
  finally have e: "\<bar>?z - (y + 1 / 2)\<bar> \<le> 1 / 1000" .
  have f: "0 \<le> \<lfloor>?z\<rfloor>" "\<lfloor>?z\<rfloor> \<le> 9000 * 200000 + 1" using z by (simp_all add: floor_le_iff)
  then have s: "sint (word_of_int \<lfloor>?z\<rfloor> :: c_int) = \<lfloor>?z\<rfloor>"
    by (simp add: signed_of_int signed_take_bit_int_eq_self)
  have "fp_to_int (fp_add fl64 (Fin y) (Fin (1 / 2))) = Inr (word_of_int \<lfloor>?z\<rfloor>)"
    using z(1,2) f by (simp add: trunc_def)
  moreover have "\<bar>of_int \<lfloor>?z\<rfloor> - y\<bar> \<le> 501 / 1000" using e by linarith
  ultimately show ?thesis
    using f(1) by (intro exI[of _ "word_of_int \<lfloor>?z\<rfloor>"] conjI) (simp_all only: s)
qed

lemma resistance_value:
  assumes "unat v \<le> 200000" and "c \<noteq> 0"
  shows "\<exists>w. resistance v c = Inr w \<and> 0 \<le> sint w \<and>
    (unat c \<le> 2 ^ 20 \<longrightarrow> \<bar>real_of_int (sint w) - 9000 * (real (unat v) / real (unat c))\<bar> \<le>
      51 / 100 + 9000 * (real (unat v) / real (unat c)) / 2 ^ 21)"
proof -
  have rep: "rep32 1" "rep32 (2 ^ 32)" using rep32_nat[of 1] rep32_power[of 32] by simp_all
  let ?c = "rnd32 (real (unat c))"
  have "1 \<le> unat c" using assms(2) by (simp add: Suc_le_eq unat_gt_0)
  moreover have "unat c < 2 ^ 32" using unsigned_less[of c, where ?'a = nat] by simp
  then have "real (unat c) < 2 ^ 32" by (simp only: of_nat_less_numeral_power_cancel_iff)
  ultimately have c: "f32_of_u32 c = Fin ?c" "1 \<le> ?c"
    using fl32_between[OF rep, of "real (unat c)"] by (simp_all add: f32_of_u32_def)
  let ?x = "real (unat v) / ?c"
  have x: "0 \<le> ?x" "?x \<le> 200000"
  proof -
    have "real (unat v) \<le> 200000 * ?c" using assms(1) c(2) mult_mono[of "real (unat v)" 200000 1 ?c] by simp
    then show "?x \<le> 200000" using c(2) by (simp add: divide_le_eq)
  qed (use c(2) in simp)
  have "resistance v c = fp_to_int (fp_add fl64 (Fin (scaled_quotient ?x)) (Fin (1 / 2)))"
    using scaled_quotient_range(1)[OF x] c assms(1) by (simp add: resistance_def fl64_half small_f32 del: fp_to_int.simps fp_mul.simps fp_add.simps)
  moreover obtain w where w: "fp_to_int (fp_add fl64 (Fin (scaled_quotient ?x)) (Fin (1 / 2))) = Inr w"
      "\<bar>real_of_int (sint w) - scaled_quotient ?x\<bar> \<le> 501 / 1000" "0 \<le> sint w"
    using rounded_half_up[OF scaled_quotient_range(2,3)[OF x]] by blast
  moreover have "\<bar>real_of_int (sint w) - 9000 * (real (unat v) / real (unat c))\<bar> \<le>
      51 / 100 + 9000 * (real (unat v) / real (unat c)) / 2 ^ 21" if le: "unat c \<le> 2 ^ 20"
  proof (cases "unat v = 0")
    case True
    then show ?thesis using w(2) by (simp add: scaled_quotient_def rnd32_def)
  next
    case False
    have "?c = real (unat c)" using rep32_nat[of "unat c"] le by (intro r32.exact) simp
    moreover have "1 / 2 ^ 20 \<le> real (unat v) / real (unat c)"
      using False le \<open>1 \<le> unat c\<close> by (intro frac_le) simp_all
    ultimately have "\<bar>scaled_quotient ?x - 9000 * (real (unat v) / real (unat c))\<bar> \<le> 9000 * (real (unat v) / real (unat c)) / 2 ^ 21"
      using scaled_quotient_near[of ?x] by simp
    then show ?thesis using w(2) by linarith
  qed
  ultimately show ?thesis
    by (intro exI[of _ w] conjI impI) (simp_all only:)
qed

section \<open>The resistances of all active strips\<close>

definition ohms :: "u32 \<Rightarrow> u32 \<Rightarrow> c_int" where
  "ohms v c = (case resistance v c of Inr w \<Rightarrow> w | Inl _ \<Rightarrow> 0)"

definition resistance_entry :: "globals \<Rightarrow> u32 \<Rightarrow> nat \<Rightarrow> c_int \<times> c_int" where
  "resistance_entry g c i =
     (if active_strips g ! i then (ohms (fst (V_sens_strip_values g ! i)) c, snd (V_sens_strip_values g ! i))
      else resistance_array g ! i)"

definition average_current :: "globals \<Rightarrow> adc_vars \<Rightarrow> u32" where
  "average_current g a = Total_adc_summation a div ucast (g_strip_count g)"

definition voltages_below :: "nat \<Rightarrow> globals \<Rightarrow> bool" where
  "voltages_below vmax g \<longleftrightarrow> (\<forall>i < 8. unat (fst (V_sens_strip_values g ! i)) \<le> vmax)"

lemma ohms_ok: "unat v \<le> 200000 \<Longrightarrow> c \<noteq> 0 \<Longrightarrow> resistance v c = Inr (ohms v c)"
  using resistance_value[of v c] by (auto simp: ohms_def)

lemma voltages_below_mono: "voltages_below m g \<Longrightarrow> m \<le> n \<Longrightarrow> voltages_below n g"
  by (auto simp: voltages_below_def intro: order_trans)

lemma voltages_below_200000: "voltages_below (2 ^ 17) g \<Longrightarrow> voltages_below 200000 g"
  by (erule voltages_below_mono) simp

lemma average_current_update [simp]: "average_current g (a\<lparr>Total_averaged_current := t\<rparr>) = average_current g a"
  by (simp add: average_current_def)

lemma strip_resistance_step:
  assumes "arrays_ok g" and "g_strip_count g \<noteq> 0" and "voltages_below 200000 g" and "average_current g a \<noteq> 0" and "k < 8"
  shows "\<exists>t'. strip_resistance k
       (g\<lparr>resistance_array := map (resistance_entry g (average_current g a)) [0..<k] @ drop k (resistance_array g)\<rparr>,
        a\<lparr>Total_averaged_current := t\<rparr>) =
     Inr (g\<lparr>resistance_array := map (resistance_entry g (average_current g a)) [0..<Suc k] @ drop (Suc k) (resistance_array g)\<rparr>,
        a\<lparr>Total_averaged_current := t'\<rparr>)"
proof -
  let ?c = "average_current g a"
  let ?done = "map (resistance_entry g ?c) [0..<k]"
  have len: "length (resistance_array g) = 8" "length (V_sens_strip_values g) = 8" "length (active_strips g) = 8"
    using assms(1) by (simp_all add: arrays_ok_def MAX_STRIP_COUNT_def)
  have drop: "drop k (resistance_array g) = resistance_array g ! k # drop (Suc k) (resistance_array g)"
    using assms(5) len by (simp add: Cons_nth_drop_Suc)
  have set1: "arr_set (?done @ x # rest) k y = Inr (?done @ y # rest)" for x y rest
    by (rule arr_set_append) simp
  have get1: "arr_get (?done @ x # rest) k = Inr x" for x rest
    by (simp add: arr_get_def nth_append)
  have ok: "resistance (fst (V_sens_strip_values g ! k)) ?c = Inr (ohms (fst (V_sens_strip_values g ! k)) ?c)"
    using assms(3-5) by (intro ohms_ok) (simp_all add: voltages_below_def)
  show ?thesis
  proof (cases "active_strips g ! k")
    case True
    then show ?thesis
      using assms(2,5) len ok
      by (simp add: strip_resistance_def drop set1 get1 resistance_entry_def flip: average_current_def) blast
  next
    case False
    then show ?thesis
      using assms(5) len by (simp add: strip_resistance_def drop resistance_entry_def) blast
  qed
qed

lemma all_resistances:
  assumes "arrays_ok g" and "g_strip_count g \<noteq> 0" and "voltages_below 200000 g" and "average_current g a \<noteq> 0"
  shows "calculate_resistance_array (g, a) =
    Inr (g\<lparr>resistance_array := map (resistance_entry g (average_current g a)) [0..<8]\<rparr>,
         a\<lparr>Total_adc_summation := 0, Total_averaged_current := 0\<rparr>)"
proof -
  let ?c = "average_current g a"
  let ?P = "\<lambda>k s. \<exists>t. s = (g\<lparr>resistance_array := map (resistance_entry g ?c) [0..<k] @ drop k (resistance_array g)\<rparr>,
    a\<lparr>Total_averaged_current := t\<rparr>)"
  have "\<exists>s'. for_each [0..<8] strip_resistance (g, a) = Inr s' \<and> ?P 8 s'"
  proof (rule for_each_upt_inv[where P = ?P])
    show "?P 0 (g, a)" by (intro exI[of _ "Total_averaged_current a"]) simp
  next
    fix k s
    assume "k < 8" and "?P k s"
    then show "\<exists>s'. strip_resistance k s = Inr s' \<and> ?P (Suc k) s'"
      using strip_resistance_step[OF assms \<open>k < 8\<close>] by blast
  qed simp
  moreover have "length (resistance_array g) = 8" using assms(1) by (simp add: arrays_ok_def)
  ultimately show ?thesis
    by (auto simp: calculate_resistance_array_def MAX_STRIP_COUNT_def)
qed

lemma no_current:
  assumes "arrays_ok g" and "g_strip_count g \<noteq> 0" and "voltages_below 200000 g" and "average_current g a = 0"
    and "strip_list g \<noteq> []"
  shows "calculate_resistance_array (g, a) = Inl CastRange"
proof -
  define k where "k = hd (strip_list g)"
  have len: "length (resistance_array g) = 8" "length (V_sens_strip_values g) = 8" "length (active_strips g) = 8"
    using assms(1) by (simp_all add: arrays_ok_def MAX_STRIP_COUNT_def)
  have k: "k < 8" "active_strips g ! k"
    using assms(5) hd_in_set[of "strip_list g"] by (auto simp: k_def strip_list_def)
  have before: "\<not> active_strips g ! i" if "i < k" for i
  proof
    assume act: "active_strips g ! i"
    have "[0..<8] = [0..<k] @ [k..<8]" using k(1) upt_add_eq_append[of 0 k "8 - k"] by simp
    then have "strip_list g = filter (\<lambda>i. active_strips g ! i) [0..<k] @ filter (\<lambda>i. active_strips g ! i) [k..<8]"
      by (simp add: strip_list_def)
    moreover have "i \<in> set (filter (\<lambda>i. active_strips g ! i) [0..<k])" using that act by simp
    ultimately have "k \<in> set (filter (\<lambda>i. active_strips g ! i) [0..<k])"
      by (metis emptyE hd_append2 hd_in_set k_def list.set(1))
    then show False by simp
  qed
  have "for_each [0..<k] strip_resistance (g, a) = Inr (g, a)"
  proof -
    have "for_each is strip_resistance (g, a) = Inr (g, a)" if "set is \<subseteq> {..<k}" for "is"
      using that by (induction "is") (use before k(1) len in \<open>auto simp: strip_resistance_def\<close>)
    from this[of "[0..<k]"] show ?thesis by (simp add: lessThan_atLeast0)
  qed
  moreover have "resistance (fst (V_sens_strip_values g ! k)) 0 = Inl CastRange"
    using assms(3) k(1) by (intro resistance_zero_current) (auto simp: voltages_below_def intro: order_trans)
  then have "strip_resistance k (g, a) = Inl CastRange"
    using k len assms(2,4) by (simp add: strip_resistance_def arr_set_def flip: average_current_def)
  moreover have "[0..<8] = [0..<k] @ k # [Suc k..<8]"
    using k(1) upt_add_eq_append[of 0 k "8 - k"] by (simp add: upt_conv_Cons)
  ultimately show ?thesis
    by (simp add: calculate_resistance_array_def MAX_STRIP_COUNT_def for_each_append)
qed

text \<open>
  Whatever voltages are stored: the resistances are computed, or one of them does not fit into an \<open>int\<close>, which is the only fault.
\<close>

lemma resistance_fault: "resistance v c = Inl e \<Longrightarrow> e = CastRange"
  by (auto simp: resistance_def elim!: fp_to_int.elims split: if_splits)

definition resistance_unfit :: "globals \<Rightarrow> adc_vars \<Rightarrow> bool" where
  "resistance_unfit g a \<longleftrightarrow> (\<exists>i \<in> set (strip_list g). resistance (fst (V_sens_strip_values g ! i)) (average_current g a) = Inl CastRange)"

lemma strip_resistance_cases:
  assumes "arrays_ok g" and "g_strip_count g \<noteq> 0" and "i < 8" and "length rs = 8"
  shows "(\<exists>rs' t'. length rs' = 8 \<and> strip_resistance i (g\<lparr>resistance_array := rs\<rparr>, a\<lparr>Total_averaged_current := t\<rparr>) =
      Inr (g\<lparr>resistance_array := rs'\<rparr>, a\<lparr>Total_averaged_current := t'\<rparr>)) \<or>
    strip_resistance i (g\<lparr>resistance_array := rs\<rparr>, a\<lparr>Total_averaged_current := t\<rparr>) = Inl CastRange \<and> resistance_unfit g a"
proof -
  have len: "length (V_sens_strip_values g) = 8" "length (active_strips g) = 8"
    using assms(1) by (simp_all add: arrays_ok_def MAX_STRIP_COUNT_def)
  show ?thesis
  proof (cases "active_strips g ! i")
    case True
    then have mem: "i \<in> set (strip_list g)" using assms(3) by (simp add: strip_list_def)
    let ?r = "resistance (fst (V_sens_strip_values g ! i)) (average_current g a)"
    show ?thesis
    proof (cases ?r)
      case (Inl e)
      then have "resistance_unfit g a" using mem resistance_fault[OF Inl] by (auto simp: resistance_unfit_def)
      then show ?thesis
        using True assms(2-4) len Inl resistance_fault[OF Inl]
        by (simp add: strip_resistance_def arr_set_def flip: average_current_def)
    next
      case (Inr ohm)
      let ?rs = "rs[i := (ohm, snd (V_sens_strip_values g ! i))]"
      have "strip_resistance i (g\<lparr>resistance_array := rs\<rparr>, a\<lparr>Total_averaged_current := t\<rparr>) =
          Inr (g\<lparr>resistance_array := ?rs\<rparr>, a\<lparr>Total_averaged_current := average_current g a\<rparr>)"
        using True assms(2-4) len Inr by (simp add: strip_resistance_def arr_set_def flip: average_current_def)
      moreover have "length ?rs = 8" using assms(4) by simp
      ultimately show ?thesis by blast
    qed
  next
    case False
    then show ?thesis using assms(3,4) len by (auto simp: strip_resistance_def)
  qed
qed

lemma calculate_cases:
  assumes "arrays_ok g" and "g_strip_count g \<noteq> 0"
  shows "(\<exists>rs. length rs = 8 \<and> calculate_resistance_array (g, a) =
      Inr (g\<lparr>resistance_array := rs\<rparr>, a\<lparr>Total_adc_summation := 0, Total_averaged_current := 0\<rparr>)) \<or>
    calculate_resistance_array (g, a) = Inl CastRange \<and> resistance_unfit g a"
proof -
  have loop: "(\<exists>rs' t'. length rs' = 8 \<and>
        for_each is strip_resistance (g\<lparr>resistance_array := rs\<rparr>, a\<lparr>Total_averaged_current := t\<rparr>) =
        Inr (g\<lparr>resistance_array := rs'\<rparr>, a\<lparr>Total_averaged_current := t'\<rparr>)) \<or>
      for_each is strip_resistance (g\<lparr>resistance_array := rs\<rparr>, a\<lparr>Total_averaged_current := t\<rparr>) = Inl CastRange \<and> resistance_unfit g a"
    if "set is \<subseteq> {..<8}" and "length rs = 8" for "is" rs t
    using that
  proof (induction "is" arbitrary: rs t)
    case Nil
    then show ?case by (intro disjI1 exI[of _ rs] exI[of _ t]) simp
  next
    case (Cons i "is")
    then have i: "i < 8" "set is \<subseteq> {..<8}" by simp_all
    from strip_resistance_cases[OF assms i(1) Cons.prems(2), where a = a and t = t] show ?case
    proof
      assume "\<exists>rs' t'. length rs' = 8 \<and> strip_resistance i (g\<lparr>resistance_array := rs\<rparr>, a\<lparr>Total_averaged_current := t\<rparr>) =
          Inr (g\<lparr>resistance_array := rs'\<rparr>, a\<lparr>Total_averaged_current := t'\<rparr>)"
      then obtain rs' t' where "length rs' = 8" "strip_resistance i (g\<lparr>resistance_array := rs\<rparr>, a\<lparr>Total_averaged_current := t\<rparr>) =
          Inr (g\<lparr>resistance_array := rs'\<rparr>, a\<lparr>Total_averaged_current := t'\<rparr>)" by blast
      then show ?thesis using Cons.IH[OF i(2), of rs' t'] by simp
    qed simp
  qed
  have "length (resistance_array g) = 8" using assms(1) by (simp add: arrays_ok_def)
  moreover have "set [0..<8] \<subseteq> {..<8 :: nat}" by (simp add: lessThan_atLeast0)
  ultimately show ?thesis
    using loop[of "[0..<8]" "resistance_array g" "Total_averaged_current a"]
    by (auto simp: calculate_resistance_array_def MAX_STRIP_COUNT_def)
qed

lemma fits_with_current:
  assumes "arrays_ok g" and "voltages_below 200000 g" and "resistance_unfit g a"
  shows "average_current g a = 0"
proof (rule ccontr)
  assume c: "average_current g a \<noteq> 0"
  obtain i where i: "i \<in> set (strip_list g)" "resistance (fst (V_sens_strip_values g ! i)) (average_current g a) = Inl CastRange"
    using assms(3) by (auto simp: resistance_unfit_def)
  have "unat (fst (V_sens_strip_values g ! i)) \<le> 200000" using assms(2) strip_list_less[OF i(1)] by (simp add: voltages_below_def)
  from ohms_ok[OF this c] show False using i(2) by simp
qed
section \<open>The end of a strip\<close>

text \<open>
  What the interrupts rely on: the variables that the set-up leaves, with a list of active strips that agrees with the selection and an
  index inside it.
\<close>

definition sampling_ready :: "globals \<Rightarrow> adc_vars \<Rightarrow> bool" where
  "sampling_ready g a \<longleftrightarrow>
     arrays_ok g \<and> count_ok g \<and> SoftwareAverageCount a = 30 \<and>
     active_strip_indices a = Some (map of_nat (strip_list g)) \<and>
     (strip_list g \<noteq> [] \<longrightarrow> unat (current_active_strip_index a) < length (strip_list g)) \<and>
     unat (currentCountIndex a) \<le> 29"

definition current_strip :: "globals \<Rightarrow> adc_vars \<Rightarrow> nat" where
  "current_strip g a = strip_list g ! unat (current_active_strip_index a)"

definition store_voltage :: "globals \<Rightarrow> adc_vars \<Rightarrow> globals" where
  "store_voltage g a =
     g\<lparr>V_sens_strip_values := (V_sens_strip_values g)[current_strip g a := (VoltageSum a div 30, g_timestamp_ms g)]\<rparr>"

definition next_strip :: "globals \<Rightarrow> adc_vars \<Rightarrow> adc_vars" where
  "next_strip g a =
     a\<lparr>current_adc_result := CurrentSum a div 30, resultVoltage := VoltageSum a div 30,
       Total_adc_summation := Total_adc_summation a + CurrentSum a div 30,
       CurrentSum := 0, VoltageSum := 0, currentCountIndex := 0,
       current_active_strip_index := of_nat (Suc (unat (current_active_strip_index a)) mod length (strip_list g))\<rparr>"

lemma strip_list_store [simp]: "strip_list (store_voltage g a) = strip_list g"
  by (simp add: store_voltage_def strip_list_def)

lemma strip_list_resistances [simp]: "strip_list (g\<lparr>resistance_array := rs\<rparr>) = strip_list g"
  by (simp add: strip_list_def)

lemma ready_length: "sampling_ready g a \<Longrightarrow> length (strip_list g) = unat (g_strip_count g)"
  by (simp add: sampling_ready_def count_ok_def length_strip_list)

lemma ready_length_le: "sampling_ready g a \<Longrightarrow> length (strip_list g) \<le> 8"
  using length_strip_list[of g] n_active_le[of g] by (simp add: sampling_ready_def)

lemma unat_small: "i < 8 \<Longrightarrow> unat (of_nat i :: u8) = i"
  by (simp add: unat_of_nat)

lemma next_index_lt:
  assumes "sampling_ready g a" and "strip_list g \<noteq> []"
  shows "unat (of_nat (Suc (unat (current_active_strip_index a)) mod length (strip_list g)) :: u8) =
    Suc (unat (current_active_strip_index a)) mod length (strip_list g)"
proof -
  have "Suc (unat (current_active_strip_index a)) mod length (strip_list g) < length (strip_list g)"
    using assms(2) by simp
  then show ?thesis using ready_length_le[OF assms(1)] by (intro unat_small) linarith
qed

lemma next_strip_ready:
  assumes "sampling_ready g a" and "strip_list g \<noteq> []"
  shows "sampling_ready (store_voltage g a) (next_strip g a)"
  using assms next_index_lt[OF assms]
  by (simp add: sampling_ready_def next_strip_def store_voltage_def arrays_ok_def count_ok_def n_active_def strip_list_def)

lemma read_index_ok:
  assumes "sampling_ready g a" and "strip_list g \<noteq> []"
  shows "read_strip_index a = Inr (of_nat (current_strip g a))"
  using assms by (simp add: read_strip_index_def sampling_ready_def current_strip_def)

lemma read_index_cong:
  "active_strip_indices a' = active_strip_indices a \<Longrightarrow> current_active_strip_index a' = current_active_strip_index a \<Longrightarrow>
    read_strip_index a' = read_strip_index a"
  by (simp only: read_strip_index_def)

lemma current_strip_less: "sampling_ready g a \<Longrightarrow> strip_list g \<noteq> [] \<Longrightarrow> current_strip g a < 8"
  using strip_list_less[of "current_strip g a" g] by (simp add: current_strip_def sampling_ready_def)

text \<open>The end of a strip in three parts: its value, the resistances after the last strip, the multiplexer.\<close>

lemma calculate_keeps_indices:
  assumes "calculate_resistance_array (g, a) = Inr (g', a')"
  shows "active_strip_indices a' = active_strip_indices a" and "current_active_strip_index a' = current_active_strip_index a"
proof -
  have step: "strip_resistance i s = Inr s' \<Longrightarrow> active_strip_indices (snd s') = active_strip_indices (snd s) \<and>
      current_active_strip_index (snd s') = current_active_strip_index (snd s)" for i s s'
    by (cases s) (auto simp: strip_resistance_def res Let_def split: if_splits)
  have "for_each is strip_resistance s = Inr s' \<Longrightarrow> active_strip_indices (snd s') = active_strip_indices (snd s) \<and>
      current_active_strip_index (snd s') = current_active_strip_index (snd s)" for "is" s s'
  proof (induction "is" arbitrary: s)
    case (Cons i "is")
    then obtain t where t: "strip_resistance i s = Inr t" "for_each is strip_resistance t = Inr s'" by (auto simp: res)
    then show ?case using Cons.IH[of t] step[OF t(1)] by simp
  qed simp
  from this[of "[0..<MAX_STRIP_COUNT]" "(g, a)"]
  show "active_strip_indices a' = active_strip_indices a" "current_active_strip_index a' = current_active_strip_index a"
    using assms by (auto simp: calculate_resistance_array_def res)
qed

lemma finish_strip_parts:
  assumes "sampling_ready g a" and "strip_list g \<noteq> []"
  shows "\<exists>r'. selected_channel r' = current_strip g (next_strip g a) \<and>
    finish_strip (g, a, b) =
      rbind (end_of_round (store_voltage g a) (next_strip g a)) (\<lambda>(g', a'). Inr (g', a', b\<lparr>GPIO4 := r'\<rparr>))"
proof -
  let ?n = "next_strip g a"
  have ready: "sampling_ready (store_voltage g a) ?n" by (rule next_strip_ready[OF assms])
  have count: "g_strip_count g \<noteq> 0" using ready_length[OF assms(1)] assms(2) by auto
  have ch: "current_strip g a < 8" "unat (of_nat (current_strip g a) :: u8) = current_strip g a"
    using current_strip_less[OF assms] by (simp_all add: unat_small)
  have len: "length (V_sens_strip_values g) = 8" "SoftwareAverageCount a = 30"
    using assms(1) by (simp_all add: sampling_ready_def arrays_ok_def MAX_STRIP_COUNT_def)
  have nx: "current_strip (store_voltage g a) ?n = current_strip g ?n" by (simp add: current_strip_def)
  have "current_strip (store_voltage g a) ?n < 8" using current_strip_less[OF ready] assms(2) by simp
  then have nx8: "unat (of_nat (current_strip g ?n) :: u8) mod 8 = current_strip g ?n"
    using nx by (simp add: unat_small)
  obtain r' where r': "SelectMuxChannel (of_nat (current_strip g ?n)) (GPIO4 b) = Inr r'" "selected_channel r' = current_strip g ?n"
    using SelectMuxChannel_ok[of "of_nat (current_strip g ?n)" "GPIO4 b"] nx8 by auto
  have idx: "read_strip_index ?n = Inr (of_nat (current_strip g ?n))"
    using read_index_ok[OF ready] assms(2) nx by simp
  have idx': "read_strip_index a' = Inr (of_nat (current_strip g ?n))"
    if "end_of_round (store_voltage g a) ?n = Inr (g', a')" for g' a'
    using that idx calculate_keeps_indices[of "store_voltage g a" ?n g' a'] read_index_cong[of a' ?n]
    by (auto simp: end_of_round_def split: if_splits)
  have fold: "a\<lparr>current_adc_result := CurrentSum a div 30, resultVoltage := VoltageSum a div 30,
      Total_adc_summation := Total_adc_summation a + CurrentSum a div 30, CurrentSum := 0, VoltageSum := 0, currentCountIndex := 0,
      current_active_strip_index := of_nat (Suc (unat (current_active_strip_index a)) mod unat (g_strip_count g))\<rparr> = ?n"
    by (simp add: next_strip_def ready_length[OF assms(1)])
  have nidx: "current_active_strip_index ?n = of_nat (Suc (unat (current_active_strip_index a)) mod unat (g_strip_count g))"
    by (simp add: next_strip_def ready_length[OF assms(1)])
  have "finish_strip (g, a, b) = rbind (end_of_round (store_voltage g a) ?n) (\<lambda>(g', a').
      rbind (read_strip_index a') (\<lambda>channel.
      rbind (on_regs_res (SelectMuxChannel channel) GPIO4 GPIO4_update b) (\<lambda>b. Inr (g', a', b))))"
    using count ch len read_index_ok[OF assms] fold nidx
      read_index_cong[of "a\<lparr>current_adc_result := CurrentSum a div 30, resultVoltage := VoltageSum a div 30,
        Total_adc_summation := Total_adc_summation a + CurrentSum a div 30\<rparr>" a]
    by (simp add: finish_strip_def Let_def store_voltage_def)
  also have "\<dots> = rbind (end_of_round (store_voltage g a) ?n) (\<lambda>(g', a'). Inr (g', a', b\<lparr>GPIO4 := r'\<rparr>))"
    using idx' r'(1) on_regs_res_Inr[of "SelectMuxChannel (of_nat (current_strip g ?n))" GPIO4 b r' GPIO4_update]
    by (cases "end_of_round (store_voltage g a) ?n") auto
  finally show ?thesis using r'(2) by blast
qed
section \<open>One strip: thirty ticks\<close>

datatype sample_irq = TIMER | CONV0 u32 | CONV1 u32

primrec sample_irq_handler :: "chip \<Rightarrow> sample_irq \<Rightarrow> globals \<times> adc_vars \<times> board \<Rightarrow> (globals \<times> adc_vars \<times> board) res" where
  "sample_irq_handler C TIMER s = CTIMER2_IRQHandler C s"
| "sample_irq_handler C (CONV0 w) s = (case s of (g, a, b) \<Rightarrow> Inr (g, ADC0_IRQHandler (L_lpadc C) w a, b))"
| "sample_irq_handler C (CONV1 w) s = (case s of (g, a, b) \<Rightarrow> Inr (g, ADC1_IRQHandler (L_lpadc C) w a, b))"

text \<open>The value in a valid word of the result FIFO.\<close>

definition sample_value :: "lpadc_layout \<Rightarrow> u32 \<Rightarrow> nat" where
  "sample_value L w = unat (convValue (result_of_word L w))"

definition valid_word :: "lpadc_layout \<Rightarrow> u32 \<Rightarrow> bool" where
  "valid_word L w \<longleftrightarrow> fget (RESFIFO_VALID L) w = 1"

lemma sample_value_le: "sample_value L w \<le> 65535"
  by (simp add: sample_value_def unat_u16_bound)

lemma GetConvResult_valid:
  "lpadc_fifo_layout_ok L \<Longrightarrow> valid_word L w \<Longrightarrow> LPADC_GetConvResult L w r = (True, result_of_word L w)"
  using single_bit_set[of "RESFIFO_VALID L" w] by (simp add: LPADC_GetConvResult_def lpadc_fifo_layout_ok_def valid_word_def)

lemma sample_word: "(ucast (convValue r) :: u32) = of_nat (unat (convValue r))"
  by (rule unsigned_word_eqI[where 'a = nat]) (use unat_u16_bound[of "convValue r"] in \<open>simp add: unat_of_nat unsigned_ucast_eq take_bit_nat_eq_self\<close>)

lemma ADC0_valid:
  "lpadc_fifo_layout_ok L \<Longrightarrow> valid_word L w \<Longrightarrow> ADC0_IRQHandler L w a =
    a\<lparr>V_sens_LpadcResultConfigStruct := result_of_word L w, V_sens_LpadcConversionCompletedFlag := True,
      VoltageSum := VoltageSum a + of_nat (sample_value L w)\<rparr>"
  by (simp add: ADC0_IRQHandler_def GetConvResult_valid V_sens_LpadcResultShift_def sample_word sample_value_def)

lemma ADC1_valid:
  "lpadc_fifo_layout_ok L \<Longrightarrow> valid_word L w \<Longrightarrow> ADC1_IRQHandler L w a =
    a\<lparr>I_sens_LpadcResultConfigStruct := result_of_word L w, I_sens_LpadcConversionCompletedFlag := True,
      CurrentSum := CurrentSum a + of_nat (sample_value L w)\<rparr>"
  by (simp add: ADC1_IRQHandler_def GetConvResult_valid I_sens_LpadcResultShift_def sample_word sample_value_def)

text \<open>The variables that the sampling of a strip does not touch.\<close>

definition strip_state :: "adc_vars \<Rightarrow> u8 \<times> u32 \<times> u32 \<times> u32 \<times> u32 \<times> u8 \<times> u8 list option" where
  "strip_state a = (SoftwareAverageCount a, resultVoltage a, current_adc_result a, Total_averaged_current a,
     Total_adc_summation a, current_active_strip_index a, active_strip_indices a)"

lemma strip_state_eqD:
  "strip_state a' = strip_state a \<Longrightarrow> SoftwareAverageCount a' = SoftwareAverageCount a \<and>
    Total_adc_summation a' = Total_adc_summation a \<and> current_active_strip_index a' = current_active_strip_index a \<and>
    active_strip_indices a' = active_strip_indices a"
  by (simp add: strip_state_def)

lemma strip_state_ready:
  "strip_state a' = strip_state a \<Longrightarrow> unat (currentCountIndex a') \<le> 29 \<Longrightarrow> sampling_ready g a \<Longrightarrow> sampling_ready g a'"
  by (auto simp: sampling_ready_def dest: strip_state_eqD)

lemma timer_counts:
  assumes "sampling_ready g a" and "strip_list g \<noteq> []" and "unat (currentCountIndex a) < 29"
  shows "\<exists>b'. CTIMER2_IRQHandler C (g, a, b) = Inr (g, a\<lparr>currentCountIndex := currentCountIndex a + 1\<rparr>, b') \<and> GPIO4 b' = GPIO4 b"
  using assms ready_length[OF assms(1)]
  by (auto simp: CTIMER2_IRQHandler_def Let_def sampling_ready_def trigger_converters_def)

lemma timer_finishes:
  assumes "sampling_ready g a" and "strip_list g \<noteq> []" and "unat (currentCountIndex a) = 29"
  shows "\<exists>b'. CTIMER2_IRQHandler C (g, a, b) = finish_strip (g, a, b') \<and> GPIO4 b' = GPIO4 b"
  using assms ready_length[OF assms(1)]
  by (auto simp: CTIMER2_IRQHandler_def Let_def sampling_ready_def trigger_converters_def)

definition sample_round :: "u32 \<times> u32 \<Rightarrow> sample_irq list" where
  "sample_round p = [TIMER, CONV0 (fst p), CONV1 (snd p)]"

definition volts :: "lpadc_layout \<Rightarrow> (u32 \<times> u32) list \<Rightarrow> nat" where
  "volts L ws = (\<Sum>p\<leftarrow>ws. sample_value L (fst p))"

definition amps :: "lpadc_layout \<Rightarrow> (u32 \<times> u32) list \<Rightarrow> nat" where
  "amps L ws = (\<Sum>p\<leftarrow>ws. sample_value L (snd p))"

definition valid_words :: "lpadc_layout \<Rightarrow> (u32 \<times> u32) list \<Rightarrow> bool" where
  "valid_words L ws \<longleftrightarrow> (\<forall>p \<in> set ws. valid_word L (fst p) \<and> valid_word L (snd p))"

lemma volts_le: "volts L ws \<le> 65535 * length ws" "amps L ws \<le> 65535 * length ws"
proof (induction ws)
  case (Cons p ws)
  {
    case 1
    show ?case using Cons.IH(1) sample_value_le[of L "fst p"] by (simp add: volts_def)
  next
    case 2
    show ?case using Cons.IH(2) sample_value_le[of L "snd p"] by (simp add: amps_def)
  }
qed (simp_all add: volts_def amps_def)

text \<open>\<open>sums_after\<close>: \<open>n\<close> ticks later, with the sums increased by the given numbers.\<close>

definition sums_after :: "nat \<Rightarrow> nat \<Rightarrow> nat \<Rightarrow> adc_vars \<Rightarrow> adc_vars \<Rightarrow> bool" where
  "sums_after n v i a a' \<longleftrightarrow>
     strip_state a' = strip_state a \<and> unat (currentCountIndex a') = unat (currentCountIndex a) + n \<and>
     VoltageSum a' = VoltageSum a + of_nat v \<and> CurrentSum a' = CurrentSum a + of_nat i"

lemma sums_after_refl: "sums_after 0 0 0 a a"
  by (simp add: sums_after_def)

lemma sums_after_trans:
  "sums_after n v i a a' \<Longrightarrow> sums_after m w j a' a'' \<Longrightarrow> sums_after (n + m) (v + w) (i + j) a a''"
  by (simp add: sums_after_def)

lemma sample_rounds:
  assumes "chip_ok C" and "strip_list g \<noteq> []" and "valid_words (L_lpadc C) ws"
    and "sampling_ready g a" and "unat (currentCountIndex a) + length ws \<le> 29"
  shows "\<exists>a' b'. for_each (concat (map sample_round ws)) (sample_irq_handler C) (g, a, b) = Inr (g, a', b') \<and>
    sums_after (length ws) (volts (L_lpadc C) ws) (amps (L_lpadc C) ws) a a' \<and> GPIO4 b' = GPIO4 b"
  using assms(3-5)
proof (induction ws arbitrary: a b)
  case Nil
  then show ?case using sums_after_refl by (auto simp: volts_def amps_def)
next
  case (Cons p ws)
  let ?L = "L_lpadc C"
  have L: "lpadc_fifo_layout_ok ?L" using assms(1) by (simp add: chip_ok_def)
  have p: "valid_word ?L (fst p)" "valid_word ?L (snd p)" "valid_words ?L ws"
    using Cons.prems(1) by (simp_all add: valid_words_def)
  have lt: "unat (currentCountIndex a) < 29" using Cons.prems(3) by simp
  obtain b1 where b1: "CTIMER2_IRQHandler C (g, a, b) = Inr (g, a\<lparr>currentCountIndex := currentCountIndex a + 1\<rparr>, b1)"
      "GPIO4 b1 = GPIO4 b"
    using timer_counts[OF Cons.prems(2) assms(2) lt] by blast
  define a1 where "a1 = ADC1_IRQHandler ?L (snd p) (ADC0_IRQHandler ?L (fst p) (a\<lparr>currentCountIndex := currentCountIndex a + 1\<rparr>))"
  have "unat (currentCountIndex a + 1) = Suc (unat (currentCountIndex a))"
    using lt by (simp add: unat_word_ariths)
  then have s1: "sums_after 1 (sample_value ?L (fst p)) (sample_value ?L (snd p)) a a1"
    using ADC0_valid[OF L p(1)] ADC1_valid[OF L p(2)] by (simp add: a1_def sums_after_def strip_state_def)
  then have "sampling_ready g a1" "unat (currentCountIndex a1) + length ws \<le> 29"
    using Cons.prems(2,3) strip_state_ready[of a1 a g] lt by (simp_all add: sums_after_def)
  from Cons.IH[OF p(3) this, of b1]
  obtain a' b' where rec: "for_each (concat (map sample_round ws)) (sample_irq_handler C) (g, a1, b1) = Inr (g, a', b')"
      "sums_after (length ws) (volts ?L ws) (amps ?L ws) a1 a'" "GPIO4 b' = GPIO4 b1"
    by blast
  have "sums_after (length (p # ws)) (volts ?L (p # ws)) (amps ?L (p # ws)) a a'"
    using sums_after_trans[OF s1 rec(2)] by (simp add: volts_def amps_def)
  moreover have "for_each (concat (map sample_round (p # ws))) (sample_irq_handler C) (g, a, b) = Inr (g, a', b')"
    using b1(1) rec(1) by (simp add: sample_round_def a1_def)
  ultimately show ?case using b1(2) rec(3) by auto
qed
text \<open>
  The interrupts from the end of one strip to the end of the next: the conversions that the last tick has triggered, twenty-nine ticks
  with their conversions, and the thirtieth tick.
\<close>

definition strip_window :: "(u32 \<times> u32) list \<Rightarrow> sample_irq list" where
  "strip_window ws = [CONV0 (fst (hd ws)), CONV1 (snd (hd ws))] @ concat (map sample_round (tl ws)) @ [TIMER]"

definition window_ok :: "lpadc_layout \<Rightarrow> (u32 \<times> u32) list \<Rightarrow> bool" where
  "window_ok L ws \<longleftrightarrow> length ws = 30 \<and> valid_words L ws"

definition sums_clear :: "adc_vars \<Rightarrow> bool" where
  "sums_clear a \<longleftrightarrow> currentCountIndex a = 0 \<and> VoltageSum a = 0 \<and> CurrentSum a = 0"

lemma word_div_30: "n < 2 ^ 32 \<Longrightarrow> (of_nat n :: u32) div 30 = of_nat (n div 30)"
proof (rule unsigned_word_eqI[where 'a = nat])
  assume "n < 2 ^ 32"
  moreover from this have "n div 30 < 2 ^ 32" using div_le_dividend[of n 30] by linarith
  ultimately show "unat ((of_nat n :: u32) div 30) = unat (of_nat (n div 30) :: u32)"
    by (simp add: unat_div unat_of_nat)
qed

lemma window_end:
  assumes "chip_ok C" and "sampling_ready g a" and "strip_list g \<noteq> []" and "sums_clear a" and "window_ok (L_lpadc C) ws"
  shows "\<exists>a2 b2 r'. for_each (strip_window ws) (sample_irq_handler C) (g, a, b) =
      rbind (end_of_round (store_voltage g a2) (next_strip g a2)) (\<lambda>(g', a'). Inr (g', a', b2\<lparr>GPIO4 := r'\<rparr>)) \<and>
    strip_state a2 = strip_state a \<and> sampling_ready g a2 \<and> VoltageSum a2 div 30 = of_nat (volts (L_lpadc C) ws div 30) \<and>
    CurrentSum a2 div 30 = of_nat (amps (L_lpadc C) ws div 30) \<and> selected_channel r' = current_strip g (next_strip g a2)"
proof -
  let ?L = "L_lpadc C"
  have L: "lpadc_fifo_layout_ok ?L" using assms(1) by (simp add: chip_ok_def)
  obtain p rest where ws: "ws = p # rest" "length rest = 29"
    using assms(5) by (cases ws) (auto simp: window_ok_def)
  have valid: "valid_word ?L (fst p)" "valid_word ?L (snd p)" "valid_words ?L rest"
    using assms(5) by (simp_all add: window_ok_def valid_words_def ws)
  define a1 where "a1 = ADC1_IRQHandler ?L (snd p) (ADC0_IRQHandler ?L (fst p) a)"
  have s1: "sums_after 0 (sample_value ?L (fst p)) (sample_value ?L (snd p)) a a1"
    using ADC0_valid[OF L valid(1)] ADC1_valid[OF L valid(2)] by (simp add: a1_def sums_after_def strip_state_def)
  then have r1: "sampling_ready g a1" "unat (currentCountIndex a1) + length rest \<le> 29"
    using assms(2,4) strip_state_ready[of a1 a g] ws(2) by (simp_all add: sums_after_def sums_clear_def)
  obtain a2 b2 where 2: "for_each (concat (map sample_round rest)) (sample_irq_handler C) (g, a1, b) = Inr (g, a2, b2)"
      "sums_after (length rest) (volts ?L rest) (amps ?L rest) a1 a2"
    using sample_rounds[OF assms(1,3) valid(3) r1, of b] by blast
  have s2: "sums_after 29 (volts ?L ws) (amps ?L ws) a a2"
    using sums_after_trans[OF s1 2(2)] ws(2) by (simp add: volts_def amps_def ws(1))
  then have r2: "sampling_ready g a2" "unat (currentCountIndex a2) = 29"
    using assms(2,4) strip_state_ready[of a2 a g] by (simp_all add: sums_after_def sums_clear_def)
  obtain b3 where b3: "CTIMER2_IRQHandler C (g, a2, b2) = finish_strip (g, a2, b3)"
    using timer_finishes[OF r2(1) assms(3) r2(2)] by blast
  obtain r' where r': "selected_channel r' = current_strip g (next_strip g a2)" "finish_strip (g, a2, b3) =
      rbind (end_of_round (store_voltage g a2) (next_strip g a2)) (\<lambda>(g', a'). Inr (g', a', b3\<lparr>GPIO4 := r'\<rparr>))"
    using finish_strip_parts[OF r2(1) assms(3)] by blast
  have small: "volts ?L ws < 2 ^ 32" "amps ?L ws < 2 ^ 32"
    using volts_le[of ?L ws] assms(5) by (simp_all add: window_ok_def)
  have "for_each (strip_window ws) (sample_irq_handler C) (g, a, b) = finish_strip (g, a2, b3)"
    using 2(1) b3 by (simp add: strip_window_def ws(1) for_each_append for_each_Nil flip: a1_def)
  moreover have "VoltageSum a2 div 30 = of_nat (volts ?L ws div 30)" "CurrentSum a2 div 30 = of_nat (amps ?L ws div 30)"
    using s2 assms(4) word_div_30[OF small(1)] word_div_30[OF small(2)] by (simp_all add: sums_after_def sums_clear_def)
  moreover have "strip_state a2 = strip_state a" using s2 by (simp add: sums_after_def)
  ultimately show ?thesis using r' r2(1) by metis
qed

section \<open>A round over all active strips\<close>

primrec voltages_after :: "lpadc_layout \<Rightarrow> globals \<Rightarrow> (u32 \<times> u32) list list \<Rightarrow> nat \<Rightarrow> (u32 \<times> u32) list" where
  "voltages_after L g wss 0 = V_sens_strip_values g"
| "voltages_after L g wss (Suc k) =
     (voltages_after L g wss k)[strip_list g ! k := (of_nat (volts L (wss ! k) div 30), g_timestamp_ms g)]"

definition current_total :: "lpadc_layout \<Rightarrow> (u32 \<times> u32) list list \<Rightarrow> nat \<Rightarrow> nat" where
  "current_total L wss k = (\<Sum>j<k. amps L (wss ! j) div 30)"

definition with_voltages :: "globals \<Rightarrow> (u32 \<times> u32) list \<Rightarrow> globals" where
  "with_voltages g vs = g\<lparr>V_sens_strip_values := vs\<rparr>"

text \<open>The state after \<open>k\<close> strips of a round.\<close>

definition round_state :: "lpadc_layout \<Rightarrow> globals \<Rightarrow> (u32 \<times> u32) list list \<Rightarrow> nat \<Rightarrow> globals \<Rightarrow> adc_vars \<Rightarrow> bool" where
  "round_state L g wss k g' a' \<longleftrightarrow>
     g' = with_voltages g (voltages_after L g wss k) \<and> sampling_ready g' a' \<and> sums_clear a' \<and>
     Total_adc_summation a' = of_nat (current_total L wss k)"

lemma strip_list_with_voltages [simp]: "strip_list (with_voltages g vs) = strip_list g"
  by (simp add: with_voltages_def strip_list_def)

lemma length_voltages_after [simp]: "length (voltages_after L g wss k) = length (V_sens_strip_values g)"
  by (induction k) simp_all

lemma next_strip_clear: "sums_clear (next_strip g a)"
  by (simp add: sums_clear_def next_strip_def)

lemma round_step:
  assumes "chip_ok C" and "round_state (L_lpadc C) g wss k g' a'" and "unat (current_active_strip_index a') = k"
    and "k < length (strip_list g)" and "window_ok (L_lpadc C) (wss ! k)"
  shows "\<exists>g2 a2 b2 r'. for_each (strip_window (wss ! k)) (sample_irq_handler C) (g', a', b') =
      rbind (end_of_round g2 a2) (\<lambda>(g3, a3). Inr (g3, a3, b2\<lparr>GPIO4 := r'\<rparr>)) \<and>
    round_state (L_lpadc C) g wss (Suc k) g2 a2 \<and>
    unat (current_active_strip_index a2) = Suc k mod length (strip_list g) \<and>
    selected_channel r' = strip_list g ! (Suc k mod length (strip_list g))"
proof -
  let ?L = "L_lpadc C"
  have g': "g' = with_voltages g (voltages_after ?L g wss k)" "sampling_ready g' a'" "sums_clear a'"
      "Total_adc_summation a' = of_nat (current_total ?L wss k)" "strip_list g' = strip_list g"
    using assms(2) by (auto simp: round_state_def)
  have ne: "strip_list g' \<noteq> []" using assms(4) g'(5) by auto
  obtain a2 b2 r' where w: "for_each (strip_window (wss ! k)) (sample_irq_handler C) (g', a', b') =
      rbind (end_of_round (store_voltage g' a2) (next_strip g' a2)) (\<lambda>(g3, a3). Inr (g3, a3, b2\<lparr>GPIO4 := r'\<rparr>))"
      "strip_state a2 = strip_state a'" "sampling_ready g' a2" "VoltageSum a2 div 30 = of_nat (volts ?L (wss ! k) div 30)"
      "CurrentSum a2 div 30 = of_nat (amps ?L (wss ! k) div 30)" "selected_channel r' = current_strip g' (next_strip g' a2)"
    using window_end[OF assms(1) g'(2) ne g'(3) assms(5), of b'] by blast
  note same = strip_state_eqD[OF w(2)]
  have idx: "unat (current_active_strip_index (next_strip g' a2)) = Suc k mod length (strip_list g)"
    using next_index_lt[OF w(3) ne] same assms(3) g'(5) by (simp add: next_strip_def)
  have "store_voltage g' a2 = with_voltages g (voltages_after ?L g wss (Suc k))"
    using same assms(3) w(4) g'(1,5) by (simp add: store_voltage_def current_strip_def with_voltages_def)
  moreover have "Total_adc_summation (next_strip g' a2) = of_nat (current_total ?L wss (Suc k))"
    using same w(5) g'(4) by (simp add: next_strip_def current_total_def)
  ultimately have "round_state ?L g wss (Suc k) (store_voltage g' a2) (next_strip g' a2)"
    using next_strip_ready[OF w(3) ne] next_strip_clear by (simp add: round_state_def)
  moreover have "selected_channel r' = strip_list g ! (Suc k mod length (strip_list g))"
    using w(6) idx g'(5) by (simp add: current_strip_def)
  ultimately show ?thesis using w(1) idx by blast
qed

lemma round_prefix:
  assumes "chip_ok C" and "sampling_ready g a" and "sums_clear a" and "Total_adc_summation a = 0"
    and "current_active_strip_index a = 0" and "length wss = length (strip_list g)"
    and "\<forall>ws \<in> set wss. window_ok (L_lpadc C) ws" and "k < length (strip_list g)"
  shows "\<exists>g' a' b'. for_each (concat (map strip_window (take k wss))) (sample_irq_handler C) (g, a, b) = Inr (g', a', b') \<and>
    round_state (L_lpadc C) g wss k g' a' \<and> unat (current_active_strip_index a') = k"
  using assms(8)
proof (induction k)
  case 0
  have "with_voltages g (V_sens_strip_values g) = g" by (simp add: with_voltages_def)
  then show ?case
    using assms(2-5) by (simp add: round_state_def current_total_def)
next
  case (Suc k)
  then obtain g' a' b' where p: "for_each (concat (map strip_window (take k wss))) (sample_irq_handler C) (g, a, b) = Inr (g', a', b')"
      "round_state (L_lpadc C) g wss k g' a'" "unat (current_active_strip_index a') = k" by auto
  have k: "k < length (strip_list g)" "k < length wss" "window_ok (L_lpadc C) (wss ! k)"
    using Suc.prems assms(6,7) by simp_all
  obtain g2 a2 b2 r' where s: "for_each (strip_window (wss ! k)) (sample_irq_handler C) (g', a', b') =
      rbind (end_of_round g2 a2) (\<lambda>(g3, a3). Inr (g3, a3, b2\<lparr>GPIO4 := r'\<rparr>))"
      "round_state (L_lpadc C) g wss (Suc k) g2 a2" "unat (current_active_strip_index a2) = Suc k mod length (strip_list g)"
    using round_step[OF assms(1) p(2,3) k(1,3), of b'] by blast
  have "current_active_strip_index a2 \<noteq> 0" using s(3) Suc.prems by auto
  then have "for_each (concat (map strip_window (take (Suc k) wss))) (sample_irq_handler C) (g, a, b) = Inr (g2, a2, b2\<lparr>GPIO4 := r'\<rparr>)"
    using p(1) s(1) k(2) by (simp add: take_Suc_conv_app_nth for_each_append end_of_round_def)
  then show ?case using s(2,3) Suc.prems by auto
qed
lemma strip_list_distinct: "distinct (strip_list g)"
  by (simp add: strip_list_def)

lemma voltages_after_nth:
  assumes "arrays_ok g" and "j < k" and "k \<le> length (strip_list g)"
  shows "voltages_after L g wss k ! (strip_list g ! j) = (of_nat (volts L (wss ! j) div 30), g_timestamp_ms g)"
  using assms(2,3)
proof (induction k)
  case (Suc k)
  have lt: "strip_list g ! i < 8" if "i < length (strip_list g)" for i
    using that by (auto intro: strip_list_less[OF nth_mem])
  have len: "length (V_sens_strip_values g) = 8" using assms(1) by (simp add: arrays_ok_def MAX_STRIP_COUNT_def)
  show ?case
  proof (cases "j = k")
    case True
    then show ?thesis using lt[of k] Suc.prems len by simp
  next
    case False
    then have "strip_list g ! j \<noteq> strip_list g ! k"
      using Suc.prems strip_list_distinct[of g] by (simp add: nth_eq_iff_index_eq)
    then show ?thesis using Suc.IH Suc.prems False by simp
  qed
qed simp

lemma average_fits: "window_ok L ws \<Longrightarrow> volts L ws div 30 \<le> 65535 \<and> amps L ws div 30 \<le> 65535"
  using volts_le[of L ws] by (auto simp: window_ok_def)

lemma nth_update_if: "xs[i := x] ! j = (if i = j \<and> i < length xs then x else xs ! j)"
  by (cases "i < length xs") (auto simp: list_update_beyond)

lemma voltages_after_below:
  assumes "voltages_below (2 ^ 17) g" and "\<forall>ws \<in> set wss. window_ok L ws" and "k \<le> length wss"
  shows "voltages_below (2 ^ 17) (with_voltages g (voltages_after L g wss k))"
  using assms(3)
proof (induction k)
  case (Suc k)
  have "window_ok L (wss ! k)" using assms(2) Suc.prems by simp
  then have "unat (of_nat (volts L (wss ! k) div 30) :: u32) \<le> 2 ^ 17"
    using average_fits[of L "wss ! k"] by (simp add: unat_of_nat_eq)
  then show ?case
    using Suc by (auto simp: voltages_below_def with_voltages_def nth_update_if)
qed (use assms(1) in \<open>simp add: with_voltages_def voltages_below_def\<close>)

lemma current_total_le: "\<forall>ws \<in> set wss. window_ok L ws \<Longrightarrow> k \<le> length wss \<Longrightarrow> current_total L wss k \<le> 65535 * k"
proof (induction k)
  case (Suc k)
  then show ?case using average_fits[of L "wss ! k"] by (simp add: current_total_def)
qed (simp add: current_total_def)

lemma word_div_small:
  assumes "t < 2 ^ 32" and "0 < unat (n :: u8)"
  shows "(of_nat t :: u32) div ucast n = of_nat (t div unat n)"
proof (rule unsigned_word_eqI[where 'a = nat])
  have "unat (ucast n :: u32) = unat n"
    using unat_u8_bound[of n] by (simp add: unsigned_ucast_eq take_bit_nat_eq_self)
  moreover have "t div unat n < 2 ^ 32" using div_le_dividend[of t "unat n"] assms(1) by linarith
  ultimately show "unat ((of_nat t :: u32) div ucast n) = unat (of_nat (t div unat n) :: u32)"
    using assms(1) by (simp add: unat_div unat_of_nat)
qed

text \<open>What a round leaves: the new values of the active strips, the old ones of the others.\<close>

definition round_measured :: "lpadc_layout \<Rightarrow> globals \<Rightarrow> (u32 \<times> u32) list list \<Rightarrow> nat \<Rightarrow> globals \<Rightarrow> bool" where
  "round_measured L g wss I g' \<longleftrightarrow>
     (\<forall>k < length (strip_list g).
        V_sens_strip_values g' ! (strip_list g ! k) = (of_nat (volts L (wss ! k) div 30), g_timestamp_ms g) \<and>
        (\<exists>w. resistance_array g' ! (strip_list g ! k) = (w, g_timestamp_ms g) \<and> 0 \<le> sint w \<and>
           (let ohm = 9000 * (real (volts L (wss ! k) div 30) / real I) in \<bar>real_of_int (sint w) - ohm\<bar> \<le> 51 / 100 + ohm / 2 ^ 21))) \<and>
     (\<forall>i < 8. i \<notin> set (strip_list g) \<longrightarrow> resistance_array g' ! i = resistance_array g ! i)"

lemma last_state:
  assumes "chip_ok C" and "round_state (L_lpadc C) g wss (length (strip_list g)) g2 a2" and "current_active_strip_index a2 = 0"
    and "voltages_below (2 ^ 17) g" and "arrays_ok g" and "strip_list g \<noteq> []" and "length wss = length (strip_list g)"
    and "\<forall>ws \<in> set wss. window_ok (L_lpadc C) ws"
  defines "I \<equiv> current_total (L_lpadc C) wss (length (strip_list g)) div length (strip_list g)"
  shows "if I = 0 then end_of_round g2 a2 = Inl CastRange
    else \<exists>g3. end_of_round g2 a2 = Inr (g3, a2\<lparr>Total_adc_summation := 0, Total_averaged_current := 0\<rparr>) \<and>
      sampling_ready g3 (a2\<lparr>Total_adc_summation := 0, Total_averaged_current := 0\<rparr>) \<and> round_measured (L_lpadc C) g wss I g3"
proof -
  let ?L = "L_lpadc C"
  let ?n = "length (strip_list g)"
  have s2: "g2 = with_voltages g (voltages_after ?L g wss ?n)" "sampling_ready g2 a2"
      "Total_adc_summation a2 = of_nat (current_total ?L wss ?n)" "strip_list g2 = strip_list g"
    using assms(2) by (auto simp: round_state_def)
  have n: "unat (g_strip_count g2) = ?n" "?n \<le> 8" "0 < ?n"
    using ready_length[OF s2(2)] ready_length_le[OF s2(2)] s2(4) assms(6) by (simp_all flip: length_greater_0_conv)
  have le: "current_total ?L wss ?n \<le> 65535 * ?n" using assms(7,8) by (intro current_total_le) simp_all
  then have "current_total ?L wss ?n < 2 ^ 32" using n(2) by simp
  then have avg: "average_current g2 a2 = of_nat I"
    using word_div_small[of "current_total ?L wss ?n" "g_strip_count g2"] n s2(3) by (simp add: average_current_def I_def)
  have "I \<le> 65535" using div_le_mono[OF le, of ?n] n(3) by (simp add: I_def)
  then have uI: "unat (of_nat I :: u32) = I" by (simp add: unat_of_nat_eq)
  have ok: "arrays_ok g2" "g_strip_count g2 \<noteq> 0" "voltages_below (2 ^ 17) g2" "strip_list g2 \<noteq> []"
    using s2 n voltages_after_below[OF assms(4,8), of ?n] assms(6,7) by (auto simp: sampling_ready_def)
  show ?thesis
  proof (cases "I = 0")
    case True
    then have "average_current g2 a2 = 0" using avg by simp
    from no_current[OF ok(1,2) voltages_below_200000[OF ok(3)] this ok(4)] True show ?thesis by (simp add: end_of_round_def assms(3))
  next
    case False
    then have c: "average_current g2 a2 \<noteq> 0" using avg uI by auto
    let ?a = "a2\<lparr>Total_adc_summation := 0, Total_averaged_current := 0\<rparr>"
    let ?g = "g2\<lparr>resistance_array := map (resistance_entry g2 (of_nat I)) [0..<8]\<rparr>"
    have run: "end_of_round g2 a2 = Inr (?g, ?a)"
      using all_resistances[OF ok(1,2) voltages_below_200000[OF ok(3)] c] by (simp add: end_of_round_def assms(3) avg)
    have "sampling_ready ?g ?a"
      using s2(2) by (simp add: sampling_ready_def arrays_ok_def count_ok_def n_active_def)
    moreover have "round_measured ?L g wss I ?g"
      unfolding round_measured_def
    proof (intro conjI allI impI)
      fix k assume k: "k < ?n"
      have "strip_list g ! k \<in> set (strip_list g2)" using k s2(4) by simp
      then have i: "strip_list g ! k < 8" "active_strips g2 ! (strip_list g ! k)"
        unfolding strip_list_def[of g2] by simp_all
      have V: "V_sens_strip_values g2 ! (strip_list g ! k) = (of_nat (volts ?L (wss ! k) div 30), g_timestamp_ms g)"
        using voltages_after_nth[OF assms(5) k order_refl] s2(1) by (simp add: with_voltages_def)
      then show "V_sens_strip_values ?g ! (strip_list g ! k) = (of_nat (volts ?L (wss ! k) div 30), g_timestamp_ms g)" by simp
      have "window_ok ?L (wss ! k)" using assms(7,8) k by simp
      then have v: "unat (of_nat (volts ?L (wss ! k) div 30) :: u32) = volts ?L (wss ! k) div 30" "volts ?L (wss ! k) div 30 \<le> 2 ^ 17"
        using average_fits[of ?L "wss ! k"] by (simp_all add: unat_of_nat_eq)
      obtain w where w: "resistance (of_nat (volts ?L (wss ! k) div 30)) (of_nat I) = Inr w" "0 \<le> sint w"
          "\<bar>real_of_int (sint w) - 9000 * (real (volts ?L (wss ! k) div 30) / real I)\<bar> \<le>
           51 / 100 + 9000 * (real (volts ?L (wss ! k) div 30) / real I) / 2 ^ 21"
        using resistance_value[of "of_nat (volts ?L (wss ! k) div 30)" "of_nat I"] v c avg uI \<open>I \<le> 65535\<close> by auto
      then have "resistance_array ?g ! (strip_list g ! k) = (w, g_timestamp_ms g)"
        using i V by (simp add: resistance_entry_def ohms_def)
      then show "\<exists>w. resistance_array ?g ! (strip_list g ! k) = (w, g_timestamp_ms g) \<and> 0 \<le> sint w \<and>
          (let ohm = 9000 * (real (volts ?L (wss ! k) div 30) / real I) in \<bar>real_of_int (sint w) - ohm\<bar> \<le> 51 / 100 + ohm / 2 ^ 21)"
        using w(2,3) by (intro exI[of _ w] conjI) (simp_all only: Let_def)
    next
      fix i assume "i < (8 :: nat)" and "i \<notin> set (strip_list g)"
      then have "i \<notin> set (strip_list g2)" using s2(4) by simp
      then have "\<not> active_strips g2 ! i" using \<open>i < 8\<close> unfolding strip_list_def[of g2] by simp
      then show "resistance_array ?g ! i = resistance_array g ! i"
        using \<open>i < 8\<close> s2(1) by (simp add: resistance_entry_def with_voltages_def)
    qed
    ultimately show ?thesis using run False by auto
  qed
qed

text \<open>
  C1: A full round over the active strips, started with the sums at zero and the list of strips in place: for each strip, thirty conversions of
  each converter reach the handlers, the first of them the one that was triggered while the previous strip was still connected.
  The voltage \<open>V\<close> of each strip is the integer average of its thirty; with an average current \<open>I\<close> of at least one count the entry of every strip differs
  from the exact quotient \<open>R = 9000 V / I\<close> by at most \<open>0.51 + R / 2^21\<close>: one half for the rounding to an integer, and the error of the three roundings to
  single precision, so it is not always the nearest integer. It has the time stamp of its voltage, the
  inactive strips keep their old entries, and everything is ready for the next round with the first strip connected. With an average current of zero
  the conversion of the infinite quotient is undefined.
\<close>

theorem measurement_round:
  assumes "chip_ok C" and "sampling_ready g a" and "strip_list g \<noteq> []" and "sums_clear a" and "Total_adc_summation a = 0"
    and "current_active_strip_index a = 0" and "voltages_below (2 ^ 17) g" and "length wss = length (strip_list g)"
    and "\<forall>ws \<in> set wss. window_ok (L_lpadc C) ws"
    and "I = current_total (L_lpadc C) wss (length (strip_list g)) div length (strip_list g)"
  shows "if I = 0 then for_each (concat (map strip_window wss)) (sample_irq_handler C) (g, a, b) = Inl CastRange
    else \<exists>g' a' b'. for_each (concat (map strip_window wss)) (sample_irq_handler C) (g, a, b) = Inr (g', a', b') \<and>
      round_measured (L_lpadc C) g wss I g' \<and> sampling_ready g' a' \<and> sums_clear a' \<and> Total_adc_summation a' = 0 \<and>
      current_active_strip_index a' = 0 \<and> selected_channel (GPIO4 b') = hd (strip_list g)"
proof -
  let ?n = "length (strip_list g)"
  let ?k = "?n - 1"
  have n: "?k < ?n" "Suc ?k = ?n" using assms(3) by (simp_all flip: length_greater_0_conv)
  obtain g1 a1 b1 where p: "for_each (concat (map strip_window (take ?k wss))) (sample_irq_handler C) (g, a, b) = Inr (g1, a1, b1)"
      "round_state (L_lpadc C) g wss ?k g1 a1" "unat (current_active_strip_index a1) = ?k"
    using round_prefix[OF assms(1,2,4-6,8,9) n(1)] by blast
  have "window_ok (L_lpadc C) (wss ! ?k)" using assms(8,9) n(1) by simp
  from round_step[OF assms(1) p(2,3) n(1) this, of b1] n(2)
  obtain g2 a2 b2 r' where s: "for_each (strip_window (wss ! ?k)) (sample_irq_handler C) (g1, a1, b1) =
      rbind (end_of_round g2 a2) (\<lambda>(g3, a3). Inr (g3, a3, b2\<lparr>GPIO4 := r'\<rparr>))"
      "round_state (L_lpadc C) g wss ?n g2 a2" "unat (current_active_strip_index a2) = 0" "selected_channel r' = strip_list g ! 0"
    by auto
  have idx: "current_active_strip_index a2 = 0" using s(3) by (simp add: unsigned_eq_0_iff)
  have wss: "wss = take ?k wss @ [wss ! ?k]"
    using n assms(8) take_Suc_conv_app_nth[of ?k wss] by simp
  have "concat (map strip_window wss) = concat (map strip_window (take ?k wss)) @ strip_window (wss ! ?k)"
    by (subst wss) simp
  then have run: "for_each (concat (map strip_window wss)) (sample_irq_handler C) (g, a, b) =
      rbind (end_of_round g2 a2) (\<lambda>(g3, a3). Inr (g3, a3, b2\<lparr>GPIO4 := r'\<rparr>))"
    using p(1) s(1) by (simp add: for_each_append)
  have "arrays_ok g" using assms(2) by (simp add: sampling_ready_def)
  note last = last_state[OF assms(1) s(2) idx assms(7) this assms(3,8,9), folded assms(10)]
  have clear: "sums_clear (a2\<lparr>Total_adc_summation := 0, Total_averaged_current := 0\<rparr>)"
    using s(2) by (simp add: round_state_def sums_clear_def)
  have first: "selected_channel r' = hd (strip_list g)" using s(4) assms(3) by (simp add: hd_conv_nth)
  show ?thesis
  proof (cases "I = 0")
    case True
    then show ?thesis using last run by simp
  next
    case False
    then obtain g3 where g3: "end_of_round g2 a2 = Inr (g3, a2\<lparr>Total_adc_summation := 0, Total_averaged_current := 0\<rparr>)"
        "sampling_ready g3 (a2\<lparr>Total_adc_summation := 0, Total_averaged_current := 0\<rparr>)" "round_measured (L_lpadc C) g wss I g3"
      using last by auto
    then show ?thesis using False run clear first idx by (auto intro!: exI)
  qed
qed
text \<open>One active strip; thirty conversions of 1000 and 500 counts.\<close>

definition one_strip_globals :: globals where
  "one_strip_globals = init_globals\<lparr>active_strips := [False, False, True, False, False, False, False, False], g_strip_count := 1\<rparr>"

lemma one_strip_ready:
  "strip_list one_strip_globals = [2]" "voltages_below (2 ^ 17) one_strip_globals"
  "sampling_ready one_strip_globals (init_adc_vars\<lparr>active_strip_indices := Some [2]\<rparr>)"
proof -
  show l: "strip_list one_strip_globals = [2]" by (simp add: strip_list_def one_strip_globals_def upt_rec)
  show "voltages_below (2 ^ 17) one_strip_globals"
    by (auto simp: voltages_below_def one_strip_globals_def init_globals_def MAX_STRIP_COUNT_def)
  have "arrays_ok one_strip_globals" "count_ok one_strip_globals"
    using arrays_ok_init by (simp_all add: arrays_ok_def count_ok_def n_active_def one_strip_globals_def)
  then show "sampling_ready one_strip_globals (init_adc_vars\<lparr>active_strip_indices := Some [2]\<rparr>)"
    using l by (simp add: sampling_ready_def init_adc_vars_def)
qed

lemma example_words:
  "valid_word example_lpadc 0x800003E8" "sample_value example_lpadc 0x800003E8 = 1000"
  "valid_word example_lpadc 0x800001F4" "sample_value example_lpadc 0x800001F4 = 500"
  by (simp_all add: valid_word_def sample_value_def result_of_word_def fget_def fmask_def example_lpadc_def mask_eq_exp_minus_1)

theorem measurement_round_witness:
  "\<exists>g' a' b'. for_each (concat (map strip_window [replicate 30 (0x800003E8, 0x800001F4)])) (sample_irq_handler example_chip)
      (one_strip_globals, init_adc_vars\<lparr>active_strip_indices := Some [2]\<rparr>, reset_board) = Inr (g', a', b') \<and>
    V_sens_strip_values g' ! 2 = (1000, 0) \<and> (\<exists>w. resistance_array g' ! 2 = (w, 0) \<and> \<bar>real_of_int (sint w) - 18000\<bar> \<le> 1) \<and>
    selected_channel (GPIO4 b') = 2"
proof -
  let ?a = "init_adc_vars\<lparr>active_strip_indices := Some [2]\<rparr>"
  let ?wss = "[replicate 30 (0x800003E8 :: u32, 0x800001F4 :: u32)]"
  have L: "L_lpadc example_chip = example_lpadc" by (simp add: example_chip_def)
  have sums: "volts example_lpadc (?wss ! 0) = 30000" "current_total example_lpadc ?wss 1 = 500"
    using example_words by (simp_all add: volts_def amps_def current_total_def sum_list_replicate)
  have win: "\<forall>ws \<in> set ?wss. window_ok example_lpadc ws"
    using example_words by (simp add: window_ok_def valid_words_def)
  have a0: "sums_clear ?a" "Total_adc_summation ?a = 0" "current_active_strip_index ?a = 0"
    by (simp_all add: sums_clear_def init_adc_vars_def)
  have "\<exists>g' a' b'. for_each (concat (map strip_window ?wss)) (sample_irq_handler example_chip) (one_strip_globals, ?a, reset_board) =
      Inr (g', a', b') \<and> round_measured example_lpadc one_strip_globals ?wss 500 g' \<and> selected_channel (GPIO4 b') = 2"
    using measurement_round[OF example_chip_ok one_strip_ready(3) _ a0 one_strip_ready(2), of ?wss 500 reset_board] win sums(2)
    by (auto simp: one_strip_ready(1) L)
  moreover have "g_timestamp_ms one_strip_globals = 0" by (simp add: one_strip_globals_def init_globals_def)
  ultimately show ?thesis
    using sums(1) by (fastforce simp: round_measured_def one_strip_ready(1) Let_def)
qed
section \<open>Errors of the sampling\<close>

lemma ticks_before_end:
  assumes "g_strip_count g \<noteq> 0 \<or> ModbusFlag g" and "SoftwareAverageCount a = 30" and "unat (currentCountIndex a) + k \<le> 29"
  shows "\<exists>b'. for_each (replicate k TIMER) (sample_irq_handler C) (g, a, b) =
    Inr (g, a\<lparr>currentCountIndex := currentCountIndex a + of_nat k\<rparr>, b')"
  using assms(2,3)
proof (induction k arbitrary: a b)
  case (Suc k)
  let ?a = "a\<lparr>currentCountIndex := currentCountIndex a + 1\<rparr>"
  obtain b1 where b1: "CTIMER2_IRQHandler C (g, a, b) = Inr (g, ?a, b1)"
    using assms(1) Suc.prems by (auto simp: CTIMER2_IRQHandler_def Let_def)
  have "unat (currentCountIndex ?a) + k \<le> 29" using Suc.prems(2) by (simp add: unat_word_ariths)
  from Suc.IH[of ?a b1] this Suc.prems(1) b1 show ?case by (auto simp: add.assoc)
qed simp

lemma thirtieth_tick:
  assumes "g_strip_count g \<noteq> 0 \<or> ModbusFlag g" and "SoftwareAverageCount a = 30" and "currentCountIndex a = 0"
    and "read_strip_index a = Inl e"
  shows "for_each (replicate 30 TIMER) (sample_irq_handler C) (g, a, b) = Inl e"
proof -
  obtain b1 where b1: "for_each (replicate 29 TIMER) (sample_irq_handler C) (g, a, b) = Inr (g, a\<lparr>currentCountIndex := 29\<rparr>, b1)"
    using ticks_before_end[OF assms(1,2), of 29 C b] assms(3) by auto
  have read: "read_strip_index (a\<lparr>currentCountIndex := c, current_adc_result := x, resultVoltage := y, Total_adc_summation := z\<rparr>) = Inl e"
      for c x y z
    using assms(4) read_index_cong[of "a\<lparr>currentCountIndex := c, current_adc_result := x, resultVoltage := y, Total_adc_summation := z\<rparr>" a]
    by simp
  have "CTIMER2_IRQHandler C (g, a\<lparr>currentCountIndex := 29\<rparr>, b1) = Inl e"
    using assms(1,2) by (auto simp: CTIMER2_IRQHandler_def finish_strip_def Let_def read)
  moreover have "replicate 30 TIMER = replicate 29 TIMER @ [TIMER]"
    by (simp add: replicate_append_same flip: replicate_Suc)
  ultimately show ?thesis using b1 by (simp only: for_each_append) simp
qed

text \<open>
  C36: When no strip is selected, the timer interrupt does nothing as long as the board is not in Modbus mode; in Modbus mode the check
  is skipped, the ticks count, and the thirtieth reads the empty list of strips: outside its block, or through the null
  pointer if \<open>malloc(0)\<close> returned that. A failed allocation for selected strips goes unnoticed in the same way until then.
\<close>

theorem sampling_without_list:
  assumes "arrays_ok g" and "count_ok g" and "SoftwareAverageCount a = 30" and "currentCountIndex a = 0"
    and "ConvertActiveStrips malloc g a = Inr a'" and "n_active g = 0 \<and> malloc 0 = Some [] \<or> malloc (n_active g) = None"
  shows "for_each (replicate 30 TIMER) (sample_irq_handler C) (g, a', b) =
    (if n_active g = 0 \<and> \<not> ModbusFlag g then
       Inr (g, a', b\<lparr>CTIMER2 := CTIMER_ClearStatusFlags (fmask (IR_MR0INT (L_ctimer C))) (CTIMER2 b)\<rparr>)
     else if malloc (n_active g) = None then Inl BadPointer else Inl OutOfBounds)"
proof -
  have count: "unat (g_strip_count g) = n_active g" "(g_strip_count g = 0) = (n_active g = 0)"
    using assms(2) by (auto simp: count_ok_def unsigned_eq_0_iff)
  have strips: "strip_list g = []" if "n_active g = 0" using that length_strip_list[OF assms(1)] by simp
  have a': "SoftwareAverageCount a' = 30" "currentCountIndex a' = 0"
    "active_strip_indices a' = (if malloc (n_active g) = None then None else Some [])"
    using assms(3-6) count(1) strips collect_all[OF assms(1), of "[]"]
    by (auto simp: ConvertActiveStrips_def split: option.splits)
  show ?thesis
  proof (cases "n_active g = 0 \<and> \<not> ModbusFlag g")
    case True
    let ?m = "fmask (IR_MR0INT (L_ctimer C))"
    have one: "CTIMER2_IRQHandler C (g, a', b') = Inr (g, a', b'\<lparr>CTIMER2 := CTIMER_ClearStatusFlags ?m (CTIMER2 b')\<rparr>)" for b'
      using True count(2) by (simp add: CTIMER2_IRQHandler_def)
    have idem: "CTIMER_ClearStatusFlags ?m (CTIMER_ClearStatusFlags ?m r) = CTIMER_ClearStatusFlags ?m r" for r
      by (simp add: CTIMER_ClearStatusFlags_def and.assoc)
    have "for_each (replicate (Suc k) TIMER) (sample_irq_handler C) (g, a', b) =
        Inr (g, a', b\<lparr>CTIMER2 := CTIMER_ClearStatusFlags ?m (CTIMER2 b)\<rparr>)" for k
    proof (induction k)
      case (Suc k)
      have "replicate (Suc (Suc k)) TIMER = replicate (Suc k) TIMER @ [TIMER]"
        by (simp add: replicate_append_same flip: replicate_Suc)
      then show ?case using Suc one idem by (simp only: for_each_append) simp
    qed (simp add: one)
    from this[of 29] show ?thesis using True by (simp flip: numeral_eq_Suc)
  next
    case False
    have run: "g_strip_count g \<noteq> 0 \<or> ModbusFlag g" using False count(2) by auto
    have "read_strip_index a' = Inl (if malloc (n_active g) = None then BadPointer else OutOfBounds)"
      using a'(3) by (simp add: read_strip_index_def)
    from thirtieth_tick[OF run a'(1,2) this] False show ?thesis by auto
  qed
qed

theorem sampling_without_list_witness:
  "for_each (replicate 30 TIMER) (sample_irq_handler example_chip)
     (init_globals\<lparr>ModbusFlag := True\<rparr>, init_adc_vars\<lparr>active_strip_indices := Some []\<rparr>, reset_board) = Inl OutOfBounds \<and>
   for_each (replicate 30 TIMER) (sample_irq_handler example_chip) (one_strip_globals, init_adc_vars, reset_board) = Inl BadPointer"
proof -
  have g: "arrays_ok (init_globals\<lparr>ModbusFlag := True\<rparr>)" "n_active (init_globals\<lparr>ModbusFlag := True\<rparr>) = 0"
      "count_ok (init_globals\<lparr>ModbusFlag := True\<rparr>)"
    using arrays_ok_init count_ok_init by (simp_all add: arrays_ok_def count_ok_def n_active_def init_globals_def)
  have one: "arrays_ok one_strip_globals" "count_ok one_strip_globals" "n_active one_strip_globals = 1"
    using one_strip_ready(3) by (simp_all add: sampling_ready_def n_active_def one_strip_globals_def)
  have a: "SoftwareAverageCount init_adc_vars = 30" "currentCountIndex init_adc_vars = 0" by (simp_all add: init_adc_vars_def)
  have "for_each [0..<8] (collect_strip (init_globals\<lparr>ModbusFlag := True\<rparr>)) ([], 0) = Inr ([], 0)"
    by (simp add: collect_strip_def init_globals_def upt_rec)
  then have "ConvertActiveStrips Some' (init_globals\<lparr>ModbusFlag := True\<rparr>) init_adc_vars = Inr (init_adc_vars\<lparr>active_strip_indices := Some []\<rparr>)"
    if "Some' = (\<lambda>n. Some (replicate n 0))" for Some' using that by (simp add: ConvertActiveStrips_def init_globals_def)
  then have "ConvertActiveStrips (\<lambda>n. Some (replicate n 0)) (init_globals\<lparr>ModbusFlag := True\<rparr>) init_adc_vars =
      Inr (init_adc_vars\<lparr>active_strip_indices := Some []\<rparr>)" by blast
  note m = sampling_without_list[OF g(1,3) a this, of example_chip reset_board]
  have "ConvertActiveStrips (\<lambda>n. None) one_strip_globals init_adc_vars = Inr init_adc_vars"
    by (simp add: ConvertActiveStrips_def init_adc_vars_def)
  note f = sampling_without_list[OF one(1,2) a this, of example_chip reset_board]
  show ?thesis using m f g(2) one(3) by simp
qed
section \<open>The set-up\<close>

definition tick_match :: "globals \<Rightarrow> u32" where
  "tick_match g = of_nat (48000000 div (unat (MUX_freq g) * 30))"

definition adc_timer_ok :: "chip \<Rightarrow> u32 \<Rightarrow> board \<Rightarrow> bool" where
  "adc_timer_ok C v b \<longleftrightarrow>
     match_view (L_ctimer C) 0 (CTIMER2 b) = config_view (adc_timer_match v) \<and>
     bit (ct_TCR (CTIMER2 b)) (fshift (TCR_CEN (L_ctimer C))) \<and> length (ct_MR (CTIMER2 b)) = 4"

lemma timer_setup_ok:
  assumes "chip_ok C" and "SoftwareAverageCount a = 30" and "MUX_freq g \<noteq> 0"
  shows "\<exists>b'. ADC_Voltage_timer_setup C g (a, b) = Inr (a\<lparr>current_active_strip_index := 0, currentCountIndex := 0\<rparr>, b') \<and>
    adc_timer_ok C (tick_match g) b' \<and> GPIO4 b' = GPIO4 b \<and> ADC0 b' = ADC0 b \<and> ADC1 b' = ADC1 b \<and> DAC2 b' = DAC2 b \<and>
    DAC0 b' = DAC0 b \<and> CTIMER4 b' = CTIMER4 b \<and> SysTick_CTRL b' = SysTick_CTRL b"
proof -
  let ?L = "L_ctimer C"
  define b1 where "b1 =
    (let b = b\<lparr>CTIMER2 := CTIMER_StopTimer ?L (CTIMER2 b)\<rparr>;
         b = call (CLOCK_AttachClk kFRO_HF_to_CTIMER2) (call (CLOCK_SetClkDiv kCLOCK_DivCtimer2Clk 1) b);
         b = on_dev (CTIMER_Init ?L (ctimer_reset C) 2 CTIMER_GetDefaultConfig) CTIMER2 CTIMER2_update b
     in call (NVIC_SetPriority (CTIMER 2) 2) (call (EnableIRQ (CTIMER 2)) b))"
  have L: "ctimer_layout_ok ?L" "length (ct_MR (CTIMER2 b1)) = 4"
    using assms(1) by (simp_all add: chip_ok_def b1_def Let_def on_dev_def CTIMER_Init_def)
  have keep: "GPIO4 b1 = GPIO4 b" "ADC0 b1 = ADC0 b" "ADC1 b1 = ADC1 b" "DAC2 b1 = DAC2 b" "DAC0 b1 = DAC0 b" "CTIMER4 b1 = CTIMER4 b"
      "SysTick_CTRL b1 = SysTick_CTRL b"
    by (simp_all add: b1_def Let_def on_dev_def split: prod.split)
  obtain r' where r': "CTIMER_SetupMatch ?L 2 0 (adc_timer_match (tick_match g)) (CTIMER2 b1, sys_calls b1) =
        Inr (r', sys_calls b1 @ [EnableIRQ (CTIMER 2)])" "match_view ?L 0 r' = config_view (adc_timer_match (tick_match g))"
      "length (ct_MR r') = 4"
    using SetupMatch_effect[OF L(1) _ L(2), of 0 2 "adc_timer_match (tick_match g)" "sys_calls b1"]
    by (auto simp: adc_timer_match_def)
  have view: "match_view ?L 0 (CTIMER_StartTimer ?L r') = match_view ?L 0 r'" "length (ct_MR (CTIMER_StartTimer ?L r')) = 4"
    using r'(3) by (simp_all add: match_view_def CTIMER_StartTimer_def)
  have run: "bit (ct_TCR (CTIMER_StartTimer ?L r')) (fshift (TCR_CEN ?L))"
    using L(1) by (simp add: CTIMER_StartTimer_def bit_or_iff bit_single_field ctimer_layout_ok_def)
  have "unat (MUX_freq g) \<noteq> 0" using assms(3) by (simp add: unsigned_eq_0_iff)
  then have "ADC_Voltage_timer_setup C g (a, b) =
      rbind (on_dev_res (CTIMER_SetupMatch ?L 2 0 (adc_timer_match (tick_match g))) CTIMER2 CTIMER2_update b1) (\<lambda>b.
        Inr (a\<lparr>current_active_strip_index := 0, currentCountIndex := 0\<rparr>, b\<lparr>CTIMER2 := CTIMER_StartTimer ?L (CTIMER2 b)\<rparr>))"
    by (simp add: ADC_Voltage_timer_setup_def b1_def Let_def assms(2) tick_match_def)
  then show ?thesis
    using r' keep view run by (simp add: on_dev_res_def adc_timer_ok_def)
qed

text \<open>
  The sample timer is programmed for thirty ticks per strip at the multiplexer frequency: its match value is the largest number of clock
  cycles of which \<open>30 * MUX_freq\<close> fit in the 48 million of a second, between 24 and 1600000; the timer restarts at the
  match, interrupts, and runs, and the indices start over. A multiplexer frequency of zero is a division by zero.
\<close>

theorem sample_timer_period:
  assumes "chip_ok C" and "SoftwareAverageCount a = 30"
  shows "if MUX_freq g = 0 then ADC_Voltage_timer_setup C g (a, b) = Inl DivByZero
    else \<exists>b'. ADC_Voltage_timer_setup C g (a, b) = Inr (a\<lparr>current_active_strip_index := 0, currentCountIndex := 0\<rparr>, b') \<and>
      adc_timer_ok C (tick_match g) b' \<and> 24 \<le> unat (tick_match g) \<and> unat (tick_match g) \<le> 1600000 \<and>
      30 * unat (MUX_freq g) * unat (tick_match g) \<le> 48000000 \<and>
      48000000 < 30 * unat (MUX_freq g) * (unat (tick_match g) + 1)"
proof (cases "MUX_freq g = 0")
  case True
  then show ?thesis by (simp add: ADC_Voltage_timer_setup_def Let_def)
next
  case False
  let ?m = "unat (MUX_freq g) * 30"
  have m: "30 \<le> ?m" "?m \<le> 1966050"
    using False unat_u16_bound[of "MUX_freq g"] by (simp_all add: Suc_le_eq unat_gt_0)
  have "48000000 div ?m \<le> 48000000 div 30" using m(1) by (intro div_le_mono2) simp_all
  then have le: "48000000 div ?m \<le> 1600000" by simp
  have "48000000 div 1966050 \<le> 48000000 div ?m" using m by (intro div_le_mono2) simp_all
  then have ge: "24 \<le> 48000000 div ?m" by simp
  have t: "unat (tick_match g) = 48000000 div ?m" unfolding tick_match_def by (rule unat_of_nat_eq) (rule le_less_trans[OF le], simp)
  have "48000000 div ?m * ?m \<le> 48000000" by (rule div_times_less_eq_dividend)
  moreover have "48000000 < ?m * (48000000 div ?m + 1)" using m(1) dividend_less_div_times[of ?m 48000000] by (simp add: algebra_simps)
  ultimately show ?thesis
    using False timer_setup_ok[OF assms, of g b] t le ge by (auto simp: algebra_simps)
qed

theorem sample_timer_period_witness:
  "\<exists>b'. ADC_Voltage_timer_setup example_chip init_globals (init_adc_vars, reset_board) = Inr (init_adc_vars, b') \<and>
     adc_timer_ok example_chip 200000 b'"
proof -
  have "SoftwareAverageCount init_adc_vars = 30" "init_adc_vars\<lparr>current_active_strip_index := 0, currentCountIndex := 0\<rparr> = init_adc_vars"
    by (simp_all add: init_adc_vars_def)
  moreover have "tick_match init_globals = 200000" "MUX_freq init_globals \<noteq> 0" by (simp_all add: tick_match_def init_globals_def)
  ultimately show ?thesis
    using sample_timer_period[OF example_chip_ok, of init_adc_vars init_globals reset_board] by auto
qed
text \<open>The lengths of the register arrays, and the readings with which every wait ends.\<close>

definition adc_regs_ok :: "lpadc \<Rightarrow> bool" where
  "adc_regs_ok r \<longleftrightarrow>
     length (ad_FCTRL r) = 2 \<and> 2 \<le> length (ad_GCR r) \<and> 0 < length (ad_CMDL r) \<and>
     length (ad_CMDH r) = length (ad_CMDL r) \<and> 0 < length (ad_TCTRL r)"

definition reads_ok :: "lpadc_layout \<Rightarrow> adc_reads \<Rightarrow> bool" where
  "reads_ok L rd \<longleftrightarrow>
     poll_set (STAT_CAL_RDY L) (offset_reads rd) \<and> (\<exists>g \<in> set (gain_reads rd). gain_ready L g) \<and>
     poll_set (STAT_CAL_RDY L) (ready_reads rd)"

text \<open>What the set-up of a converter leaves in its registers.\<close>

definition converter_ready :: "lpadc_layout \<Rightarrow> lpadc_conv_command_config \<Rightarrow> lpadc \<Rightarrow> bool" where
  "converter_ready L command r \<longleftrightarrow>
     command_set L command (ad_CMDL r ! 0) (ad_CMDH r ! 0) \<and>
     ad_TCTRL r ! 0 = fval (TCTRL_TCMD L) 1 \<and>
     ad_IE r AND fmask (IE_FWMIE0 L) = fmask (IE_FWMIE0 L)"

lemma poll_gain_some: "lpadc_gain_layout_ok L \<Longrightarrow> poll_gain L gs \<noteq> None \<longleftrightarrow> (\<exists>g \<in> set gs. gain_ready L g)"
  by (induction gs) (auto simp: gain_ready_def single_bit_set lpadc_gain_layout_ok_def)

lemma LPADC_Init_ok:
  assumes "lpadc_fifo_layout_ok L" and "adc_regs_ok r" and "FIFO0Watermark c = 0" and "FIFO1Watermark c = 0"
  shows "\<exists>r'. LPADC_Init L n c (r, calls) = Inr (r', calls @ [CLOCK_EnableClock (LPADC n)]) \<and> adc_regs_ok r' \<and> ad_VERID r' = ad_VERID r \<and>
    LPADC_GetConvResultCount L 0 r' = Inr 0 \<and> LPADC_GetConvResultCount L 1 r' = Inr 0"
proof -
  obtain x y where f: "ad_FCTRL r = [x, y]"
    using assms(2) by (auto simp: adc_regs_ok_def length_Suc_conv numeral_2_eq_2)
  have "fval (FCTRL_FWMARK L) 0 = 0" by (simp add: fval_def)
  then show ?thesis
    using assms f
    by (simp add: LPADC_Init_def Let_def LPADC_Enable_def LPADC_DoResetFIFO0_def LPADC_DoResetFIFO1_def LPADC_DoResetConfig_def
        adc_regs_ok_def LPADC_GetConvResultCount_def arr_get_def arr_set_def)
qed

lemma fwmie0_ok: "lpadc_fifo_layout_ok L \<Longrightarrow> trigger_sources_ok L (fmask (IE_FWMIE0 L))"
proof -
  assume L: "lpadc_fifo_layout_ok L"
  have "fmask (IE_FWMIE0 L) = take_bit 16 (fmask (IE_FWMIE0 L))"
    using L by (intro bit_word_eqI) (auto simp: bit_take_bit_iff bit_fmask lpadc_fifo_layout_ok_def)
  then have "unat (fmask (IE_FWMIE0 L)) < 2 ^ 16"
    by (metis take_bit_nat_less_exp unsigned_take_bit_eq)
  then show ?thesis by (simp add: trigger_sources_ok_def word_le_nat_alt)
qed

lemma converter_setup_ok:
  assumes "lpadc_fifo_layout_ok L" and "lpadc_gain_layout_ok L" and "lpadc_command_layout_ok L" and "adc_regs_ok r"
    and "LPADC_GetConvResultCount L 0 r = Inr 0" and "LPADC_GetConvResultCount L 1 r = Inr 0"
    and "sample_channel_val (sampleChannelMode command) < sample_channel_val kLPADC_SampleChannelDualSingleEndBothSide"
  shows "if reads_ok L rd then \<exists>r'. converter_setup L command rd r = Some (Inr r') \<and> converter_ready L command r' \<and> adc_regs_ok r'
    else converter_setup L command rd r = None"
proof -
  let ?r1 = "LPADC_EnableOffsetCalibration L True r"
  have poll: "poll (STAT_CAL_RDY L) ws \<noteq> None \<longleftrightarrow> poll_set (STAT_CAL_RDY L) ws" for ws
    using assms(2) by (intro poll_some) (simp_all add: lpadc_gain_layout_ok_def)
  have r1: "ad_FCTRL ?r1 = ad_FCTRL r" "ad_GCR ?r1 = ad_GCR r" "ad_CMDL ?r1 = ad_CMDL r" "ad_CMDH ?r1 = ad_CMDH r"
      "ad_TCTRL ?r1 = ad_TCTRL r" "ad_VERID ?r1 = ad_VERID r" "ad_IE ?r1 = ad_IE r"
    by (simp_all add: LPADC_EnableOffsetCalibration_def)
  let ?r2 = "?r1\<lparr>ad_CTRL := ad_CTRL ?r1 OR fmask (CTRL_CAL_REQ L)\<rparr>"
  have prep: "LPADC_PrepareAutoCalibration L ?r1 = Inr ?r2"
    using assms(5,6) r1(1) by (simp add: LPADC_PrepareAutoCalibration_def LPADC_GetConvResultCount_def)
  show ?thesis
  proof (cases "reads_ok L rd")
    case True
    obtain g0 g1 where g: "poll_gain L (gain_reads rd) = Some (g0, g1)"
      using True poll_gain_some[OF assms(2), of "gain_reads rd"] by (auto simp: reads_ok_def)
    have "2 \<le> length (ad_GCR ?r2)" using assms(4) r1(2) by (simp add: adc_regs_ok_def)
    from write_gain_ok[OF assms(2) this, of g0 g1]
    obtain gcr where w: "write_gain L g0 g1 ?r2 = Inr (?r2\<lparr>ad_GCR := gcr\<rparr>)" "length gcr = length (ad_GCR ?r2)"
      by (metis length_list_update)
    let ?r3 = "?r2\<lparr>ad_GCR := gcr\<rparr>"
    have cal: "LPADC_DoAutoCalibration L (gain_reads rd) (ready_reads rd) ?r1 = Some (Inr ?r3)"
      using True poll[of "ready_reads rd"] g w(1)
      by (auto simp: LPADC_DoAutoCalibration_def prep LPADC_FinishAutoCalibration_def reads_ok_def)
    have len: "0 < length (ad_CMDL ?r3)" "length (ad_CMDH ?r3) = length (ad_CMDL ?r3)" "0 < length (ad_TCTRL ?r3)"
      using assms(4) r1 by (simp_all add: adc_regs_ok_def)
    have "sample_mode_allowed ?r3 (sampleChannelMode command)" using assms(7) by (simp add: sample_mode_allowed_def)
    moreover have "1 \<le> length (ad_CMDL ?r3)" using len(1) by (simp add: Suc_le_eq del: length_greater_0_conv)
    ultimately have "\<exists>l h cv. LPADC_SetConvCommandConfig L 1 command ?r3 =
        Inr (?r3\<lparr>ad_CMDL := (ad_CMDL ?r3)[1 - 1 := l], ad_CMDH := (ad_CMDH ?r3)[1 - 1 := h], ad_CV := cv\<rparr>) \<and>
      command_set L command l h \<and> (hardwareCompareMode command = kLPADC_HardwareCompareDisabled \<longrightarrow> cv = ad_CV ?r3)"
      using len(2) by (intro command_effect[OF assms(3)]) simp_all
    then
    obtain l h cv where c: "LPADC_SetConvCommandConfig L 1 command ?r3 =
        Inr (?r3\<lparr>ad_CMDL := (ad_CMDL ?r3)[0 := l], ad_CMDH := (ad_CMDH ?r3)[0 := h], ad_CV := cv\<rparr>)" "command_set L command l h"
      by auto
    let ?r4 = "?r3\<lparr>ad_CMDL := (ad_CMDL ?r3)[0 := l], ad_CMDH := (ad_CMDH ?r3)[0 := h], ad_CV := cv\<rparr>"
    let ?r5 = "?r4\<lparr>ad_TCTRL := (ad_TCTRL ?r4)[0 := fval (TCTRL_TCMD L) 1]\<rparr>"
    have "fval f 0 = 0" for f by (simp add: fval_def)
    then have t: "LPADC_SetConvTriggerConfig L 0 trigger_config ?r4 = Inr ?r5"
      using len(3) by (simp add: LPADC_SetConvTriggerConfig_def trigger_config_def LPADC_GetDefaultConvTriggerConfig_def Let_def)
    let ?r6 = "?r5\<lparr>ad_IE := ad_IE ?r5 OR fmask (IE_FWMIE0 L)\<rparr>"
    have i: "LPADC_EnableInterrupts L (fmask (IE_FWMIE0 L)) ?r5 = Inr ?r6"
      using fwmie0_ok[OF assms(1)] by (simp add: LPADC_EnableInterrupts_def)
    have "LPADC_DoOffsetCalibration L (offset_reads rd) r = Some ?r1"
      using True poll[of "offset_reads rd"] by (auto simp: LPADC_DoOffsetCalibration_def reads_ok_def)
    then have "converter_setup L command rd r = Some (Inr ?r6)"
      by (simp only: converter_setup_def option.map run_bind_simps cal c(1) t i rbind_Inr)
    moreover have "(x OR m) AND m = m" for x m :: u32 by (rule bit_word_eqI) (auto simp: bit_or_iff bit_and_iff)
    then have "converter_ready L command ?r6"
      using len c(2) by (simp add: converter_ready_def)
    moreover have "adc_regs_ok ?r6" using assms(4) w(2) r1 by (simp add: adc_regs_ok_def)
    ultimately show ?thesis using True by auto
  next
    case False
    then consider "poll (STAT_CAL_RDY L) (offset_reads rd) = None"
      | "poll_gain L (gain_reads rd) = None"
      | g0 g1 where "poll_gain L (gain_reads rd) = Some (g0, g1)" "poll (STAT_CAL_RDY L) (ready_reads rd) = None"
      using poll poll_gain_some[OF assms(2), of "gain_reads rd"] by (fastforce simp: reads_ok_def)
    then have "converter_setup L command rd r = None"
    proof cases
      case 1
      then show ?thesis by (simp add: converter_setup_def LPADC_DoOffsetCalibration_def)
    next
      case 2
      then show ?thesis
        by (simp add: converter_setup_def LPADC_DoAutoCalibration_def prep LPADC_FinishAutoCalibration_def LPADC_DoOffsetCalibration_def
            split: option.split)
    next
      case 3
      have "2 \<le> length (ad_GCR ?r2)" using assms(4) r1(2) by (simp add: adc_regs_ok_def)
      from write_gain_ok[OF assms(2) this, of g0 g1]
      obtain gcr where "write_gain L g0 g1 ?r2 = Inr (?r2\<lparr>ad_GCR := gcr\<rparr>)" by blast
      then show ?thesis
        using 3 by (simp add: converter_setup_def LPADC_DoAutoCalibration_def prep LPADC_FinishAutoCalibration_def
            LPADC_DoOffsetCalibration_def split: option.split)
    qed
    then show ?thesis using False by simp
  qed
qed
text \<open>The peripherals that the set-up of the converters leaves alone.\<close>

definition others_same :: "board \<Rightarrow> board \<Rightarrow> bool" where
  "others_same b b' \<longleftrightarrow>
     GPIO2 b' = GPIO2 b \<and> GPIO4 b' = GPIO4 b \<and> CTIMER2 b' = CTIMER2 b \<and> CTIMER4 b' = CTIMER4 b \<and> DAC2 b' = DAC2 b \<and>
     DAC0 b' = DAC0 b \<and> SysTick_CTRL b' = SysTick_CTRL b \<and> s_ctimerCallback4 b' = s_ctimerCallback4 b"

lemma reference_setup_ok:
  assumes "chip_ok C"
  shows "\<exists>b'. reference_setup C rd b = Some (Inr b') \<and> others_same b b' \<and> ADC0 b' = ADC0 b \<and> ADC1 b' = ADC1 b"
proof -
  let ?c = "VREF_GetDefaultConfig\<lparr>bufferMode := kVREF_ModeLowPowerBuffer\<rparr>"
  let ?b = "b\<lparr>SPC0_ACTIVE_CFG1 := SPC0_ACTIVE_CFG1 b OR 0x1\<rparr>"
  obtain r cs where init: "VREF_Init (L_vref C) 0 ?c (VREF0 ?b, sys_calls ?b) = (r, cs)" by fastforce
  have "vref_layout_ok (L_vref C)" "enableChopOscillator ?c" "bufferMode ?c \<noteq> kVREF_ModeBandgapOnly"
    using assms by (simp_all add: chip_ok_def VREF_GetDefaultConfig_def)
  from trim21_after_init[OF this, of 2 "csr_reads rd" 0 "(VREF0 ?b, sys_calls ?b)"] init
  obtain r' cs' where "VREF_SetTrim21Val (L_vref C) 2 (csr_reads rd) (r, cs) = Some (r', cs')" by auto
  then show ?thesis
    using init by (simp add: reference_setup_def Let_def on_dev_def on_dev_wait_def others_same_def)
qed

lemma converter_clocks_same:
  "others_same b (converter_clocks C divider attach b) \<and> ADC0 (converter_clocks C divider attach b) = ADC0 b \<and>
    ADC1 (converter_clocks C divider attach b) = ADC1 b"
  by (simp add: converter_clocks_def Let_def on_dev_def others_same_def split: prod.split)

lemma others_same_trans: "others_same b b' \<Longrightarrow> others_same b' b'' \<Longrightarrow> others_same b b''"
  by (simp add: others_same_def)

lemma voltage_setup:
  assumes "chip_ok C" and "adc_regs_ok (ADC0 b)"
  shows "if reads_ok (L_lpadc C) rd
    then \<exists>b'. ADC_Voltage_Initialize C rd b = Some (Inr b') \<and> converter_ready (L_lpadc C) voltage_command (ADC0 b') \<and>
      adc_regs_ok (ADC0 b') \<and> ADC1 b' = ADC1 b \<and> others_same b b'
    else ADC_Voltage_Initialize C rd b = None"
proof -
  let ?L = "L_lpadc C"
  have L: "lpadc_fifo_layout_ok ?L" "lpadc_gain_layout_ok ?L" "lpadc_command_layout_ok ?L"
    using assms(1) by (simp_all add: chip_ok_def)
  obtain b1 where b1: "reference_setup C rd b = Some (Inr b1)" "others_same b b1" "ADC0 b1 = ADC0 b" "ADC1 b1 = ADC1 b"
    using reference_setup_ok[OF assms(1)] by blast
  let ?b2 = "converter_clocks C kCLOCK_DivAdc0Clk kFRO_HF_to_ADC0 b1"
  have b2: "others_same b ?b2" "ADC0 ?b2 = ADC0 b" "ADC1 ?b2 = ADC1 b"
    using converter_clocks_same[of b1 C kCLOCK_DivAdc0Clk kFRO_HF_to_ADC0] b1 others_same_trans by auto
  have w: "FIFO0Watermark converter_config = 0" "FIFO1Watermark converter_config = 0"
    by (simp_all add: converter_config_def LPADC_GetDefaultConfig_def)
  obtain r' where r': "LPADC_Init ?L 0 converter_config (ADC0 ?b2, sys_calls ?b2) = Inr (r', sys_calls ?b2 @ [CLOCK_EnableClock (LPADC 0)])"
      "adc_regs_ok r'" "LPADC_GetConvResultCount ?L 0 r' = Inr 0" "LPADC_GetConvResultCount ?L 1 r' = Inr 0"
    using LPADC_Init_ok[OF L(1) _ w, of "ADC0 ?b2" 0 "sys_calls ?b2"] assms(2) b2(2) by auto
  have "sample_channel_val (sampleChannelMode voltage_command) < sample_channel_val kLPADC_SampleChannelDualSingleEndBothSide"
    by (simp add: voltage_command_def LPADC_GetDefaultConvCommandConfig_def)
  from converter_setup_ok[OF L r'(2-4) this, of rd]
  show ?thesis
    using b1(1) b2 r'(1)
    by (auto simp: ADC_Voltage_Initialize_def on_dev_res_def on_regs_run_def others_same_def split: if_splits)
qed

lemma current_setup:
  assumes "chip_ok C" and "adc_regs_ok (ADC1 b)"
  shows "if reads_ok (L_lpadc C) rd
    then \<exists>b'. ADC_Current_Initialize C rd b = Some (Inr b') \<and> converter_ready (L_lpadc C) current_command (ADC1 b') \<and>
      adc_regs_ok (ADC1 b') \<and> ADC0 b' = ADC0 b \<and> others_same b b'
    else ADC_Current_Initialize C rd b = None"
proof -
  let ?L = "L_lpadc C"
  have L: "lpadc_fifo_layout_ok ?L" "lpadc_gain_layout_ok ?L" "lpadc_command_layout_ok ?L"
    using assms(1) by (simp_all add: chip_ok_def)
  obtain b1 where b1: "reference_setup C rd b = Some (Inr b1)" "others_same b b1" "ADC0 b1 = ADC0 b" "ADC1 b1 = ADC1 b"
    using reference_setup_ok[OF assms(1)] by blast
  let ?b2 = "converter_clocks C kCLOCK_DivAdc1Clk kFRO_HF_to_ADC1 b1"
  have b2: "others_same b ?b2" "ADC0 ?b2 = ADC0 b" "ADC1 ?b2 = ADC1 b"
    using converter_clocks_same[of b1 C kCLOCK_DivAdc1Clk kFRO_HF_to_ADC1] b1 others_same_trans by auto
  have w: "FIFO0Watermark converter_config = 0" "FIFO1Watermark converter_config = 0"
    by (simp_all add: converter_config_def LPADC_GetDefaultConfig_def)
  obtain r' where r': "LPADC_Init ?L 1 converter_config (ADC1 ?b2, sys_calls ?b2) = Inr (r', sys_calls ?b2 @ [CLOCK_EnableClock (LPADC 1)])"
      "adc_regs_ok r'" "LPADC_GetConvResultCount ?L 0 r' = Inr 0" "LPADC_GetConvResultCount ?L 1 r' = Inr 0"
    using LPADC_Init_ok[OF L(1) _ w, of "ADC1 ?b2" 1 "sys_calls ?b2"] assms(2) b2(3) by auto
  have "sample_channel_val (sampleChannelMode current_command) < sample_channel_val kLPADC_SampleChannelDualSingleEndBothSide"
    by (simp add: current_command_def LPADC_GetDefaultConvCommandConfig_def)
  from converter_setup_ok[OF L r'(2-4) this, of rd]
  show ?thesis
    using b1(1) b2 r'(1)
    by (auto simp: ADC_Current_Initialize_def on_dev_res_def on_regs_run_def others_same_def split: if_splits)
qed

text \<open>
  C23: The set-up of the two converters, one after the other, returns exactly when the hardware ends the three waits of the calibrations (the wait for the
  reference never waits, whatever the status register shows, since the chop oscillator is on); it returns without
  a failed assertion, with the first command of each converter set for its input in high resolution, the software trigger routed to that command and the
  interrupt of the first FIFO enabled; it does not touch timers, digital converters or ports.
\<close>

theorem converters_set_up:
  assumes "chip_ok C" and "adc_regs_ok (ADC0 b)" and "adc_regs_ok (ADC1 b)"
  shows "if reads_ok (L_lpadc C) rd \<and> reads_ok (L_lpadc C) rd'
    then \<exists>b'. run_bind (ADC_Voltage_Initialize C rd b) (ADC_Current_Initialize C rd') = Some (Inr b') \<and>
      converter_ready (L_lpadc C) voltage_command (ADC0 b') \<and> converter_ready (L_lpadc C) current_command (ADC1 b') \<and>
      others_same b b'
    else run_bind (ADC_Voltage_Initialize C rd b) (ADC_Current_Initialize C rd') = None"
proof (cases "reads_ok (L_lpadc C) rd")
  case True
  then obtain b1 where b1: "ADC_Voltage_Initialize C rd b = Some (Inr b1)" "converter_ready (L_lpadc C) voltage_command (ADC0 b1)"
      "ADC1 b1 = ADC1 b" "others_same b b1"
    using voltage_setup[OF assms(1,2), of rd] by auto
  then have "adc_regs_ok (ADC1 b1)" using assms(3) by simp
  from current_setup[OF assms(1) this, of rd'] show ?thesis
    using True b1 others_same_trans by (auto split: if_splits)
next
  case False
  then show ?thesis using voltage_setup[OF assms(1,2), of rd] by auto
qed

definition example_reads :: adc_reads where
  "example_reads = \<lparr>csr_reads = [], offset_reads = [0x400], gain_reads = [(0x01000010, 0x01000010)], ready_reads = [0, 0x400]\<rparr>"

lemma example_reads_ok: "reads_ok example_lpadc example_reads"
  by (simp add: reads_ok_def example_reads_def poll_set_def gain_ready_def fget_def fmask_def example_lpadc_def)

lemma reset_adc_ok: "adc_regs_ok reset_lpadc"
  by (simp add: adc_regs_ok_def reset_lpadc_def)

theorem converters_set_up_witness:
  "\<exists>b'. run_bind (ADC_Voltage_Initialize example_chip example_reads reset_board) (ADC_Current_Initialize example_chip example_reads) =
      Some (Inr b') \<and> converter_ready example_lpadc current_command (ADC1 b')"
proof -
  have "L_lpadc example_chip = example_lpadc" "ADC0 reset_board = reset_lpadc" "ADC1 reset_board = reset_lpadc"
    by (simp_all add: example_chip_def reset_board_def)
  then show ?thesis
    using converters_set_up[OF example_chip_ok, of reset_board example_reads example_reads] example_reads_ok reset_adc_ok by auto
qed

end
