(* ===== verification/HotPlate.thy ===== *)
theory HotPlate
  imports Board Globals
begin

text \<open>
  The wave form that drives the micro hot plate (\<open>DAC_files/DAC_micro_hot_plate.c\<close> and \<open>initialize_dac_hot_plate\<close> of \<open>main.c\<close>): the samples
  of one period are computed in floating point into the shared array and played, one per timer interrupt, through the 14 bit
  converter. The sine function of the C library is a parameter \<open>c_sin\<close>, of which the lemmas use that its results lie
  between -1 and 1.
\<close>

section \<open>Computing the samples\<close>

text \<open>Integer operands become \<open>double\<close>, the maximum is stored as \<open>float\<close>; the division by the gain is an integer division.\<close>

definition dac_full_scale :: fp where
  "dac_full_scale = fp_div fl64 (fl64 16383) (fl64 (33 / 10))"

definition f64_of_u32 :: "u32 \<Rightarrow> fp" where
  "f64_of_u32 w = fl64 (real (unat w))"

definition maxDacValue :: "u32 \<Rightarrow> fp" where
  "maxDacValue amplitude = fp_cast fl32 (fp_mul fl64 (f64_of_u32 (amplitude div OPAMP_GAIN)) dac_full_scale)"

definition scale_value :: "fp \<Rightarrow> u32 \<Rightarrow> u32 res" where
  "scale_value m v = fp_to_u32 (fp_mul fl64 (fp_div fl64 (f32_of_u32 v) (fl64 16383)) m)"

definition scaleDacValues :: "u32 \<Rightarrow> nat \<Rightarrow> u32 list \<Rightarrow> u32 list res" where
  "scaleDacValues amplitude sz values = update_each 0 sz (scale_value (maxDacValue amplitude)) values"

definition M_PI :: fp where
  "M_PI = fl64 (314159265358979323846 / 10 ^ 20)"

definition M_PI_2 :: fp where
  "M_PI_2 = fl64 (157079632679489661923 / 10 ^ 20)"

definition deltaAngle :: "fp \<Rightarrow> fp" where
  "deltaAngle frequency =
     fp_cast fl32 (fp_div fl64 (fp_mul fl64 (fp_mul fl64 (fl64 2) M_PI) frequency) (fl64 (real SAMPLE_RATE)))"

definition sine_sample :: "(fp \<Rightarrow> fp) \<Rightarrow> fp \<Rightarrow> nat \<Rightarrow> u32 res" where
  "sine_sample c_sin delta i =
     (let angle = fp_mul fl32 (f32_of_u32 (of_nat i)) delta
      in fp_to_u32 (fp_mul fl64 (fp_add fl64 (c_sin (fp_sub fl64 angle M_PI_2)) (fl64 1)) (fl64 (16383 / 2))))"

definition generateSineWave :: "(fp \<Rightarrow> fp) \<Rightarrow> globals \<Rightarrow> nat \<Rightarrow> u32 list \<Rightarrow> u32 list res" where
  "generateSineWave c_sin g sz values =
     rbind (fill 0 sz (sine_sample c_sin (deltaAngle (desiredFrequency g))) values)
       (scaleDacValues (desiredAmplitude g) sz)"

text \<open>\<open>dutyCycle\<close> is unsigned, so the first half of the check of the duty cycle is never true.\<close>

definition on_size :: "globals \<Rightarrow> nat \<Rightarrow> nat" where
  "on_size g sz = unat ((of_nat sz * dutyCycle g) div 100)"

definition generateSquareWave :: "globals \<Rightarrow> nat \<Rightarrow> u32 list \<Rightarrow> u32 list res" where
  "generateSquareWave g sz values =
     (if dutyCycle g < 0 \<or> dutyCycle g > 100 then Inr values
      else
        let onSize = on_size g sz
        in rbind (fill 0 onSize (\<lambda>i. Inr 16383) values) (\<lambda>values.
           rbind (fill onSize sz (\<lambda>i. Inr 0) values)
             (scaleDacValues (desiredAmplitude g) sz)))"

definition triangle_slope :: "nat \<Rightarrow> fp" where
  "triangle_slope onSize = fp_cast fl32 (fp_div fl64 (fl64 16383) (fl64 (real onSize)))"

definition rising_sample :: "fp \<Rightarrow> nat \<Rightarrow> u32 res" where
  "rising_sample slope i = fp_to_u32 (fp_mul fl32 (f32_of_u32 (of_nat i)) slope)"

definition falling_sample :: "fp \<Rightarrow> nat \<Rightarrow> nat \<Rightarrow> u32 res" where
  "falling_sample slope onSize i =
     fp_to_u32 (fp_sub fl32 (fl32 16383) (fp_mul fl32 (f32_of_u32 (of_nat i - of_nat onSize)) slope))"

definition generateTriangleWave :: "globals \<Rightarrow> nat \<Rightarrow> u32 list \<Rightarrow> u32 list res" where
  "generateTriangleWave g sz values =
     (if dutyCycle g < 0 \<or> dutyCycle g > 100 then Inr values
      else
        let onSize = on_size g sz; slope = triangle_slope onSize
        in rbind (fill 0 onSize (rising_sample slope) values) (\<lambda>values.
           rbind (fill onSize sz (falling_sample slope onSize) values)
             (scaleDacValues (desiredAmplitude g) sz)))"

section \<open>Playing them\<close>

definition dac_update_callback :: "chip \<Rightarrow> u32 \<Rightarrow> globals \<times> board \<Rightarrow> (globals \<times> board) res" where
  "dac_update_callback C flags s =
     (let (g, b) = s
      in rbind (arr_get (g_Dac14Values g) (unat (g_Dac14InputIndex g))) (\<lambda>v.
         let b = b\<lparr>DAC2 := DAC14_SetData (L_hpdac C) v (DAC2 b)\<rparr>
         in if g_Dac14ValueArraySize g = 0 then Inl DivByZero
            else
              let g = g\<lparr>g_Dac14InputIndex := (g_Dac14InputIndex g + 1) mod g_Dac14ValueArraySize g\<rparr>
              in Inr (g, b\<lparr>DAC2 := DAC14_DoSoftwareTrigger (L_hpdac C) (DAC2 b)\<rparr>)))"

definition CTIMER4_IRQHandler :: "chip \<Rightarrow> globals \<times> board \<Rightarrow> (globals \<times> board) res" where
  "CTIMER4_IRQHandler C s =
     (let (g, b) = s;
          b = b\<lparr>CTIMER4 := CTIMER_ClearStatusFlags (fmask (IR_MR0INT (L_ctimer C))) (CTIMER4 b)\<rparr>
      in dac_update_callback C 0 (g, b))"

text \<open>The match value of the sample timer.\<close>

definition hot_plate_match :: ctimer_match_config where
  "hot_plate_match =
    \<lparr>matchValue = of_nat (12000000 div SAMPLE_RATE), enableCounterReset = True, enableCounterStop = False,
     outControl = kCTIMER_Output_NoAction, outPinInitState = False, enableInterrupt = True\<rparr>"

definition SetupTimer :: "chip \<Rightarrow> board \<Rightarrow> board res" where
  "SetupTimer C b =
     (let b = call (CLOCK_AttachClk kFRO12M_to_CTIMER4) (call (CLOCK_SetClkDiv kCLOCK_DivCtimer4Clk 1) b);
          b = on_dev (CTIMER_Init (L_ctimer C) (ctimer_reset C) 4 CTIMER_GetDefaultConfig) CTIMER4 CTIMER4_update b;
          b = call (NVIC_SetPriority (CTIMER 4) 4) (call (EnableIRQ (CTIMER 4)) b);
          b = b\<lparr>s_ctimerCallback4 :=
                CTIMER_RegisterCallBack [Some DacUpdateCallback] kCTIMER_SingleCallback (s_ctimerCallback4 b)\<rparr>
      in rbind (on_dev_res (CTIMER_SetupMatch (L_ctimer C) 4 0 hot_plate_match) CTIMER4 CTIMER4_update b) (\<lambda>b.
           Inr (b\<lparr>CTIMER4 := CTIMER_StartTimer (L_ctimer C) (CTIMER4 b)\<rparr>)))"

definition Dac_and_other_setup :: "chip \<Rightarrow> board \<Rightarrow> board" where
  "Dac_and_other_setup C b =
     (let b = call (CLOCK_AttachClk kFRO_HF_to_DAC2) (call (CLOCK_SetClkDiv kCLOCK_DivDac2Clk 1) b);
          config = DAC14_GetDefaultConfig\<lparr>d14_TriggerSource := kDAC14_SoftwareTriggerSource,
                     d14_WorkMode := kDAC14_FIFOWorkMode, d14_enableOpampBuffer := True, d14_enableDAC := True\<rparr>;
          b = on_dev (DAC14_Init (L_hpdac C) 2 config) DAC2 DAC2_update b
      in b\<lparr>SPC0_ACTIVE_CFG1 := SPC0_ACTIVE_CFG1 b OR 0x41\<rparr>)"

text \<open>
  The result of the initialisation is the C return value: 0 or -1. The number of samples is converted before the frequency is
  checked.
\<close>

definition array_size :: "globals \<Rightarrow> u32 res" where
  "array_size g =
     rbind (fp_to_u32 (fp_div fl32 (fl32 (real SAMPLE_RATE)) (desiredFrequency g))) (\<lambda>n.
       Inr (if n > of_nat MAX_ARRAY_SIZE then of_nat MAX_ARRAY_SIZE else n))"

definition generate_wave :: "(fp \<Rightarrow> fp) \<Rightarrow> globals \<Rightarrow> u32 list res option" where
  "generate_wave c_sin g =
     (let sz = unat (g_Dac14ValueArraySize g); values = g_Dac14Values g
      in if waveType g = 0 then Some (generateSineWave c_sin g sz values)
         else if waveType g = 1 then Some (generateSquareWave g sz values)
         else if waveType g = 2 then Some (generateTriangleWave g sz values)
         else None)"

definition initialize_dac_hot_plate ::
  "chip \<Rightarrow> (fp \<Rightarrow> fp) \<Rightarrow> globals \<times> board \<Rightarrow> (int \<times> globals \<times> board) res" where
  "initialize_dac_hot_plate C c_sin s =
     (let (g, b) = s; b = Dac_and_other_setup C b
      in rbind (array_size g) (\<lambda>n.
         let g = g\<lparr>g_Dac14ValueArraySize := n\<rparr>
         in if fp_lt (desiredFrequency g) LOWEST_FREQ_POSSIBLE then Inr (- 1, g, b)
            else case generate_wave c_sin g of
                   None \<Rightarrow> Inr (- 1, g, b)
                 | Some w \<Rightarrow>
                     rbind w (\<lambda>values.
                     let g = g\<lparr>g_Dac14Values := values\<rparr>
                     in rbind (SetupTimer C b) (\<lambda>b. Inr (0, g, b)))))"

section \<open>Bounds on the floating point computations\<close>

lemma full_scale_bounds: "\<exists>c. dac_full_scale = Fin c \<and> rep64 c \<and> 4680 \<le> c \<and> c \<le> 5042"
proof -
  have rep: "rep64 (13 / 4)" "rep64 (7 / 2)" "rep64 4680" "rep64 5042"
    using representable_scaled[of 13 53 "- 1074" "- 2"] representable_scaled[of 7 53 "- 1074" "- 1"]
      rep64_nat[of 4680] rep64_nat[of 5042] by (simp_all add: power_int_minus)
  have v: "fl64 (33 / 10) = Fin (rnd64 (33 / 10))" "13 / 4 \<le> rnd64 (33 / 10)" "rnd64 (33 / 10) \<le> 7 / 2"
    by (rule fl64_between[of "13 / 4" "7 / 2"]; use rep in simp)+
  then have "4680 \<le> 16383 / rnd64 (33 / 10)" "16383 / rnd64 (33 / 10) \<le> 5042"
    by (simp_all add: field_simps)
  from fl64_between[OF rep(3,4) this]
  have "fl64 (16383 / rnd64 (33 / 10)) = Fin (rnd64 (16383 / rnd64 (33 / 10)))"
      "4680 \<le> rnd64 (16383 / rnd64 (33 / 10))" "rnd64 (16383 / rnd64 (33 / 10)) \<le> 5042"
    by simp_all
  moreover have "fl64 16383 = Fin 16383" using fl64_nat[of 16383] by simp
  moreover have "rep64 (rnd64 (16383 / rnd64 (33 / 10)))"
    unfolding rnd64_def by (rule representable_rnd) simp
  ultimately show ?thesis
    using v by (auto simp: dac_full_scale_def)
qed

lemma maxDac_bounds:
  assumes "unat (A div OPAMP_GAIN) \<le> 256"
  shows "\<exists>m. maxDacValue A = Fin m \<and> rep64 m \<and> 4680 * real (unat (A div OPAMP_GAIN)) \<le> m \<and>
    m \<le> 5042 * real (unat (A div OPAMP_GAIN))"
proof -
  let ?k = "unat (A div OPAMP_GAIN)"
  obtain c where c: "dac_full_scale = Fin c" "4680 \<le> c" "c \<le> 5042"
    using full_scale_bounds by blast
  have k: "f64_of_u32 (A div OPAMP_GAIN) = Fin (real ?k)"
    using assms by (simp add: f64_of_u32_def fl64_nat)
  have rep: "rep32 (4680 * real ?k)" "rep32 (5042 * real ?k)"
    using rep32_nat[of "4680 * ?k"] rep32_nat[of "5042 * ?k"] assms by simp_all
  have prod: "4680 * real ?k \<le> real ?k * c" "real ?k * c \<le> 5042 * real ?k"
    using c mult_right_mono[of 4680 c "real ?k"] mult_right_mono[of c 5042 "real ?k"] by (simp_all add: mult.commute)
  have big: "\<bar>4680 * real ?k\<bar> \<le> 2 ^ 100" "\<bar>5042 * real ?k\<bar> \<le> 2 ^ 100"
    "\<bar>4680 * real ?k\<bar> \<le> 2 ^ 1000" "\<bar>5042 * real ?k\<bar> \<le> 2 ^ 1000"
    using assms by simp_all
  note p = fl64_between[OF rep32_rep64[OF rep(1)] rep32_rep64[OF rep(2)] prod big(3,4)]
  note m = fl32_between[OF rep p(2,3) big(1,2)]
  have "rep64 (rnd32 (rnd64 (real ?k * c)))"
    unfolding rnd32_def by (rule rep32_rep64, rule representable_rnd) simp
  then show ?thesis
    unfolding maxDacValue_def k c(1) fp_mul.simps p(1) fp_cast.simps m(1)
    using m(2,3) by blast
qed

text \<open>Scaling a sample of at most full scale gives at most the maximum.\<close>

lemma scale_value_ok:
  assumes "rep64 m" and "0 \<le> m" and "m \<le> 2 ^ 31" and "unat v \<le> 16383"
  shows "\<exists>w. scale_value (Fin m) v = Inr w \<and> real (unat w) \<le> m \<and> (unat v = 16383 \<longrightarrow> unat w = nat \<lfloor>m\<rfloor>)"
proof -
  have v: "f32_of_u32 v = Fin (real (unat v))" "fl64 16383 = Fin 16383"
    using fl32_nat[of "unat v"] fl64_nat[of 16383] assms(4) by (simp_all add: f32_of_u32_def)
  have rep: "rep64 0" "rep64 1" using rep64_nat[of 0] rep64_nat[of 1] by simp_all
  let ?q = "rnd64 (real (unat v) / 16383)"
  have q: "fl64 (real (unat v) / 16383) = Fin ?q" "0 \<le> ?q" "?q \<le> 1"
    using assms(4) by (intro fl64_between[OF rep]; simp)+
  let ?p = "rnd64 (?q * m)"
  have big: "\<bar>m\<bar> \<le> 2 ^ 1000"
  proof -
    have "(2::real) ^ 31 \<le> 2 ^ 1000" by (rule power_increasing) simp_all
    then show ?thesis using assms(2,3) by linarith
  qed
  have "0 \<le> ?q * m" "?q * m \<le> m"
    using q assms(2) mult_right_mono[of ?q 1 m] by simp_all
  from fl64_between[OF rep(1) assms(1) this _ big]
  have p: "fl64 (?q * m) = Fin ?p" "0 \<le> ?p" "?p \<le> m"
    by simp_all
  have lt: "- 1 < ?p" "?p < 2 ^ 32" using p assms(3) by simp_all
  have w: "scale_value (Fin m) v = Inr (word_of_int (trunc ?p))"
    using fp_to_u32_ok(1)[OF lt] v q p by (simp add: scale_value_def del: fp_to_u32.simps)
  have un: "unat (word_of_int (trunc ?p) :: u32) = nat \<lfloor>?p\<rfloor>"
    using fp_to_u32_ok(2)[OF lt] p by (simp add: trunc_def)
  have "real (nat \<lfloor>?p\<rfloor>) \<le> ?p" using p by simp
  then have "real (nat \<lfloor>?p\<rfloor>) \<le> m" using p(3) by (rule order_trans)
  moreover have "?p = m" if "unat v = 16383"
  proof -
    have "?q = 1" using that r64.exact[OF rep(2)] by simp
    then show ?thesis using r64.exact[OF assms(1)] by simp
  qed
  ultimately show ?thesis using w un p by auto
qed

text \<open>The samples up to a size, and the scaled samples.\<close>

definition all_le :: "nat \<Rightarrow> nat \<Rightarrow> u32 list \<Rightarrow> bool" where
  "all_le sz hi_v vs \<longleftrightarrow> (\<forall>i < sz. unat (vs ! i) \<le> hi_v)"

lemma scaleDacValues_ok:
  assumes "sz \<le> length vs" and "all_le sz 16383 vs" and "unat (A div OPAMP_GAIN) \<le> 256"
  shows "\<exists>ws. scaleDacValues A sz vs = Inr ws \<and> length ws = length vs \<and> drop sz ws = drop sz vs \<and>
    all_le sz (5042 * unat (A div OPAMP_GAIN)) ws"
proof -
  let ?k = "unat (A div OPAMP_GAIN)"
  obtain m where m: "maxDacValue A = Fin m" "rep64 m" "4680 * real ?k \<le> m" "m \<le> 5042 * real ?k"
    using maxDac_bounds[OF assms(3)] by blast
  have "0 \<le> m" using m(3) by (smt (verit) mult_nonneg_nonneg of_nat_0_le_iff)
  have "m \<le> 2 ^ 31" using m(4) assms(3) by simp
  define h where "h v = (case scale_value (Fin m) v of Inr w \<Rightarrow> w | Inl _ \<Rightarrow> 0)" for v
  have h: "scale_value (Fin m) v = Inr (h v) \<and> unat (h v) \<le> 5042 * ?k" if le: "unat v \<le> 16383" for v
  proof -
    obtain w where w: "scale_value (Fin m) v = Inr w" "real (unat w) \<le> m"
      using scale_value_ok[OF m(2) \<open>0 \<le> m\<close> \<open>m \<le> 2 ^ 31\<close> le] by blast
    then have "real (unat w) \<le> real (5042 * ?k)" using m(4) by simp
    then show ?thesis using w(1) by (simp only: of_nat_le_iff h_def) simp
  qed
  have "update_each 0 sz (scale_value (Fin m)) vs = Inr (map h (take sz vs) @ drop sz vs)"
    using assms(1,2) h by (intro update_each_ok) (auto simp: all_le_def)
  then show ?thesis
    using assms(1,2) h m(1) by (auto simp: scaleDacValues_def all_le_def nth_append)
qed

text \<open>A filled range is as its function says.\<close>

lemma fill_all:
  assumes "lo \<le> hi" and "hi \<le> length xs" and "\<And>i. lo \<le> i \<Longrightarrow> i < hi \<Longrightarrow> \<exists>w. f i = Inr w \<and> unat (w :: u32) \<le> hi_v"
  shows "\<exists>ys. fill lo hi f xs = Inr ys \<and> length ys = length xs \<and> take lo ys = take lo xs \<and> drop hi ys = drop hi xs \<and>
    (\<forall>i. lo \<le> i \<longrightarrow> i < hi \<longrightarrow> unat (ys ! i) \<le> hi_v)"
proof -
  define g where "g i = (case f i of Inr w \<Rightarrow> w | Inl _ \<Rightarrow> 0)" for i
  have g: "f i = Inr (g i) \<and> unat (g i) \<le> hi_v" if i: "lo \<le> i" "i < hi" for i
    using assms(3)[OF i] by (auto simp: g_def)
  have "fill lo hi f xs = Inr (take lo xs @ map g [lo..<hi] @ drop hi xs)"
    using assms(1,2) g by (intro fill_ok) auto
  then show ?thesis
    using assms(1,2) g by (auto simp: nth_append)
qed

section \<open>The three wave forms stay in range\<close>

text \<open>What the sine function of the library is assumed to do: finite arguments give results from -1 to 1.\<close>

definition sin_range :: "(fp \<Rightarrow> fp) \<Rightarrow> bool" where
  "sin_range c_sin \<longleftrightarrow> (\<forall>x. \<exists>s. c_sin (Fin x) = Fin s \<and> - 1 \<le> s \<and> s \<le> 1)"

text \<open>The correctly rounded sine is such a function.\<close>

fun rounded_sin :: "fp \<Rightarrow> fp" where
  "rounded_sin (Fin x) = Fin (rnd64 (sin x))"
| "rounded_sin _ = NaN"

lemma rounded_sin_range: "sin_range rounded_sin"
  using r64.between[of "- 1" 1] rep64_nat[of 1] by (auto simp: sin_range_def)

lemma pi_consts: "\<exists>p. M_PI = Fin p \<and> 3 \<le> p \<and> p \<le> 4" "\<exists>h. M_PI_2 = Fin h \<and> 1 \<le> h \<and> h \<le> 2"
proof -
  have rep: "rep64 1" "rep64 2" "rep64 3" "rep64 4"
    using rep64_nat[of 1] rep64_nat[of 2] rep64_nat[of 3] rep64_nat[of 4] by simp_all
  show "\<exists>p. M_PI = Fin p \<and> 3 \<le> p \<and> p \<le> 4"
    using fl64_between[OF rep(3,4), of "314159265358979323846 / 10 ^ 20"] by (simp add: M_PI_def)
  show "\<exists>h. M_PI_2 = Fin h \<and> 1 \<le> h \<and> h \<le> 2"
    using fl64_between[OF rep(1,2), of "157079632679489661923 / 10 ^ 20"] by (simp add: M_PI_2_def)
qed

lemma delta_bounds:
  assumes "0 \<le> f" and "f \<le> 25"
  shows "\<exists>d. deltaAngle (Fin f) = Fin d \<and> 0 \<le> d \<and> d \<le> 8"
proof -
  obtain p where p: "M_PI = Fin p" "3 \<le> p" "p \<le> 4" using pi_consts(1) by blast
  have rep: "rep64 0" "rep64 8" "rep64 200" "rep32 0" "rep32 8"
    using rep64_nat[of 0] rep64_nat[of 8] rep64_nat[of 200] rep32_nat[of 0] rep32_nat[of 8] by simp_all
  have c: "fl64 2 = Fin 2" "fl64 25 = Fin 25" using fl64_nat[of 2] fl64_nat[of 25] by simp_all
  have a: "fl64 (2 * p) = Fin (rnd64 (2 * p))" "0 \<le> rnd64 (2 * p)" "rnd64 (2 * p) \<le> 8"
    using fl64_between[OF rep(1,2), of "2 * p"] p by simp_all
  have "0 \<le> rnd64 (2 * p) * f" "rnd64 (2 * p) * f \<le> 200"
    using a assms mult_mono[of "rnd64 (2 * p)" 8 f 25] by simp_all
  from fl64_between[OF rep(1,3) this]
  have b: "fl64 (rnd64 (2 * p) * f) = Fin (rnd64 (rnd64 (2 * p) * f))" "0 \<le> rnd64 (rnd64 (2 * p) * f)"
      "rnd64 (rnd64 (2 * p) * f) \<le> 200" by simp_all
  have "0 \<le> rnd64 (rnd64 (2 * p) * f) / 25" "rnd64 (rnd64 (2 * p) * f) / 25 \<le> 8" using b by simp_all
  from fl64_between[OF rep(1,2) this]
  have q: "fl64 (rnd64 (rnd64 (2 * p) * f) / 25) = Fin (rnd64 (rnd64 (rnd64 (2 * p) * f) / 25))"
      "0 \<le> rnd64 (rnd64 (rnd64 (2 * p) * f) / 25)" "rnd64 (rnd64 (rnd64 (2 * p) * f) / 25) \<le> 8" by simp_all
  from fl32_between[OF rep(4,5) q(2,3)] show ?thesis
    unfolding deltaAngle_def p(1) SAMPLE_RATE_def using c a(1) b(1) q(1) by simp
qed

lemma sine_sample_ok:
  assumes "sin_range c_sin" and "0 \<le> d" and "d \<le> 8" and "i \<le> 12500"
  shows "\<exists>w. sine_sample c_sin (Fin d) i = Inr w \<and> unat w \<le> 16383"
proof -
  obtain h where h: "M_PI_2 = Fin h" "1 \<le> h" "h \<le> 2" using pi_consts(2) by blast
  have rep: "rep64 0" "rep64 2" "rep64 (- 2)" "rep64 131072" "rep64 16383" "rep32 0" "rep32 131072"
    using rep64_nat[of 0] rep64_nat[of 2] rep64_nat[of 131072] rep64_nat[of 16383] rep32_nat[of 0] rep32_nat[of 131072]
    by simp_all
  have c: "fl64 1 = Fin 1" using fl64_nat[of 1] by simp
  have half: "fl64 (16383 / 2) = Fin (16383 / 2)"
    using representable_scaled[of 16383 53 "- 1074" "- 1"]
    by (simp add: fl64_finite r64.exact power_int_minus)
  have "unat (of_nat i :: u32) = i" using assms(4) by (simp add: unat_of_nat_eq)
  then have i: "f32_of_u32 (of_nat i) = Fin (real i)"
    using assms(4) by (simp add: f32_of_u32_def fl32_nat)
  have "0 \<le> real i * d" "real i * d \<le> 131072"
    using assms mult_mono[of "real i" 12500 d 8] by simp_all
  from fl32_between[OF rep(6,7) this]
  have a: "fl32 (real i * d) = Fin (rnd32 (real i * d))" "0 \<le> rnd32 (real i * d)" "rnd32 (real i * d) \<le> 131072"
    by simp_all
  have "- 2 \<le> rnd32 (real i * d) - h" "rnd32 (real i * d) - h \<le> 131072" using a h by simp_all
  from fl64_between[OF rep(3,4) this]
  have b: "fl64 (rnd32 (real i * d) - h) = Fin (rnd64 (rnd32 (real i * d) - h))" by simp
  obtain s where s: "c_sin (Fin (rnd64 (rnd32 (real i * d) - h))) = Fin s" "- 1 \<le> s" "s \<le> 1"
    using assms(1) unfolding sin_range_def by blast
  have t: "fl64 (s + 1) = Fin (rnd64 (s + 1))" "0 \<le> rnd64 (s + 1)" "rnd64 (s + 1) \<le> 2"
    using fl64_between[OF rep(1,2), of "s + 1"] s by simp_all
  have u: "fl64 (rnd64 (s + 1) * (16383 / 2)) = Fin (rnd64 (rnd64 (s + 1) * (16383 / 2)))"
      "0 \<le> rnd64 (rnd64 (s + 1) * (16383 / 2))" "rnd64 (rnd64 (s + 1) * (16383 / 2)) \<le> 16383"
    using fl64_between[OF rep(1,5), of "rnd64 (s + 1) * (16383 / 2)"] t by simp_all
  define x where "x = rnd64 (rnd64 (s + 1) * (16383 / 2))"
  have samp: "sine_sample c_sin (Fin d) i = fp_to_u32 (Fin x)"
    unfolding sine_sample_def Let_def i fp_mul.simps a(1) h(1) fp_sub_def fp_neg.simps fp_add.simps
    using b s(1) t(1) u(1) c half by (simp add: x_def del: fp_to_u32.simps)
  have x: "- 1 < x" "x < 2 ^ 32" "x \<le> real 16383" using u by (simp_all add: x_def)
  show ?thesis
    unfolding samp fp_to_u32_ok(1)[OF x(1,2)]
    using fp_to_u32_ok(2)[OF x(1,2)] trunc_le[OF x(3)] by auto
qed

lemma generateSineWave_ok:
  assumes "sin_range c_sin" and "desiredFrequency g = Fin f" and "0 \<le> f" and "f \<le> 25" and "sz \<le> 12500"
    and "sz \<le> length vs" and "unat (desiredAmplitude g div OPAMP_GAIN) \<le> 256"
  shows "\<exists>ws. generateSineWave c_sin g sz vs = Inr ws \<and> length ws = length vs \<and> drop sz ws = drop sz vs \<and>
    all_le sz (5042 * unat (desiredAmplitude g div OPAMP_GAIN)) ws"
proof -
  obtain d where d: "deltaAngle (Fin f) = Fin d" "0 \<le> d" "d \<le> 8" using delta_bounds assms(3,4) by blast
  have "\<exists>ys. fill 0 sz (sine_sample c_sin (Fin d)) vs = Inr ys \<and> length ys = length vs \<and> take 0 ys = take 0 vs \<and>
      drop sz ys = drop sz vs \<and> (\<forall>i. 0 \<le> i \<longrightarrow> i < sz \<longrightarrow> unat (ys ! i) \<le> 16383)"
    using assms(5,6) sine_sample_ok[OF assms(1) d(2,3)] by (intro fill_all) auto
  then obtain ys where ys: "fill 0 sz (sine_sample c_sin (Fin d)) vs = Inr ys" "length ys = length vs"
      "drop sz ys = drop sz vs" "all_le sz 16383 ys"
    by (auto simp: all_le_def)
  then show ?thesis
    using scaleDacValues_ok[of sz ys] assms(2,6,7) d(1) by (simp add: generateSineWave_def)
qed

text \<open>The part of the period that is on: for a size in the array no product wraps.\<close>

lemma on_size_eq:
  assumes "sz \<le> 12500" and "dutyCycle g \<le> 100"
  shows "on_size g sz = sz * unat (dutyCycle g) div 100"
proof -
  have d: "unat (dutyCycle g) \<le> 100" using assms(2) by (simp add: word_le_nat_alt)
  have "sz * unat (dutyCycle g) \<le> 12500 * 100" using assms(1) d by (rule mult_le_mono)
  then have "sz * unat (dutyCycle g) < 2 ^ LENGTH(32)" by simp
  moreover have n: "unat (of_nat sz :: u32) = sz" using assms(1) by (simp add: unat_of_nat_eq)
  ultimately have "unat (of_nat sz * dutyCycle g) = sz * unat (dutyCycle g)"
    using unat_mult_lem[of "of_nat sz" "dutyCycle g"] by simp
  then show ?thesis by (simp add: on_size_def unat_div_distrib)
qed

lemma on_size_le: "sz \<le> 12500 \<Longrightarrow> dutyCycle g \<le> 100 \<Longrightarrow> on_size g sz \<le> sz"
  using div_le_mono[of "sz * unat (dutyCycle g)" "sz * 100" 100]
  by (simp add: on_size_eq word_le_nat_alt)

lemma generateSquareWave_ok:
  assumes "dutyCycle g \<le> 100" and "sz \<le> 12500" and "sz \<le> length vs"
    and "unat (desiredAmplitude g div OPAMP_GAIN) \<le> 256"
  shows "\<exists>ws. generateSquareWave g sz vs = Inr ws \<and> length ws = length vs \<and> drop sz ws = drop sz vs \<and>
    all_le sz (5042 * unat (desiredAmplitude g div OPAMP_GAIN)) ws"
proof -
  let ?on = "on_size g sz"
  have on: "?on \<le> sz" using on_size_le assms(1,2) by simp
  have a: "fill 0 ?on (\<lambda>i. Inr 16383) vs = Inr (map (\<lambda>i. 16383) [0..<?on] @ drop ?on vs)" (is "_ = Inr ?xs")
    using fill_ok[of 0 ?on vs "\<lambda>i. Inr 16383" "\<lambda>i. 16383"] on assms(3) by simp
  have b: "fill ?on sz (\<lambda>i. Inr 0) ?xs = Inr (take ?on ?xs @ map (\<lambda>i. 0) [?on..<sz] @ drop sz ?xs)" (is "_ = Inr ?ys")
    using on assms(3) by (intro fill_ok) auto
  have "all_le sz 16383 ?ys"
    using on assms(3) by (auto simp: all_le_def nth_append)
  moreover have "length ?ys = length vs" "drop sz ?ys = drop sz vs"
    using on assms(3) by simp_all
  ultimately show ?thesis
    using scaleDacValues_ok[of sz ?ys] assms(3,4) a b assms(1)[folded not_less]
    by (simp add: generateSquareWave_def Let_def)
qed

section \<open>The triangle\<close>

lemma slope_bounds:
  assumes "1 \<le> n" and "n \<le> 12500"
  shows "\<exists>s. triangle_slope n = Fin s \<and> \<bar>s - 16383 / real n\<bar> \<le> 16383 / real n / 2 ^ 22 \<and> 1 \<le> s"
proof -
  let ?x = "16383 / real n"
  have x: "1 \<le> ?x" "?x \<le> 16383" using assms by (simp_all add: field_simps)
  have rep: "rep64 1" "rep64 16383" "rep32 1" "rep32 16383"
    using rep64_nat[of 1] rep64_nat[of 16383] rep32_nat[of 1] rep32_nat[of 16383] by simp_all
  have c: "fl64 16383 = Fin 16383" "fl64 (real n) = Fin (real n)"
    using fl64_nat[of 16383] fl64_nat[of n] assms(2) by simp_all
  have y: "fl64 ?x = Fin (rnd64 ?x)" "1 \<le> rnd64 ?x" "rnd64 ?x \<le> 16383"
    using fl64_between[OF rep(1,2) x] by simp_all
  have s: "fl32 (rnd64 ?x) = Fin (rnd32 (rnd64 ?x))" "1 \<le> rnd32 (rnd64 ?x)"
    using fl32_between[OF rep(3,4) y(2,3)] by simp_all
  have e1: "\<bar>rnd64 ?x - ?x\<bar> \<le> ?x / 2 ^ 53" using rnd64_error[of ?x] x(1) by simp
  have e2: "\<bar>rnd32 (rnd64 ?x) - rnd64 ?x\<bar> \<le> rnd64 ?x / 2 ^ 24" using rnd32_error[of "rnd64 ?x"] y(2) by simp
  have near: "\<bar>r - x\<bar> \<le> x / 2 ^ 22"
    if "\<bar>t - x\<bar> \<le> x / 2 ^ 53" "\<bar>r - t\<bar> \<le> t / 2 ^ 24" "1 \<le> x" for r t x :: real
  proof -
    have "x / 2 ^ 53 \<le> x / 2 ^ 24" using that(3) by (simp add: field_simps)
    then have "\<bar>t - x\<bar> \<le> x / 2 ^ 24" using that(1) by simp
    moreover have "x / 2 ^ 24 \<le> x" using that(3) by simp
    then have "t \<le> 2 * x" using calculation that(3) by linarith
    then have "t / 2 ^ 24 \<le> 2 * x / 2 ^ 24" by (simp add: divide_right_mono)
    then have "\<bar>r - t\<bar> \<le> 2 * x / 2 ^ 24" using that(2) by simp
    ultimately have "\<bar>r - x\<bar> \<le> 2 * x / 2 ^ 24 + x / 2 ^ 24" by linarith
    also have "\<dots> \<le> x / 2 ^ 22" using that(3) by simp
    finally show ?thesis .
  qed
  have "\<bar>rnd32 (rnd64 ?x) - ?x\<bar> \<le> ?x / 2 ^ 22" by (rule near[OF e1 e2 x(1)])
  moreover have "triangle_slope n = Fin (rnd32 (rnd64 ?x))"
    unfolding triangle_slope_def c using assms(1) y(1) s(1) by simp
  ultimately show ?thesis using s(2) by auto
qed

text \<open>A multiple of the slope, against the exact line.\<close>

lemma multiple_bounds:
  assumes "\<bar>s - 16383 / real n\<bar> \<le> 16383 / real n / 2 ^ 22" and "1 \<le> n"
  shows "real j * s \<le> real j * 16383 / real n * (1 + 1 / 2 ^ 22)"
    and "real j * 16383 / real n * (1 - 1 / 2 ^ 22) \<le> real j * s"
proof -
  let ?x = "16383 / real n"
  have "s \<le> ?x * (1 + 1 / 2 ^ 22)" "?x * (1 - 1 / 2 ^ 22) \<le> s"
    using assms(1) by (simp_all add: abs_le_iff algebra_simps)
  then show "real j * s \<le> real j * 16383 / real n * (1 + 1 / 2 ^ 22)"
    "real j * 16383 / real n * (1 - 1 / 2 ^ 22) \<le> real j * s"
    using mult_left_mono[of s "?x * (1 + 1 / 2 ^ 22)" "real j"] mult_left_mono[of "?x * (1 - 1 / 2 ^ 22)" s "real j"]
    by (simp_all add: mult.assoc)
qed

lemma u32_of_small: "i \<le> 12500 \<Longrightarrow> f32_of_u32 (of_nat i) = Fin (real i)"
  by (simp add: f32_of_u32_def fl32_nat unat_of_nat_eq)

lemma rising_ok:
  assumes "i < n" and "n \<le> 12500" and s: "\<bar>s - 16383 / real n\<bar> \<le> 16383 / real n / 2 ^ 22" "1 \<le> s"
  shows "\<exists>w. rising_sample (Fin s) i = Inr w \<and> unat w \<le> 16383"
proof -
  have rep: "rep32 0" "rep32 16383" using rep32_nat[of 0] rep32_nat[of 16383] by simp_all
  have "real i * s \<le> real i * 16383 / real n * (1 + 1 / 2 ^ 22)"
    using multiple_bounds(1)[OF s(1)] assms(1) by simp
  also have "\<dots> \<le> real (n - 1) * 16383 / real n * (1 + 1 / 2 ^ 22)"
    using assms(1) by (intro mult_right_mono divide_right_mono) auto
  also have "\<dots> \<le> 16383"
    using assms(1,2) by (simp add: of_nat_diff field_simps)
  finally have "real i * s \<le> 16383" .
  moreover have "0 \<le> real i * s" using s(2) by simp
  ultimately have p: "fl32 (real i * s) = Fin (rnd32 (real i * s))" "0 \<le> rnd32 (real i * s)" "rnd32 (real i * s) \<le> 16383"
    using fl32_between[OF rep, of "real i * s"] by simp_all
  define x where "x = rnd32 (real i * s)"
  have x: "- 1 < x" "x < 2 ^ 32" "x \<le> real 16383" using p by (simp_all add: x_def)
  have "rising_sample (Fin s) i = fp_to_u32 (Fin x)"
    unfolding rising_sample_def x_def using u32_of_small[of i] assms(1,2) p(1) by (simp del: fp_to_u32.simps)
  then show ?thesis
    using fp_to_u32_ok[OF x(1,2)] trunc_le[OF x(3)] by (auto simp del: fp_to_u32.simps)
qed

lemma falling_value:
  assumes "n \<le> i" and "i \<le> 12500"
    and "fl32 (real (i - n) * s) = Fin p" and "fl32 (16383 - p) = Fin x"
  shows "falling_sample (Fin s) n i = fp_to_u32 (Fin x)"
proof -
  have "of_nat i - of_nat n = (of_nat (i - n) :: u32)" using assms(1) by (simp add: of_nat_diff)
  then have "f32_of_u32 (of_nat i - of_nat n) = Fin (real (i - n))"
    using u32_of_small[of "i - n"] assms(2) by simp
  moreover have "fl32 16383 = Fin 16383" using fl32_nat[of 16383] by simp
  ultimately show ?thesis
    unfolding falling_sample_def using assms(3,4) by (simp add: fp_sub_def del: fp_to_u32.simps)
qed

lemma falling_ok:
  assumes "1 \<le> n" and "n \<le> i" and "i - n \<le> n" and "i \<le> 12500"
    and s: "\<bar>s - 16383 / real n\<bar> \<le> 16383 / real n / 2 ^ 22" "1 \<le> s"
  shows "\<exists>w. falling_sample (Fin s) n i = Inr w \<and> unat w \<le> 16383"
proof -
  have rep: "rep32 0" "rep32 16383" "rep32 (32767 / 2)" "rep32 (- 1 / 2)"
    using rep32_nat[of 0] rep32_nat[of 16383] representable_scaled[of 32767 24 "- 149" "- 1"]
      representable_scaled[of "- 1" 24 "- 149" "- 1"] by (simp_all add: power_int_minus)
  have "real (i - n) * s \<le> real (i - n) * 16383 / real n * (1 + 1 / 2 ^ 22)"
    using multiple_bounds(1)[OF s(1)] assms(1) by simp
  also have "\<dots> \<le> real n * 16383 / real n * (1 + 1 / 2 ^ 22)"
    using assms(3) by (intro mult_right_mono divide_right_mono) auto
  also have "\<dots> \<le> 32767 / 2" using assms(1) by simp
  finally have "real (i - n) * s \<le> 32767 / 2" .
  moreover have "0 \<le> real (i - n) * s" using s(2) by simp
  ultimately have p: "fl32 (real (i - n) * s) = Fin (rnd32 (real (i - n) * s))" "0 \<le> rnd32 (real (i - n) * s)"
      "rnd32 (real (i - n) * s) \<le> 32767 / 2"
    using fl32_between[OF rep(1,3), of "real (i - n) * s"] by simp_all
  have x: "fl32 (16383 - rnd32 (real (i - n) * s)) = Fin (rnd32 (16383 - rnd32 (real (i - n) * s)))"
      "- 1 / 2 \<le> rnd32 (16383 - rnd32 (real (i - n) * s))" "rnd32 (16383 - rnd32 (real (i - n) * s)) \<le> 16383"
    using fl32_between[OF rep(4,2), of "16383 - rnd32 (real (i - n) * s)"] p by simp_all
  define y where "y = rnd32 (16383 - rnd32 (real (i - n) * s))"
  have y: "- 1 < y" "y < 2 ^ 32" "y \<le> real 16383" using x by (simp_all add: y_def)
  show ?thesis
    using falling_value[OF assms(2,4) p(1) x(1)[folded y_def]] fp_to_u32_ok[OF y(1,2)] trunc_le[OF y(3)]
    by (auto simp del: fp_to_u32.simps)
qed

lemma generateTriangleWave_ok:
  assumes "dutyCycle g \<le> 100" and "sz \<le> 12500" and "sz \<le> length vs" and "1 \<le> on_size g sz"
    and "sz \<le> 2 * on_size g sz + 1" and "unat (desiredAmplitude g div OPAMP_GAIN) \<le> 256"
  shows "\<exists>ws. generateTriangleWave g sz vs = Inr ws \<and> length ws = length vs \<and> drop sz ws = drop sz vs \<and>
    all_le sz (5042 * unat (desiredAmplitude g div OPAMP_GAIN)) ws"
proof -
  let ?n = "on_size g sz"
  have n: "?n \<le> sz" "?n \<le> 12500" using on_size_le[OF assms(2,1)] assms(2) by simp_all
  obtain s where s: "triangle_slope ?n = Fin s" "\<bar>s - 16383 / real ?n\<bar> \<le> 16383 / real ?n / 2 ^ 22" "1 \<le> s"
    using slope_bounds[OF assms(4) n(2)] by blast
  have "\<exists>ys. fill 0 ?n (rising_sample (Fin s)) vs = Inr ys \<and> length ys = length vs \<and> take 0 ys = take 0 vs \<and>
      drop ?n ys = drop ?n vs \<and> (\<forall>i. 0 \<le> i \<longrightarrow> i < ?n \<longrightarrow> unat (ys ! i) \<le> 16383)"
    using n assms(3) rising_ok[OF _ n(2) s(2,3)] by (intro fill_all) auto
  then obtain xs where xs: "fill 0 ?n (rising_sample (Fin s)) vs = Inr xs" "length xs = length vs"
      "drop ?n xs = drop ?n vs" "\<forall>i<?n. unat (xs ! i) \<le> 16383" by auto
  have "\<exists>ys. fill ?n sz (falling_sample (Fin s) ?n) xs = Inr ys \<and> length ys = length xs \<and> take ?n ys = take ?n xs \<and>
      drop sz ys = drop sz xs \<and> (\<forall>i. ?n \<le> i \<longrightarrow> i < sz \<longrightarrow> unat (ys ! i) \<le> 16383)"
  proof (rule fill_all)
    show "sz \<le> length xs" using assms(3) xs(2) by simp
    fix i assume i: "?n \<le> i" "i < sz"
    then have "i - ?n \<le> ?n" "i \<le> 12500" using assms(2,5) by simp_all
    then show "\<exists>w. falling_sample (Fin s) ?n i = Inr w \<and> unat w \<le> 16383"
      using falling_ok[OF assms(4) i(1) _ _ s(2,3)] by blast
  qed (use n in simp)
  then obtain ys where ys: "fill ?n sz (falling_sample (Fin s) ?n) xs = Inr ys" "length ys = length xs"
      "take ?n ys = take ?n xs" "drop sz ys = drop sz xs" "\<forall>i. ?n \<le> i \<longrightarrow> i < sz \<longrightarrow> unat (ys ! i) \<le> 16383" by blast
  have "unat (ys ! i) \<le> 16383" if "i < sz" for i
  proof (cases "i < ?n")
    case True
    then have "ys ! i = xs ! i" using ys(3) by (metis nth_take)
    then show ?thesis using True xs(4) by simp
  qed (use that ys(5) in auto)
  then have "all_le sz 16383 ys" by (simp add: all_le_def)
  moreover have "drop sz ys = drop sz vs"
  proof -
    have "drop sz xs = drop (sz - ?n) (drop ?n xs)" "drop sz vs = drop (sz - ?n) (drop ?n vs)"
      using n(1) by simp_all
    then show ?thesis using xs(3) ys(4) by simp
  qed
  ultimately show ?thesis
    using scaleDacValues_ok[of sz ys] assms(3,6) xs(1,2) ys(1,2) s(1) assms(1)[folded not_less]
    by (simp add: generateTriangleWave_def Let_def)
qed

section \<open>Initialisation\<close>

lemma lowest_freq: "\<exists>l. LOWEST_FREQ_POSSIBLE = Fin l \<and> 1 / 512 \<le> l"
proof -
  have "rep64 (1 / 512)" "rep64 1"
    using representable_scaled[of 1 53 "- 1074" "- 9"] rep64_nat[of 1] by (simp_all add: power_int_minus)
  from fl64_between[OF this, of "2 / 1000"] show ?thesis by (simp add: LOWEST_FREQ_POSSIBLE_def)
qed

lemma array_size_value:
  assumes "desiredFrequency g = Fin f" and "1 / 512 \<le> f" and "f \<le> 2 ^ 50"
  shows "\<exists>n. array_size g = Inr n \<and> unat n = min 12500 (nat \<lfloor>rnd32 (25 / f)\<rfloor>)"
proof -
  have rep: "rep32 0" "rep32 12800" using rep32_nat[of 0] rep32_nat[of 12800] by simp_all
  have "0 \<le> 25 / f" "25 / f \<le> 12800" using assms(2) by (simp_all add: field_simps)
  from fl32_between[OF rep this]
  have q: "fl32 (25 / f) = Fin (rnd32 (25 / f))" "0 \<le> rnd32 (25 / f)" "rnd32 (25 / f) \<le> 12800" by simp_all
  define x where "x = rnd32 (25 / f)"
  have x: "- 1 < x" "x < 2 ^ 32" using q by (simp_all add: x_def)
  define w where "w = (word_of_int (trunc x) :: u32)"
  have w: "fp_to_u32 (Fin x) = Inr w" "unat w = nat \<lfloor>x\<rfloor>"
    using fp_to_u32_ok[OF x] q(2) by (simp_all add: w_def x_def trunc_def del: fp_to_u32.simps)
  have "fl32 25 = Fin 25" using fl32_nat[of 25] by simp
  then have "array_size g = Inr (if w > of_nat MAX_ARRAY_SIZE then of_nat MAX_ARRAY_SIZE else w)"
    unfolding array_size_def SAMPLE_RATE_def assms(1)
    using assms(2) q(1) w(1) by (simp add: x_def del: fp_to_u32.simps)
  moreover have "unat (of_nat MAX_ARRAY_SIZE :: u32) = 12500" by (simp add: MAX_ARRAY_SIZE_def)
  ultimately show ?thesis
    using w(2) by (auto simp: word_less_nat_alt x_def min_def not_less)
qed

lemma array_size_range:
  assumes "desiredFrequency g = Fin f" and "\<not> fp_lt (Fin f) LOWEST_FREQ_POSSIBLE" and "f \<le> 25"
  shows "\<exists>n. array_size g = Inr n \<and> 1 \<le> unat n \<and> unat n \<le> 12500 \<and> 0 \<le> f \<and>
    (f \<le> 25 / 2 \<longrightarrow> 2 \<le> unat n)"
proof -
  obtain l where l: "LOWEST_FREQ_POSSIBLE = Fin l" "1 / 512 \<le> l" using lowest_freq by blast
  have f: "1 / 512 \<le> f" using assms(2) l(2) unfolding l(1) by simp
  then have "real 1 \<le> 25 / f" "f \<le> 25 / 2 \<Longrightarrow> real 2 \<le> 25 / f"
    using assms(3) by (simp_all add: field_simps)
  then have "1 \<le> rnd32 (25 / f)" "f \<le> 25 / 2 \<Longrightarrow> 2 \<le> rnd32 (25 / f)"
    using r32.lower[OF rep32_nat[of 1]] r32.lower[OF rep32_nat[of 2]] by simp_all
  then have lo: "1 \<le> nat \<lfloor>rnd32 (25 / f)\<rfloor>" "f \<le> 25 / 2 \<Longrightarrow> 2 \<le> nat \<lfloor>rnd32 (25 / f)\<rfloor>"
    by (simp_all add: le_nat_iff le_floor_iff)
  have "f \<le> 2 ^ 50" using assms(3) by simp
  then obtain n where n: "array_size g = Inr n" "unat n = min 12500 (nat \<lfloor>rnd32 (25 / f)\<rfloor>)"
    using array_size_value[OF assms(1) f] by blast
  have "1 \<le> unat n" "unat n \<le> 12500" "f \<le> 25 / 2 \<Longrightarrow> 2 \<le> unat n"
    unfolding n(2) using lo by linarith+
  then show ?thesis using n(1) f by auto
qed

text \<open>The sample timer: it counts to 480000 at 12 MHz, restarts and interrupts.\<close>

definition sample_timer_ok :: "chip \<Rightarrow> board \<Rightarrow> bool" where
  "sample_timer_ok C b \<longleftrightarrow>
     match_view (L_ctimer C) 0 (CTIMER4 b) = (480000, True, False, 0, False, True) \<and>
     bit (ct_TCR (CTIMER4 b)) (fshift (TCR_CEN (L_ctimer C)))"

lemma SetupTimer_ok:
  assumes "chip_ok C"
  shows "\<exists>b'. SetupTimer C b = Inr b' \<and> sample_timer_ok C b' \<and> DAC2 b' = DAC2 b"
proof -
  let ?L = "L_ctimer C"
  define b1 where "b1 =
    (let b = call (CLOCK_AttachClk kFRO12M_to_CTIMER4) (call (CLOCK_SetClkDiv kCLOCK_DivCtimer4Clk 1) b);
         b = on_dev (CTIMER_Init ?L (ctimer_reset C) 4 CTIMER_GetDefaultConfig) CTIMER4 CTIMER4_update b;
         b = call (NVIC_SetPriority (CTIMER 4) 4) (call (EnableIRQ (CTIMER 4)) b)
     in b\<lparr>s_ctimerCallback4 := CTIMER_RegisterCallBack [Some DacUpdateCallback] kCTIMER_SingleCallback (s_ctimerCallback4 b)\<rparr>)"
  have L: "ctimer_layout_ok ?L" "length (ct_MR (CTIMER4 b1)) = 4" "DAC2 b1 = DAC2 b"
    using assms by (simp_all add: chip_ok_def b1_def Let_def on_dev_def CTIMER_Init_def)
  obtain r' where r': "CTIMER_SetupMatch ?L 4 0 hot_plate_match (CTIMER4 b1, sys_calls b1) =
        Inr (r', sys_calls b1 @ [EnableIRQ (CTIMER 4)])" "match_view ?L 0 r' = config_view hot_plate_match"
    using SetupMatch_effect[OF L(1) _ L(2), of 0 4 hot_plate_match "sys_calls b1"]
    by (auto simp: hot_plate_match_def)
  have view: "match_view ?L 0 (CTIMER_StartTimer ?L r') = match_view ?L 0 r'"
    by (simp add: match_view_def CTIMER_StartTimer_def)
  have run: "bit (ct_TCR (CTIMER_StartTimer ?L r')) (fshift (TCR_CEN ?L))"
    using L(1) by (simp add: CTIMER_StartTimer_def bit_or_iff bit_single_field ctimer_layout_ok_def)
  have "SetupTimer C b = rbind (on_dev_res (CTIMER_SetupMatch ?L 4 0 hot_plate_match) CTIMER4 CTIMER4_update b1)
      (\<lambda>b. Inr (b\<lparr>CTIMER4 := CTIMER_StartTimer ?L (CTIMER4 b)\<rparr>))"
    by (simp add: SetupTimer_def b1_def Let_def)
  then show ?thesis
    using r' L(3) view run
    by (simp add: on_dev_res_def sample_timer_ok_def config_view_def hot_plate_match_def SAMPLE_RATE_def)
qed

text \<open>The parameters with which every wave form is well defined.\<close>

definition wave_params_ok :: "globals \<Rightarrow> real \<Rightarrow> bool" where
  "wave_params_ok g f \<longleftrightarrow>
     desiredFrequency g = Fin f \<and> \<not> fp_lt (Fin f) LOWEST_FREQ_POSSIBLE \<and> f \<le> 25 \<and>
     unat (desiredAmplitude g) < 28 \<and>
     (waveType g = 0 \<or> waveType g = 1 \<and> dutyCycle g \<le> 100 \<or>
      waveType g = 2 \<and> 50 \<le> dutyCycle g \<and> dutyCycle g \<le> 100 \<and> f \<le> 25 / 2)"

lemma triangle_on_size:
  assumes "2 \<le> sz" and "sz \<le> 12500" and "50 \<le> dutyCycle g" and "dutyCycle g \<le> 100"
  shows "1 \<le> on_size g sz" and "sz \<le> 2 * on_size g sz + 1"
proof -
  have "50 \<le> unat (dutyCycle g)" using assms(3) by (simp add: word_le_nat_alt)
  then have "sz * 50 div 100 \<le> on_size g sz"
    unfolding on_size_eq[OF assms(2,4)] by (intro div_le_mono mult_le_mono) simp_all
  then show "1 \<le> on_size g sz" "sz \<le> 2 * on_size g sz + 1" using assms(1) by linarith+
qed

lemma generate_wave_ok:
  assumes "sin_range c_sin" and "arrays_ok g" and "wave_params_ok g f" and "g_Dac14ValueArraySize g = n"
    and "1 \<le> unat n" and "unat n \<le> 12500" and "0 \<le> f" and "f \<le> 25 / 2 \<longrightarrow> 2 \<le> unat n"
  shows "\<exists>vs. generate_wave c_sin g = Some (Inr vs) \<and> length vs = MAX_ARRAY_SIZE \<and>
    drop (unat n) vs = drop (unat n) (g_Dac14Values g) \<and> all_le (unat n) 15126 vs"
proof -
  let ?k = "unat (desiredAmplitude g div OPAMP_GAIN)"
  have "?k = unat (desiredAmplitude g) div 7" by (simp add: unat_div_distrib OPAMP_GAIN_def)
  moreover have "unat (desiredAmplitude g) < 28" using assms(3) by (simp add: wave_params_ok_def)
  ultimately have k: "?k \<le> 3" by linarith
  have len: "length (g_Dac14Values g) = 12500" using assms(2) by (simp add: arrays_ok_def MAX_ARRAY_SIZE_def)
  have mono: "all_le sz (5042 * ?k) ws \<Longrightarrow> all_le sz 15126 ws" for sz ws
    using k by (force simp: all_le_def)
  note p = assms(3)[unfolded wave_params_ok_def]
  consider "waveType g = 0" | "waveType g = 1" "dutyCycle g \<le> 100"
    | "waveType g = 2" "50 \<le> dutyCycle g" "dutyCycle g \<le> 100" "f \<le> 25 / 2" using p by blast
  then show ?thesis
  proof cases
    case 1
    obtain ws where "generateSineWave c_sin g (unat n) (g_Dac14Values g) = Inr ws" "length ws = 12500"
        "drop (unat n) ws = drop (unat n) (g_Dac14Values g)" "all_le (unat n) (5042 * ?k) ws"
      using generateSineWave_ok[OF assms(1), of g f "unat n" "g_Dac14Values g"] p k len assms(6,7) by auto
    then show ?thesis using 1 assms(4) mono by (simp add: generate_wave_def Let_def MAX_ARRAY_SIZE_def)
  next
    case 2
    obtain ws where "generateSquareWave g (unat n) (g_Dac14Values g) = Inr ws" "length ws = 12500"
        "drop (unat n) ws = drop (unat n) (g_Dac14Values g)" "all_le (unat n) (5042 * ?k) ws"
      using generateSquareWave_ok[OF 2(2), of "unat n" "g_Dac14Values g"] k len assms(6) by auto
    then show ?thesis using 2 assms(4) mono by (simp add: generate_wave_def Let_def MAX_ARRAY_SIZE_def)
  next
    case 3
    have "2 \<le> unat n" using 3(4) assms(8) by simp
    from triangle_on_size[OF this assms(6) 3(2,3)]
    obtain ws where "generateTriangleWave g (unat n) (g_Dac14Values g) = Inr ws" "length ws = 12500"
        "drop (unat n) ws = drop (unat n) (g_Dac14Values g)" "all_le (unat n) (5042 * ?k) ws"
      using generateTriangleWave_ok[OF 3(3) assms(6), of "g_Dac14Values g"] k len assms(6) by auto
    then show ?thesis using 3 assms(4) mono by (simp add: generate_wave_def Let_def MAX_ARRAY_SIZE_def)
  qed
qed

lemma generate_wave_size:
  "generate_wave c_sin (g\<lparr>g_Dac14ValueArraySize := n\<rparr>) =
    (if waveType g = 0 then Some (generateSineWave c_sin g (unat n) (g_Dac14Values g))
     else if waveType g = 1 then Some (generateSquareWave g (unat n) (g_Dac14Values g))
     else if waveType g = 2 then Some (generateTriangleWave g (unat n) (g_Dac14Values g)) else None)"
  by (simp add: generate_wave_def generateSineWave_def generateSquareWave_def generateTriangleWave_def on_size_def Let_def)

lemma hot_plate_ok:
  assumes "chip_ok C" and "sin_range c_sin" and "arrays_ok g" and "wave_params_ok g f"
  shows "\<exists>n vs b'. initialize_dac_hot_plate C c_sin (g, b) =
      Inr (0, g\<lparr>g_Dac14ValueArraySize := n, g_Dac14Values := vs\<rparr>, b') \<and>
    1 \<le> unat n \<and> unat n \<le> MAX_ARRAY_SIZE \<and> length vs = MAX_ARRAY_SIZE \<and> all_le (unat n) 15126 vs \<and>
    drop (unat n) vs = drop (unat n) (g_Dac14Values g) \<and> sample_timer_ok C b'"
proof -
  have f: "desiredFrequency g = Fin f" "\<not> fp_lt (Fin f) LOWEST_FREQ_POSSIBLE" "f \<le> 25"
    using assms(4) by (simp_all add: wave_params_ok_def)
  obtain n where n: "array_size g = Inr n" "1 \<le> unat n" "unat n \<le> 12500" "0 \<le> f" "f \<le> 25 / 2 \<longrightarrow> 2 \<le> unat n"
    using array_size_range[OF f] by blast
  let ?g = "g\<lparr>g_Dac14ValueArraySize := n\<rparr>"
  have "arrays_ok ?g" "wave_params_ok ?g f" using assms(3,4) by (simp_all add: arrays_ok_def wave_params_ok_def)
  from generate_wave_ok[OF assms(2) this _ n(2-5)]
  obtain vs where vs: "generate_wave c_sin ?g = Some (Inr vs)" "length vs = MAX_ARRAY_SIZE"
      "drop (unat n) vs = drop (unat n) (g_Dac14Values g)" "all_le (unat n) 15126 vs" by auto
  obtain b' where b': "SetupTimer C (Dac_and_other_setup C b) = Inr b'" "sample_timer_ok C b'"
    using SetupTimer_ok[OF assms(1)] by blast
  have "initialize_dac_hot_plate C c_sin (g, b) = Inr (0, ?g\<lparr>g_Dac14Values := vs\<rparr>, b')"
    using f n(1) vs(1) b'(1) by (simp add: initialize_dac_hot_plate_def Let_def)
  then show ?thesis using n vs b'(2) by (auto simp: MAX_ARRAY_SIZE_def)
qed

section \<open>Properties\<close>

text \<open>
  C14: With an admissible frequency, an amplitude below 28 V and a duty cycle that suits the wave form, the initialisation
  succeeds without undefined behaviour: it computes between 1 and 12500 samples, every one of which fits the 14 bits of the
  converter, leaves the rest of the array alone and starts the sample timer with its match at 480000, restart and interrupt.
\<close>

theorem wave_samples_in_range:
  assumes "chip_ok C" and "sin_range c_sin" and "arrays_ok g" and "wave_params_ok g f"
  shows "\<exists>n vs b'. initialize_dac_hot_plate C c_sin (g, b) =
      Inr (0, g\<lparr>g_Dac14ValueArraySize := n, g_Dac14Values := vs\<rparr>, b') \<and>
    1 \<le> unat n \<and> unat n \<le> MAX_ARRAY_SIZE \<and> (\<forall>i < unat n. unat (vs ! i) < 2 ^ 14) \<and>
    drop (unat n) vs = drop (unat n) (g_Dac14Values g) \<and> sample_timer_ok C b'"
  using hot_plate_ok[OF assms, of b] by (force simp: all_le_def)

lemma default_params_ok: "wave_params_ok init_globals (rnd32 (rnd64 (1 / 20)))"
proof -
  have "rep64 (1 / 32)" "rep64 1" "rep32 (1 / 32)" "rep32 1" "rep64 (1 / 256)" "rep64 0"
    using representable_scaled[of 1 53 "- 1074" "- 5"] rep64_nat[of 1] representable_scaled[of 1 24 "- 149" "- 5"]
      rep32_nat[of 1] representable_scaled[of 1 53 "- 1074" "- 8"] rep64_nat[of 0] by (simp_all add: power_int_minus)
  note rep = this
  have a: "fl64 (1 / 20) = Fin (rnd64 (1 / 20))" "1 / 32 \<le> rnd64 (1 / 20)" "rnd64 (1 / 20) \<le> 1"
    using fl64_between[OF rep(1,2), of "1 / 20"] by simp_all
  have b: "fl32 (rnd64 (1 / 20)) = Fin (rnd32 (rnd64 (1 / 20)))" "1 / 32 \<le> rnd32 (rnd64 (1 / 20))" "rnd32 (rnd64 (1 / 20)) \<le> 1"
    using fl32_between[OF rep(3,4) a(2,3)] by simp_all
  have c: "LOWEST_FREQ_POSSIBLE = Fin (rnd64 (2 / 1000))" "rnd64 (2 / 1000) \<le> 1 / 256"
    using fl64_between[OF rep(6,5), of "2 / 1000"] by (simp_all add: LOWEST_FREQ_POSSIBLE_def)
  show ?thesis
    unfolding wave_params_ok_def c(1) using a(1) b c(2) by (simp add: init_globals_def)
qed

theorem wave_samples_in_range_witness:
  "\<exists>n vs b'. initialize_dac_hot_plate example_chip rounded_sin (init_globals, reset_board) =
      Inr (0, init_globals\<lparr>g_Dac14ValueArraySize := n, g_Dac14Values := vs\<rparr>, b') \<and>
    (\<forall>i < unat n. unat (vs ! i) < 2 ^ 14) \<and> sample_timer_ok example_chip b'"
  using wave_samples_in_range[OF example_chip_ok rounded_sin_range arrays_ok_init default_params_ok, of reset_board] by blast

text \<open>A fill whose function faults somewhere faults.\<close>

lemma for_each_Inr_all:
  "for_each is body s = Inr t \<Longrightarrow> i \<in> set is \<Longrightarrow> \<exists>u v. body i u = Inr v"
  by (induction "is" arbitrary: s) (auto simp: rbind_eq_Inr)

lemma fill_fails:
  assumes "lo \<le> k" and "k < hi" and "f k = Inl e"
  shows "\<exists>e. fill lo hi f xs = Inl e"
proof (cases "fill lo hi f xs")
  case (Inr ys)
  then have "\<exists>u v. rbind (f k) (arr_set u k) = Inr v"
    using for_each_Inr_all[of "[lo..<hi]" "\<lambda>i ys. rbind (f i) (arr_set ys i)" xs ys k] assms(1,2)
    by (auto simp: fill_def)
  then show ?thesis using assms(3) by simp
qed auto

lemma fp_to_u32_negative: "x \<le> - 1 \<Longrightarrow> fp_to_u32 (Fin x) = Inl CastRange"
  by (auto simp: trunc_def)

lemma falling_fails:
  assumes "1 \<le> n" and "n \<le> i" and "i \<le> 12500" and gap: "16385 * n \<le> 16383 * (i - n)"
    and s: "\<bar>s - 16383 / real n\<bar> \<le> 16383 / real n / 2 ^ 22" "1 \<le> s"
  shows "falling_sample (Fin s) n i = Inl CastRange"
proof -
  let ?j = "real (i - n)"
  have rep: "rep32 (32769 / 2)" "rep32 (2 ^ 28)" "rep32 (- (2 ^ 28))" "rep32 (- 3 / 2)"
    using representable_scaled[of 32769 24 "- 149" "- 1"] rep32_power[of 28] representable_scaled[of "- 3" 24 "- 149" "- 1"]
    by (simp_all add: power_int_minus)
  have "?j \<le> 12500" using assms(3) by simp
  have "real (16385 * n) \<le> real (16383 * (i - n))" using gap by (simp only: of_nat_le_iff)
  then have "16385 \<le> ?j * 16383 / real n" using assms(1) by (simp add: field_simps)
  then have "16385 * (1 - 1 / 2 ^ 22) \<le> ?j * 16383 / real n * (1 - 1 / 2 ^ 22)"
    by (rule mult_right_mono) simp
  also have "\<dots> \<le> ?j * s" using multiple_bounds(2)[OF s(1) assms(1)] by simp
  finally have lo': "16385 * (1 - 1 / 2 ^ 22) \<le> ?j * s" .
  have "32769 / 2 \<le> 16385 * (1 - 1 / (2::real) ^ 22)" by simp
  then have lo: "32769 / 2 \<le> ?j * s" using lo' by (rule order_trans)
  have "?j * s \<le> ?j * 16383 / real n * (1 + 1 / 2 ^ 22)" using multiple_bounds(1)[OF s(1) assms(1)] by simp
  also have "\<dots> \<le> 12500 * 16383 / 1 * 2"
    using assms(1) \<open>?j \<le> 12500\<close> by (intro mult_mono frac_le) simp_all
  finally have hi': "?j * s \<le> 12500 * 16383 / 1 * 2" .
  have "12500 * 16383 / 1 * 2 \<le> (2::real) ^ 29" by simp
  with hi' have hi: "?j * s \<le> 2 ^ 29" by (rule order_trans)
  have rep': "rep32 (2 ^ 29)" using rep32_power[of 29] .
  have p: "fl32 (?j * s) = Fin (rnd32 (?j * s))" "32769 / 2 \<le> rnd32 (?j * s)" "rnd32 (?j * s) \<le> 2 ^ 29"
    using fl32_between[OF rep(1) rep' lo hi] by simp_all
  have rep'': "rep32 (- (2 ^ 29))" using rep' by (simp only: representable_uminus)
  have x: "fl32 (16383 - rnd32 (?j * s)) = Fin (rnd32 (16383 - rnd32 (?j * s)))"
      "rnd32 (16383 - rnd32 (?j * s)) \<le> - 3 / 2"
    using fl32_between[OF rep'' rep(4), of "16383 - rnd32 (?j * s)"] p by simp_all
  then have "fp_to_u32 (Fin (rnd32 (16383 - rnd32 (?j * s)))) = Inl CastRange"
    by (intro fp_to_u32_negative) simp
  then show ?thesis using falling_value[OF assms(2,3) p(1) x(1)] by simp
qed

text \<open>
  A triangle whose falling part is longer than its rising part by more than one part in 8000 is undefined behaviour: the falling
  line goes below -1 and its conversion to an unsigned integer has no value. With a duty cycle so small that there is no
  rising part at all, the slope is infinite and the first sample is not a number. The comment of the function says that the
  values are never negative.
\<close>

theorem triangle_underflow:
  assumes "dutyCycle g \<le> 100" and "0 < sz" and "sz \<le> 12500" and "sz \<le> length vs"
    and "16385 * on_size g sz \<le> 16383 * (sz - 1 - on_size g sz)"
  shows "\<exists>e. generateTriangleWave g sz vs = Inl e"
proof -
  let ?n = "on_size g sz"
  have nd: "\<not> 100 < dutyCycle g" using assms(1) by simp
  have n: "?n \<le> sz - 1"
    using assms(2,5) on_size_le[OF assms(3,1)] by linarith
  show ?thesis
  proof (cases "?n = 0")
    case True
    have c: "fl64 16383 = Fin 16383" "fl64 (real 0) = Fin 0" "f32_of_u32 0 = Fin 0"
      using fl64_nat[of 16383] fl64_nat[of 0] fl32_nat[of 0] by (simp_all add: f32_of_u32_def)
    have "triangle_slope 0 = PosInf" unfolding triangle_slope_def c by (simp add: inf_signed_def)
    then have "falling_sample (triangle_slope 0) 0 0 = Inl CastRange"
      using c(3) fl32_nat[of 16383] by (simp add: falling_sample_def fp_sub_def)
    then obtain e where "fill 0 sz (falling_sample (triangle_slope 0) 0) vs = Inl e"
      using fill_fails[of 0 0 sz] assms(2) by blast
    then show ?thesis
      using True nd by (simp add: generateTriangleWave_def Let_def fill_def)
  next
    case False
    then have n1: "1 \<le> ?n" "?n \<le> 12500" using n assms(3) by simp_all
    obtain s where s: "triangle_slope ?n = Fin s" "\<bar>s - 16383 / real ?n\<bar> \<le> 16383 / real ?n / 2 ^ 22" "1 \<le> s"
      using slope_bounds[OF n1] by blast
    have "falling_sample (Fin s) ?n (sz - 1) = Inl CastRange"
      using falling_fails[OF n1(1) n _ assms(5) s(2,3)] assms(3) by simp
    then have fails: "\<exists>e. fill ?n sz (falling_sample (Fin s) ?n) xs = Inl e" for xs
      using fill_fails[of ?n "sz - 1" sz] n assms(2) by simp
    show ?thesis
    proof (cases "fill 0 ?n (rising_sample (Fin s)) vs")
      case (Inr xs)
      then show ?thesis
        using fails[of xs] nd s(1) by (auto simp: generateTriangleWave_def Let_def)
    qed (use nd s(1) in \<open>simp add: generateTriangleWave_def Let_def\<close>)
  qed
qed

text \<open>The period of 500 samples of the default frequency with a duty cycle of 30 percent.\<close>

theorem triangle_underflow_witness:
  "\<exists>e. generateTriangleWave (init_globals\<lparr>dutyCycle := 30\<rparr>) 500 (replicate 12500 0) = Inl e"
proof -
  have "on_size (init_globals\<lparr>dutyCycle := 30\<rparr>) 500 = 150"
    using on_size_eq[of 500 "init_globals\<lparr>dutyCycle := 30\<rparr>"] by simp
  then show ?thesis
    using triangle_underflow[of "init_globals\<lparr>dutyCycle := 30\<rparr>" 500 "replicate 12500 0"] by simp
qed

text \<open>
  From 28 V on, a full-scale sample does not fit the 14 bits of the converter: its scaled value is above 18719, and what the converter receives are
  its lower bits, a different and smaller number.
\<close>

theorem amplitude_wraps:
  assumes "chip_ok C" and "28 \<le> unat A" and "unat A < 1799"
  shows "\<exists>w. scale_value (maxDacValue A) 16383 = Inr w \<and> 18720 \<le> unat w \<and>
    unat (fget (HP_DATA_DATA (L_hpdac C)) (hp_DATA (DAC14_SetData (L_hpdac C) w r))) < unat w"
proof -
  let ?k = "unat (A div OPAMP_GAIN)"
  have "?k = unat A div 7" by (simp add: unat_div_distrib OPAMP_GAIN_def)
  then have k: "4 \<le> ?k" "?k \<le> 256" using assms(2,3) by linarith+
  obtain m where m: "maxDacValue A = Fin m" "rep64 m" "4680 * real ?k \<le> m" "m \<le> 5042 * real ?k"
    using maxDac_bounds[OF k(2)] by blast
  have "4680 * 4 \<le> 4680 * real ?k" "5042 * real ?k \<le> 5042 * 256" using k by simp_all
  then have m2: "18720 \<le> m" "m \<le> 2 ^ 31" using m(3,4) by simp_all
  have u: "unat (16383 :: u32) = 16383" by simp
  obtain w where w: "scale_value (Fin m) 16383 = Inr w" "unat w = nat \<lfloor>m\<rfloor>"
    using scale_value_ok[OF m(2) _ m2(2), of 16383] m2(1) by auto
  have big: "18720 \<le> unat w" using m2(1) w(2) by (simp add: le_nat_iff le_floor_iff)
  have "fwidth (HP_DATA_DATA (L_hpdac C)) = 14" using assms(1) by (simp add: chip_ok_def hpdac_layout_ok_def)
  then have "unat (fget (HP_DATA_DATA (L_hpdac C)) (hp_DATA (DAC14_SetData (L_hpdac C) w r))) < 16384"
    using unat_fget_less[of "HP_DATA_DATA (L_hpdac C)" "hp_DATA (DAC14_SetData (L_hpdac C) w r)"] by simp
  then have "unat (fget (HP_DATA_DATA (L_hpdac C)) (hp_DATA (DAC14_SetData (L_hpdac C) w r))) < unat w"
    using big by linarith
  then show ?thesis using w(1) m(1) big by auto
qed

theorem amplitude_wraps_witness:
  "\<exists>w. scale_value (maxDacValue 30) 16383 = Inr w \<and> 18720 \<le> unat w \<and>
    unat (fget (HP_DATA_DATA (L_hpdac example_chip)) (hp_DATA (DAC14_SetData (L_hpdac example_chip) w reset_hpdac))) < unat w"
  using amplitude_wraps[OF example_chip_ok, of 30 reset_hpdac] by simp

text \<open>The interrupts of the sample timer, one after the other.\<close>

primrec sample_ticks :: "chip \<Rightarrow> nat \<Rightarrow> globals \<times> board \<Rightarrow> (globals \<times> board) res" where
  "sample_ticks C 0 s = Inr s"
| "sample_ticks C (Suc k) s = rbind (sample_ticks C k s) (CTIMER4_IRQHandler C)"

lemma next_index:
  assumes "unat i < unat n" and "unat n \<le> 12500"
  shows "unat ((i + 1) mod n :: u32) = (unat i + 1) mod unat n"
proof -
  have "unat (i + 1) = unat i + 1" using assms by (simp add: unat_word_ariths)
  then show ?thesis by (simp add: unat_mod_distrib)
qed

lemma one_tick:
  assumes "hpdac_layout_ok (L_hpdac C)" and "arrays_ok g" and "unat (g_Dac14InputIndex g) < unat (g_Dac14ValueArraySize g)"
    and "unat (g_Dac14ValueArraySize g) \<le> 12500"
  shows "\<exists>b'. CTIMER4_IRQHandler C (g, b) =
      Inr (g\<lparr>g_Dac14InputIndex := (g_Dac14InputIndex g + 1) mod g_Dac14ValueArraySize g\<rparr>, b') \<and>
    fget (HP_DATA_DATA (L_hpdac C)) (hp_DATA (DAC2 b')) = g_Dac14Values g ! unat (g_Dac14InputIndex g) AND mask 14"
proof -
  have "g_Dac14ValueArraySize g \<noteq> 0" using assms(3) by auto
  moreover have "unat (g_Dac14InputIndex g) < length (g_Dac14Values g)"
    using assms(2-4) by (simp add: arrays_ok_def MAX_ARRAY_SIZE_def)
  ultimately show ?thesis
    using DAC14_SetData_field[OF assms(1)]
    by (simp add: CTIMER4_IRQHandler_def dac_update_callback_def Let_def DAC14_DoSoftwareTrigger_def)
qed

text \<open>
  C28: The timer interrupts play the wave form cyclically: after any number of them no undefined behaviour has occurred, the index has
  advanced by that number modulo the size, the data register holds the lower 14 bits of the sample before it, and no other shared
  variable has changed.
\<close>

theorem playback_cycles:
  assumes "chip_ok C" and "arrays_ok g" and "unat (g_Dac14InputIndex g) < unat (g_Dac14ValueArraySize g)"
    and "unat (g_Dac14ValueArraySize g) \<le> MAX_ARRAY_SIZE"
  shows "\<exists>i b'. sample_ticks C (Suc k) (g, b) = Inr (g\<lparr>g_Dac14InputIndex := i\<rparr>, b') \<and>
    unat i = (unat (g_Dac14InputIndex g) + Suc k) mod unat (g_Dac14ValueArraySize g) \<and>
    fget (HP_DATA_DATA (L_hpdac C)) (hp_DATA (DAC2 b')) =
      g_Dac14Values g ! ((unat (g_Dac14InputIndex g) + k) mod unat (g_Dac14ValueArraySize g)) AND mask 14"
proof (induction k)
  have L: "hpdac_layout_ok (L_hpdac C)" using assms(1) by (simp add: chip_ok_def)
  have n: "unat (g_Dac14ValueArraySize g) \<le> 12500" using assms(4) by (simp add: MAX_ARRAY_SIZE_def)
  {
    case 0
    show ?case
      using one_tick[OF L assms(2,3) n, of b] next_index[OF assms(3) n] assms(3) by auto
  next
    case (Suc k)
    then obtain i b1 where 1: "sample_ticks C (Suc k) (g, b) = Inr (g\<lparr>g_Dac14InputIndex := i\<rparr>, b1)"
        "unat i = (unat (g_Dac14InputIndex g) + Suc k) mod unat (g_Dac14ValueArraySize g)" by blast
    let ?g = "g\<lparr>g_Dac14InputIndex := i\<rparr>"
    have i: "unat i < unat (g_Dac14ValueArraySize g)" using 1(2) assms(3) by simp
    have "arrays_ok ?g" using assms(2) by (simp add: arrays_ok_def)
    from one_tick[OF L this _ _, of b1] obtain b2 where 2:
        "CTIMER4_IRQHandler C (?g, b1) = Inr (?g\<lparr>g_Dac14InputIndex := (i + 1) mod g_Dac14ValueArraySize g\<rparr>, b2)"
        "fget (HP_DATA_DATA (L_hpdac C)) (hp_DATA (DAC2 b2)) = g_Dac14Values g ! unat i AND mask 14"
      using i n by auto
    have "unat ((i + 1) mod g_Dac14ValueArraySize g) =
        (unat (g_Dac14InputIndex g) + Suc (Suc k)) mod unat (g_Dac14ValueArraySize g)"
      using next_index[OF i n] 1(2) by (simp add: mod_Suc_eq)
    then show ?case
      using 1 2 by (subst sample_ticks.simps(2)) auto
  }
qed

theorem playback_cycles_witness:
  "\<exists>i b'. sample_ticks example_chip 7 (init_globals\<lparr>g_Dac14ValueArraySize := 3\<rparr>, reset_board) =
      Inr (init_globals\<lparr>g_Dac14ValueArraySize := 3, g_Dac14InputIndex := i\<rparr>, b') \<and> unat i = 1"
proof -
  have "arrays_ok (init_globals\<lparr>g_Dac14ValueArraySize := 3\<rparr>)"
    using arrays_ok_init by (simp add: arrays_ok_def)
  from playback_cycles[OF example_chip_ok this, of 6 reset_board] show ?thesis
    by (auto simp: init_globals_def MAX_ARRAY_SIZE_def simp flip: numeral_eq_Suc)
qed

lemma frequency_faults:
  assumes "chip_ok C" and "arrays_ok g" and "unat (g_Dac14InputIndex g) < MAX_ARRAY_SIZE"
  shows "desiredFrequency g = Fin 0 \<Longrightarrow> initialize_dac_hot_plate C c_sin (g, b) = Inl CastRange"
    and "desiredFrequency g = Fin f \<Longrightarrow> 26 \<le> f \<Longrightarrow> f \<le> 2 ^ 50 \<Longrightarrow> waveType g = 0 \<Longrightarrow>
      \<exists>g' b'. initialize_dac_hot_plate C c_sin (g, b) = Inr (0, g', b') \<and> CTIMER4_IRQHandler C (g', b') = Inl DivByZero"
proof -
  show "desiredFrequency g = Fin 0 \<Longrightarrow> initialize_dac_hot_plate C c_sin (g, b) = Inl CastRange"
    using fl32_nat[of 25]
    by (simp add: initialize_dac_hot_plate_def array_size_def SAMPLE_RATE_def inf_signed_def Let_def)
next
  assume f: "desiredFrequency g = Fin f" "26 \<le> f" "f \<le> 2 ^ 50" and w: "waveType g = 0"
  obtain n where n: "array_size g = Inr n" "unat n = min 12500 (nat \<lfloor>rnd32 (25 / f)\<rfloor>)"
    using array_size_value[OF f(1)] f(2,3) by auto
  have "rep32 (63 / 64)" using representable_scaled[of 63 24 "- 149" "- 6"] by (simp add: power_int_minus)
  moreover have "25 / f \<le> 63 / 64" using f(2) by (simp add: field_simps)
  ultimately have "rnd32 (25 / f) \<le> 63 / 64" by (rule r32.upper)
  then have "\<lfloor>rnd32 (25 / f)\<rfloor> < 1" by (simp add: floor_less_iff)
  then have "unat n = 0" unfolding n(2) by simp
  then have n0: "array_size g = Inr 0" using n(1) by (simp add: unsigned_eq_0_iff)
  obtain l where l: "LOWEST_FREQ_POSSIBLE = Fin l" "l \<le> 1"
  proof -
    have "rep64 0" "rep64 1" using rep64_nat[of 0] rep64_nat[of 1] by simp_all
    from fl64_between[OF this, of "2 / 1000"] show thesis by (intro that) (auto simp: LOWEST_FREQ_POSSIBLE_def)
  qed
  obtain b' where b': "SetupTimer C (Dac_and_other_setup C b) = Inr b'"
    using SetupTimer_ok[OF assms(1)] by blast
  let ?g = "g\<lparr>g_Dac14ValueArraySize := 0\<rparr>"
  have "generate_wave c_sin ?g = Some (Inr (g_Dac14Values g))"
    using w by (simp add: generate_wave_def generateSineWave_def fill_def scaleDacValues_def update_each_def)
  moreover have "\<not> fp_lt (Fin f) LOWEST_FREQ_POSSIBLE" unfolding l(1) using l(2) f(2) by simp
  ultimately have "initialize_dac_hot_plate C c_sin (g, b) = Inr (0, ?g, b')"
    using f(1) n0 b' by (simp add: initialize_dac_hot_plate_def Let_def)
  moreover have "CTIMER4_IRQHandler C (?g, b') = Inl DivByZero"
    using assms(2,3) by (simp add: CTIMER4_IRQHandler_def dac_update_callback_def arrays_ok_def Let_def)
  ultimately show "\<exists>g' b'. initialize_dac_hot_plate C c_sin (g, b) = Inr (0, g', b') \<and>
      CTIMER4_IRQHandler C (g', b') = Inl DivByZero" by blast
qed

text \<open>
  The frequency is used before it is checked, and not checked from above: a frequency of zero makes the conversion of the number of
  samples undefined, and one of 26 Hz or more is accepted (the initialisation returns success) with an empty
  wave form, on which the next timer interrupt divides by zero.
\<close>

theorem frequency_unchecked:
  assumes "chip_ok C" and "arrays_ok g" and "unat (g_Dac14InputIndex g) < MAX_ARRAY_SIZE"
  shows "(desiredFrequency g = Fin 0 \<longrightarrow> initialize_dac_hot_plate C c_sin (g, b) = Inl CastRange) \<and>
    (desiredFrequency g = Fin f \<and> 26 \<le> f \<and> f \<le> 2 ^ 50 \<and> waveType g = 0 \<longrightarrow>
      (\<exists>g' b'. initialize_dac_hot_plate C c_sin (g, b) = Inr (0, g', b') \<and> CTIMER4_IRQHandler C (g', b') = Inl DivByZero))"
  using frequency_faults[OF assms] by blast

theorem frequency_unchecked_witness:
  "initialize_dac_hot_plate example_chip rounded_sin (init_globals\<lparr>desiredFrequency := Fin 0\<rparr>, reset_board) = Inl CastRange \<and>
   (\<exists>g' b'. initialize_dac_hot_plate example_chip rounded_sin (init_globals\<lparr>desiredFrequency := Fin 30\<rparr>, reset_board) =
      Inr (0, g', b') \<and> CTIMER4_IRQHandler example_chip (g', b') = Inl DivByZero)"
proof -
  have a: "arrays_ok (init_globals\<lparr>desiredFrequency := x\<rparr>)"
    "unat (g_Dac14InputIndex (init_globals\<lparr>desiredFrequency := x\<rparr>)) < MAX_ARRAY_SIZE" for x
    using arrays_ok_init by (simp_all add: arrays_ok_def init_globals_def MAX_ARRAY_SIZE_def)
  show ?thesis
    using frequency_unchecked[OF example_chip_ok a, of "Fin 0" rounded_sin reset_board 0]
      frequency_unchecked[OF example_chip_ok a, of "Fin 30" rounded_sin reset_board 30]
    by (simp add: init_globals_def)
qed

end
