(* ===== verification/Excitation.thy ===== *)
theory Excitation
  imports Board
begin

text \<open>
  The excitation voltage of the strips (\<open>DAC_files/DAC_excitation_voltage.c\<close>, \<open>initialize_excitation_dac\<close> of \<open>main.c\<close>): a voltage per strip
  times the number of strips, divided by the gain of the amplifier, on the 12 bit converter. The messages are not modelled, but the
  conversions that only they use are, as they can fault.
\<close>

section \<open>The operations\<close>

definition AMPLIFIER_GAIN :: fp where "AMPLIFIER_GAIN = fl64 3"

text \<open>The comparisons and the division by the gain are made in \<open>double\<close>, the product with the number of strips in \<open>float\<close>.\<close>

definition total_voltage :: "globals \<Rightarrow> fp" where
  "total_voltage g = fp_mul fl32 (g_excitation_voltage_per_resistor g) (fl32 (real (unat (g_strip_count g))))"

definition dac_output_voltage :: "globals \<Rightarrow> fp" where
  "dac_output_voltage g = fp_cast fl32 (fp_div fl64 (total_voltage g) AMPLIFIER_GAIN)"

definition dac_code :: "globals \<Rightarrow> u32 res" where
  "dac_code g = fp_to_u32 (fp_mul fl64 (fp_div fl64 (dac_output_voltage g) (fl64 (33 / 10))) (fl64 4095))"

definition SetExcitationVoltage :: "lpdac_layout \<Rightarrow> globals \<Rightarrow> lpdac \<Rightarrow> lpdac res" where
  "SetExcitationVoltage L g r =
     (if \<not> g_excitation_voltage_on g then Inr (DAC_SetData L 0 r)
      else if fp_lt (g_excitation_voltage_per_resistor g) (fl64 (1 / 2)) \<or>
              fp_lt (fl64 1) (g_excitation_voltage_per_resistor g) then Inr r
      else if fp_lt (fl64 8) (total_voltage g) then Inr r
      else
        rbind (dac_code g) (\<lambda>dacValue.
        if dacValue > 4095 then Inr r
        else
          let r = DAC_SetData L dacValue r
          in rbind (fp_to_int (fp_mul fl32 (total_voltage g) (fl32 100))) (\<lambda>total_voltage_int.
             rbind (fp_to_int (fp_mul fl32 (dac_output_voltage g) (fl32 100))) (\<lambda>dac_output_voltage_int.
             Inr r))))"

definition DAC_excitation_V_Init :: "chip \<Rightarrow> board \<Rightarrow> board" where
  "DAC_excitation_V_Init C b =
     (let b = call (CLOCK_AttachClk kFRO_HF_to_DAC0) (call (CLOCK_SetClkDiv kCLOCK_DivDac0Clk 1) b);
          b = b\<lparr>SPC0_ACTIVE_CFG1 := SPC0_ACTIVE_CFG1 b OR 0x11\<rparr>;
          config = DAC_GetDefaultConfig\<lparr>dac_referenceVoltageSource := kDAC_ReferenceVoltageSourceAlt1\<rparr>;
          b = on_dev (DAC_Init (L_lpdac C) 0 config) DAC0 DAC0_update b;
          b = b\<lparr>DAC0 := DAC_Enable (L_lpdac C) True (DAC0 b)\<rparr>
      in b\<lparr>DAC0 := DAC_SetData (L_lpdac C) 0 (DAC0 b)\<rparr>)"

definition initialize_excitation_dac :: "chip \<Rightarrow> globals \<Rightarrow> board \<Rightarrow> (int \<times> board) res" where
  "initialize_excitation_dac C g b =
     rbind (on_regs_res (SetExcitationVoltage (L_lpdac C) g) DAC0 DAC0_update (DAC_excitation_V_Init C b)) (\<lambda>b. Inr (0, b))"

section \<open>The voltages\<close>

lemma rep_halves: "rep64 0" "rep32 0" "rep32 8" "rep64 8" "rep32 (1 / 2)" "rep64 (1 / 2)" "rep32 (11 / 4)" "rep64 (11 / 4)"
    "rep64 (13 / 4)" "rep64 (7 / 2)" "rep64 1" "rep64 4096"
  using representable_scaled[of 1 24 "- 149" "- 1"] representable_scaled[of 1 53 "- 1074" "- 1"]
    representable_scaled[of 11 24 "- 149" "- 2"] representable_scaled[of 11 53 "- 1074" "- 2"]
    representable_scaled[of 13 53 "- 1074" "- 2"] representable_scaled[of 7 53 "- 1074" "- 1"]
    rep64_nat[of 0] rep32_nat[of 0] rep32_nat[of 8] rep64_nat[of 8] rep64_nat[of 1] rep64_nat[of 4096]
  by (simp_all add: power_int_minus)

lemma fl64_consts: "fl64 (1 / 2) = Fin (1 / 2)" "fl64 1 = Fin 1" "fl64 8 = Fin 8" "fl64 3 = Fin 3" "fl64 4095 = Fin 4095"
    "fl32 100 = Fin 100"
proof -
  show "fl64 (1 / 2) = Fin (1 / 2)" using rep_halves(6) by (subst fl64_finite) (simp_all add: r64.exact)
qed (use fl64_nat[of 1] fl64_nat[of 8] fl64_nat[of 3] fl64_nat[of 4095] fl32_nat[of 100] in simp_all)

text \<open>Each of the five roundings changes its argument by a factor close to one.\<close>

lemma total_bounds:
  assumes "1 / 2 \<le> v" and "v \<le> 1" and "n \<le> 8"
  shows "fl32 (v * real n) = Fin (rnd32 (v * real n))" and "0 \<le> rnd32 (v * real n)" and "rnd32 (v * real n) \<le> 8"
    and "0 < n \<Longrightarrow> 1 / 2 \<le> rnd32 (v * real n)"
    and "0 < n \<Longrightarrow> v * real n * rd_low \<le> rnd32 (v * real n)"
    and "0 < n \<Longrightarrow> rnd32 (v * real n) \<le> v * real n * rd_high"
proof -
  have "0 \<le> v * real n" "v * real n \<le> 8"
    using assms mult_mono[of v 1 "real n" 8] by simp_all
  from fl32_between[OF rep_halves(2,3) this]
  show "fl32 (v * real n) = Fin (rnd32 (v * real n))" "0 \<le> rnd32 (v * real n)" "rnd32 (v * real n) \<le> 8" by simp_all
  assume "0 < n"
  then have ge: "1 / 2 \<le> v * real n" using assms mult_mono[of "1 / 2" v 1 "real n"] by simp
  show "1 / 2 \<le> rnd32 (v * real n)"
    using fl32_between(2)[OF rep_halves(5,3) ge \<open>v * real n \<le> 8\<close>] by simp
  show "v * real n * rd_low \<le> rnd32 (v * real n)" "rnd32 (v * real n) \<le> v * real n * rd_high"
    using q32.step[of "v * real n" "v * real n" "v * real n"] ge by simp_all
qed

lemma third_bounds:
  assumes "0 \<le> t" and "t \<le> 8"
  defines "q \<equiv> rnd64 (t / 3)"
  shows "fl64 (t / 3) = Fin q" and "fl32 q = Fin (rnd32 q)" and "0 \<le> rnd32 q" and "rnd32 q \<le> 11 / 4"
    and "1 / 2 \<le> t \<Longrightarrow> t / 3 * rd_low ^ 2 \<le> rnd32 q" and "1 / 2 \<le> t \<Longrightarrow> rnd32 q \<le> t / 3 * rd_high ^ 2"
    and "1 / 2 \<le> t \<Longrightarrow> 1 / 16 \<le> rnd32 q"
proof -
  have t: "0 \<le> t / 3" "t / 3 \<le> 11 / 4" using assms(1,2) by simp_all
  have q: "fl64 (t / 3) = Fin q" "0 \<le> q" "q \<le> 11 / 4"
    using fl64_between[OF rep_halves(1,8) t] by (simp_all add: q_def)
  show "fl64 (t / 3) = Fin q" by (rule q(1))
  show "fl32 q = Fin (rnd32 q)" "0 \<le> rnd32 q" "rnd32 q \<le> 11 / 4"
    using fl32_between[OF rep_halves(2,7) q(2,3)] by simp_all
  assume "1 / 2 \<le> t"
  then have ge: "1 / 8 \<le> t / 3" by simp
  have s: "t / 3 * rd_low \<le> q" "q \<le> t / 3 * rd_high"
    using q64.step[of "t / 3" "t / 3" "t / 3"] ge by (simp_all add: q_def)
  have low: "1 / 8 * rd_low \<le> t / 3 * rd_low" using ge rd_bounds(1) by (intro mult_right_mono) simp_all
  then have "1 / 8 * rd_low \<le> q" using s(1) by linarith
  then have q_ge: "1 / 10 \<le> q" by (simp add: rd_low_def)
  have d: "t / 3 * rd_low * rd_low \<le> rnd32 q" "rnd32 q \<le> t / 3 * rd_high * rd_high"
    using q32.step[OF s] q_ge by simp_all
  then show "t / 3 * rd_low ^ 2 \<le> rnd32 q" "rnd32 q \<le> t / 3 * rd_high ^ 2"
    by (simp_all add: power2_eq_square mult.assoc)
  have "1 / 10 * rd_low \<le> rnd32 q" using q32.step(1)[of "1 / 10" q q] q_ge by simp
  then show "1 / 16 \<le> rnd32 q" by (simp add: rd_low_def)
qed

text \<open>The rounded constant 3.3, and the conversion of an output voltage to a code.\<close>

lemma reference_bounds:
  "fl64 (33 / 10) = Fin (rnd64 (33 / 10))" "13 / 4 \<le> rnd64 (33 / 10)" "rnd64 (33 / 10) \<le> 7 / 2"
  "33 / 10 * rd_low \<le> rnd64 (33 / 10)" "rnd64 (33 / 10) \<le> 33 / 10 * rd_high"
proof -
  show "fl64 (33 / 10) = Fin (rnd64 (33 / 10))" "13 / 4 \<le> rnd64 (33 / 10)" "rnd64 (33 / 10) \<le> 7 / 2"
    by (rule fl64_between[of "13 / 4" "7 / 2"]; use rep_halves in simp)+
  show "33 / 10 * rd_low \<le> rnd64 (33 / 10)" "rnd64 (33 / 10) \<le> 33 / 10 * rd_high"
    by (rule q64.step[of "33 / 10" "33 / 10" "33 / 10"]; simp)+
qed
lemma code_bounds:
  assumes "0 \<le> d" and "d \<le> 11 / 4"
  defines "y \<equiv> rnd64 (d / rnd64 (33 / 10))"
  defines "x \<equiv> rnd64 (y * 4095)"
  shows "fl64 (d / rnd64 (33 / 10)) = Fin y" and "fl64 (y * 4095) = Fin x" and "0 \<le> x" and "x \<le> 4095"
    and "1 / 16 \<le> d \<Longrightarrow> d / (33 / 10 * rd_high) * rd_low ^ 2 * 4095 \<le> x"
    and "1 / 16 \<le> d \<Longrightarrow> x \<le> d / (33 / 10 * rd_low) * rd_high ^ 2 * 4095"
proof -
  let ?R = "rnd64 (33 / 10)"
  note R = reference_bounds
  have rep: "rep64 4095" using rep64_nat[of 4095] by simp
  have d: "0 \<le> d / ?R" "d / ?R \<le> 1" using assms(1,2) R(2) by (simp_all add: divide_le_eq)
  have y: "fl64 (d / ?R) = Fin y" "0 \<le> y" "y \<le> 1"
    using fl64_between[OF rep_halves(1,11) d] by (simp_all add: y_def)
  then have z: "0 \<le> y * 4095" "y * 4095 \<le> 4095" by simp_all
  show "fl64 (d / ?R) = Fin y" by (rule y(1))
  show "fl64 (y * 4095) = Fin x" "0 \<le> x" "x \<le> 4095"
    using fl64_between[OF rep_halves(1) rep z] by (simp_all add: x_def)
  assume ge: "1 / 16 \<le> d"
  have low: "d / (33 / 10 * rd_high) \<le> d / ?R" "d / ?R \<le> d / (33 / 10 * rd_low)"
    using R(2,4,5) rd_bounds assms(1) by (intro divide_left_mono mult_pos_pos; simp)+
  have "1 / 16 / (7 / 2) \<le> d / ?R" using R(2,3) ge by (intro frac_le) simp_all
  then have "1 / 56 \<le> d / ?R" by simp
  then have s: "d / (33 / 10 * rd_high) * rd_low \<le> y" "y \<le> d / (33 / 10 * rd_low) * rd_high" "1 / 56 * rd_low \<le> y"
    using q64.step[OF low] q64.step(1)[of "1 / 56" "d / ?R" "d / ?R"] by (simp_all add: y_def)
  then have "1 / 60 \<le> y" by (simp add: rd_low_def)
  then have big: "1 / 2 ^ 20 \<le> y * 4095" by simp
  have t: "d / (33 / 10 * rd_high) * rd_low * 4095 \<le> y * 4095" "y * 4095 \<le> d / (33 / 10 * rd_low) * rd_high * 4095"
    by (rule mult_right_mono[OF s(1)], simp) (rule mult_right_mono[OF s(2)], simp)
  have "d / (33 / 10 * rd_high) * rd_low * 4095 * rd_low \<le> x" "x \<le> d / (33 / 10 * rd_low) * rd_high * 4095 * rd_high"
    using q64.step[OF t big] by (simp_all add: x_def)
  then show "d / (33 / 10 * rd_high) * rd_low ^ 2 * 4095 \<le> x" "x \<le> d / (33 / 10 * rd_low) * rd_high ^ 2 * 4095"
    by (simp_all add: power2_eq_square mult.assoc mult.commute mult.left_commute)
qed

text \<open>Five roundings and the rounded constant together.\<close>

lemma rd_five: "1 - 1 / 2 ^ 20 \<le> rd_low ^ 5 / rd_high" "rd_high ^ 5 / rd_low \<le> 1 + 1 / 2 ^ 20"
  by (simp_all add: rd_low_def rd_high_def power_divide)

definition ideal_code :: "real \<Rightarrow> nat \<Rightarrow> real" where
  "ideal_code v n = v * real n * 4095 / (99 / 10)"

lemma chain_bounds:
  assumes "1 / 2 \<le> v" and "v \<le> 1" and "0 < n" and "n \<le> 8"
    and "v * real n * rd_low \<le> t" and "t \<le> v * real n * rd_high"
    and "t / 3 * rd_low ^ 2 \<le> d" and "d \<le> t / 3 * rd_high ^ 2"
    and "d / (33 / 10 * rd_high) * rd_low ^ 2 * 4095 \<le> x" and "x \<le> d / (33 / 10 * rd_low) * rd_high ^ 2 * 4095"
  shows "\<bar>x - ideal_code v n\<bar> < 1 / 100"
proof -
  let ?w = "v * real n" and ?i = "ideal_code v n"
  have i: "0 \<le> ?i" "?i \<le> 3310"
    using assms(1,2,4) mult_mono[of v 1 "real n" 8] by (simp_all add: ideal_code_def)
  have "?w * rd_low / 3 * rd_low ^ 2 \<le> t / 3 * rd_low ^ 2" "t / 3 * rd_high ^ 2 \<le> ?w * rd_high / 3 * rd_high ^ 2"
    using assms(5,6) by (intro mult_right_mono divide_right_mono; simp)+
  then have "?w * rd_low / 3 * rd_low ^ 2 \<le> d" "d \<le> ?w * rd_high / 3 * rd_high ^ 2"
    using assms(7,8) by linarith+
  then have "?w * rd_low / 3 * rd_low ^ 2 / (33 / 10 * rd_high) * rd_low ^ 2 * 4095 \<le> d / (33 / 10 * rd_high) * rd_low ^ 2 * 4095"
    "d / (33 / 10 * rd_low) * rd_high ^ 2 * 4095 \<le> ?w * rd_high / 3 * rd_high ^ 2 / (33 / 10 * rd_low) * rd_high ^ 2 * 4095"
    using rd_bounds by (intro mult_right_mono divide_right_mono; simp)+
  moreover have "?w * rd_low / 3 * rd_low ^ 2 / (33 / 10 * rd_high) * rd_low ^ 2 * 4095 = ?i * (rd_low ^ 5 / rd_high)"
    "?w * rd_high / 3 * rd_high ^ 2 / (33 / 10 * rd_low) * rd_high ^ 2 * 4095 = ?i * (rd_high ^ 5 / rd_low)"
    by (simp_all add: ideal_code_def eval_nat_numeral)
  moreover have "?i * (1 - 1 / 2 ^ 20) \<le> ?i * (rd_low ^ 5 / rd_high)" "?i * (rd_high ^ 5 / rd_low) \<le> ?i * (1 + 1 / 2 ^ 20)"
    using rd_five i(1) by (intro mult_left_mono; simp)+
  ultimately have "?i * (1 - 1 / 2 ^ 20) \<le> x" "x \<le> ?i * (1 + 1 / 2 ^ 20)"
    using assms(9,10) by linarith+
  then have "?i - ?i / 2 ^ 20 \<le> x" "x \<le> ?i + ?i / 2 ^ 20"
    by (simp_all only: right_diff_distrib distrib_left times_divide_eq_right mult_1_right)
  then have "\<bar>x - ?i\<bar> \<le> ?i / 2 ^ 20" by linarith
  also have "\<dots> < 1 / 100" using i by simp
  finally show ?thesis .
qed

text \<open>The whole computation, for up to eight strips with a voltage that passes the range check.\<close>

lemma dac_code_value:
  assumes "g_excitation_voltage_per_resistor g = Fin v" and "1 / 2 \<le> v" and "v \<le> 1" and "unat (g_strip_count g) \<le> 8"
  shows "\<exists>t d x. total_voltage g = Fin t \<and> 0 \<le> t \<and> t \<le> 8 \<and> dac_output_voltage g = Fin d \<and> 0 \<le> d \<and> d \<le> 11 / 4 \<and>
    dac_code g = fp_to_u32 (Fin x) \<and> 0 \<le> x \<and> x \<le> 4095 \<and> \<bar>x - ideal_code v (unat (g_strip_count g))\<bar> < 1 / 100"
proof -
  let ?n = "unat (g_strip_count g)"
  let ?t = "rnd32 (v * real ?n)"
  let ?d = "rnd32 (rnd64 (?t / 3))"
  let ?x = "rnd64 (rnd64 (?d / rnd64 (33 / 10)) * 4095)"
  have n: "fl32 (real ?n) = Fin (real ?n)" using assms(4) by (intro fl32_nat) simp
  note t = total_bounds[OF assms(2-4)]
  note d = third_bounds[OF t(2,3)]
  note x = code_bounds[OF d(3,4)]
  have R0: "rnd64 (33 / 10) \<noteq> 0" using reference_bounds(2) by linarith
  have "total_voltage g = Fin ?t"
    using t(1) n by (simp add: total_voltage_def assms(1))
  moreover from this have "dac_output_voltage g = Fin ?d"
    using d(1,2) by (simp add: dac_output_voltage_def AMPLIFIER_GAIN_def fl64_consts)
  moreover from this have "dac_code g = fp_to_u32 (Fin ?x)"
    using x(1,2) R0 by (simp add: dac_code_def fl64_consts reference_bounds(1) del: fp_to_u32.simps)
  moreover have "\<bar>?x - ideal_code v ?n\<bar> < 1 / 100"
  proof (cases "?n = 0")
    case True
    then show ?thesis by (simp add: ideal_code_def rnd32_def rnd64_def)
  next
    case False
    then have pos: "0 < ?n" by simp
    from t(4)[OF pos] have "1 / 16 \<le> ?d" by (rule d(7))
    then show ?thesis
      by (intro chain_bounds[OF assms(2,3) pos assms(4) t(5,6)[OF pos] d(5,6)[OF t(4)[OF pos]]] x(5,6))
  qed
  ultimately show ?thesis
    using t(2,3) d(3,4) x(3,4) by blast
qed
lemma fp_to_int_ok: "0 \<le> x \<Longrightarrow> x \<le> 1000 \<Longrightarrow> fp_to_int (Fin x) = Inr (word_of_int \<lfloor>x\<rfloor>)"
  by (auto simp: trunc_def floor_less_iff le_floor_iff)

lemma hundredfold:
  assumes "0 \<le> t" and "t \<le> 8"
  shows "fp_to_int (fp_mul fl32 (Fin t) (fl32 100)) = Inr (word_of_int \<lfloor>rnd32 (t * 100)\<rfloor>)"
proof -
  have "rep32 800" using rep32_nat[of 800] by simp
  from fl32_between[OF rep_halves(2) this, of "t * 100"]
  show ?thesis
    using assms by (simp add: fl64_consts fp_to_int_ok del: fp_to_int.simps)
qed

section \<open>Properties\<close>

lemma excitation_value:
  assumes "lpdac_layout_ok L" and "g_excitation_voltage_on g" and "g_excitation_voltage_per_resistor g = Fin v" and "1 / 2 \<le> v"
    and "v \<le> 1" and "unat (g_strip_count g) \<le> 8"
  shows "\<exists>r'. SetExcitationVoltage L g r = Inr r' \<and>
    \<bar>real (unat (fget (LP_DATA_DATA L) (lp_DATA r'))) - ideal_code v (unat (g_strip_count g))\<bar> < 1 + 1 / 100"
proof -
  obtain t d x where t: "total_voltage g = Fin t" "0 \<le> t" "t \<le> 8"
    and d: "dac_output_voltage g = Fin d" "0 \<le> d" "d \<le> 11 / 4"
    and x: "dac_code g = fp_to_u32 (Fin x)" "0 \<le> x" "x \<le> 4095"
    and near: "\<bar>x - ideal_code v (unat (g_strip_count g))\<bar> < 1 / 100"
    using dac_code_value[OF assms(3-6)] by blast
  define c :: u32 where "c = word_of_int (trunc x)"
  have c: "dac_code g = Inr c" "unat c = nat \<lfloor>x\<rfloor>"
    using fp_to_u32_ok[of x] x by (simp_all add: c_def trunc_def del: fp_to_u32.simps)
  then have le: "unat c \<le> 4095" using x by linarith
  then have fits: "c \<le> 4095" "c AND mask 12 = c"
    by (simp_all add: word_le_nat_alt flip: take_bit_eq_mask) (rule unsigned_word_eqI[where 'a = nat], simp add: unsigned_take_bit_eq take_bit_nat_eq_self)
  have "SetExcitationVoltage L g r = Inr (DAC_SetData L c r)"
    using assms(2-5) t d c(1) fits(1) hundredfold[of t] hundredfold[of d]
    by (simp add: SetExcitationVoltage_def fl64_consts Let_def del: fp_to_int.simps fp_mul.simps)
  moreover have "fget (LP_DATA_DATA L) (lp_DATA (DAC_SetData L c r)) = c"
    using assms(1) fits(2) by (simp add: DAC_SetData_field)
  moreover have "\<bar>real (unat c) - ideal_code v (unat (g_strip_count g))\<bar> < 1 + 1 / 100"
    using near x(2) c(2) by linarith
  ultimately show ?thesis by simp
qed

lemma excitation_total:
  assumes "lpdac_layout_ok L" and "g_excitation_voltage_per_resistor g \<noteq> NaN" and "unat (g_strip_count g) \<le> 8"
  shows "\<exists>r'. SetExcitationVoltage L g r = Inr r'"
proof (cases "\<exists>v. g_excitation_voltage_on g \<and> g_excitation_voltage_per_resistor g = Fin v \<and> 1 / 2 \<le> v \<and> v \<le> 1")
  case True
  then show ?thesis using excitation_value[OF assms(1) _ _ _ _ assms(3), of _ r] by blast
next
  case False
  then show ?thesis
    using assms(2) by (cases "g_excitation_voltage_per_resistor g") (auto simp: SetExcitationVoltage_def fl64_consts)
qed

text \<open>
  C15: With the excitation on, a voltage per strip between 0.5 V and 1 V and at most eight strips, the converter gets a code
  that is less than one step and a hundredth away from the exact \<open>voltage * strips / 3 / 3.3 * 4095\<close>; the code fits the converter, so neither the check
  for 8 V in total nor the check for 4095 ever rejects such a setting, and no conversion faults.
\<close>

theorem excitation_code:
  assumes "lpdac_layout_ok L" and "g_excitation_voltage_on g" and "g_excitation_voltage_per_resistor g = Fin v" and "1 / 2 \<le> v"
    and "v \<le> 1" and "unat (g_strip_count g) \<le> 8"
  shows "\<exists>r'. SetExcitationVoltage L g r = Inr r' \<and>
    \<bar>real (unat (fget (LP_DATA_DATA L) (lp_DATA r'))) - ideal_code v (unat (g_strip_count g))\<bar> < 1 + 1 / 100"
  by (rule excitation_value[OF assms])

theorem excitation_code_witness:
  "\<exists>r'. SetExcitationVoltage example_lpdac (init_globals\<lparr>g_strip_count := 2\<rparr>) reset_lpdac = Inr r' \<and>
    \<bar>real (unat (fget (LP_DATA_DATA example_lpdac) (lp_DATA r'))) - 8190 / (99 / 10)\<bar> < 1 + 1 / 100"
proof -
  let ?g = "init_globals\<lparr>g_strip_count := 2\<rparr>"
  have "g_excitation_voltage_per_resistor ?g = Fin 1"
    using fl64_consts(2) fl32_nat[of 1] by (simp add: init_globals_def)
  from excitation_code[OF example_lpdac_ok _ this, of reset_lpdac]
  show ?thesis by (simp add: init_globals_def ideal_code_def)
qed

text \<open>
  The other settings: with the excitation off the converter gets zero; a voltage out of range, infinities included,
  leaves the converter with its previous code, so the strips keep the old voltage; a voltage that is not a number passes both
  range checks and the conversion to an integer is undefined.
\<close>

theorem excitation_guards:
  "(\<not> g_excitation_voltage_on g \<longrightarrow> SetExcitationVoltage L g r = Inr (DAC_SetData L 0 r)) \<and>
   (g_excitation_voltage_on g \<and> g_excitation_voltage_per_resistor g \<noteq> NaN \<and>
      (\<forall>v. g_excitation_voltage_per_resistor g = Fin v \<longrightarrow> v < 1 / 2 \<or> 1 < v) \<longrightarrow> SetExcitationVoltage L g r = Inr r) \<and>
   (g_excitation_voltage_on g \<and> g_excitation_voltage_per_resistor g = NaN \<longrightarrow>
      SetExcitationVoltage L g r = Inl CastRange)"
proof -
  have nan: "total_voltage g = NaN" if "g_excitation_voltage_per_resistor g = NaN"
    using that by (simp add: total_voltage_def)
  have "dac_code g = Inl CastRange \<and> \<not> fp_lt (fl64 8) (total_voltage g)" if "g_excitation_voltage_per_resistor g = NaN"
    using nan[OF that] by (simp add: dac_code_def dac_output_voltage_def fl64_consts)
  then show ?thesis
    by (cases "g_excitation_voltage_per_resistor g") (auto simp: SetExcitationVoltage_def fl64_consts)
qed

theorem excitation_guards_witness:
  "SetExcitationVoltage example_lpdac (init_globals\<lparr>g_excitation_voltage_on := False\<rparr>) reset_lpdac = Inr reset_lpdac \<and>
   SetExcitationVoltage example_lpdac (init_globals\<lparr>g_excitation_voltage_per_resistor := Fin 2\<rparr>) reset_lpdac = Inr reset_lpdac \<and>
   SetExcitationVoltage example_lpdac (init_globals\<lparr>g_excitation_voltage_per_resistor := NaN\<rparr>) reset_lpdac = Inl CastRange"
proof -
  note e = excitation_guards[of _ example_lpdac reset_lpdac]
  show ?thesis
    using e[of "init_globals\<lparr>g_excitation_voltage_on := False\<rparr>"]
      e[of "init_globals\<lparr>g_excitation_voltage_per_resistor := Fin 2\<rparr>"]
      e[of "init_globals\<lparr>g_excitation_voltage_per_resistor := NaN\<rparr>"]
    by (simp add: init_globals_def DAC_SetData_def fval_def reset_lpdac_def)
qed

end
