(* ===== verification/Interrupts.thy ===== *)
theory Interrupts
  imports AdcStrip HotPlate Excitation
begin

text \<open>
  The interrupts of the running firmware as a transition system: the system tick (\<open>SysTick_Handler\<close> of \<open>main.c\<close>), the timer that triggers the converters, the
  interrupts of the two converters, and the timer that plays the hot plate samples, in any order. A handler is one step;
  theory \<open>Preemption\<close> lets handlers of higher priority interrupt others.
\<close>

section \<open>Transition systems whose steps can fault\<close>

inductive reach :: "('s \<Rightarrow> 's res \<Rightarrow> bool) \<Rightarrow> 's \<Rightarrow> 's \<Rightarrow> bool" for step s0 where
  reach_init: "reach step s0 s0"
| reach_step: "reach step s0 s \<Longrightarrow> step s (Inr s') \<Longrightarrow> reach step s0 s'"

locale faulty_system =
  fixes step :: "'s \<Rightarrow> 's res \<Rightarrow> bool"
    and inv :: "'s \<Rightarrow> bool"
    and tolerated :: "'s \<Rightarrow> fault \<Rightarrow> bool"
  assumes keeps: "inv s \<Longrightarrow> step s (Inr s') \<Longrightarrow> inv s'"
    and faults: "inv s \<Longrightarrow> step s (Inl e) \<Longrightarrow> tolerated s e"
begin

lemma reachable: "reach step s0 s \<Longrightarrow> inv s0 \<Longrightarrow> inv s"
  by (induction rule: reach.induct) (auto intro: keeps)

lemma reachable_faults: "reach step s0 s \<Longrightarrow> inv s0 \<Longrightarrow> step s (Inl e) \<Longrightarrow> tolerated s e"
  using reachable faults by blast

end

section \<open>The interrupts\<close>

definition SysTick_Handler :: "globals \<Rightarrow> globals" where
  "SysTick_Handler g = g\<lparr>g_timestamp_ms := g_timestamp_ms g + 1\<rparr>"

text \<open>
  The state has, for each converter, the number of conversions that were triggered and not yet read. A converter has a FIFO of \<open>depth\<close>
  results; a result that finds it full is lost.
\<close>

type_synonym irq_state = "globals \<times> adc_vars \<times> board \<times> nat \<times> nat"

definition triggers :: "globals \<Rightarrow> bool" where
  "triggers g \<longleftrightarrow> \<not> (g_strip_count g = 0 \<and> \<not> ModbusFlag g)"

definition pending :: "nat \<Rightarrow> globals \<Rightarrow> nat \<Rightarrow> nat" where
  "pending depth g p = (if triggers g then min depth (p + 1) else p)"

inductive irq_step :: "chip \<Rightarrow> nat \<Rightarrow> irq_state \<Rightarrow> irq_state res \<Rightarrow> bool" for C depth where
  irq_systick: "irq_step C depth (g, a, b, p, q) (Inr (SysTick_Handler g, a, b, p, q))"
| irq_ctimer2: "irq_step C depth (g, a, b, p, q)
    (rbind (CTIMER2_IRQHandler C (g, a, b)) (\<lambda>(g', a', b'). Inr (g', a', b', pending depth g p, pending depth g q)))"
| irq_adc0: "0 < p \<Longrightarrow> irq_step C depth (g, a, b, p, q) (Inr (g, ADC0_IRQHandler (L_lpadc C) w a, b, p - 1, q))"
| irq_adc1: "0 < q \<Longrightarrow> irq_step C depth (g, a, b, p, q) (Inr (g, ADC1_IRQHandler (L_lpadc C) w a, b, p, q - 1))"
| irq_ctimer4: "irq_step C depth (g, a, b, p, q) (rbind (CTIMER4_IRQHandler C (g, b)) (\<lambda>(g', b'). Inr (g', a, b', p, q)))"

text \<open>The voltage sum stays below what the ticks since the last strip and the FIFO can contribute.\<close>

definition sum_bounded :: "nat \<Rightarrow> adc_vars \<Rightarrow> nat \<Rightarrow> bool" where
  "sum_bounded depth a p \<longleftrightarrow>
     p \<le> depth \<and> unat (VoltageSum a) + 65535 * p \<le> 65535 * (unat (currentCountIndex a) + depth)"

definition playback_ok :: "globals \<Rightarrow> bool" where
  "playback_ok g \<longleftrightarrow>
     unat (g_Dac14InputIndex g) < MAX_ARRAY_SIZE \<and> g_Dac14ValueArraySize g \<noteq> 0 \<and>
     unat (g_Dac14ValueArraySize g) \<le> MAX_ARRAY_SIZE"

fun irq_inv :: "nat \<Rightarrow> irq_state \<Rightarrow> bool" where
  "irq_inv depth (g, a, b, p, q) \<longleftrightarrow>
     sampling_ready g a \<and> (ModbusFlag g \<longrightarrow> strip_list g \<noteq> []) \<and> voltages_below (2 ^ 17) g \<and> sum_bounded depth a p \<and> playback_ok g"

text \<open>
  Two weaker conditions, for the restart of a measurement that is already running, which does not clear the sums: \<open>measuring\<close> says
  nothing of the sums and voltages, \<open>sums_within\<close> bounds them with an excess \<open>extra\<close> in the voltage sum.
\<close>

fun measuring :: "irq_state \<Rightarrow> bool" where
  "measuring (g, a, b, p, q) \<longleftrightarrow> sampling_ready g a \<and> (ModbusFlag g \<longrightarrow> strip_list g \<noteq> []) \<and> playback_ok g"

fun sums_within :: "nat \<Rightarrow> nat \<Rightarrow> nat \<Rightarrow> irq_state \<Rightarrow> bool" where
  "sums_within extra vmax depth (g, a, b, p, q) \<longleftrightarrow>
     voltages_below vmax g \<and> p \<le> depth \<and>
     unat (VoltageSum a) + 65535 * p \<le> 65535 * (unat (currentCountIndex a) + depth) + extra"

lemma irq_inv_parts: "irq_inv depth s \<longleftrightarrow> measuring s \<and> sums_within 0 (2 ^ 17) depth s"
  by (cases s) (auto simp: sum_bounded_def)

text \<open>
  The only fault: at the end of a round, the conversion of a resistance that does not fit into an \<open>int\<close>. With the voltages in bounds this
  is only that of a round with an average current of zero.
\<close>

definition round_ends :: "globals \<Rightarrow> adc_vars \<Rightarrow> bool" where
  "round_ends g a \<longleftrightarrow>
     unat (currentCountIndex a) = 29 \<and> strip_list g \<noteq> [] \<and> Suc (unat (current_active_strip_index a)) = length (strip_list g)"

fun unfit_at_end :: "irq_state \<Rightarrow> bool" where
  "unfit_at_end (g, a, b, p, q) \<longleftrightarrow> round_ends g a \<and> resistance_unfit (store_voltage g a) (next_strip g a)"

fun no_current_at_end :: "irq_state \<Rightarrow> bool" where
  "no_current_at_end (g, a, b, p, q) \<longleftrightarrow>
     unat (currentCountIndex a) = 29 \<and> strip_list g \<noteq> [] \<and>
     Suc (unat (current_active_strip_index a)) = length (strip_list g) \<and>
     average_current (store_voltage g a) (next_strip g a) = 0"

definition tolerated_fault :: "irq_state \<Rightarrow> fault \<Rightarrow> bool" where
  "tolerated_fault s e \<longleftrightarrow> e = CastRange \<and> no_current_at_end s"

section \<open>Each handler keeps the invariant\<close>

lemma triggers_iff: "sampling_ready g a \<Longrightarrow> triggers g \<longleftrightarrow> strip_list g \<noteq> [] \<or> ModbusFlag g"
  using ready_length[of g a] by (auto simp: triggers_def unsigned_eq_0_iff)

lemma finish_keeps_playback [simp]:
  "playback_ok (store_voltage g a) = playback_ok g" "playback_ok (g\<lparr>resistance_array := rs\<rparr>) = playback_ok g"
  "ModbusFlag (store_voltage g a) = ModbusFlag g"
  by (simp_all add: playback_ok_def store_voltage_def)

lemma voltages_below_resistances [simp]: "voltages_below n (g\<lparr>resistance_array := rs\<rparr>) = voltages_below n g"
  by (simp add: voltages_below_def)

lemma store_voltage_below:
  assumes "voltages_below vmax g" and "unat (VoltageSum a) \<le> 30 * vmax"
  shows "voltages_below vmax (store_voltage g a)"
proof -
  have "unat (VoltageSum a div 30) \<le> vmax" using assms(2) div_le_mono[of "unat (VoltageSum a)" "30 * vmax" 30] by (simp add: unat_div)
  then show ?thesis using assms(1) by (auto simp: voltages_below_def store_voltage_def nth_update_if)
qed

lemma strip_end:
  assumes "sampling_ready g a" and "strip_list g \<noteq> []" and "unat (currentCountIndex a) = 29"
  shows "CTIMER2_IRQHandler C (g, a, b) = Inr (g', a', b') \<Longrightarrow> end_of_round (store_voltage g a) (next_strip g a) = Inr (g', a')"
    and "CTIMER2_IRQHandler C (g, a, b) = Inl e \<Longrightarrow> end_of_round (store_voltage g a) (next_strip g a) = Inl e"
proof -
  obtain b1 where b1: "CTIMER2_IRQHandler C (g, a, b) = finish_strip (g, a, b1)" using timer_finishes[OF assms] by blast
  obtain r' where f: "finish_strip (g, a, b1) =
      rbind (end_of_round (store_voltage g a) (next_strip g a)) (\<lambda>(g', a'). Inr (g', a', b1\<lparr>GPIO4 := r'\<rparr>))"
    using finish_strip_parts[OF assms(1,2), of b1] by blast
  show "CTIMER2_IRQHandler C (g, a, b) = Inr (g', a', b') \<Longrightarrow> end_of_round (store_voltage g a) (next_strip g a) = Inr (g', a')"
    "CTIMER2_IRQHandler C (g, a, b) = Inl e \<Longrightarrow> end_of_round (store_voltage g a) (next_strip g a) = Inl e"
    unfolding b1 f by (cases "end_of_round (store_voltage g a) (next_strip g a)"; auto)+
qed

text \<open>What the end of a round changes: only the resistances and the sums of the round.\<close>

lemma end_of_round_cases:
  assumes "arrays_ok g" and "g_strip_count g \<noteq> 0"
  shows "(\<exists>rs a1. length rs = 8 \<and> end_of_round g a = Inr (g\<lparr>resistance_array := rs\<rparr>, a1) \<and> VoltageSum a1 = VoltageSum a \<and>
      currentCountIndex a1 = currentCountIndex a \<and> SoftwareAverageCount a1 = SoftwareAverageCount a \<and>
      active_strip_indices a1 = active_strip_indices a \<and> current_active_strip_index a1 = current_active_strip_index a) \<or>
    end_of_round g a = Inl CastRange \<and> current_active_strip_index a = 0 \<and> resistance_unfit g a"
proof (cases "current_active_strip_index a = 0")
  case True
  then show ?thesis using calculate_cases[OF assms, of a] by (auto simp: end_of_round_def)
next
  case False
  moreover have "length (resistance_array g) = 8" using assms(1) by (simp add: arrays_ok_def)
  ultimately show ?thesis by (intro disjI1 exI[of _ "resistance_array g"] exI[of _ a]) (simp add: end_of_round_def)
qed

text \<open>The three ways of a tick: it does nothing, it counts, or it ends a strip.\<close>

lemma ctimer2_cases:
  assumes "measuring (g, a, b, p, q)"
  obtains (idle) b' where "strip_list g = []" "\<not> triggers g" "CTIMER2_IRQHandler C (g, a, b) = Inr (g, a, b')"
  | (counts) b' where "strip_list g \<noteq> []" "triggers g" "unat (currentCountIndex a) < 29"
      "CTIMER2_IRQHandler C (g, a, b) = Inr (g, a\<lparr>currentCountIndex := currentCountIndex a + 1\<rparr>, b')"
  | (ends) "strip_list g \<noteq> []" "triggers g" "unat (currentCountIndex a) = 29"
proof -
  have inv: "sampling_ready g a" "ModbusFlag g \<longrightarrow> strip_list g \<noteq> []" using assms by simp_all
  have cci: "unat (currentCountIndex a) \<le> 29" using inv(1) by (simp add: sampling_ready_def)
  show ?thesis
  proof (cases "strip_list g = []")
    case True
    then have "\<not> triggers g" using triggers_iff[OF inv(1)] inv(2) by auto
    then show ?thesis using idle[OF True] by (auto simp: CTIMER2_IRQHandler_def Let_def triggers_def)
  next
    case False
    moreover from this have "triggers g" using triggers_iff[OF inv(1)] by simp
    ultimately show ?thesis using counts ends timer_counts[OF inv(1) False, of C b] cci by fastforce
  qed
qed

lemma strip_ends:
  assumes "sampling_ready g a" and "strip_list g \<noteq> []"
  shows "sampling_ready (store_voltage g a) (next_strip g a)" and "arrays_ok (store_voltage g a)" and "g_strip_count (store_voltage g a) \<noteq> 0"
proof -
  show r: "sampling_ready (store_voltage g a) (next_strip g a)" by (rule next_strip_ready[OF assms])
  then show "arrays_ok (store_voltage g a)" "g_strip_count (store_voltage g a) \<noteq> 0"
    using ready_length[OF r] assms(2) by (auto simp: sampling_ready_def)
qed

lemma ctimer2_keeps:
  assumes "measuring (g, a, b, p, q)" and "CTIMER2_IRQHandler C (g, a, b) = Inr (g', a', b')"
  shows "measuring (g', a', b', p', q')"
    and "sums_within extra vmax depth (g, a, b, p, q) \<Longrightarrow> 65535 * (29 + depth) + extra \<le> 30 * vmax \<Longrightarrow>
      sums_within extra vmax depth (g', a', b', pending depth g p, pending depth g q)"
proof -
  have inv: "sampling_ready g a" "ModbusFlag g \<longrightarrow> strip_list g \<noteq> []" "playback_ok g" using assms(1) by simp_all
  have "measuring (g', a', b', p', q') \<and> (sums_within extra vmax depth (g, a, b, p, q) \<longrightarrow> 65535 * (29 + depth) + extra \<le> 30 * vmax \<longrightarrow>
      sums_within extra vmax depth (g', a', b', pending depth g p, pending depth g q))"
    using assms(1)
  proof (cases rule: ctimer2_cases[where C = C])
    case (idle b')
    then show ?thesis using assms by (auto simp: pending_def)
  next
    case (counts b')
    then have eq: "g' = g" "a' = a\<lparr>currentCountIndex := currentCountIndex a + 1\<rparr>" using assms(2) by auto
    have "unat (currentCountIndex a + 1) = Suc (unat (currentCountIndex a))" using counts(3) by (simp add: unat_word_ariths)
    then show ?thesis using inv counts eq by (auto simp: sampling_ready_def pending_def min_def)
  next
    case ends
    note r = strip_ends[OF inv(1) ends(1)]
    have e: "end_of_round (store_voltage g a) (next_strip g a) = Inr (g', a')" by (rule strip_end(1)[OF inv(1) ends(1,3) assms(2)])
    obtain rs where rs: "length rs = 8" "g' = (store_voltage g a)\<lparr>resistance_array := rs\<rparr>"
        "VoltageSum a' = 0" "currentCountIndex a' = 0" "SoftwareAverageCount a' = SoftwareAverageCount (next_strip g a)"
        "active_strip_indices a' = active_strip_indices (next_strip g a)"
        "current_active_strip_index a' = current_active_strip_index (next_strip g a)"
      using end_of_round_cases[OF r(2,3), of "next_strip g a"] e by (auto simp: next_strip_def)
    have "measuring (g', a', b', p', q')"
      using inv r(1) rs ends(1) by (simp add: sampling_ready_def arrays_ok_def count_ok_def n_active_def)
    moreover have "voltages_below vmax (store_voltage g a)"
      if "sums_within extra vmax depth (g, a, b, p, q)" and "65535 * (29 + depth) + extra \<le> 30 * vmax"
      using that ends(3) by (intro store_voltage_below) simp_all
    moreover have "65535 * min depth (Suc p) \<le> 65535 * depth + extra" by (simp add: trans_le_add1)
    ultimately show ?thesis using rs ends(2) by (simp add: pending_def)
  qed
  then show "measuring (g', a', b', p', q')"
    and "sums_within extra vmax depth (g, a, b, p, q) \<Longrightarrow> 65535 * (29 + depth) + extra \<le> 30 * vmax \<Longrightarrow>
      sums_within extra vmax depth (g', a', b', pending depth g p, pending depth g q)" by blast+
qed

lemma ctimer2_faults:
  assumes "measuring (g, a, b, p, q)" and "CTIMER2_IRQHandler C (g, a, b) = Inl e"
  shows "e = CastRange \<and> unfit_at_end (g, a, b, p, q)"
  using assms(1)
proof (cases rule: ctimer2_cases[where C = C])
  case ends
  have inv: "sampling_ready g a" using assms(1) by simp
  note r = strip_ends[OF inv ends(1)]
  have "end_of_round (store_voltage g a) (next_strip g a) = Inl e" by (rule strip_end(2)[OF inv ends(1,3) assms(2)])
  then have u: "e = CastRange" "current_active_strip_index (next_strip g a) = 0" "resistance_unfit (store_voltage g a) (next_strip g a)"
    using end_of_round_cases[OF r(2,3), of "next_strip g a"] by auto
  have "Suc (unat (current_active_strip_index a)) mod length (strip_list g) = 0"
    using next_index_lt[OF inv ends(1)] u(2) by (simp add: next_strip_def)
  then have "Suc (unat (current_active_strip_index a)) = length (strip_list g)"
    using inv ends(1) by (auto simp: sampling_ready_def mod_Suc split: if_splits)
  then show ?thesis using ends u by (simp add: round_ends_def)
qed (use assms(2) in auto)

text \<open>Within the bounds, a resistance that does not fit is one of a round without current.\<close>

lemma unfit_no_current:
  assumes "measuring s" and "sums_within extra vmax depth s" and "65535 * (29 + depth) + extra \<le> 30 * vmax" and "vmax \<le> 200000"
    and "unfit_at_end s"
  shows "no_current_at_end s"
proof -
  obtain g a b p q where s: "s = (g, a, b, p, q)" by (cases s)
  have inv: "sampling_ready g a" "strip_list g \<noteq> []" "round_ends g a" "resistance_unfit (store_voltage g a) (next_strip g a)"
    using assms(1,5) by (auto simp: s round_ends_def)
  have "voltages_below vmax (store_voltage g a)"
    using assms(2,3) inv(3) by (intro store_voltage_below) (simp_all add: s round_ends_def)
  then have "voltages_below 200000 (store_voltage g a)" using assms(4) voltages_below_mono by blast
  from fits_with_current[OF strip_ends(2)[OF inv(1,2)] this inv(4)] show ?thesis using inv(3) by (simp add: s round_ends_def)
qed

lemma adc0_keeps:
  assumes "measuring (g, a, b, p, q)"
  shows "measuring (g, ADC0_IRQHandler L w a, b, p', q')"
    and "sums_within extra vmax depth (g, a, b, p, q) \<Longrightarrow> 65535 * (29 + depth) + extra < 2 ^ 32 \<Longrightarrow> 0 < p \<Longrightarrow>
      sums_within extra vmax depth (g, ADC0_IRQHandler L w a, b, p - 1, q)"
proof -
  obtain ok result where res: "LPADC_GetConvResult L w (V_sens_LpadcResultConfigStruct a) = (ok, result)" by fastforce
  show "measuring (g, ADC0_IRQHandler L w a, b, p', q')"
    using assms res by (simp add: ADC0_IRQHandler_def Let_def sampling_ready_def)
  assume w: "sums_within extra vmax depth (g, a, b, p, q)" and fits: "65535 * (29 + depth) + extra < 2 ^ 32" and p: "0 < p"
  let ?v = "unat (convValue result)"
  have "?v \<le> 65535" by (rule unat_u16_bound)
  moreover have "unat (VoltageSum a) + 65535 * p < 2 ^ 32"
    using w assms fits by (auto simp: sampling_ready_def)
  ultimately have "unat (VoltageSum a + of_nat ?v) = unat (VoltageSum a) + ?v"
    using p by (simp add: unat_word_ariths unat_of_nat)
  then show "sums_within extra vmax depth (g, ADC0_IRQHandler L w a, b, p - 1, q)"
    using w p res \<open>?v \<le> 65535\<close>
    by (auto simp: ADC0_IRQHandler_def Let_def V_sens_LpadcResultShift_def sample_word split: if_splits)
qed

lemma adc1_keeps:
  "measuring (g, a, b, p, q) \<Longrightarrow> measuring (g, ADC1_IRQHandler L w a, b, p', q')"
  "sums_within extra vmax depth (g, a, b, p, q) \<Longrightarrow> sums_within extra vmax depth (g, ADC1_IRQHandler L w a, b, p, q')"
  by (auto simp: ADC1_IRQHandler_def Let_def sampling_ready_def split: prod.split if_splits)

lemma ctimer4_runs:
  assumes "measuring (g, a, b, p, q)"
  shows "\<exists>g' b'. CTIMER4_IRQHandler C (g, b) = Inr (g', b') \<and> measuring (g', a, b', p, q) \<and> ADC0 b' = ADC0 b \<and> ADC1 b' = ADC1 b \<and>
    (sums_within extra vmax depth (g, a, b, p, q) \<longrightarrow> sums_within extra vmax depth (g', a, b', p, q))"
proof -
  have p: "unat (g_Dac14InputIndex g) < length (g_Dac14Values g)" "g_Dac14ValueArraySize g \<noteq> 0"
      "unat (g_Dac14ValueArraySize g) \<le> 12500"
    using assms by (simp_all add: playback_ok_def sampling_ready_def arrays_ok_def MAX_ARRAY_SIZE_def)
  let ?i = "(g_Dac14InputIndex g + 1) mod g_Dac14ValueArraySize g"
  have "unat ?i < unat (g_Dac14ValueArraySize g)" using p(2) by (simp add: unat_mod unat_gt_0)
  then have "measuring (g\<lparr>g_Dac14InputIndex := ?i\<rparr>, a, b', p, q)" for b'
    using assms p
    by (simp add: playback_ok_def sampling_ready_def arrays_ok_def count_ok_def n_active_def strip_list_def MAX_ARRAY_SIZE_def)
  moreover have "sums_within extra vmax depth (g, a, b, p, q) \<Longrightarrow> sums_within extra vmax depth (g\<lparr>g_Dac14InputIndex := ?i\<rparr>, a, b', p, q)" for b'
    by (simp add: voltages_below_def)
  ultimately show ?thesis
    using p by (simp add: CTIMER4_IRQHandler_def dac_update_callback_def Let_def)
qed

lemma systick_keeps:
  "measuring (g, a, b, p, q) \<Longrightarrow> measuring (SysTick_Handler g, a, b, p, q)"
  "sums_within extra vmax depth (g, a, b, p, q) \<Longrightarrow> sums_within extra vmax depth (SysTick_Handler g, a, b, p, q)"
  by (simp_all add: SysTick_Handler_def sampling_ready_def arrays_ok_def count_ok_def n_active_def voltages_below_def strip_list_def
      playback_ok_def)

section \<open>All orders of the interrupts\<close>

text \<open>Whatever the sums are, and then with bounds on them.\<close>

interpretation irq_any: faulty_system "irq_step C depth" measuring "\<lambda>s e. e = CastRange \<and> unfit_at_end s"
proof unfold_locales
  fix s s'
  assume inv: "measuring s" and step: "irq_step C depth s (Inr s')"
  show "measuring s'"
    using step
  proof (cases rule: irq_step.cases)
    case (irq_ctimer2 g a b p q)
    from irq_ctimer2(2)[symmetric] show ?thesis
      using inv irq_ctimer2(1) ctimer2_keeps(1)[of g a b p q C] by (auto simp: rbind_eq_Inr simp del: measuring.simps)
  next
    case (irq_ctimer4 g a b p q)
    from irq_ctimer4(2)[symmetric] show ?thesis
      using inv irq_ctimer4(1) ctimer4_runs[of g a b p q C] by (auto simp: rbind_eq_Inr simp del: measuring.simps)
  qed (use inv in \<open>auto simp: systick_keeps adc0_keeps adc1_keeps simp del: measuring.simps\<close>)
next
  fix s e
  assume inv: "measuring s" and step: "irq_step C depth s (Inl e)"
  show "e = CastRange \<and> unfit_at_end s"
    using step
  proof (cases rule: irq_step.cases)
    case (irq_ctimer2 g a b p q)
    from irq_ctimer2(2)[symmetric] show ?thesis
      using inv irq_ctimer2(1) ctimer2_faults[of g a b p q C e] by (auto simp: rbind_eq_Inl simp del: measuring.simps)
  next
    case (irq_ctimer4 g a b p q)
    from irq_ctimer4(2)[symmetric] show ?thesis
      using inv irq_ctimer4(1) ctimer4_runs[of g a b p q C] by (auto simp: rbind_eq_Inl simp del: measuring.simps)
  qed
qed

lemma sums_within_step:
  assumes "measuring s" and "sums_within extra vmax depth s" and "65535 * (29 + depth) + extra \<le> 30 * vmax" and "vmax \<le> 200000"
    and "irq_step C depth s (Inr s')"
  shows "sums_within extra vmax depth s'"
proof -
  have fits: "65535 * (29 + depth) + extra < 2 ^ 32" using assms(3,4) by simp
  show ?thesis
    using assms(5)
  proof (cases rule: irq_step.cases)
    case (irq_ctimer2 g a b p q)
    from irq_ctimer2(2)[symmetric] show ?thesis
      using assms(1-3) irq_ctimer2(1) ctimer2_keeps(2)[of g a b p q C] by (auto simp: rbind_eq_Inr simp del: measuring.simps sums_within.simps)
  next
    case (irq_ctimer4 g a b p q)
    from irq_ctimer4(2)[symmetric] show ?thesis
      using assms(1,2) irq_ctimer4(1) ctimer4_runs[of g a b p q C extra vmax depth]
      by (auto simp: rbind_eq_Inr simp del: measuring.simps sums_within.simps)
  qed (use assms(1,2) fits in \<open>auto simp: systick_keeps adc0_keeps[unfolded One_nat_def] adc1_keeps simp del: measuring.simps sums_within.simps\<close>)
qed

definition bounded_measuring :: "nat \<Rightarrow> nat \<Rightarrow> nat \<Rightarrow> irq_state \<Rightarrow> bool" where
  "bounded_measuring extra vmax depth s \<longleftrightarrow>
     measuring s \<and> sums_within extra vmax depth s \<and> 65535 * (29 + depth) + extra \<le> 30 * vmax \<and> vmax \<le> 200000"

interpretation irq_bounded: faulty_system "irq_step C depth" "bounded_measuring extra vmax depth" tolerated_fault
proof unfold_locales
  fix s s' e
  assume inv: "bounded_measuring extra vmax depth s"
  show "irq_step C depth s (Inr s') \<Longrightarrow> bounded_measuring extra vmax depth s'"
    using inv irq_any.keeps[of s C depth s'] sums_within_step[of s extra vmax depth C s'] unfolding bounded_measuring_def by blast
  show "irq_step C depth s (Inl e) \<Longrightarrow> tolerated_fault s e"
    using inv irq_any.faults[of s C depth e] unfit_no_current[of s extra vmax depth]
    unfolding bounded_measuring_def tolerated_fault_def by blast
qed

lemma irq_inv_bounded: "depth \<le> 16 \<Longrightarrow> irq_inv depth s \<longleftrightarrow> bounded_measuring 0 (2 ^ 17) depth s"
  by (simp add: irq_inv_parts bounded_measuring_def)

interpretation irq: faulty_system "irq_step C depth" "\<lambda>s. depth \<le> 16 \<and> irq_inv depth s" tolerated_fault
proof unfold_locales
  fix s s' e
  assume inv: "depth \<le> 16 \<and> irq_inv depth s"
  show "irq_step C depth s (Inr s') \<Longrightarrow> depth \<le> 16 \<and> irq_inv depth s'"
    using inv irq_bounded.keeps[of 0 "2 ^ 17" depth s C s'] irq_inv_bounded[of depth] by blast
  show "irq_step C depth s (Inl e) \<Longrightarrow> tolerated_fault s e"
    using inv irq_bounded.faults[of 0 "2 ^ 17" depth s C e] irq_inv_bounded[of depth] by blast
qed

text \<open>
  C7: After a successful set-up, whatever the order of the interrupts and whatever words the converters return: the invariant holds in every reachable state, that is,
  the list of strips agrees with the selection, the indices stay in range, no sum overflows and every
  stored voltage is below 131072 counts; and no handler faults, no access is out of bounds and no divisor is zero, except
  for the conversion of the infinite resistance when the average current of a whole round is zero.
\<close>

theorem interrupts_safe:
  assumes "depth \<le> 16" and "irq_inv depth s0" and "reach (irq_step C depth) s0 s"
  shows "irq_inv depth s \<and> (\<forall>e. irq_step C depth s (Inl e) \<longrightarrow> e = CastRange \<and> no_current_at_end s)"
  using irq.reachable[OF assms(3)] irq.reachable_faults[OF assms(3)] assms(1,2) by (auto simp: tolerated_fault_def)

lemma one_strip_inv: "irq_inv 16 (one_strip_globals\<lparr>g_Dac14ValueArraySize := 4\<rparr>, init_adc_vars\<lparr>active_strip_indices := Some [2]\<rparr>, b, 0, 0)"
  using one_strip_ready
  by (simp add: sampling_ready_def arrays_ok_def count_ok_def n_active_def voltages_below_def strip_list_def playback_ok_def sum_bounded_def
      init_adc_vars_def one_strip_globals_def init_globals_def MAX_ARRAY_SIZE_def)

theorem interrupts_safe_witness:
  "\<exists>s. reach (irq_step example_chip 16) (one_strip_globals\<lparr>g_Dac14ValueArraySize := 4\<rparr>,
       init_adc_vars\<lparr>active_strip_indices := Some [2]\<rparr>, reset_board, 0, 0) s \<and> fst (snd (snd (snd s))) = 1 \<and> irq_inv 16 s"
proof -
  let ?g = "one_strip_globals\<lparr>g_Dac14ValueArraySize := 4\<rparr>"
  let ?a = "init_adc_vars\<lparr>active_strip_indices := Some [2]\<rparr>"
  have inv: "irq_inv 16 (?g, ?a, reset_board, 0, 0)" by (rule one_strip_inv)
  then have r: "sampling_ready ?g ?a" by simp
  have ne: "strip_list ?g \<noteq> []" using one_strip_ready(1) by (simp add: strip_list_def)
  have "unat (currentCountIndex ?a) < 29" by (simp add: init_adc_vars_def)
  from timer_counts[OF r ne this, of example_chip reset_board]
  obtain b' where "CTIMER2_IRQHandler example_chip (?g, ?a, reset_board) = Inr (?g, ?a\<lparr>currentCountIndex := currentCountIndex ?a + 1\<rparr>, b')"
    by blast
  with irq_ctimer2[of example_chip 16 ?g ?a reset_board 0 0]
  have "irq_step example_chip 16 (?g, ?a, reset_board, 0, 0)
      (Inr (?g, ?a\<lparr>currentCountIndex := currentCountIndex ?a + 1\<rparr>, b', pending 16 ?g 0, pending 16 ?g 0))" by simp
  then have reached: "reach (irq_step example_chip 16) (?g, ?a, reset_board, 0, 0)
      (?g, ?a\<lparr>currentCountIndex := currentCountIndex ?a + 1\<rparr>, b', pending 16 ?g 0, pending 16 ?g 0)"
    by (rule reach_step[OF reach_init])
  moreover have "pending 16 ?g 0 = 1" using triggers_iff[OF r] ne by (simp add: pending_def)
  moreover have "irq_inv 16 (?g, ?a\<lparr>currentCountIndex := currentCountIndex ?a + 1\<rparr>, b', pending 16 ?g 0, pending 16 ?g 0)"
    using interrupts_safe[OF _ inv reached] by (simp del: irq_inv.simps)
  ultimately show ?thesis by (intro exI conjI) (assumption, simp, assumption)
qed

end
