(* ===== verification/Crc16.thy ===== *)
theory Crc16
  imports Prelude
begin

text \<open>
  The checksum of the Modbus RTU frames: \<open>Modbus_CRC16\<close> of \<open>modbus.c\<close>, a table driven
  CRC, with the table as the source has it. The bitwise definition of the polynomial is the reference it
  is proved equal to, through the interface \<open>crc_register\<close> of a shift register that is linear over XOR.
\<close>

section \<open>The code\<close>

definition wCRCTable :: "u16 list" where
  "wCRCTable =
    [0x0000, 0xC0C1, 0xC181, 0x0140, 0xC301, 0x03C0, 0x0280, 0xC241,
     0xC601, 0x06C0, 0x0780, 0xC741, 0x0500, 0xC5C1, 0xC481, 0x0440,
     0xCC01, 0x0CC0, 0x0D80, 0xCD41, 0x0F00, 0xCFC1, 0xCE81, 0x0E40,
     0x0A00, 0xCAC1, 0xCB81, 0x0B40, 0xC901, 0x09C0, 0x0880, 0xC841,
     0xD801, 0x18C0, 0x1980, 0xD941, 0x1B00, 0xDBC1, 0xDA81, 0x1A40,
     0x1E00, 0xDEC1, 0xDF81, 0x1F40, 0xDD01, 0x1DC0, 0x1C80, 0xDC41,
     0x1400, 0xD4C1, 0xD581, 0x1540, 0xD701, 0x17C0, 0x1680, 0xD641,
     0xD201, 0x12C0, 0x1380, 0xD341, 0x1100, 0xD1C1, 0xD081, 0x1040,
     0xF001, 0x30C0, 0x3180, 0xF141, 0x3300, 0xF3C1, 0xF281, 0x3240,
     0x3600, 0xF6C1, 0xF781, 0x3740, 0xF501, 0x35C0, 0x3480, 0xF441,
     0x3C00, 0xFCC1, 0xFD81, 0x3D40, 0xFF01, 0x3FC0, 0x3E80, 0xFE41,
     0xFA01, 0x3AC0, 0x3B80, 0xFB41, 0x3900, 0xF9C1, 0xF881, 0x3840,
     0x2800, 0xE8C1, 0xE981, 0x2940, 0xEB01, 0x2BC0, 0x2A80, 0xEA41,
     0xEE01, 0x2EC0, 0x2F80, 0xEF41, 0x2D00, 0xEDC1, 0xEC81, 0x2C40,
     0xE401, 0x24C0, 0x2580, 0xE541, 0x2700, 0xE7C1, 0xE681, 0x2640,
     0x2200, 0xE2C1, 0xE381, 0x2340, 0xE101, 0x21C0, 0x2080, 0xE041,
     0xA001, 0x60C0, 0x6180, 0xA141, 0x6300, 0xA3C1, 0xA281, 0x6240,
     0x6600, 0xA6C1, 0xA781, 0x6740, 0xA501, 0x65C0, 0x6480, 0xA441,
     0x6C00, 0xACC1, 0xAD81, 0x6D40, 0xAF01, 0x6FC0, 0x6E80, 0xAE41,
     0xAA01, 0x6AC0, 0x6B80, 0xAB41, 0x6900, 0xA9C1, 0xA881, 0x6840,
     0x7800, 0xB8C1, 0xB981, 0x7940, 0xBB01, 0x7BC0, 0x7A80, 0xBA41,
     0xBE01, 0x7EC0, 0x7F80, 0xBF41, 0x7D00, 0xBDC1, 0xBC81, 0x7C40,
     0xB401, 0x74C0, 0x7580, 0xB541, 0x7700, 0xB7C1, 0xB681, 0x7640,
     0x7200, 0xB2C1, 0xB381, 0x7340, 0xB101, 0x71C0, 0x7080, 0xB041,
     0x5000, 0x90C1, 0x9181, 0x5140, 0x9301, 0x53C0, 0x5280, 0x9241,
     0x9601, 0x56C0, 0x5780, 0x9741, 0x5500, 0x95C1, 0x9481, 0x5440,
     0x9C01, 0x5CC0, 0x5D80, 0x9D41, 0x5F00, 0x9FC1, 0x9E81, 0x5E40,
     0x5A00, 0x9AC1, 0x9B81, 0x5B40, 0x9901, 0x59C0, 0x5880, 0x9841,
     0x8801, 0x48C0, 0x4980, 0x8941, 0x4B00, 0x8BC1, 0x8A81, 0x4A40,
     0x4E00, 0x8EC1, 0x8F81, 0x4F40, 0x8D01, 0x4DC0, 0x4C80, 0x8C41,
     0x4400, 0x84C1, 0x8581, 0x4540, 0x8701, 0x47C0, 0x4680, 0x8641,
     0x8201, 0x42C0, 0x4380, 0x8341, 0x4100, 0x81C1, 0x8081, 0x4040]"

text \<open>
  One turn of the loop: \<open>nTemp = *nData++ ^ wCRCWord\<close> keeps the low byte, the word is shifted and the
  table entry is mixed in.
\<close>

definition crc_step :: "u16 \<Rightarrow> u8 \<Rightarrow> u16" where
  "crc_step wCRCWord b =
     (let nTemp = b XOR ucast wCRCWord
      in drop_bit 8 wCRCWord XOR wCRCTable ! unat (nTemp AND 0xFF))"

definition crc_bytes :: "u8 list \<Rightarrow> u16" where
  "crc_bytes bs = foldl crc_step 0xFFFF bs"

text \<open>The function reads \<open>wLength\<close> bytes from \<open>nData\<close>.\<close>

definition Modbus_CRC16 :: "u8 list \<Rightarrow> nat \<Rightarrow> u16 res" where
  "Modbus_CRC16 nData wLength =
     (if wLength \<le> length nData then Inr (crc_bytes (take wLength nData)) else Inl OutOfBounds)"

lemma length_wCRCTable [simp]: "length wCRCTable = 256"
  by (simp add: wCRCTable_def)

section \<open>The reference: a linear shift register\<close>

lemma xor_eq_0_iff: "x XOR y = (0::'a::len word) \<longleftrightarrow> x = y"
  by (metis xor.right_neutral xor.assoc xor_self_eq)

lemma xor_cancel_right: "x XOR z = y XOR z \<longleftrightarrow> x = (y::'a::len word)"
  by (metis xor.right_neutral xor.assoc xor_self_eq)

lemma xor_cancel_left: "z XOR x = z XOR y \<longleftrightarrow> x = (y::'a::len word)"
  by (metis xor.commute xor_cancel_right)

text \<open>
  The interface: a one-bit step of a register that distributes over XOR and shifts a register
  whose low bits are clear. Eight steps then split into the table entry of the low
  byte and the shifted high byte.
\<close>

locale crc_register =
  fixes step :: "u16 \<Rightarrow> u16"
  assumes linear: "step (x XOR y) = step x XOR step y"
    and shifts: "\<not> bit x 0 \<Longrightarrow> step x = drop_bit 1 x"
    and kernel: "step x = 0 \<Longrightarrow> x = 0"
begin

lemma step_inj: "step x = step y \<longleftrightarrow> x = y"
  using kernel[of "x XOR y"] by (auto simp: linear xor_eq_0_iff)

lemma steps_inj: "(step ^^ n) x = (step ^^ n) y \<longleftrightarrow> x = y"
  by (induction n) (simp_all add: step_inj)

lemma steps_linear: "(step ^^ n) (x XOR y) = (step ^^ n) x XOR (step ^^ n) y"
  by (induction n arbitrary: x y) (simp_all add: linear funpow_swap1 del: funpow.simps(2) add: funpow.simps)

lemma steps_shift: "(\<And>i. i < n \<Longrightarrow> \<not> bit x i) \<Longrightarrow> (step ^^ n) x = drop_bit n x"
proof (induction n)
  case (Suc n)
  then have "(step ^^ n) x = drop_bit n x" by simp
  moreover have "\<not> bit (drop_bit n x) 0" using Suc.prems[of n] by (simp add: bit_simps)
  ultimately show ?case by (simp add: shifts drop_bit_drop_bit)
qed simp

text \<open>The law behind every table driven CRC of this width.\<close>

lemma byte_split: "(step ^^ 8) w = drop_bit 8 w XOR (step ^^ 8) (w AND mask 8)"
proof -
  define h where "h = push_bit 8 (drop_bit 8 w)"
  have "w = h XOR (w AND mask 8)"
    unfolding h_def by (rule bit_word_eqI) (auto simp: bit_simps)
  then have "(step ^^ 8) w = (step ^^ 8) h XOR (step ^^ 8) (w AND mask 8)"
    by (metis steps_linear)
  moreover have "(step ^^ 8) h = drop_bit 8 h"
    by (rule steps_shift) (simp add: h_def bit_simps)
  moreover have "drop_bit 8 h = drop_bit 8 w"
    unfolding h_def by (rule bit_word_eqI) (auto simp: bit_simps dest: bit_imp_le_length)
  ultimately show ?thesis by simp
qed

end

text \<open>The Modbus polynomial, reflected: 0xA001.\<close>

definition crc16_bit :: "u16 \<Rightarrow> u16" where
  "crc16_bit w = (if bit w 0 then drop_bit 1 w XOR 0xA001 else drop_bit 1 w)"

lemma drop_bit_xor: "drop_bit n (x XOR y) = drop_bit n x XOR (drop_bit n y :: u16)"
  by (rule bit_word_eqI) (auto simp: bit_simps)

lemma crc16_bit_kernel: "crc16_bit x = 0 \<Longrightarrow> x = 0"
proof (cases "bit x 0")
  case True
  moreover assume "crc16_bit x = 0"
  ultimately have "drop_bit 1 x = 0xA001" by (simp add: crc16_bit_def xor_eq_0_iff)
  then have "bit (drop_bit 1 x) 15" by simp
  then show ?thesis by (auto simp: bit_simps dest: bit_imp_le_length)
next
  case False
  moreover assume "crc16_bit x = 0"
  ultimately have d: "drop_bit 1 x = 0" by (simp only: crc16_bit_def if_False)
  have a: "bit (drop_bit 1 x) m = bit x (1 + m)" for m by (simp only: bit_drop_bit_eq comp_def)
  have "\<not> bit x (1 + m)" for m unfolding a[symmetric] d by simp
  with False have "\<not> bit x n" for n by (cases n) simp_all
  then show ?thesis by (intro bit_word_eqI) simp
qed

interpretation crc16: crc_register crc16_bit
proof unfold_locales
  fix x y :: u16
  show "crc16_bit (x XOR y) = crc16_bit x XOR crc16_bit y"
    unfolding crc16_bit_def drop_bit_xor
    by (rule bit_word_eqI) (cases "bit x 0"; cases "bit y 0"; simp add: bit_xor_iff; blast)
next
  fix x :: u16
  show "\<not> bit x 0 \<Longrightarrow> crc16_bit x = drop_bit 1 x"
    by (simp only: crc16_bit_def if_False)
  show "crc16_bit x = 0 \<Longrightarrow> x = 0"
    by (rule crc16_bit_kernel)
qed

text \<open>One byte of the reference: mix it into the low bits, then eight steps.\<close>

definition crc16_byte :: "u16 \<Rightarrow> u16" where
  "crc16_byte w = (crc16_bit ^^ 8) w"

definition crc16_reference :: "u8 list \<Rightarrow> u16" where
  "crc16_reference bs = foldl (\<lambda>w b. crc16_byte (w XOR ucast b)) 0xFFFF bs"

lemma crc16_byte_eval: "crc16_byte w =
    crc16_bit (crc16_bit (crc16_bit (crc16_bit (crc16_bit (crc16_bit (crc16_bit (crc16_bit w)))))))"
  by (simp add: crc16_byte_def numeral_eq_Suc)

lemma wCRCTable_entries: "wCRCTable = map (\<lambda>i. crc16_byte (of_nat i)) [0..<256]"
  unfolding wCRCTable_def
  by (simp add: upt_rec[of 0] upt_rec[of "Suc 0"] numeral_2_eq_2[symmetric],
      simp add: crc16_byte_eval crc16_bit_def)

lemma wCRCTable_nth: "wCRCTable ! unat (b :: u8) = crc16_byte (ucast b)"
proof -
  have "unat b < 256" using unsigned_less[of b, where ?'a = nat] by simp
  then show ?thesis by (simp add: wCRCTable_entries of_nat_unat)
qed

section \<open>Table and reference agree\<close>

lemma ff_mask8: "(0xFF :: u8) = mask 8"
  by (simp add: mask_eq_exp_minus_1)

lemma crc_step_reference: "crc_step w b = crc16_byte (w XOR ucast b)"
proof -
  define x where "x = w XOR (ucast b :: u16)"
  have "b XOR ucast w = (ucast x :: u8)"
    unfolding x_def by (rule bit_word_eqI) (auto simp: bit_simps)
  moreover have "x AND mask 8 = ucast (ucast x :: u8)"
    by (rule bit_word_eqI) (auto simp: bit_simps)
  moreover have "drop_bit 8 x = drop_bit 8 w"
    unfolding x_def by (rule bit_word_eqI) (auto simp: bit_simps dest: bit_imp_le_length)
  moreover have "(ucast x :: u8) AND 0xFF = ucast x"
    by (rule bit_word_eqI) (auto simp: bit_simps ff_mask8)
  ultimately show ?thesis
    using crc16.byte_split[of x]
    by (simp add: crc_step_def Let_def wCRCTable_nth x_def[symmetric] crc16_byte_def)
qed

lemma crc_bytes_reference: "crc_bytes bs = crc16_reference bs"
  by (simp add: crc_bytes_def crc16_reference_def crc_step_reference[abs_def])

section \<open>Checking a received frame\<close>

text \<open>A frame followed by its checksum, low byte first, has checksum zero.\<close>

definition with_crc :: "u8 list \<Rightarrow> u8 list" where
  "with_crc bs = bs @ [lo8 (crc_bytes bs), hi8 (crc_bytes bs)]"

lemma crc_step_zero: "b = ucast w \<Longrightarrow> crc_step w b = drop_bit 8 w"
  by (simp add: crc_step_def wCRCTable_def)

lemma crc_residue: "crc_bytes (with_crc bs) = 0"
proof -
  define c where "c = crc_bytes bs"
  have "lo8 c = ucast c" "hi8 c = ucast (drop_bit 8 c)" "drop_bit 8 (drop_bit 8 c) = 0"
    by (rule bit_word_eqI; auto simp: lo8_def hi8_def ff_mask bit_simps dest: bit_imp_le_length)+
  then have "crc_step (crc_step c (lo8 c)) (hi8 c) = 0"
    by (simp only: crc_step_zero)
  then show ?thesis
    by (simp add: with_crc_def crc_bytes_def c_def[symmetric] flip: c_def[unfolded crc_bytes_def])
qed

text \<open>A step is injective in the register and in the byte, so a changed byte is never masked.\<close>

lemma crc_step_inj_word: "crc_step w b = crc_step w' b \<longleftrightarrow> w = w'"
  by (simp only: crc_step_reference crc16_byte_def crc16.steps_inj xor_cancel_right)

lemma ucast_u16_inj: "(ucast b :: u16) = ucast b' \<longleftrightarrow> b = (b' :: u8)"
  by (metis unat_u8_u16 unsigned_word_eqI)

lemma crc_step_inj_byte: "crc_step w b = crc_step w b' \<longleftrightarrow> b = b'"
  by (simp only: crc_step_reference crc16_byte_def crc16.steps_inj xor_cancel_left ucast_u16_inj)

lemma foldl_crc_inj: "foldl crc_step w bs = foldl crc_step w' bs \<longleftrightarrow> w = w'"
  by (induction bs arbitrary: w w') (simp_all add: crc_step_inj_word)

lemma crc_detects_byte:
  "b \<noteq> b' \<Longrightarrow> crc_bytes (xs @ b # ys) \<noteq> crc_bytes (xs @ b' # ys)"
  by (simp add: crc_bytes_def foldl_crc_inj crc_step_inj_byte)

end
