(* ===== verification/Modbus.thy ===== *)
theory Modbus
  imports Globals Crc16
begin

text \<open>
  The Modbus RTU server (\<open>Modbus_files/modbus.c\<close>): the register file, the request handlers with
  their error replies, and the frame assembler that reads the UART byte by byte. A handler gets the
  256 byte receive buffer, the shared variables and the component's own state, and returns the
  new pair. Debug prints have no effect on either and are left out. Reads at constant indices 0 to
  6 are inside the 256 byte buffer of the only caller; the computed indices are bounds checked.
\<close>

section \<open>Constants and state\<close>

definition FUNC_READ_HOLDING_REGISTERS :: u8 where "FUNC_READ_HOLDING_REGISTERS = 0x03"
definition FUNC_READ_INPUT_REGISTERS :: u8 where "FUNC_READ_INPUT_REGISTERS = 0x04"
definition FUNC_WRITE_SINGLE_REGISTER :: u8 where "FUNC_WRITE_SINGLE_REGISTER = 0x06"
definition FUNC_WRITE_MULTIPLE_REGISTERS :: u8 where "FUNC_WRITE_MULTIPLE_REGISTERS = 0x10"
definition ERROR_ILLEGAL_FUNCTION :: u8 where "ERROR_ILLEGAL_FUNCTION = 0x01"
definition ERROR_ILLEGAL_DATA_ADDRESS :: u8 where "ERROR_ILLEGAL_DATA_ADDRESS = 0x02"
definition ERROR_ILLEGAL_DATA_VALUE :: u8 where "ERROR_ILLEGAL_DATA_VALUE = 0x03"
definition MODBUS_ADDRESS :: u8 where "MODBUS_ADDRESS = 0x01"
definition INPUT_REGISTER_COUNT :: nat where "INPUT_REGISTER_COUNT = 8"
definition HOLDING_REGISTER_COUNT :: nat where "HOLDING_REGISTER_COUNT = 7"
definition MODBUS_BUFFER_LENGTH :: nat where "MODBUS_BUFFER_LENGTH = 256"

lemmas modbus_consts =
  FUNC_READ_HOLDING_REGISTERS_def FUNC_READ_INPUT_REGISTERS_def FUNC_WRITE_SINGLE_REGISTER_def
  FUNC_WRITE_MULTIPLE_REGISTERS_def ERROR_ILLEGAL_FUNCTION_def ERROR_ILLEGAL_DATA_ADDRESS_def
  ERROR_ILLEGAL_DATA_VALUE_def MODBUS_ADDRESS_def INPUT_REGISTER_COUNT_def
  HOLDING_REGISTER_COUNT_def MODBUS_BUFFER_LENGTH_def

text \<open>\<open>uart_tx\<close> is what \<open>LPUART_WriteBlocking\<close> has sent on the Modbus UART, one list per call.\<close>

record modbus_state =
  inputRegisters :: "u16 list"
  holdingRegisters :: "u16 list"
  uart_tx :: "u8 list list"

definition init_modbus :: modbus_state where
  "init_modbus =
    \<lparr>inputRegisters = replicate INPUT_REGISTER_COUNT 0,
     holdingRegisters = [1, 50, 50, 21000, 1000, 8, 8],
     uart_tx = []\<rparr>"

definition regs_ok :: "modbus_state \<Rightarrow> bool" where
  "regs_ok m \<longleftrightarrow> length (inputRegisters m) = INPUT_REGISTER_COUNT \<and>
     length (holdingRegisters m) = HOLDING_REGISTER_COUNT"

lemma regs_ok_init [simp]: "regs_ok init_modbus"
  by (simp add: regs_ok_def init_modbus_def modbus_consts)

type_synonym modbus_sys = "globals \<times> modbus_state"

text \<open>\<open>LPUART_WriteBlocking(MODBUS_LPUART, data, length)\<close> sends the first \<open>length\<close> bytes.\<close>

definition modbus_write :: "u8 list \<Rightarrow> nat \<Rightarrow> modbus_state \<Rightarrow> modbus_state res" where
  "modbus_write data len m =
     (if len \<le> length data then Inr (m\<lparr>uart_tx := uart_tx m @ [take len data]\<rparr>)
      else Inl OutOfBounds)"

section \<open>Replies\<close>

definition Modbus_SendError :: "u8 \<Rightarrow> u8 \<Rightarrow> u8 \<Rightarrow> modbus_state \<Rightarrow> modbus_state res" where
  "Modbus_SendError address func errorCode m =
     (let frame = [address, func OR 0x80, errorCode, 0, 0]
      in rbind (Modbus_CRC16 frame 3) (\<lambda>crc.
         rbind (arr_set frame 3 (lo8 crc)) (\<lambda>frame.
         rbind (arr_set frame 4 (hi8 crc)) (\<lambda>frame.
           modbus_write frame 5 m))))"

text \<open>
  The reply of a read: the length is computed in an \<open>uint8_t\<close>, the buffer is a variable length array of that
  size (its initial contents are indeterminate and every byte is written), then the header, the
  registers big-endian, and the checksum low byte first.
\<close>

definition send_registers ::
  "u8 list \<Rightarrow> u16 list \<Rightarrow> u16 \<Rightarrow> u16 \<Rightarrow> modbus_state \<Rightarrow> modbus_state res" where
  "send_registers buffer registers startAddress registerCount m =
     (let n = unat registerCount;
          responseLength = (of_nat (3 + n * 2 + 2) :: u8);
          txBuffer = replicate (unat responseLength) (0 :: u8)
      in rbind (arr_set txBuffer 0 (buffer ! 0)) (\<lambda>tx.
         rbind (arr_set tx 1 (buffer ! 1)) (\<lambda>tx.
         rbind (arr_set tx 2 (of_nat (n * 2))) (\<lambda>tx.
         rbind (for_each [0..<n] (\<lambda>i tx.
                  rbind (arr_get registers (unat startAddress + i)) (\<lambda>r.
                  rbind (arr_set tx (3 + i * 2) (hi8 r)) (\<lambda>tx.
                    arr_set tx (4 + i * 2) (lo8 r)))) tx) (\<lambda>tx.
         rbind (Modbus_CRC16 tx (3 + n * 2)) (\<lambda>crc.
         rbind (arr_set tx (3 + n * 2) (lo8 crc)) (\<lambda>tx.
         rbind (arr_set tx (4 + n * 2) (hi8 crc)) (\<lambda>tx.
           modbus_write tx (unat responseLength) m))))))))"

text \<open>The reply of a write: the first six bytes of the request with a fresh checksum.\<close>

definition send_echo :: "u8 list \<Rightarrow> modbus_state \<Rightarrow> modbus_state res" where
  "send_echo buffer m =
     (let txBuffer = take 6 buffer @ [0, 0]
      in rbind (Modbus_CRC16 txBuffer 6) (\<lambda>crc.
         rbind (arr_set txBuffer 6 (lo8 crc)) (\<lambda>tx.
         rbind (arr_set tx 7 (hi8 crc)) (\<lambda>tx.
           modbus_write tx 8 m))))"

section \<open>Parameters\<close>

definition mV_to_volts :: "u16 \<Rightarrow> fp" where
  "mV_to_volts v = fp_div fl32 (fl32 (real (unat v))) (fl32 1000)"

definition set_active_strips :: "u16 \<Rightarrow> globals \<Rightarrow> globals res" where
  "set_active_strips sel g =
     for_each [0..<MAX_STRIP_COUNT] (\<lambda>i g.
       if (ucast sel :: c_int) AND push_bit i 1 \<noteq> 0
       then rbind (arr_set (active_strips g) i True) (\<lambda>a.
              Inr (g\<lparr>active_strips := a, g_strip_count := g_strip_count g + 1\<rparr>))
       else rbind (arr_set (active_strips g) i False) (\<lambda>a.
              Inr (g\<lparr>active_strips := a\<rparr>)))
     (g\<lparr>g_strip_count := 0\<rparr>)"

definition Modbus_UpdateParameters :: "u16 list \<Rightarrow> globals \<Rightarrow> globals res" where
  "Modbus_UpdateParameters buffer g =
     (if length buffer < 7 then Inl OutOfBounds
      else
        let g = (if buffer ! 0 \<noteq> 0 then g\<lparr>waveType := ucast (buffer ! 0) - 1\<rparr> else g);
            g = (if buffer ! 1 \<noteq> 0 then g\<lparr>dutyCycle := ucast (buffer ! 1)\<rparr> else g);
            g = (if buffer ! 2 \<noteq> 0 then g\<lparr>desiredFrequency := mV_to_volts (buffer ! 2)\<rparr> else g)
        in rbind (if buffer ! 3 \<noteq> 0
                  then rbind (fp_to_u32 (mV_to_volts (buffer ! 3))) (\<lambda>a. Inr (g\<lparr>desiredAmplitude := a\<rparr>))
                  else Inr g) (\<lambda>g.
           let g = (if buffer ! 4 \<noteq> 0
                    then g\<lparr>g_excitation_voltage_per_resistor := mV_to_volts (buffer ! 4)\<rparr> else g);
               g = (if buffer ! 5 \<noteq> 0 then g\<lparr>MUX_freq := buffer ! 5\<rparr> else g)
           in rbind (if buffer ! 6 \<noteq> 0 then set_active_strips (buffer ! 6) g else Inr g) (\<lambda>g.
              Inr (g\<lparr>ModbusParamChanged := True\<rparr>))))"

text \<open>
  The check of the parameter ranges. \<open>pow(2, MAX_STRIP_COUNT)\<close> is exactly 256. The function is
  declared and defined, and no code of the firmware calls it.
\<close>

definition Modbus_DataErrorPresent :: "u16 list \<Rightarrow> bool" where
  "Modbus_DataErrorPresent buffer \<longleftrightarrow>
     buffer ! 0 > 3 \<or> buffer ! 1 > 100 \<or> buffer ! 2 < 2 \<or> buffer ! 2 > 500 \<or>
     buffer ! 3 > 23000 \<or> buffer ! 4 < 500 \<or> buffer ! 4 > 1000 \<or> buffer ! 5 > 8 \<or>
     buffer ! 6 > of_nat (2 ^ MAX_STRIP_COUNT)"

section \<open>Request handlers\<close>

definition request_word :: "u8 list \<Rightarrow> nat \<Rightarrow> u16" where
  "request_word buffer i = join16 (buffer ! i) (buffer ! (i + 1))"

definition Modbus_HandleReadHoldingRegister ::
  "u8 list \<Rightarrow> u16 \<Rightarrow> modbus_sys \<Rightarrow> modbus_sys res" where
  "Modbus_HandleReadHoldingRegister buffer len s =
     (let (g, m) = s; startAddress = request_word buffer 2; registerCount = request_word buffer 4
      in rbind
          (if unat startAddress + unat registerCount \<le> HOLDING_REGISTER_COUNT
           then send_registers buffer (holdingRegisters m) startAddress registerCount m
           else Modbus_SendError (buffer ! 0) (buffer ! 1) ERROR_ILLEGAL_DATA_ADDRESS m)
          (\<lambda>m. Inr (g, m)))"

definition copy_resistances :: "globals \<Rightarrow> modbus_state \<Rightarrow> modbus_state res" where
  "copy_resistances g m =
     for_each [0..<MAX_STRIP_COUNT] (\<lambda>i m.
       rbind (arr_get (resistance_array g) i) (\<lambda>r.
       rbind (arr_set (inputRegisters m) i (ucast (fst r))) (\<lambda>regs.
         Inr (m\<lparr>inputRegisters := regs\<rparr>)))) m"

definition Modbus_HandleReadInputRegister ::
  "u8 list \<Rightarrow> u16 \<Rightarrow> modbus_sys \<Rightarrow> modbus_sys res" where
  "Modbus_HandleReadInputRegister buffer len s =
     (let (g, m) = s; startAddress = request_word buffer 2; registerCount = request_word buffer 4
      in rbind
          (if unat startAddress + unat registerCount \<le> INPUT_REGISTER_COUNT
           then rbind (copy_resistances g m) (\<lambda>m.
                  send_registers buffer (inputRegisters m) startAddress registerCount m)
           else Modbus_SendError (buffer ! 0) (buffer ! 1) ERROR_ILLEGAL_DATA_ADDRESS m)
          (\<lambda>m. Inr (g, m)))"

definition Modbus_HandleWriteSingleRegister ::
  "u8 list \<Rightarrow> u16 \<Rightarrow> modbus_sys \<Rightarrow> modbus_sys res" where
  "Modbus_HandleWriteSingleRegister buffer len s =
     (if len < 8 then Inr s
      else
        let (g, m) = s; address = request_word buffer 2; val = request_word buffer 4
        in if unat address < HOLDING_REGISTER_COUNT
           then rbind (arr_set (holdingRegisters m) (unat address) val) (\<lambda>regs.
                  let m = m\<lparr>holdingRegisters := regs\<rparr>
                  in rbind (Modbus_UpdateParameters regs g) (\<lambda>g.
                     rbind (send_echo buffer m) (\<lambda>m. Inr (g, m))))
           else rbind (Modbus_SendError (buffer ! 0) (buffer ! 1) ERROR_ILLEGAL_DATA_ADDRESS m)
                  (\<lambda>m. Inr (g, m)))"

definition write_registers :: "u8 list \<Rightarrow> nat \<Rightarrow> nat \<Rightarrow> u16 list \<Rightarrow> u16 list res" where
  "write_registers buffer startAddress n regs =
     for_each [0..<n] (\<lambda>i regs.
       rbind (arr_get buffer (7 + i * 2)) (\<lambda>h.
       rbind (arr_get buffer (8 + i * 2)) (\<lambda>l.
         arr_set regs (startAddress + i) (join16 h l)))) regs"

definition Modbus_HandleWriteMultipleRegisters ::
  "u8 list \<Rightarrow> u16 \<Rightarrow> modbus_sys \<Rightarrow> modbus_sys res" where
  "Modbus_HandleWriteMultipleRegisters buffer len s =
     (if len < 9 then Inr s
      else
        let (g, m) = s; startAddress = request_word buffer 2; registerCount = request_word buffer 4;
            byteCount = buffer ! 6;
            illegal = Modbus_SendError (buffer ! 0) (buffer ! 1) ERROR_ILLEGAL_DATA_ADDRESS m
        in if registerCount < 1 \<or> registerCount > 123 \<or> unat byteCount \<noteq> unat registerCount * 2
           then rbind illegal (\<lambda>m. Inr (g, m))
           else if unat startAddress + unat registerCount \<le> HOLDING_REGISTER_COUNT
           then rbind (write_registers buffer (unat startAddress) (unat registerCount)
                         (holdingRegisters m)) (\<lambda>regs.
                  let m = m\<lparr>holdingRegisters := regs\<rparr>
                  in rbind (Modbus_UpdateParameters regs g) (\<lambda>g.
                     rbind (send_echo buffer m) (\<lambda>m. Inr (g, m))))
           else rbind illegal (\<lambda>m. Inr (g, m)))"

definition Modbus_HandleRequest :: "u8 list \<Rightarrow> u16 \<Rightarrow> modbus_sys \<Rightarrow> modbus_sys res" where
  "Modbus_HandleRequest buffer len s =
     (if len < 8 then Inr s
      else if buffer ! 0 \<noteq> MODBUS_ADDRESS then Inr s
      else
        let functionCode = buffer ! 1
        in if functionCode = FUNC_READ_INPUT_REGISTERS then Modbus_HandleReadInputRegister buffer len s
           else if functionCode = FUNC_READ_HOLDING_REGISTERS
           then Modbus_HandleReadHoldingRegister buffer len s
           else if functionCode = FUNC_WRITE_SINGLE_REGISTER
           then Modbus_HandleWriteSingleRegister buffer len s
           else if functionCode = FUNC_WRITE_MULTIPLE_REGISTERS
           then Modbus_HandleWriteMultipleRegisters buffer len s
           else rbind (Modbus_SendError (buffer ! 0) functionCode ERROR_ILLEGAL_FUNCTION (snd s))
                  (\<lambda>m. Inr (fst s, m)))"

section \<open>The frame assembler\<close>

text \<open>
  What a call of \<open>LPUART_ReadBlocking(MODBUS_LPUART, &byte, 1)\<close> may return: a byte, or a status other than
  success (overrun, parity, framing or noise error). The call does not return while the line is silent.
\<close>

datatype rx_event = RxByte u8 | RxError

text \<open>
  The loop of \<open>HandleModbusFrame\<close> over the events of the line. \<open>Waiting\<close> is the state in which it blocks when the
  events are used up; \<open>Returned\<close> carries the events left for the next call. A byte received while the
  buffer is full is dropped, and the tests that follow are repeated with the length unchanged.
\<close>

datatype frame_result =
    Waiting "u8 list" u16 modbus_sys
  | Returned "rx_event list" modbus_sys

definition expected_length :: "u8 list \<Rightarrow> u16" where
  "expected_length rxBuffer =
     (if rxBuffer ! 1 = FUNC_WRITE_MULTIPLE_REGISTERS then 9 + ucast (rxBuffer ! 6) else 8)"

fun frame_loop :: "rx_event list \<Rightarrow> u8 list \<Rightarrow> u16 \<Rightarrow> modbus_sys \<Rightarrow> frame_result res" where
  "frame_loop [] rxBuffer len s = Inr (Waiting rxBuffer len s)"
| "frame_loop (RxError # evs) rxBuffer len s = Inr (Returned evs s)"
| "frame_loop (RxByte byte # evs) rxBuffer len s =
     (if ModbusParamChanged (fst s) then Inr (Returned evs s)
      else
        rbind (if unat len < MODBUS_BUFFER_LENGTH
               then rbind (arr_set rxBuffer (unat len) byte) (\<lambda>b. Inr (b, len + 1))
               else Inr (rxBuffer, len)) (\<lambda>(rxBuffer, len).
        if 8 \<le> len \<and> len = expected_length rxBuffer
        then rbind (Modbus_HandleRequest rxBuffer len s) (\<lambda>s. Inr (Returned evs s))
        else frame_loop evs rxBuffer len s))"

definition HandleModbusFrame :: "rx_event list \<Rightarrow> modbus_sys \<Rightarrow> frame_result res" where
  "HandleModbusFrame evs s = frame_loop evs (replicate 256 0) 0 s"

section \<open>What the replies are\<close>

text \<open>Registers travel big-endian.\<close>

definition be16 :: "u16 \<Rightarrow> u8 list" where
  "be16 r = [hi8 r, lo8 r]"

definition be16s :: "u16 list \<Rightarrow> u8 list" where
  "be16s rs = concat (map be16 rs)"

lemma length_be16s [simp]: "length (be16s rs) = 2 * length rs"
  by (induction rs) (simp_all add: be16s_def be16_def)

lemma be16s_simps [simp]: "be16s [] = []" "be16s (r # rs) = hi8 r # lo8 r # be16s rs"
  by (simp_all add: be16s_def be16_def)

lemma be16s_append [simp]: "be16s (rs @ rs') = be16s rs @ be16s rs'"
  by (simp add: be16s_def)

text \<open>Filling in the checksum of a frame whose last two bytes are reserved for it.\<close>

lemma crc_fill:
  assumes "n = length bs"
  shows "rbind (Modbus_CRC16 (bs @ [x, y]) n) (\<lambda>crc.
           rbind (arr_set (bs @ [x, y]) n (lo8 crc)) (\<lambda>tx.
           rbind (arr_set tx (Suc n) (hi8 crc)) f)) = f (with_crc bs)"
  using assms by (simp add: Modbus_CRC16_def with_crc_def list_update_append)

lemma Modbus_SendError_ok:
  "Modbus_SendError a f e m =
     Inr (m\<lparr>uart_tx := uart_tx m @ [with_crc [a, f OR 0x80, e]]\<rparr>)"
  using crc_fill[of 3 "[a, f OR 0x80, e]" 0 0 "\<lambda>tx. modbus_write tx 5 m"]
  by (simp add: Modbus_SendError_def modbus_write_def with_crc_def)

lemma send_echo_ok:
  assumes "6 \<le> length buffer"
  shows "send_echo buffer m = Inr (m\<lparr>uart_tx := uart_tx m @ [with_crc (take 6 buffer)]\<rparr>)"
  using assms crc_fill[of 6 "take 6 buffer" 0 0 "\<lambda>tx. modbus_write tx 8 m"]
  by (simp add: send_echo_def Let_def modbus_write_def with_crc_def)

lemma send_registers_loop:
  assumes "start + n \<le> length regs" and "length h = 3"
  shows "for_each [0..<n] (\<lambda>i tx.
           rbind (arr_get regs (start + i)) (\<lambda>r.
           rbind (arr_set tx (3 + i * 2) (hi8 r)) (\<lambda>tx.
             arr_set tx (4 + i * 2) (lo8 r)))) (h @ replicate (2 * n + 2) 0)
         = Inr (h @ be16s (take n (drop start regs)) @ [0, 0])"
proof -
  let ?body = "\<lambda>i tx. rbind (arr_get regs (start + i)) (\<lambda>r.
           rbind (arr_set tx (3 + i * 2) (hi8 r)) (\<lambda>tx. arr_set tx (4 + i * 2) (lo8 r)))"
  let ?P = "\<lambda>i tx. tx = h @ be16s (take i (drop start regs)) @ replicate (2 * (n - i) + 2) 0"
  have "\<exists>tx. for_each [0..<n] ?body (h @ replicate (2 * n + 2) 0) = Inr tx \<and> ?P n tx"
  proof (rule for_each_upt_inv[where P = ?P])
    fix i tx
    assume i: "i < n" and tx: "?P i tx"
    define pre where "pre = h @ be16s (take i (drop start regs))"
    have len: "length pre = 3 + i * 2" using assms i by (simp add: pre_def)
    have "replicate (2 * (n - i) + 2) (0::u8) = 0 # 0 # replicate (2 * (n - Suc i) + 2) 0"
      using i by (simp flip: replicate_Suc add: Suc_diff_Suc)
    then have "tx = pre @ 0 # 0 # replicate (2 * (n - Suc i) + 2) 0"
      using tx by (simp add: pre_def)
    moreover have "take (Suc i) (drop start regs) = take i (drop start regs) @ [regs ! (start + i)]"
      using assms i by (simp add: take_Suc_conv_app_nth)
    ultimately show "\<exists>tx'. ?body i tx = Inr tx' \<and> ?P (Suc i) tx'"
      using assms i len arr_set_append[of pre "3 + i * 2"] arr_set_append2[of pre "3 + i * 2"]
      by (simp add: pre_def)
  qed simp_all
  then show ?thesis by (auto simp: replicate_2)
qed

definition read_reply :: "u8 \<Rightarrow> u8 \<Rightarrow> u16 list \<Rightarrow> u8 list" where
  "read_reply a f rs = with_crc ([a, f, of_nat (2 * length rs)] @ be16s rs)"

lemma send_registers_ok:
  assumes "unat start + unat n \<le> length regs" and "length regs \<le> 8"
  shows "send_registers buffer regs start n m =
    Inr (m\<lparr>uart_tx := uart_tx m @
      [read_reply (buffer ! 0) (buffer ! 1) (take (unat n) (drop (unat start) regs))]\<rparr>)"
proof -
  define k where "k = unat n"
  define h where "h = [buffer ! 0, buffer ! 1, of_nat (k * 2) :: u8]"
  have k: "k \<le> 8" using assms by (simp add: k_def)
  then have len: "unat (of_nat (3 + k * 2 + 2) :: u8) = 3 + k * 2 + 2"
    by (simp only: unat_of_nat) simp
  have init: "replicate (3 + k * 2 + 2) (0::u8) = 0 # 0 # 0 # replicate (2 * k + 2) 0"
    by (simp add: numeral_3_eq_3 mult.commute)
  have loop: "for_each [0..<k] (\<lambda>i tx.
           rbind (arr_get regs (unat start + i)) (\<lambda>r.
           rbind (arr_set tx (3 + i * 2) (hi8 r)) (\<lambda>tx.
             arr_set tx (4 + i * 2) (lo8 r)))) (h @ replicate (2 * k + 2) 0)
         = Inr ((h @ be16s (take k (drop (unat start) regs))) @ [0, 0])"
    using send_registers_loop[of "unat start" k regs h] assms by (simp add: k_def h_def)
  have crc: "rbind (Modbus_CRC16 ((h @ be16s (take k (drop (unat start) regs))) @ [0, 0]) (3 + k * 2)) (\<lambda>crc.
         rbind (arr_set ((h @ be16s (take k (drop (unat start) regs))) @ [0, 0]) (3 + k * 2) (lo8 crc)) (\<lambda>tx.
         rbind (arr_set tx (4 + k * 2) (hi8 crc)) (\<lambda>tx. modbus_write tx (3 + k * 2 + 2) m)))
       = modbus_write (with_crc (h @ be16s (take k (drop (unat start) regs)))) (3 + k * 2 + 2) m"
    using crc_fill[of "3 + k * 2" "h @ be16s (take k (drop (unat start) regs))" 0 0
        "\<lambda>tx. modbus_write tx (3 + k * 2 + 2) m"] assms
    by (simp add: h_def k_def)
  show ?thesis
    using loop crc assms len
    unfolding send_registers_def Let_def k_def[symmetric] len init
    by (simp add: h_def modbus_write_def read_reply_def with_crc_def mult.commute k_def)
qed

section \<open>What a parameter update does\<close>

lemma mV_to_volts_eq: "mV_to_volts v = Fin (rnd32 (real (unat v) / 1000))"
proof -
  have "unat v \<le> 2 ^ 24" using unat_u16_bound[of v] by simp
  then have "fl32 (real (unat v)) = Fin (real (unat v))" by (rule fl32_nat)
  moreover have "fl32 1000 = Fin 1000" using fl32_nat[of 1000] by simp
  moreover have "fl32 (real (unat v) / 1000) = Fin (rnd32 (real (unat v) / 1000))"
    using unat_u16_bound[of v] by (intro fl32_finite) simp
  ultimately show ?thesis by (simp add: mV_to_volts_def)
qed

lemma rnd32_mV_nonneg: "0 \<le> rnd32 (real (unat (v :: u16)) / 1000)"
  using r32.lower[of 0] rep32_nat[of 0] by simp

lemma amplitude_volts: "fp_to_u32 (mV_to_volts v) = Inr (of_nat (unat v div 1000))"
proof -
  have "unat v < 2 ^ 24" using unat_u16_bound[of v] by simp
  then have "\<lfloor>rnd32 (real (unat v) / 1000)\<rfloor> = int (unat v div 1000)"
    using rnd32_quotient_floor[of 1000 "unat v"] by simp
  then have "trunc (rnd32 (real (unat v) / 1000)) = int (unat v div 1000)"
    using rnd32_mV_nonneg[of v] by (simp add: trunc_def)
  moreover have "unat v div 1000 < 2 ^ 32"
    by (rule le_less_trans[OF div_le_dividend]) (use unat_u16_bound[of v] in simp)
  ultimately show ?thesis
    by (simp add: mV_to_volts_eq del: of_nat_div)
qed

lemma strip_bit: "(ucast (sel :: u16) :: c_int) AND push_bit i 1 \<noteq> 0 \<longleftrightarrow> bit sel i"
  if "i < 8"
  using that by (simp only: bit_iff_and_push_bit_not_eq_0[symmetric]) (simp add: bit_simps)

definition strips_of :: "u16 \<Rightarrow> bool list" where
  "strips_of sel = map (bit sel) [0..<8]"

lemma length_strips_of [simp]: "length (strips_of sel) = 8"
  by (simp add: strips_of_def)

lemma set_active_strips_ok:
  assumes "length (active_strips g) = 8"
  shows "set_active_strips sel g =
    Inr (g\<lparr>active_strips := strips_of sel,
           g_strip_count := of_nat (length (filter id (strips_of sel)))\<rparr>)"
proof -
  let ?body = "\<lambda>i g. if (ucast sel :: c_int) AND push_bit i 1 \<noteq> 0
       then rbind (arr_set (active_strips g) i True) (\<lambda>a.
              Inr (g\<lparr>active_strips := a, g_strip_count := g_strip_count g + 1\<rparr>))
       else rbind (arr_set (active_strips g) i False) (\<lambda>a. Inr (g\<lparr>active_strips := a\<rparr>))"
  let ?pre = "\<lambda>i. map (bit sel) [0..<i]"
  let ?P = "\<lambda>i g'. g' = g\<lparr>active_strips := ?pre i @ drop i (active_strips g),
              g_strip_count := of_nat (length (filter id (?pre i)))\<rparr>"
  have "\<exists>g'. for_each [0..<8] ?body (g\<lparr>g_strip_count := 0\<rparr>) = Inr g' \<and> ?P 8 g'"
  proof (rule for_each_upt_inv[where P = ?P])
    fix i g'
    assume i: "i < 8" and P: "?P i g'"
    have "drop i (active_strips g) = active_strips g ! i # drop (Suc i) (active_strips g)"
      using i assms by (simp add: Cons_nth_drop_Suc)
    then show "\<exists>t. ?body i g' = Inr t \<and> ?P (Suc i) t"
      using P i strip_bit[OF i, of sel] arr_set_append[of "?pre i" i]
      by (simp add: add.commute del: arr_set_ok)
  qed simp_all
  then show ?thesis using assms by (auto simp: set_active_strips_def MAX_STRIP_COUNT_def strips_of_def)
qed

text \<open>The update, as one record update per non-zero register.\<close>

definition updated_globals :: "u16 list \<Rightarrow> globals \<Rightarrow> globals" where
  "updated_globals b g =
    g\<lparr>waveType := (if b ! 0 \<noteq> 0 then ucast (b ! 0) - 1 else waveType g),
      dutyCycle := (if b ! 1 \<noteq> 0 then ucast (b ! 1) else dutyCycle g),
      desiredFrequency := (if b ! 2 \<noteq> 0 then mV_to_volts (b ! 2) else desiredFrequency g),
      desiredAmplitude := (if b ! 3 \<noteq> 0 then of_nat (unat (b ! 3) div 1000) else desiredAmplitude g),
      g_excitation_voltage_per_resistor :=
        (if b ! 4 \<noteq> 0 then mV_to_volts (b ! 4) else g_excitation_voltage_per_resistor g),
      MUX_freq := (if b ! 5 \<noteq> 0 then b ! 5 else MUX_freq g),
      active_strips := (if b ! 6 \<noteq> 0 then strips_of (b ! 6) else active_strips g),
      g_strip_count := (if b ! 6 \<noteq> 0 then of_nat (length (filter id (strips_of (b ! 6))))
                        else g_strip_count g),
      ModbusParamChanged := True\<rparr>"

lemma Modbus_UpdateParameters_ok:
  assumes "length b = 7" and "length (active_strips g) = 8"
  shows "Modbus_UpdateParameters b g = Inr (updated_globals b g)"
  using assms
  by (simp add: Modbus_UpdateParameters_def amplitude_volts set_active_strips_ok updated_globals_def
      Let_def del: of_nat_div)

lemma updated_arrays_ok: "arrays_ok g \<Longrightarrow> arrays_ok (updated_globals b g)"
  by (simp add: arrays_ok_def updated_globals_def)

lemma unat_strip_count: "unat (of_nat (length (filter id (strips_of sel))) :: u8) = length (filter id (strips_of sel))"
  using length_filter_le[of id "strips_of sel"] by (intro unat_of_nat_eq) simp

lemma updated_count_ok: "count_ok g \<Longrightarrow> count_ok (updated_globals b g)"
  by (simp add: count_ok_def n_active_def updated_globals_def unat_strip_count)

lemma updated_changed [simp]: "ModbusParamChanged (updated_globals b g)"
  by (simp add: updated_globals_def)

section \<open>What the handlers do\<close>

text \<open>Each handler on each of its branches, over a receive buffer of at least nine bytes.\<close>

definition add_tx :: "u8 list \<Rightarrow> modbus_state \<Rightarrow> modbus_state" where
  "add_tx f m = m\<lparr>uart_tx := uart_tx m @ [f]\<rparr>"

definition error_reply :: "u8 \<Rightarrow> u8 \<Rightarrow> u8 \<Rightarrow> u8 list" where
  "error_reply a f e = with_crc [a, f OR 0x80, e]"

definition resistance_registers :: "globals \<Rightarrow> u16 list" where
  "resistance_registers g = map (\<lambda>r. ucast (fst r)) (resistance_array g)"

definition in_range :: "u8 list \<Rightarrow> nat \<Rightarrow> bool" where
  "in_range b n \<longleftrightarrow> unat (request_word b 2) + unat (request_word b 4) \<le> n"

lemma read_holding_ok:
  assumes "regs_ok m"
  shows "Modbus_HandleReadHoldingRegister b len (g, m) =
    Inr (g, if in_range b 7
            then add_tx (read_reply (b ! 0) (b ! 1)
                   (take (unat (request_word b 4)) (drop (unat (request_word b 2)) (holdingRegisters m)))) m
            else add_tx (error_reply (b ! 0) (b ! 1) 2) m)"
  using assms
  by (simp add: Modbus_HandleReadHoldingRegister_def in_range_def regs_ok_def modbus_consts
      send_registers_ok Modbus_SendError_ok add_tx_def error_reply_def)

lemma copy_resistances_ok:
  assumes "arrays_ok g" and "regs_ok m"
  shows "copy_resistances g m = Inr (m\<lparr>inputRegisters := resistance_registers g\<rparr>)"
proof -
  let ?body = "\<lambda>i m. rbind (arr_get (resistance_array g) i) (\<lambda>r.
       rbind (arr_set (inputRegisters m) i (ucast (fst r))) (\<lambda>regs. Inr (m\<lparr>inputRegisters := regs\<rparr>)))"
  let ?P = "\<lambda>i m'. m' = m\<lparr>inputRegisters :=
      take i (resistance_registers g) @ drop i (inputRegisters m)\<rparr>"
  have len: "length (resistance_array g) = 8" "length (inputRegisters m) = 8"
    using assms by (simp_all add: arrays_ok_def regs_ok_def modbus_consts)
  have "\<exists>m'. for_each [0..<8] ?body m = Inr m' \<and> ?P 8 m'"
  proof (rule for_each_upt_inv[where P = ?P])
    fix i m'
    assume i: "i < 8" and P: "?P i m'"
    have "drop i (inputRegisters m) = inputRegisters m ! i # drop (Suc i) (inputRegisters m)"
      using i len by (simp add: Cons_nth_drop_Suc)
    moreover have "take (Suc i) (resistance_registers g) =
        take i (resistance_registers g) @ [ucast (fst (resistance_array g ! i))]"
      using i len by (simp add: resistance_registers_def take_Suc_conv_app_nth)
    ultimately show "\<exists>t. ?body i m' = Inr t \<and> ?P (Suc i) t"
      using P i len arr_set_append[of "take i (resistance_registers g)" i]
      by (simp add: resistance_registers_def del: arr_set_ok)
  qed simp_all
  then show ?thesis
    using len by (auto simp: copy_resistances_def MAX_STRIP_COUNT_def resistance_registers_def)
qed

lemma read_input_ok:
  assumes "arrays_ok g" and "regs_ok m"
  shows "Modbus_HandleReadInputRegister b len (g, m) =
    Inr (g, if in_range b 8
            then add_tx (read_reply (b ! 0) (b ! 1)
                   (take (unat (request_word b 4)) (drop (unat (request_word b 2)) (resistance_registers g))))
                   (m\<lparr>inputRegisters := resistance_registers g\<rparr>)
            else add_tx (error_reply (b ! 0) (b ! 1) 2) m)"
  using assms
  by (simp add: Modbus_HandleReadInputRegister_def in_range_def modbus_consts arrays_ok_def
      copy_resistances_ok send_registers_ok Modbus_SendError_ok add_tx_def error_reply_def
      resistance_registers_def)

lemma write_single_ok:
  assumes "arrays_ok g" and "regs_ok m" and "6 \<le> length b" and "8 \<le> len"
  shows "Modbus_HandleWriteSingleRegister b len (g, m) =
    Inr (if unat (request_word b 2) < 7
         then let regs = (holdingRegisters m)[unat (request_word b 2) := request_word b 4]
              in (updated_globals regs g, add_tx (with_crc (take 6 b)) (m\<lparr>holdingRegisters := regs\<rparr>))
         else (g, add_tx (error_reply (b ! 0) (b ! 1) 2) m))"
  using assms
  by (simp add: Modbus_HandleWriteSingleRegister_def regs_ok_def arrays_ok_def modbus_consts Let_def
      Modbus_UpdateParameters_ok send_echo_ok Modbus_SendError_ok add_tx_def error_reply_def)

text \<open>The registers a write request carries, and the register file after it.\<close>

definition request_values :: "u8 list \<Rightarrow> nat \<Rightarrow> u16 list" where
  "request_values b n = map (\<lambda>i. join16 (b ! (7 + i * 2)) (b ! (8 + i * 2))) [0..<n]"

definition overwrite :: "nat \<Rightarrow> 'a list \<Rightarrow> 'a list \<Rightarrow> 'a list" where
  "overwrite k vs xs = take k xs @ vs @ drop (k + length vs) xs"

lemma length_overwrite [simp]: "k + length vs \<le> length xs \<Longrightarrow> length (overwrite k vs xs) = length xs"
  by (simp add: overwrite_def)

lemma write_registers_ok:
  assumes "k + n \<le> length regs" and "7 + 2 * n \<le> length b"
  shows "write_registers b k n regs = Inr (overwrite k (request_values b n) regs)"
proof -
  let ?body = "\<lambda>i regs. rbind (arr_get b (7 + i * 2)) (\<lambda>h. rbind (arr_get b (8 + i * 2)) (\<lambda>l.
         arr_set regs (k + i) (join16 h l)))"
  let ?P = "\<lambda>i rs. rs = overwrite k (request_values b i) regs"
  have "\<exists>rs. for_each [0..<n] ?body regs = Inr rs \<and> ?P n rs"
  proof (rule for_each_upt_inv[where P = ?P])
    fix i rs
    assume i: "i < n" and P: "?P i rs"
    have len: "length (take k regs @ request_values b i) = k + i"
      using i assms by (simp add: request_values_def)
    have "drop (k + i) regs = regs ! (k + i) # drop (Suc (k + i)) regs"
      using i assms by (simp add: Cons_nth_drop_Suc)
    then have "rs = (take k regs @ request_values b i) @ regs ! (k + i) # drop (Suc (k + i)) regs"
      using P i by (simp add: overwrite_def request_values_def)
    then have "arr_set rs (k + i) (join16 (b ! (7 + i * 2)) (b ! (8 + i * 2))) =
        Inr (overwrite k (request_values b (Suc i)) regs)"
      using arr_set_append[OF len] i by (simp add: overwrite_def request_values_def)
    then show "\<exists>t. ?body i rs = Inr t \<and> ?P (Suc i) t"
      using i assms by simp
  qed (simp_all add: overwrite_def request_values_def)
  then show ?thesis by (simp add: write_registers_def)
qed

text \<open>The three conditions a write of several registers must meet.\<close>

definition write_accepted :: "u8 list \<Rightarrow> bool" where
  "write_accepted b \<longleftrightarrow>
     1 \<le> unat (request_word b 4) \<and> unat (b ! 6) = unat (request_word b 4) * 2 \<and> in_range b 7"

lemma write_multiple_ok:
  assumes "arrays_ok g" and "regs_ok m" and "length b = 256" and "9 \<le> len"
  shows "Modbus_HandleWriteMultipleRegisters b len (g, m) =
    Inr (if write_accepted b
         then let regs = overwrite (unat (request_word b 2))
                           (request_values b (unat (request_word b 4))) (holdingRegisters m)
              in (updated_globals regs g, add_tx (with_crc (take 6 b)) (m\<lparr>holdingRegisters := regs\<rparr>))
         else (g, add_tx (error_reply (b ! 0) (b ! 1) 2) m))"
proof -
  define k where "k = unat (request_word b 2)"
  define n where "n = unat (request_word b 4)"
  have n: "request_word b 4 = 0 \<longleftrightarrow> n < 1" "request_word b 4 > 123 \<longleftrightarrow> n > 123"
    by (simp_all add: n_def word_less_nat_alt unat_eq_0)
  have len: "length (holdingRegisters m) = 7" "length (active_strips g) = 8"
    using assms by (simp_all add: regs_ok_def modbus_consts arrays_ok_def)
  show ?thesis
  proof (cases "write_accepted b")
    case True
    then have kn: "1 \<le> n" "unat (b ! 6) = n * 2" "k + n \<le> 7"
      by (simp_all add: write_accepted_def in_range_def k_def n_def)
    then have regs: "write_registers b k n (holdingRegisters m) =
        Inr (overwrite k (request_values b n) (holdingRegisters m))"
      using assms(3) len by (intro write_registers_ok) simp_all
    have "length (overwrite k (request_values b n) (holdingRegisters m)) = 7"
      using kn len by (simp add: request_values_def)
    then show ?thesis
      using True kn regs assms len
      by (simp add: Modbus_HandleWriteMultipleRegisters_def Let_def n
          k_def[symmetric] n_def[symmetric] modbus_consts Modbus_UpdateParameters_ok send_echo_ok add_tx_def)
  next
    case False
    then have "n < 1 \<or> unat (b ! 6) \<noteq> n * 2 \<or> \<not> k + n \<le> 7"
      by (auto simp: write_accepted_def in_range_def k_def n_def)
    then show ?thesis
      using False assms
      by (auto simp: Modbus_HandleWriteMultipleRegisters_def Let_def n not_less
          k_def[symmetric] n_def[symmetric] modbus_consts Modbus_SendError_ok add_tx_def error_reply_def)
  qed
qed

section \<open>The server as a whole\<close>

text \<open>The dispatch, with every handler replaced by what it does.\<close>

definition request_effect :: "u8 list \<Rightarrow> u16 \<Rightarrow> globals \<Rightarrow> modbus_state \<Rightarrow> modbus_sys" where
  "request_effect b len g m =
     (let k = unat (request_word b 2); n = unat (request_word b 4);
          refuse = (g, add_tx (error_reply 1 (b ! 1) 2) m);
          store = (\<lambda>regs. (updated_globals regs g,
                     add_tx (with_crc (take 6 b)) (m\<lparr>holdingRegisters := regs\<rparr>)))
      in if len < 8 \<or> b ! 0 \<noteq> 1 then (g, m)
         else if b ! 1 = 4 then
           (if in_range b 8
            then (g, add_tx (read_reply 1 4 (take n (drop k (resistance_registers g))))
                       (m\<lparr>inputRegisters := resistance_registers g\<rparr>))
            else refuse)
         else if b ! 1 = 3 then
           (if in_range b 7
            then (g, add_tx (read_reply 1 3 (take n (drop k (holdingRegisters m)))) m)
            else refuse)
         else if b ! 1 = 6 then
           (if k < 7 then store ((holdingRegisters m)[k := request_word b 4]) else refuse)
         else if b ! 1 = 16 then
           (if len < 9 then (g, m)
            else if write_accepted b
            then store (overwrite k (request_values b n) (holdingRegisters m))
            else refuse)
         else (g, add_tx (error_reply 1 (b ! 1) 1) m))"

lemma request_cases [case_names ignored read_input read_holding write_single short write_multiple other]:
  fixes len :: u16 and b :: "u8 list"
  obtains "len < 8 \<or> b ! 0 \<noteq> 1"
  | "8 \<le> len" "b ! 0 = 1" "b ! 1 = 4"
  | "8 \<le> len" "b ! 0 = 1" "b ! 1 = 3"
  | "8 \<le> len" "b ! 0 = 1" "b ! 1 = 6"
  | "8 \<le> len" "b ! 0 = 1" "b ! 1 = 16" "len < 9"
  | "8 \<le> len" "b ! 0 = 1" "b ! 1 = 16" "9 \<le> len"
  | "8 \<le> len" "b ! 0 = 1" "b ! 1 \<notin> {3, 4, 6, 16}"
  by (cases "len < 9"; cases "len < 8 \<or> b ! 0 \<noteq> 1") (auto simp: not_less)

lemma request_effect:
  assumes "arrays_ok g" and "regs_ok m" and "length b = 256"
  shows "Modbus_HandleRequest b len (g, m) = Inr (request_effect b len g m)"
proof (cases rule: request_cases[of len b])
  case ignored
  then show ?thesis by (auto simp: Modbus_HandleRequest_def request_effect_def modbus_consts)
next
  case read_input
  then show ?thesis using assms
    by (simp add: Modbus_HandleRequest_def request_effect_def Let_def read_input_ok not_less modbus_consts)
next
  case read_holding
  then show ?thesis using assms
    by (simp add: Modbus_HandleRequest_def request_effect_def Let_def read_holding_ok not_less modbus_consts)
next
  case write_single
  then show ?thesis using assms
    by (simp add: Modbus_HandleRequest_def request_effect_def Let_def write_single_ok not_less modbus_consts)
next
  case short
  then show ?thesis
    by (simp add: Modbus_HandleRequest_def request_effect_def Modbus_HandleWriteMultipleRegisters_def
        Let_def not_less modbus_consts)
next
  case write_multiple
  then show ?thesis using assms
    by (simp add: Modbus_HandleRequest_def request_effect_def Let_def write_multiple_ok not_less modbus_consts)
next
  case other
  then show ?thesis
    by (simp add: Modbus_HandleRequest_def request_effect_def Let_def Modbus_SendError_ok not_less modbus_consts
        error_reply_def add_tx_def)
qed

text \<open>Every reply is a frame of this station with a correct checksum.\<close>

definition valid_reply :: "u8 list \<Rightarrow> bool" where
  "valid_reply f \<longleftrightarrow> f ! 0 = MODBUS_ADDRESS \<and> crc_bytes f = 0"

lemma valid_with_crc: "bs \<noteq> [] \<Longrightarrow> bs ! 0 = 1 \<Longrightarrow> valid_reply (with_crc bs)"
  by (cases bs) (simp_all add: valid_reply_def crc_residue MODBUS_ADDRESS_def, simp add: with_crc_def)

lemma valid_replies:
  "valid_reply (error_reply 1 f e)" "valid_reply (read_reply 1 f rs)"
  "6 \<le> length b \<Longrightarrow> b ! 0 = 1 \<Longrightarrow> valid_reply (with_crc (take 6 b))"
  by (auto simp: error_reply_def read_reply_def intro!: valid_with_crc)

definition modbus_inv :: "modbus_sys \<Rightarrow> bool" where
  "modbus_inv s \<longleftrightarrow> arrays_ok (fst s) \<and> count_ok (fst s) \<and> regs_ok (snd s)"

text \<open>
  The interface of a request server: a request of the expected shape is handled without a fault,
  keeps the invariant, and sends at most one reply, a valid one. A whole session then has these
  properties.
\<close>

locale request_server =
  fixes handle :: "'r \<Rightarrow> 's \<Rightarrow> 's res" and shape :: "'r \<Rightarrow> bool"
    and inv :: "'s \<Rightarrow> bool" and sent :: "'s \<Rightarrow> 'f list" and ok :: "'f \<Rightarrow> bool"
  assumes serves: "inv s \<Longrightarrow> shape r \<Longrightarrow>
    \<exists>s' fs. handle r s = Inr s' \<and> inv s' \<and> sent s' = sent s @ fs \<and> length fs \<le> 1 \<and> list_all ok fs"
begin

lemma session:
  "inv s \<Longrightarrow> list_all shape rs \<Longrightarrow>
    \<exists>s' fs. for_each rs handle s = Inr s' \<and> inv s' \<and> sent s' = sent s @ fs \<and>
      length fs \<le> length rs \<and> list_all ok fs"
proof (induction rs arbitrary: s)
  case (Cons r rs)
  then obtain s1 f1 where 1: "handle r s = Inr s1" "inv s1" "sent s1 = sent s @ f1"
      "length f1 \<le> 1" "list_all ok f1"
    using serves[of s r] by auto
  from Cons.IH[OF 1(2)] Cons.prems(2) obtain s2 f2 where 2: "for_each rs handle s1 = Inr s2" "inv s2"
      "sent s2 = sent s1 @ f2" "length f2 \<le> length rs" "list_all ok f2"
    by auto
  show ?case
    using 1 2 by (intro exI[of _ s2] exI[of _ "f1 @ f2"]) auto
qed simp

end

lemma regs_ok_simps [simp]:
  "regs_ok (add_tx f m) = regs_ok m"
  "regs_ok (m\<lparr>holdingRegisters := r\<rparr>) \<longleftrightarrow> length (inputRegisters m) = 8 \<and> length r = 7"
  "regs_ok (m\<lparr>inputRegisters := r'\<rparr>) \<longleftrightarrow> length r' = 8 \<and> length (holdingRegisters m) = 7"
  by (simp_all add: regs_ok_def add_tx_def modbus_consts)

lemma request_effect_inv:
  assumes "modbus_inv (g, m)" and "length b = 256"
  shows "modbus_inv (request_effect b len g m)"
proof -
  have len: "length (overwrite k (request_values b n) (holdingRegisters m)) = 7" if "k + n \<le> 7" for k n
    using assms(1) that by (simp add: modbus_inv_def regs_ok_def modbus_consts overwrite_def request_values_def)
  have res: "length (resistance_registers g) = 8"
    using assms(1) by (simp add: modbus_inv_def arrays_ok_def modbus_consts resistance_registers_def)
  have regs: "arrays_ok g" "count_ok g" "regs_ok m" "length (inputRegisters m) = 8" "length (holdingRegisters m) = 7"
    using assms(1) by (simp_all add: modbus_inv_def regs_ok_def modbus_consts)
  show ?thesis
    using regs res len
    by (simp add: modbus_inv_def request_effect_def Let_def updated_arrays_ok updated_count_ok
        write_accepted_def in_range_def modbus_consts)
qed

lemma request_effect_reply:
  assumes "length b = 256"
  shows "\<exists>fs. uart_tx (snd (request_effect b len g m)) = uart_tx m @ fs \<and> length fs \<le> 1 \<and>
    list_all valid_reply fs"
proof (cases "len < 8 \<or> b ! 0 \<noteq> 1 \<or> (b ! 1 = 16 \<and> len < 9)")
  case True
  then show ?thesis by (auto simp: request_effect_def Let_def)
next
  case False
  then have "valid_reply (with_crc (take 6 b))" using assms by (intro valid_replies) auto
  then have "\<exists>f. uart_tx (snd (request_effect b len g m)) = uart_tx m @ [f] \<and> valid_reply f"
    using False by (simp add: request_effect_def Let_def add_tx_def valid_replies)
  then obtain f where "uart_tx (snd (request_effect b len g m)) = uart_tx m @ [f]" "valid_reply f"
    by blast
  then show ?thesis by (intro exI[of _ "[f]"]) simp
qed

interpretation modbus: request_server "\<lambda>(b, len). Modbus_HandleRequest b len"
  "\<lambda>(b, len). length b = 256" modbus_inv "\<lambda>s. uart_tx (snd s)" valid_reply
proof unfold_locales
  fix s :: modbus_sys and r :: "u8 list \<times> u16"
  obtain g m b len where sr: "s = (g, m)" "r = (b, len)" by fastforce
  assume inv: "modbus_inv s" and shape: "case r of (b, len) \<Rightarrow> length b = 256"
  then have "Modbus_HandleRequest b len (g, m) = Inr (request_effect b len g m)"
    using sr by (intro request_effect) (auto simp: modbus_inv_def)
  then show "\<exists>s' fs. (case r of (b, len) \<Rightarrow> Modbus_HandleRequest b len) s = Inr s' \<and> modbus_inv s' \<and>
      uart_tx (snd s') = uart_tx (snd s) @ fs \<and> length fs \<le> 1 \<and> list_all valid_reply fs"
    using request_effect_inv[of g m b len] request_effect_reply[of b len g m] inv shape sr by auto
qed

section \<open>Framing\<close>

text \<open>The receive buffer after the bytes \<open>xs\<close>, and the length the assembler waits for.\<close>

definition padded :: "u8 list \<Rightarrow> u8 list" where
  "padded xs = xs @ replicate (256 - length xs) 0"

definition frame_length :: "u8 list \<Rightarrow> nat" where
  "frame_length f = (if padded f ! 1 = 16 then 9 + unat (padded f ! 6) else 8)"

lemma length_padded [simp]: "length xs \<le> 256 \<Longrightarrow> length (padded xs) = 256"
  by (simp add: padded_def)

lemma padded_nth [simp]: "i < length xs \<Longrightarrow> padded xs ! i = xs ! i"
  by (simp add: padded_def nth_append)

lemma padded_snoc: "length xs < 256 \<Longrightarrow> (padded xs)[length xs := b] = padded (xs @ [b])"
proof -
  assume "length xs < 256"
  then have "replicate (256 - length xs) (0::u8) = 0 # replicate (256 - Suc (length xs)) 0"
    by (simp flip: replicate_Suc add: Suc_diff_Suc)
  then show ?thesis by (simp add: padded_def list_update_append)
qed

lemma unat_expected_length: "unat (expected_length b) = (if b ! 1 = 16 then 9 + unat (b ! 6) else 8)"
proof -
  have "unat (9 + ucast (b ! 6) :: u16) = 9 + unat (b ! 6)"
    using unat_u8_bound[of "b ! 6"] by (simp add: unat_word_ariths)
  then show ?thesis by (simp add: expected_length_def modbus_consts)
qed

text \<open>One byte of a frame that is being assembled.\<close>

lemma frame_loop_byte:
  assumes "length xs < 256" and "\<not> ModbusParamChanged (fst s)"
  shows "frame_loop (RxByte b # evs) (padded xs) (of_nat (length xs)) s =
    (let f = xs @ [b]
     in if 8 \<le> length f \<and> length f = frame_length f
        then rbind (Modbus_HandleRequest (padded f) (of_nat (length f)) s) (\<lambda>s. Inr (Returned evs s))
        else frame_loop evs (padded f) (of_nat (length f)) s)"
proof -
  have len: "unat (of_nat (length xs) :: u16) = length xs"
    using assms(1) by (intro unat_of_nat_eq) simp
  have "unat (of_nat (length (xs @ [b])) :: u16) = length (xs @ [b])"
    using assms(1) by (intro unat_of_nat_eq) simp
  then have "8 \<le> (of_nat (length (xs @ [b])) :: u16) \<longleftrightarrow> 8 \<le> length (xs @ [b])"
    and "of_nat (length (xs @ [b])) = expected_length (padded (xs @ [b])) \<longleftrightarrow>
      length (xs @ [b]) = frame_length (xs @ [b])"
    by (simp_all only: word_le_nat_alt frame_length_def word_unat_eq_iff unat_expected_length) simp
  moreover have "(of_nat (length xs) :: u16) + 1 = of_nat (length (xs @ [b]))" by simp
  ultimately show ?thesis
    using assms len by (simp add: Let_def modbus_consts padded_snoc del: of_nat_Suc)
qed

lemma frame_loop_prefix:
  assumes "\<not> ModbusParamChanged (fst s)" and "length (xs @ ys) < 8"
  shows "frame_loop (map RxByte ys @ evs) (padded xs) (of_nat (length xs)) s =
    frame_loop evs (padded (xs @ ys)) (of_nat (length (xs @ ys))) s"
  using assms(2)
proof (induction ys arbitrary: xs)
  case (Cons y ys)
  then have "frame_loop (map RxByte (y # ys) @ evs) (padded xs) (of_nat (length xs)) s =
      frame_loop (map RxByte ys @ evs) (padded (xs @ [y])) (of_nat (length (xs @ [y]))) s"
    using frame_loop_byte[OF _ assms(1), of xs y "map RxByte ys @ evs"] by (simp add: Let_def)
  then show ?case using Cons.IH[of "xs @ [y]"] Cons.prems by simp
qed simp

text \<open>Bytes none of whose prefixes is complete are collected.\<close>

lemma frame_loop_unfinished:
  assumes "\<not> ModbusParamChanged (fst s)" and "length (xs @ ys) \<le> 256"
    and "\<And>n. length xs < n \<Longrightarrow> n \<le> length (xs @ ys) \<Longrightarrow> n < 8 \<or> n \<noteq> frame_length (take n (xs @ ys))"
  shows "frame_loop (map RxByte ys @ evs) (padded xs) (of_nat (length xs)) s =
    frame_loop evs (padded (xs @ ys)) (of_nat (length (xs @ ys))) s"
  using assms(2-)
proof (induction ys arbitrary: xs)
  case (Cons y ys)
  have "length (xs @ [y]) < 8 \<or> length (xs @ [y]) \<noteq> frame_length (xs @ [y])"
    using Cons.prems(2)[of "Suc (length xs)"] by simp
  then have "frame_loop (map RxByte (y # ys) @ evs) (padded xs) (of_nat (length xs)) s =
      frame_loop (map RxByte ys @ evs) (padded (xs @ [y])) (of_nat (length (xs @ [y]))) s"
    using frame_loop_byte[OF _ assms(1), of xs y "map RxByte ys @ evs"] Cons.prems(1) by (auto simp: Let_def)
  moreover have "n < 8 \<or> n \<noteq> frame_length (take n ((xs @ [y]) @ ys))"
    if "length (xs @ [y]) < n" "n \<le> length ((xs @ [y]) @ ys)" for n
    using Cons.prems(2)[of n] that by simp
  ultimately show ?case using Cons.IH[of "xs @ [y]"] Cons.prems(1) by simp
qed simp

text \<open>A frame whose proper prefixes are not complete is collected and handled.\<close>

lemma frame_loop_collect:
  assumes "\<not> ModbusParamChanged (fst s)" and "ys \<noteq> []" and "length (xs @ ys) \<le> 256"
    and "8 \<le> length (xs @ ys)" "length (xs @ ys) = frame_length (xs @ ys)"
    and "\<And>n. length xs < n \<Longrightarrow> n < length (xs @ ys) \<Longrightarrow> n < 8 \<or> n \<noteq> frame_length (take n (xs @ ys))"
  shows "frame_loop (map RxByte ys @ evs) (padded xs) (of_nat (length xs)) s =
    rbind (Modbus_HandleRequest (padded (xs @ ys)) (of_nat (length (xs @ ys))) s)
      (\<lambda>s. Inr (Returned evs s))"
  using assms(2-)
proof (induction ys arbitrary: xs)
  case (Cons y ys)
  have lt: "length xs < 256" using Cons.prems by simp
  show ?case
  proof (cases "ys = []")
    case True
    then show ?thesis
      using Cons.prems frame_loop_byte[OF lt assms(1), of y evs] by (simp add: Let_def)
  next
    case False
    have "length (xs @ [y]) < 8 \<or> length (xs @ [y]) \<noteq> frame_length (xs @ [y])"
      using Cons.prems(5)[of "Suc (length xs)"] False by simp
    then have "frame_loop (map RxByte (y # ys) @ evs) (padded xs) (of_nat (length xs)) s =
        frame_loop (map RxByte ys @ evs) (padded (xs @ [y])) (of_nat (length (xs @ [y]))) s"
      using frame_loop_byte[OF lt assms(1), of y "map RxByte ys @ evs"] by (auto simp: Let_def)
    moreover have "n < 8 \<or> n \<noteq> frame_length (take n ((xs @ [y]) @ ys))"
      if "length (xs @ [y]) < n" "n < length ((xs @ [y]) @ ys)" for n
      using Cons.prems(5)[of n] that by simp
    ultimately show ?thesis
      using Cons.IH[of "xs @ [y]"] Cons.prems False by simp
  qed
qed simp

lemma HandleModbusFrame_frame:
  assumes "\<not> ModbusParamChanged (fst s)" and "8 \<le> length f" "length f \<le> 256"
    and "length f = frame_length f"
  shows "HandleModbusFrame (map RxByte f @ evs) s =
    rbind (Modbus_HandleRequest (padded f) (of_nat (length f)) s) (\<lambda>s. Inr (Returned evs s))"
proof -
  have "n < 8 \<or> n \<noteq> frame_length (take n f)" if "n < length f" for n
  proof (cases "8 \<le> n")
    case True
    then have "padded (take n f) ! 1 = f ! 1" "padded (take n f) ! 6 = f ! 6"
      using that by simp_all
    then have "frame_length (take n f) = frame_length f"
      using assms(2) by (simp add: frame_length_def)
    then show ?thesis using that assms(4) by simp
  qed simp
  then have "frame_loop (map RxByte f @ evs) (padded []) 0 s =
    rbind (Modbus_HandleRequest (padded f) (of_nat (length f)) s) (\<lambda>s. Inr (Returned evs s))"
    using frame_loop_collect[of s f "[]" evs] assms by fastforce
  then show ?thesis by (simp add: HandleModbusFrame_def padded_def)
qed

text \<open>
  A write request that announces 248 or more bytes has an expected length beyond the buffer: the
  assembler never completes it, whatever bytes follow.
\<close>

definition oversize :: "u8 list \<Rightarrow> bool" where
  "oversize buf \<longleftrightarrow> buf ! 1 = 16 \<and> 248 \<le> unat (buf ! 6)"

lemma frame_loop_oversize:
  assumes "\<not> ModbusParamChanged (fst s)" and "length buf = 256" and "unat len \<le> 256"
    and "7 \<le> unat len" and "oversize buf"
  shows "\<exists>buf' len'. frame_loop (map RxByte bs @ evs) buf len s = frame_loop evs buf' len' s"
  using assms(2-)
proof (induction bs arbitrary: buf len)
  case (Cons b bs)
  define buf2 where "buf2 = (if unat len < 256 then buf[unat len := b] else buf)"
  define len2 where "len2 = (if unat len < 256 then len + 1 else len)"
  have len2: "unat len2 \<le> 256" "7 \<le> unat len2"
    using Cons.prems(2,3) by (auto simp: len2_def unat_word_ariths)
  have buf2: "length buf2 = 256" "oversize buf2"
    using Cons.prems by (auto simp: buf2_def oversize_def)
  then have "unat (expected_length buf2) > 256"
    by (auto simp: unat_expected_length oversize_def)
  then have "len2 \<noteq> expected_length buf2" using len2 by auto
  then have "frame_loop (map RxByte (b # bs) @ evs) buf len s = frame_loop (map RxByte bs @ evs) buf2 len2 s"
    using assms(1) Cons.prems(1) by (auto simp: buf2_def len2_def modbus_consts)
  then show ?case using Cons.IH[OF buf2(1) len2 buf2(2)] by simp
qed auto

text \<open>Bytes that are not, and do not begin with, a complete frame: a line error after them drops them.\<close>

definition unfinished :: "u8 list \<Rightarrow> bool" where
  "unfinished p \<longleftrightarrow> length p < 8 \<or> p ! 1 = 16 \<and> (length p < 9 + unat (p ! 6) \<or> 248 \<le> unat (p ! 6))"

lemma unfinished_collected:
  assumes "\<not> ModbusParamChanged (fst s)" and "unfinished p"
  shows "\<exists>buf len. frame_loop (map RxByte p @ evs) (padded []) (of_nat (length ([] :: u8 list))) s = frame_loop evs buf len s"
proof (cases "8 \<le> length p \<and> 248 \<le> unat (p ! 6)")
  case True
  then have o: "oversize (padded (take 7 p))" using assms(2) by (simp add: oversize_def unfinished_def)
  have "frame_loop (map RxByte (take 7 p) @ map RxByte (drop 7 p) @ evs) (padded []) (of_nat (length ([] :: u8 list))) s =
      frame_loop (map RxByte (drop 7 p) @ evs) (padded (take 7 p)) 7 s"
    using frame_loop_prefix[of s "[]" "take 7 p" "map RxByte (drop 7 p) @ evs"] assms(1) True by (simp add: min_def)
  moreover obtain buf len where "frame_loop (map RxByte (drop 7 p) @ evs) (padded (take 7 p)) 7 s = frame_loop evs buf len s"
    using frame_loop_oversize[OF assms(1) _ _ _ o, of 7 "drop 7 p" evs] True by auto
  ultimately show ?thesis by (metis append.assoc append_take_drop_id map_append)
next
  case False
  then have len: "length p \<le> 256" using assms(2) by (auto simp: unfinished_def)
  have "n < 8 \<or> n \<noteq> frame_length (take n ([] @ p))" if "n \<le> length ([] @ p)" for n
  proof (cases "8 \<le> n")
    case True
    then have "padded (take n p) ! 1 = p ! 1" "padded (take n p) ! 6 = p ! 6" using that by simp_all
    then show ?thesis using False True that assms(2) by (auto simp: frame_length_def unfinished_def)
  qed simp
  then show ?thesis using frame_loop_unfinished[OF assms(1), of "[]" p evs] len by auto
qed

lemma unfinished_error:
  assumes "\<not> ModbusParamChanged (fst s)" and "unfinished p"
  shows "HandleModbusFrame (map RxByte p @ RxError # es) s = Inr (Returned es s)"
  using unfinished_collected[OF assms, of "RxError # es"] by (auto simp: HandleModbusFrame_def padded_def)

section \<open>Properties of the server\<close>

text \<open>A request in the receive buffer: its bytes, and zeros up to the size of the buffer.\<close>

definition in_buffer :: "u8 list \<times> u16 \<Rightarrow> bool" where
  "in_buffer r \<longleftrightarrow> length (fst r) = 256"

text \<open>
  C4: whatever sequence of requests arrives, no handler reads or writes outside an array, the register
  file and the shared variables keep their shape and \<open>g_strip_count\<close> stays the number of selected
  strips; every request is answered at most once, with a frame of this station whose checksum is right.
\<close>

theorem modbus_session_safe:
  assumes "modbus_inv s" and "list_all in_buffer rs"
  shows "\<exists>s' fs. for_each rs (\<lambda>(b, len). Modbus_HandleRequest b len) s = Inr s' \<and> modbus_inv s' \<and>
    uart_tx (snd s') = uart_tx (snd s) @ fs \<and> length fs \<le> length rs \<and> list_all valid_reply fs"
proof -
  have "list_all (\<lambda>(b, len). length b = 256) rs"
    using assms(2) by (simp add: in_buffer_def[abs_def] case_prod_unfold)
  from modbus.session[OF assms(1) this] show ?thesis .
qed

lemma modbus_inv_init: "modbus_inv (init_globals, init_modbus)"
  by (simp add: modbus_inv_def)

theorem modbus_session_safe_witness:
  "\<exists>s' fs. for_each [(padded [1, 3, 0, 0, 0, 7, 0, 0], 8), (padded [1, 6, 0, 6, 1, 0, 0, 0], 8)]
      (\<lambda>(b, len). Modbus_HandleRequest b len) (init_globals, init_modbus) = Inr s' \<and> modbus_inv s' \<and>
    uart_tx (snd s') = [] @ fs \<and> length fs \<le> 2 \<and> list_all valid_reply fs"
  using modbus_session_safe[OF modbus_inv_init, of "[(padded [1, 3, 0, 0, 0, 7, 0, 0], 8), (padded [1, 6, 0, 6, 1, 0, 0, 0], 8)]"]
  by (simp add: in_buffer_def init_modbus_def numeral_2_eq_2)

text \<open>
  C10: the request dispatcher and its handlers compute \<open>request_effect\<close>: which requests are ignored, which are
  refused with which exception, which registers a read returns, and what a write changes.
\<close>

theorem handle_request_effect:
  assumes "arrays_ok g" and "regs_ok m" and "length b = 256"
  shows "Modbus_HandleRequest b len (g, m) = Inr (request_effect b len g m)"
  using assms by (rule request_effect)

theorem handle_request_effect_witness:
  "Modbus_HandleRequest (padded [1, 6, 0, 9, 1, 0, 0, 0]) 8 (init_globals, init_modbus) =
    Inr (init_globals, add_tx (error_reply 1 6 2) init_modbus)"
  using handle_request_effect[of init_globals init_modbus "padded [1, 6, 0, 9, 1, 0, 0, 0]" 8]
  by (simp add: request_effect_def Let_def request_word_def join16_def)

lemma read_reply_values:
  "read_reply a f (request_values b n) = with_crc ([a, f, of_nat (2 * n)] @ take (2 * n) (drop 7 b))"
  if "7 + 2 * n \<le> length b"
proof -
  have "be16s (request_values b n) = take (2 * n) (drop 7 b)"
    using that
  proof (induction n)
    case (Suc n)
    have "take (2 * Suc n) (drop 7 b) = take (2 * n) (drop 7 b) @ [b ! (7 + n * 2), b ! (8 + n * 2)]"
      using Suc.prems by (simp add: take_Suc_conv_app_nth mult.commute)
    then show ?case using Suc by (simp add: request_values_def)
  qed (simp add: request_values_def)
  then show ?thesis by (simp add: read_reply_def request_values_def)
qed

lemma take_drop_overwrite:
  "k + length vs \<le> length xs \<Longrightarrow> take (length vs) (drop k (overwrite k vs xs)) = vs"
  by (simp add: overwrite_def)

text \<open>
  C18: reading back what was written. After an accepted write of several registers, a read of the same registers is
  answered with exactly the data bytes of the write request, in the same order.
\<close>

theorem write_then_read:
  assumes "modbus_inv s" and "length w = 256" and "9 \<le> wlen" and "w ! 0 = 1" "w ! 1 = 16"
    and "write_accepted w" and "length r = 256" and "8 \<le> rlen" and "take 6 r = [1, 3] @ take 4 (drop 2 w)"
  shows "\<exists>s' f. rbind (Modbus_HandleRequest w wlen s) (Modbus_HandleRequest r rlen) = Inr s' \<and>
    uart_tx (snd s') = uart_tx (snd s) @ [with_crc (take 6 w), f] \<and>
    f = with_crc ([1, 3, w ! 6] @ take (unat (w ! 6)) (drop 7 w))"
proof -
  obtain g m where s: "s = (g, m)" by fastforce
  define k where "k = unat (request_word w 2)"
  define n where "n = unat (request_word w 4)"
  have ok: "arrays_ok g" "regs_ok m" "length (holdingRegisters m) = 7"
    using assms(1) s by (simp_all add: modbus_inv_def regs_ok_def modbus_consts)
  have kn: "k + n \<le> 7" "unat (w ! 6) = 2 * n"
    using assms(6) by (simp_all add: write_accepted_def in_range_def k_def n_def)
  have nth: "r ! i = ([1, 3] @ take 4 (drop 2 w)) ! i" if "i < 6" for i
    using assms(9) that by (metis nth_take)
  have r: "r ! 0 = 1" "r ! 1 = 3" "request_word r 2 = request_word w 2" "request_word r 4 = request_word w 4"
    using nth[of 0] nth[of 1] nth[of 2] nth[of 3] nth[of 4] nth[of 5] assms(2)
    by (simp_all add: request_word_def)
  define regs where "regs = overwrite k (request_values w n) (holdingRegisters m)"
  have regs: "length regs = 7" "take n (drop k regs) = request_values w n"
    using kn ok take_drop_overwrite[of k "request_values w n" "holdingRegisters m"]
    by (simp_all add: regs_def request_values_def)
  have "wlen \<ge> 8" using assms(3) by (rule order_trans[rotated]) simp
  then have 1: "Modbus_HandleRequest w wlen s =
      Inr (updated_globals regs g, add_tx (with_crc (take 6 w)) (m\<lparr>holdingRegisters := regs\<rparr>))"
    using request_effect[of g m w wlen] ok assms s
    by (simp add: request_effect_def Let_def not_less regs_def k_def n_def)
  have 2: "Modbus_HandleRequest r rlen (updated_globals regs g,
        add_tx (with_crc (take 6 w)) (m\<lparr>holdingRegisters := regs\<rparr>)) =
      Inr (updated_globals regs g, add_tx (read_reply 1 3 (request_values w n))
        (add_tx (with_crc (take 6 w)) (m\<lparr>holdingRegisters := regs\<rparr>)))"
    using request_effect[of "updated_globals regs g" "add_tx (with_crc (take 6 w)) (m\<lparr>holdingRegisters := regs\<rparr>)" r rlen]
      ok assms(7,8) r regs kn
    by (simp add: request_effect_def Let_def not_less updated_arrays_ok regs_ok_def modbus_consts
        in_range_def k_def n_def add_tx_def)
  have "of_nat (2 * n) = w ! 6" using kn(2) by (metis of_nat_unat ucast_id)
  moreover have "7 + 2 * n \<le> length w" using kn assms(2) by simp
  ultimately have "read_reply 1 3 (request_values w n) =
      with_crc ([1, 3, w ! 6] @ take (unat (w ! 6)) (drop 7 w))"
    using kn(2) by (simp only: read_reply_values)
  then show ?thesis using 1 2 s by (simp add: add_tx_def)
qed

theorem write_then_read_witness:
  "\<exists>s' f. rbind (Modbus_HandleRequest (padded [1, 16, 0, 5, 0, 2, 4, 0, 9, 0, 3, 0, 0]) 13 (init_globals, init_modbus))
      (Modbus_HandleRequest (padded [1, 3, 0, 5, 0, 2, 0, 0]) 8) = Inr s' \<and>
    uart_tx (snd s') = [with_crc [1, 16, 0, 5, 0, 2], f] \<and> f = with_crc [1, 3, 4, 0, 9, 0, 3]"
  using write_then_read[OF modbus_inv_init, of "padded [1, 16, 0, 5, 0, 2, 4, 0, 9, 0, 3, 0, 0]" 13
      "padded [1, 3, 0, 5, 0, 2, 0, 0]" 8]
  by (simp add: write_accepted_def in_range_def request_word_def join16_def init_modbus_def padded_def)

text \<open>
  Framing: a frame of the length its own header announces (8 bytes, or 9 plus the byte count for a write of
  several registers) is collected from the line whatever its first bytes look like, is handed to the request
  dispatcher exactly once with its length, and the call returns leaving the following bytes on the line.
\<close>

theorem frame_handled:
  assumes "\<not> ModbusParamChanged (fst s)" and "8 \<le> length f" "length f \<le> 256"
    and "length f = (if f ! 1 = 16 then 9 + unat (f ! 6) else 8)"
  shows "HandleModbusFrame (map RxByte f @ evs) s =
    rbind (Modbus_HandleRequest (padded f) (of_nat (length f)) s) (\<lambda>s. Inr (Returned evs s))"
  using assms by (intro HandleModbusFrame_frame) (simp_all add: frame_length_def)

theorem frame_handled_witness:
  "HandleModbusFrame (map RxByte [1, 16, 0, 5, 0, 1, 2, 0, 9, 0, 0] @ [RxByte 1]) (init_globals, init_modbus) =
    rbind (Modbus_HandleRequest (padded [1, 16, 0, 5, 0, 1, 2, 0, 9, 0, 0]) 11 (init_globals, init_modbus))
      (\<lambda>s. Inr (Returned [RxByte 1] s))"
  using frame_handled[of "(init_globals, init_modbus)" "[1, 16, 0, 5, 0, 1, 2, 0, 9, 0, 0]" "[RxByte 1]"]
  by simp

text \<open>
  C30: a write of several registers that announces 248 or more data bytes is never completed: the expected length lies
  beyond the 256 byte buffer, so the assembler goes on reading whatever follows, and the state does not change.
\<close>

theorem oversize_frame_never_completes:
  assumes "\<not> ModbusParamChanged (fst s)" and "length f = 7" and "f ! 1 = 16" and "248 \<le> unat (f ! 6)"
  shows "\<exists>buf len. HandleModbusFrame (map RxByte (f @ bs)) s = Inr (Waiting buf len s)"
proof -
  have "frame_loop (map RxByte f @ map RxByte bs) (padded []) (of_nat (length ([] :: u8 list))) s =
      frame_loop (map RxByte bs) (padded f) 7 s"
    using frame_loop_prefix[of s "[]" f "map RxByte bs"] assms by simp
  moreover have "\<exists>buf len. frame_loop (map RxByte bs) (padded f) 7 s = Inr (Waiting buf len s)"
    using frame_loop_oversize[of s "padded f" 7 bs "[]"] assms by (auto simp: oversize_def)
  ultimately show ?thesis by (simp add: HandleModbusFrame_def padded_def)
qed

theorem oversize_frame_never_completes_witness:
  "\<exists>buf len. HandleModbusFrame (map RxByte ([1, 16, 0, 0, 0, 7, 250] @ replicate 1000 0)) (init_globals, init_modbus) =
    Inr (Waiting buf len (init_globals, init_modbus))"
  using oversize_frame_never_completes[of "(init_globals, init_modbus)" "[1, 16, 0, 0, 0, 7, 250]" "replicate 1000 0"]
  by simp

text \<open>
  C31: the effect of a parameter update on the shared variables: a zero register leaves its parameter alone; frequency and excitation
  voltage are the correctly rounded thousandths; the amplitude is cut to whole volts; the selected strips are the low eight bits of
  the last register and \<open>g_strip_count\<close> is their number; the update is always announced; and every other shared variable is as before.
\<close>

theorem update_parameters_effect:
  assumes "length b = 7" and "arrays_ok g" and "count_ok g"
  shows "\<exists>g'. Modbus_UpdateParameters b g = Inr g' \<and> arrays_ok g' \<and> count_ok g' \<and> ModbusParamChanged g' \<and>
    waveType g' = (if b ! 0 = 0 then waveType g else ucast (b ! 0) - 1) \<and>
    dutyCycle g' = (if b ! 1 = 0 then dutyCycle g else ucast (b ! 1)) \<and>
    desiredFrequency g' = (if b ! 2 = 0 then desiredFrequency g else Fin (rnd32 (real (unat (b ! 2)) / 1000))) \<and>
    desiredAmplitude g' = (if b ! 3 = 0 then desiredAmplitude g else of_nat (unat (b ! 3) div 1000)) \<and>
    g_excitation_voltage_per_resistor g' = (if b ! 4 = 0 then g_excitation_voltage_per_resistor g
      else Fin (rnd32 (real (unat (b ! 4)) / 1000))) \<and>
    MUX_freq g' = (if b ! 5 = 0 then MUX_freq g else b ! 5) \<and>
    active_strips g' = (if b ! 6 = 0 then active_strips g else map (bit (b ! 6)) [0..<8]) \<and>
    g' = g\<lparr>waveType := waveType g', dutyCycle := dutyCycle g', desiredFrequency := desiredFrequency g', desiredAmplitude := desiredAmplitude g',
      g_excitation_voltage_per_resistor := g_excitation_voltage_per_resistor g', MUX_freq := MUX_freq g', active_strips := active_strips g',
      g_strip_count := g_strip_count g', ModbusParamChanged := True\<rparr>"
proof -
  have "Modbus_UpdateParameters b g = Inr (updated_globals b g)"
    using assms by (intro Modbus_UpdateParameters_ok) (simp_all add: arrays_ok_def)
  moreover have "arrays_ok (updated_globals b g)" "count_ok (updated_globals b g)"
    using assms by (simp_all add: updated_arrays_ok updated_count_ok)
  ultimately show ?thesis
    by (simp add: updated_globals_def mV_to_volts_eq strips_of_def)
qed

theorem update_parameters_effect_witness:
  "\<exists>g'. Modbus_UpdateParameters [1, 0, 50, 21500, 1000, 8, 8] init_globals = Inr g' \<and>
    desiredAmplitude g' = 21 \<and> count_ok g' \<and> ModbusFlag g' = ModbusFlag init_globals \<and> active_strips g' = [False, False, False, True, False, False, False, False]"
proof -
  have "map (bit (8 :: u16)) [0..<8] = [False, False, False, True, False, False, False, False]"
    by code_simp
  moreover obtain g' where g': "Modbus_UpdateParameters [1, 0, 50, 21500, 1000, 8, 8] init_globals = Inr g'" "count_ok g'" "desiredAmplitude g' = 21"
      "active_strips g' = map (bit (8 :: u16)) [0..<8]"
      "g' = init_globals\<lparr>waveType := waveType g', dutyCycle := dutyCycle g', desiredFrequency := desiredFrequency g',
        desiredAmplitude := desiredAmplitude g', g_excitation_voltage_per_resistor := g_excitation_voltage_per_resistor g',
        MUX_freq := MUX_freq g', active_strips := active_strips g', g_strip_count := g_strip_count g', ModbusParamChanged := True\<rparr>"
    using update_parameters_effect[of "[1, 0, 50, 21500, 1000, 8, 8]" init_globals] by auto
  moreover have "ModbusFlag g' = ModbusFlag init_globals" by (subst g'(5)) simp
  ultimately show ?thesis by auto
qed

lemma request_effect_cong:
  "take n b = take n b' \<Longrightarrow> 6 \<le> n \<Longrightarrow> n \<le> length b \<Longrightarrow> n \<le> length b' \<Longrightarrow>
    (b ! 1 = 16 \<Longrightarrow> n = 7 + 2 * unat (request_word b 4) \<or> \<not> write_accepted b \<and> 7 \<le> n) \<Longrightarrow>
    request_effect b len g m = request_effect b' len g m"
proof -
  assume eq: "take n b = take n b'" and n: "6 \<le> n" "n \<le> length b" "n \<le> length b'"
    and w: "b ! 1 = 16 \<Longrightarrow> n = 7 + 2 * unat (request_word b 4) \<or> \<not> write_accepted b \<and> 7 \<le> n"
  have nth: "b' ! i = b ! i" if "i < n" for i
    using eq that by (metis nth_take)
  have words: "request_word b' 2 = request_word b 2" "request_word b' 4 = request_word b 4"
      "b' ! 0 = b ! 0" "b' ! 1 = b ! 1" "take 6 b' = take 6 b" "in_range b' k = in_range b k" for k
    using nth n eq by (simp_all add: request_word_def in_range_def) (metis min.absorb1 take_take)
  show ?thesis
  proof (cases "b ! 1 = 16")
    case True
    then have "7 \<le> n" using w by auto
    then have acc: "write_accepted b' = write_accepted b"
      using nth words by (simp add: write_accepted_def)
    have "request_values b' (unat (request_word b 4)) = request_values b (unat (request_word b 4))"
      if "write_accepted b"
      using that w True nth by (auto simp: request_values_def)
    then show ?thesis
      using True words acc by (simp add: request_effect_def Let_def)
  next
    case False
    then show ?thesis using words by (simp add: request_effect_def Let_def)
  qed
qed

text \<open>
  C32: the two checksum bytes of a request are never looked at: two requests that differ only in them are served
  alike. Only the fields before them decide, for every function code.
\<close>

theorem request_crc_ignored:
  assumes "arrays_ok g" and "regs_ok m" and "length f \<le> 254"
    and "length f = (if f ! 1 = 16 then 7 + unat (f ! 6) else 6)"
  shows "Modbus_HandleRequest (padded (f @ [c1, c2])) len (g, m) =
    Modbus_HandleRequest (padded (f @ [d1, d2])) len (g, m)"
proof -
  let ?b = "padded (f @ [c1, c2])" and ?b' = "padded (f @ [d1, d2])"
  have len: "6 \<le> length f" using assms(4) by (auto split: if_splits)
  have tk: "take (length f) ?b = f" "take (length f) ?b' = f" by (simp_all add: padded_def)
  have "request_effect ?b len g m = request_effect ?b' len g m"
  proof (rule request_effect_cong[of "length f"])
    assume w: "?b ! 1 = 16"
    then have f6: "f ! 1 = 16" "?b ! 6 = f ! 6" "length f = 7 + unat (f ! 6)"
      using len assms(4) by (auto simp: padded_def nth_append split: if_splits)
    then show "length f = 7 + 2 * unat (request_word ?b 4) \<or> \<not> write_accepted ?b \<and> 7 \<le> length f"
      by (auto simp: write_accepted_def)
  qed (use tk len assms(3) in simp_all)
  then show ?thesis using assms by (simp add: request_effect)
qed

theorem request_crc_ignored_witness:
  "Modbus_HandleRequest (padded ([1, 6, 0, 6, 0, 255] @ [0, 0])) 8 (init_globals, init_modbus) =
   Modbus_HandleRequest (padded ([1, 6, 0, 6, 0, 255] @ [0x29, 0x8B])) 8 (init_globals, init_modbus)"
  by (rule request_crc_ignored) simp_all

text \<open>
  C33: the table-driven checksum is the bitwise one of the Modbus serial line specification (start value 0xFFFF, reflected
  polynomial 0xA001, least significant bit first), on every byte sequence; a length beyond the data reads outside it.
\<close>

theorem crc_table_is_reference:
  "Modbus_CRC16 bs n = (if n \<le> length bs then Inr (crc16_reference (take n bs)) else Inl OutOfBounds)"
  by (simp add: Modbus_CRC16_def crc_bytes_reference)

text \<open>
  C34: a receiver that checks the checksum sees every corruption of a single byte of a reply: with a byte changed, the
  checksum over the whole frame is no longer zero.
\<close>

theorem corrupted_reply_detected:
  assumes "valid_reply (xs @ b # ys)" and "b \<noteq> b'"
  shows "\<exists>c. Modbus_CRC16 (xs @ b' # ys) (length (xs @ b' # ys)) = Inr c \<and> c \<noteq> 0"
proof -
  have "crc_bytes (xs @ b # ys) = 0" using assms(1) by (simp add: valid_reply_def)
  then have "crc_bytes (xs @ b' # ys) \<noteq> 0" using crc_detects_byte[OF assms(2), of xs ys] by simp
  then show ?thesis by (simp add: Modbus_CRC16_def)
qed

theorem corrupted_reply_detected_witness:
  "\<exists>c. Modbus_CRC16 ([1] @ 0x84 # 2 # [lo8 (crc_bytes [1, 0x83, 2]), hi8 (crc_bytes [1, 0x83, 2])]) 5 = Inr c \<and> c \<noteq> 0"
  using corrupted_reply_detected[of "[1]" "0x83" "2 # [lo8 (crc_bytes [1, 0x83, 2]), hi8 (crc_bytes [1, 0x83, 2])]" "0x84"]
    valid_replies(1)[where f = 3 and e = 2]
  by (simp add: error_reply_def with_crc_def eval_nat_numeral)

text \<open>
  The range check admits the strip selection 256, whose low eight bits select no strip; after such an update no strip is
  active and the count is zero, which the round robin over the strips divides by.
\<close>

theorem data_check_admits_no_strip:
  assumes "length b = 7" and "b ! 6 = 256" and "arrays_ok g"
    and "b ! 0 \<le> 3" "b ! 1 \<le> 100" "2 \<le> b ! 2" "b ! 2 \<le> 500" "b ! 3 \<le> 23000" "500 \<le> b ! 4" "b ! 4 \<le> 1000" "b ! 5 \<le> 8"
  shows "\<not> Modbus_DataErrorPresent b \<and>
    (\<exists>g'. Modbus_UpdateParameters b g = Inr g' \<and> g_strip_count g' = 0 \<and> True \<notin> set (active_strips g'))"
proof -
  have "Modbus_UpdateParameters b g = Inr (updated_globals b g)"
    using assms by (intro Modbus_UpdateParameters_ok) (simp_all add: arrays_ok_def)
  moreover have "strips_of 256 = replicate 8 False"
    by (simp add: strips_of_def upt_rec numeral_eq_Suc bit_simps)
  ultimately show ?thesis
    using assms by (simp add: Modbus_DataErrorPresent_def not_less MAX_STRIP_COUNT_def updated_globals_def)
qed

theorem data_check_admits_no_strip_witness:
  "\<not> Modbus_DataErrorPresent [1, 50, 50, 21000, 1000, 8, 256] \<and>
    (\<exists>g'. Modbus_UpdateParameters [1, 50, 50, 21000, 1000, 8, 256] init_globals = Inr g' \<and>
      g_strip_count g' = 0 \<and> True \<notin> set (active_strips g'))"
  by (rule data_check_admits_no_strip) simp_all

end
