(* ===== verification/Parameters.thy ===== *)
theory Parameters
  imports Globals
begin

text \<open>
  The command line of the graphical interface (\<open>updateParameters\<close> of \<open>main.c\<close>): seven fields between commas, in a buffer of characters that \<open>strtok\<close>
  cuts into strings in place. The functions of the C library that it uses come first; a string is a position in
  the buffer and ends at the next zero byte.
\<close>

section \<open>Characters and strings\<close>

definition COMMA :: u8 where "COMMA = 44"
definition CHAR_0 :: u8 where "CHAR_0 = 48"
definition CHAR_1 :: u8 where "CHAR_1 = 49"

lemmas chars = COMMA_def CHAR_0_def CHAR_1_def

definition is_space :: "u8 \<Rightarrow> bool" where
  "is_space c \<longleftrightarrow> c = 32 \<or> 9 \<le> c \<and> c \<le> 13"

definition to_lower :: "u8 \<Rightarrow> u8" where
  "to_lower c = (if 65 \<le> c \<and> c \<le> 90 then c + 32 else c)"

text \<open>The value of a digit in a base up to 16.\<close>

definition digit_value :: "nat \<Rightarrow> u8 \<Rightarrow> nat option" where
  "digit_value base c =
     (let v = (if 48 \<le> c \<and> c \<le> 57 then unat c - 48
               else if 97 \<le> to_lower c \<and> to_lower c \<le> 102 then unat (to_lower c) - 87 else 16)
      in if v < base then Some v else None)"

definition is_digit :: "nat \<Rightarrow> u8 \<Rightarrow> bool" where
  "is_digit base c \<longleftrightarrow> digit_value base c \<noteq> None"

definition digits_value :: "nat \<Rightarrow> u8 list \<Rightarrow> nat" where
  "digits_value base ds = foldl (\<lambda>a c. base * a + the (digit_value base c)) 0 ds"

definition take_digits :: "nat \<Rightarrow> u8 list \<Rightarrow> u8 list \<times> u8 list" where
  "take_digits base s = (takeWhile (is_digit base) s, dropWhile (is_digit base) s)"

definition take_sign :: "u8 list \<Rightarrow> bool \<times> u8 list" where
  "take_sign s = (case s of c # s' \<Rightarrow> if c = 45 then (True, s') else if c = 43 then (False, s') else (False, s) | [] \<Rightarrow> (False, s))"

text \<open>\<open>atoi\<close>: undefined when the number does not fit an \<open>int\<close>.\<close>

definition atoi :: "u8 list \<Rightarrow> c_int res" where
  "atoi s =
     (let (neg, s) = take_sign (dropWhile is_space s);
          v = int (digits_value 10 (fst (take_digits 10 s)));
          v = (if neg then - v else v)
      in if - (2 ^ 31) \<le> v \<and> v < 2 ^ 31 then Inr (word_of_int v) else Inl CastRange)"

text \<open>
  \<open>atof\<close>: decimal and hexadecimal numbers with a fraction and an exponent, infinities, and not-a-numbers; the decimal value is
  rounded correctly. Anything else is zero.
\<close>

definition exponent :: "u8 \<Rightarrow> u8 list \<Rightarrow> int" where
  "exponent marker s =
     (case s of
        c # s' \<Rightarrow>
          if to_lower c = marker then
            let (neg, s') = take_sign s'; e = int (digits_value 10 (fst (take_digits 10 s')))
            in if neg then - e else e
          else 0
      | [] \<Rightarrow> 0)"

definition number_value :: "nat \<Rightarrow> u8 \<Rightarrow> nat \<Rightarrow> u8 list \<Rightarrow> real" where
  "number_value base marker ebase s =
     (let (whole, s) = take_digits base s;
          (fraction, s) = (case s of c # s' \<Rightarrow> if c = 46 then take_digits base s' else ([], s) | [] \<Rightarrow> ([], s));
          m = digits_value base (whole @ fraction)
      in if whole = [] \<and> fraction = [] then 0
         else real m / real base ^ length fraction * real ebase powi exponent marker s)"

definition starts_with :: "u8 list \<Rightarrow> u8 list \<Rightarrow> bool" where
  "starts_with w s \<longleftrightarrow> map to_lower (take (length w) s) = w"

definition hex_number :: "u8 list \<Rightarrow> bool" where
  "hex_number s \<longleftrightarrow>
     starts_with [48, 120] s \<and>
     (case drop 2 s of c # c' # _ \<Rightarrow> is_digit 16 c \<or> c = 46 \<and> is_digit 16 c' | [c] \<Rightarrow> is_digit 16 c | [] \<Rightarrow> False)"

definition atof :: "u8 list \<Rightarrow> fp" where
  "atof s =
     (let (neg, s) = take_sign (dropWhile is_space s);
          v = (if starts_with [105, 110, 102] s then PosInf
               else if starts_with [110, 97, 110] s then NaN
               else if hex_number s then fl64 (number_value 16 112 2 (drop 2 s))
               else fl64 (number_value 10 101 10 s))
      in if neg then fp_neg v else v)"

section \<open>Cutting the buffer into tokens\<close>

definition span_from :: "(u8 \<Rightarrow> bool) \<Rightarrow> u8 list \<Rightarrow> nat \<Rightarrow> nat" where
  "span_from P buf p = p + length (takeWhile P (drop p buf))"

text \<open>
  \<open>strtok(s, ",")\<close> with its saved position, which \<open>None\<close> says is exhausted; the given position is the argument or the saved one. The result is the
  token, the position saved for the next call, and the buffer with the delimiter after the token overwritten.
\<close>

definition strtok :: "nat option \<Rightarrow> u8 list \<Rightarrow> (nat option \<times> nat option \<times> u8 list) res" where
  "strtok pos buf =
     (case pos of
        None \<Rightarrow> Inr (None, None, buf)
      | Some p \<Rightarrow>
          let t = span_from (\<lambda>c. c = COMMA) buf p
          in rbind (arr_get buf t) (\<lambda>c.
             if c = 0 then Inr (None, None, buf)
             else
               let e = span_from (\<lambda>c. c \<noteq> COMMA \<and> c \<noteq> 0) buf t
               in rbind (arr_get buf e) (\<lambda>d.
                  if d = 0 then Inr (Some t, None, buf)
                  else Inr (Some t, Some (e + 1), buf[e := 0]))))"

definition c_string :: "u8 list \<Rightarrow> nat \<Rightarrow> u8 list res" where
  "c_string buf p =
     (let e = span_from (\<lambda>c. c \<noteq> 0) buf p
      in rbind (arr_get buf e) (\<lambda>_. Inr (take (e - p) (drop p buf))))"

section \<open>The fields of a command\<close>

definition field_waveType :: "u8 list \<Rightarrow> nat \<Rightarrow> globals \<Rightarrow> globals res" where
  "field_waveType buf t g = rbind (c_string buf t) (\<lambda>s. rbind (atoi s) (\<lambda>v. Inr (g\<lparr>waveType := v\<rparr>)))"

definition field_dutyCycle :: "u8 list \<Rightarrow> nat \<Rightarrow> globals \<Rightarrow> globals res" where
  "field_dutyCycle buf t g = rbind (c_string buf t) (\<lambda>s. rbind (atoi s) (\<lambda>v. Inr (g\<lparr>dutyCycle := v\<rparr>)))"

definition field_desiredFrequency :: "u8 list \<Rightarrow> nat \<Rightarrow> globals \<Rightarrow> globals res" where
  "field_desiredFrequency buf t g =
     rbind (c_string buf t) (\<lambda>s. Inr (g\<lparr>desiredFrequency := fp_cast fl32 (atof s)\<rparr>))"

definition field_desiredAmplitude :: "u8 list \<Rightarrow> nat \<Rightarrow> globals \<Rightarrow> globals res" where
  "field_desiredAmplitude buf t g =
     rbind (c_string buf t) (\<lambda>s. rbind (fp_to_u32 (atof s)) (\<lambda>v. Inr (g\<lparr>desiredAmplitude := v\<rparr>)))"

definition field_excitation :: "u8 list \<Rightarrow> nat \<Rightarrow> globals \<Rightarrow> globals res" where
  "field_excitation buf t g =
     rbind (c_string buf t) (\<lambda>s. Inr (g\<lparr>g_excitation_voltage_per_resistor := fp_cast fl32 (atof s)\<rparr>))"

definition field_MUX_freq :: "u8 list \<Rightarrow> nat \<Rightarrow> globals \<Rightarrow> globals res" where
  "field_MUX_freq buf t g = rbind (c_string buf t) (\<lambda>s. rbind (atoi s) (\<lambda>v. Inr (g\<lparr>MUX_freq := ucast v\<rparr>)))"

text \<open>The strips are read from eight characters after the start of the token, whether or not it is that long.\<close>

definition field_active_strips :: "u8 list \<Rightarrow> nat \<Rightarrow> globals \<Rightarrow> globals res" where
  "field_active_strips buf t g =
     for_each [0..<MAX_STRIP_COUNT] (\<lambda>i g.
       rbind (arr_get buf (t + i)) (\<lambda>c.
       rbind (arr_set (active_strips g) i (c = CHAR_1)) (\<lambda>a. Inr (g\<lparr>active_strips := a\<rparr>)))) g"

definition command_fields :: "(u8 list \<Rightarrow> nat \<Rightarrow> globals \<Rightarrow> globals res) list" where
  "command_fields =
     [field_waveType, field_dutyCycle, field_desiredFrequency, field_desiredAmplitude, field_excitation, field_MUX_freq,
      field_active_strips]"

text \<open>Each field takes a token; when there is none the function returns -1 with the fields before it already stored.\<close>

primrec parse_fields ::
  "(u8 list \<Rightarrow> nat \<Rightarrow> globals \<Rightarrow> globals res) list \<Rightarrow> nat option \<Rightarrow> u8 list \<Rightarrow> globals \<Rightarrow> (int \<times> u8 list \<times> globals) res" where
  "parse_fields [] pos buf g = Inr (0, buf, g)"
| "parse_fields (f # fs) pos buf g =
     rbind (strtok pos buf) (\<lambda>(token, pos, buf).
       case token of
         None \<Rightarrow> Inr (- 1, buf, g)
       | Some t \<Rightarrow> rbind (f buf t g) (\<lambda>g. parse_fields fs pos buf g))"

definition count_strips :: "globals \<Rightarrow> globals res" where
  "count_strips g =
     for_each [0..<MAX_STRIP_COUNT] (\<lambda>i g.
       rbind (arr_get (active_strips g) i) (\<lambda>active.
         Inr (if active then g\<lparr>g_strip_count := g_strip_count g + 1\<rparr> else g)))
     (g\<lparr>g_strip_count := 0\<rparr>)"

definition updateParameters :: "u8 list \<Rightarrow> globals \<Rightarrow> (int \<times> u8 list \<times> globals) res" where
  "updateParameters buf g =
     rbind (parse_fields command_fields (Some 0) buf g) (\<lambda>(r, buf, g).
       if r \<noteq> 0 then Inr (r, buf, g)
       else rbind (count_strips g) (\<lambda>g. Inr (0, buf, g)))"
section \<open>Reading back a printed command\<close>

text \<open>Decimal numbers as the interface prints them.\<close>

fun decimal :: "nat \<Rightarrow> u8 list" where
  "decimal n = (if n < 10 then [CHAR_0 + of_nat n] else decimal (n div 10) @ [CHAR_0 + of_nat (n mod 10)])"

declare decimal.simps [simp del]

lemma digit_char:
  assumes "k < 10"
  shows "digit_value 10 (CHAR_0 + of_nat k) = Some k" and "CHAR_0 + of_nat k \<noteq> COMMA" and "CHAR_0 + of_nat k \<noteq> (0 :: u8)"
    and "\<not> is_space (CHAR_0 + of_nat k)" and "CHAR_0 + of_nat k \<noteq> (45 :: u8)" and "CHAR_0 + of_nat k \<noteq> (43 :: u8)"
proof -
  have un: "unat (CHAR_0 + of_nat k) = 48 + k" using assms by (simp add: chars unat_word_ariths unat_of_nat)
  have ne: "CHAR_0 + of_nat k \<noteq> c" if "unat c < 48" for c :: u8 using un that by auto
  have le: "48 \<le> CHAR_0 + of_nat k" "CHAR_0 + of_nat k \<le> 57" using un assms by (simp_all add: word_le_nat_alt)
  then show "digit_value 10 (CHAR_0 + of_nat k) = Some k" using un assms by (simp add: digit_value_def)
  show "CHAR_0 + of_nat k \<noteq> COMMA" "CHAR_0 + of_nat k \<noteq> (0 :: u8)" "CHAR_0 + of_nat k \<noteq> (45 :: u8)" "CHAR_0 + of_nat k \<noteq> (43 :: u8)"
    by (rule ne; simp add: chars)+
  show "\<not> is_space (CHAR_0 + of_nat k)"
    using un ne[of 32] by (simp add: is_space_def word_le_nat_alt)
qed

lemma digits_value_append: "digits_value b (xs @ [c]) = b * digits_value b xs + the (digit_value b c)"
  by (simp add: digits_value_def)

lemma decimal_nonempty: "decimal n \<noteq> []"
  by (subst decimal.simps) simp

lemma decimal_chars: "c \<in> set (decimal n) \<Longrightarrow> \<exists>k < 10. c = CHAR_0 + of_nat k"
proof (induction n rule: decimal.induct)
  case (1 n)
  show ?case
  proof (cases "n < 10")
    case True
    then show ?thesis using "1.prems" by (subst (asm) decimal.simps) auto
  next
    case False
    then have "c \<in> set (decimal (n div 10)) \<or> c = CHAR_0 + of_nat (n mod 10)"
      using "1.prems" by (subst (asm) decimal.simps) auto
    then show ?thesis using "1.IH"[OF False] by (auto intro: exI[of _ "n mod 10"])
  qed
qed

lemma decimal_value: "digits_value 10 (decimal n) = n"
proof (induction n rule: decimal.induct)
  case (1 n)
  then show ?case
    by (subst decimal.simps) (auto simp: digits_value_append digit_char, simp add: digits_value_def digit_char)
qed

lemma decimal_all_digits: "takeWhile (is_digit 10) (decimal n) = decimal n"
  by (intro takeWhile_eq_all_conv[THEN iffD2]) (auto dest!: decimal_chars simp: is_digit_def digit_char)

lemma atoi_decimal: "n < 2 ^ 31 \<Longrightarrow> atoi (decimal n) = Inr (of_nat n)"
proof -
  assume n: "n < 2 ^ 31"
  obtain c s where d: "decimal n = c # s" using decimal_nonempty[of n] by (cases "decimal n") auto
  then obtain k where k: "k < 10" "c = CHAR_0 + of_nat k" using decimal_chars[of c n] by auto
  have "dropWhile is_space (decimal n) = decimal n" using d k digit_char(4)[of k] by simp
  moreover have "take_sign (decimal n) = (False, decimal n)"
    using d k digit_char(5,6)[of k] by (simp add: take_sign_def)
  ultimately show ?thesis
    using n by (simp add: atoi_def take_digits_def decimal_all_digits decimal_value)
qed

text \<open>A token: not empty, without a delimiter.\<close>

definition token_ok :: "u8 list \<Rightarrow> bool" where
  "token_ok t \<longleftrightarrow> t \<noteq> [] \<and> COMMA \<notin> set t \<and> 0 \<notin> set t"

lemma token_decimal: "token_ok (decimal n)"
  using decimal_nonempty[of n] decimal_chars[of _ n] digit_char(2,3) by (fastforce simp: token_ok_def)

lemma span_token:
  "(\<And>c. c \<in> set t \<Longrightarrow> P c) \<Longrightarrow> \<not> P d \<Longrightarrow> span_from P (pre @ t @ d # rest) (length pre) = length pre + length t"
  by (simp add: span_from_def takeWhile_append)

lemma c_string_token: "token_ok t \<Longrightarrow> c_string (pre @ t @ 0 # rest) (length pre) = Inr t"
proof -
  assume "token_ok t"
  then have "span_from (\<lambda>c. c \<noteq> 0) (pre @ t @ 0 # rest) (length pre) = length pre + length t"
    by (intro span_token) (auto simp: token_ok_def)
  then show ?thesis by (simp add: c_string_def arr_get_def)
qed

lemma strtok_token:
  assumes "token_ok t" and "d = COMMA \<or> d = 0"
  shows "strtok (Some (length pre)) (pre @ t @ d # rest) =
    Inr (Some (length pre), if d = 0 then None else Some (length pre + length t + 1), pre @ t @ 0 # rest)"
proof -
  obtain c t' where t: "t = c # t'" using assms(1) by (cases t) (auto simp: token_ok_def)
  have "span_from (\<lambda>c. c = COMMA) (pre @ t @ d # rest) (length pre) = length pre"
    using assms(1) by (auto simp: span_from_def t token_ok_def)
  moreover have "span_from (\<lambda>c. c \<noteq> COMMA \<and> c \<noteq> 0) (pre @ t @ d # rest) (length pre) = length pre + length t"
    using assms by (intro span_token) (auto simp: token_ok_def)
  moreover have "c \<noteq> 0" using assms(1) by (simp add: t token_ok_def)
  moreover have "(pre @ t @ d # rest)[length pre + length t := 0] = pre @ t @ 0 # rest"
    by (simp add: list_update_append)
  ultimately show ?thesis
    using assms(2) by (auto simp: strtok_def Let_def arr_get_def nth_append t)
qed

primrec join_tokens :: "u8 list \<Rightarrow> u8 list list \<Rightarrow> u8 list" where
  "join_tokens t [] = t"
| "join_tokens t (t' # ts) = t @ COMMA # join_tokens t' ts"

text \<open>What a field function does with its token, wherever the token is.\<close>

definition stores :: "(u8 list \<Rightarrow> nat \<Rightarrow> globals \<Rightarrow> globals res) \<Rightarrow> u8 list \<Rightarrow> (globals \<Rightarrow> globals) \<Rightarrow> bool" where
  "stores f t h \<longleftrightarrow>
     (\<forall>pre rest g. length (active_strips g) = 8 \<longrightarrow>
        f (pre @ t @ 0 # rest) (length pre) g = Inr (h g) \<and> length (active_strips (h g)) = 8)"

lemma parse_last:
  assumes "token_ok t" and "stores f t h" and "length (active_strips g) = 8"
  shows "parse_fields [f] (Some (length pre)) (pre @ t @ 0 # rest) g = Inr (0, pre @ t @ 0 # rest, h g)"
  using strtok_token[OF assms(1), of 0 pre rest] assms(2,3) by (simp add: stores_def)

lemma parse_more:
  assumes "token_ok t" and "stores f t h" and "length (active_strips g) = 8"
  shows "parse_fields (f # fs) (Some (length pre)) (pre @ join_tokens t (t' # ts) @ 0 # rest) g =
    parse_fields fs (Some (length (pre @ t @ [0]))) ((pre @ t @ [0]) @ join_tokens t' ts @ 0 # rest) (h g)"
proof -
  have c: "COMMA \<noteq> 0" by (simp add: chars)
  have "stores f t h \<Longrightarrow> f (pre @ t @ 0 # join_tokens t' ts @ 0 # rest) (length pre) g = Inr (h g)"
    using assms(3) by (simp add: stores_def)
  then show ?thesis
    using strtok_token[OF assms(1), of COMMA pre "join_tokens t' ts @ 0 # rest"] assms(2) c by simp
qed
lemma stores_fields:
  assumes "token_ok t"
  shows "atoi t = Inr v \<Longrightarrow> stores field_waveType t (waveType_update (\<lambda>_. v))"
    and "atoi t = Inr v \<Longrightarrow> stores field_dutyCycle t (dutyCycle_update (\<lambda>_. v))"
    and "stores field_desiredFrequency t (desiredFrequency_update (\<lambda>_. fp_cast fl32 (atof t)))"
    and "fp_to_u32 (atof t) = Inr v \<Longrightarrow> stores field_desiredAmplitude t (desiredAmplitude_update (\<lambda>_. v))"
    and "stores field_excitation t (g_excitation_voltage_per_resistor_update (\<lambda>_. fp_cast fl32 (atof t)))"
    and "atoi t = Inr v \<Longrightarrow> stores field_MUX_freq t (MUX_freq_update (\<lambda>_. ucast v))"
  using c_string_token[OF assms]
  by (simp_all add: stores_def field_waveType_def field_dutyCycle_def field_desiredFrequency_def field_desiredAmplitude_def
      field_excitation_def field_MUX_freq_def)

definition strip_flags :: "u8 list \<Rightarrow> bool list" where
  "strip_flags t = map (\<lambda>i. t ! i = CHAR_1) [0..<8]"

lemma stores_strips:
  assumes "8 \<le> length t"
  shows "stores field_active_strips t (active_strips_update (\<lambda>_. strip_flags t))"
  unfolding stores_def
proof (intro allI impI)
  fix pre rest and g :: globals
  assume len: "length (active_strips g) = 8"
  let ?body = "\<lambda>i g. rbind (arr_get (pre @ t @ 0 # rest) (length pre + i)) (\<lambda>c.
    rbind (arr_set (active_strips g) i (c = CHAR_1)) (\<lambda>a. Inr (g\<lparr>active_strips := a\<rparr>)))"
  let ?P = "\<lambda>k g'. g' = g\<lparr>active_strips := map (\<lambda>i. t ! i = CHAR_1) [0..<k] @ drop k (active_strips g)\<rparr>"
  have "\<exists>g'. for_each [0..<8] ?body g = Inr g' \<and> ?P 8 g'"
  proof (rule for_each_upt_inv[where P = ?P])
    fix k g'
    assume k: "k < 8" and P: "?P k g'"
    have get: "arr_get (pre @ t @ 0 # rest) (length pre + k) = Inr (t ! k)"
      using k assms by (simp add: arr_get_def nth_append)
    have "drop k (active_strips g) = active_strips g ! k # drop (Suc k) (active_strips g)"
      using k len by (simp add: Cons_nth_drop_Suc)
    then have "arr_set (active_strips g') k (t ! k = CHAR_1) =
        Inr (map (\<lambda>i. t ! i = CHAR_1) [0..<k] @ (t ! k = CHAR_1) # drop (Suc k) (active_strips g))"
      unfolding P by (simp add: arr_set_def list_update_append)
    then show "\<exists>g''. ?body k g' = Inr g'' \<and> ?P (Suc k) g''"
      using get P by simp
  qed simp_all
  then show "field_active_strips (pre @ t @ 0 # rest) (length pre) g = Inr (g\<lparr>active_strips := strip_flags t\<rparr>) \<and>
      length (active_strips (g\<lparr>active_strips := strip_flags t\<rparr>)) = 8"
    using len by (auto simp: field_active_strips_def MAX_STRIP_COUNT_def strip_flags_def)
qed

lemma count_strips_ok:
  assumes "length (active_strips g) = 8"
  shows "count_strips g = Inr (g\<lparr>g_strip_count := of_nat (n_active g)\<rparr>)"
proof -
  let ?body = "\<lambda>i g. rbind (arr_get (active_strips g) i) (\<lambda>active.
    Inr (if active then g\<lparr>g_strip_count := g_strip_count g + 1\<rparr> else g))"
  let ?P = "\<lambda>k g'. g' = g\<lparr>g_strip_count := of_nat (length (filter id (take k (active_strips g))))\<rparr>"
  have "\<exists>g'. for_each [0..<8] ?body (g\<lparr>g_strip_count := 0\<rparr>) = Inr g' \<and> ?P 8 g'"
    using assms by (intro for_each_upt_inv[where P = ?P]) (auto simp: filter_take_Suc)
  then show ?thesis using assms by (auto simp: count_strips_def MAX_STRIP_COUNT_def n_active_def)
qed

text \<open>The command for some parameters, and what it is meant to set.\<close>

definition command_line :: "nat \<Rightarrow> nat \<Rightarrow> u8 list \<Rightarrow> u8 list \<Rightarrow> u8 list \<Rightarrow> nat \<Rightarrow> u8 list \<Rightarrow> u8 list" where
  "command_line w d f a v m strips = join_tokens (decimal w) [decimal d, f, a, v, decimal m, strips]"

definition commanded :: "nat \<Rightarrow> nat \<Rightarrow> u8 list \<Rightarrow> u32 \<Rightarrow> u8 list \<Rightarrow> nat \<Rightarrow> u8 list \<Rightarrow> globals \<Rightarrow> globals" where
  "commanded w d f amplitude v m strips g =
     g\<lparr>waveType := of_nat w, dutyCycle := of_nat d, desiredFrequency := fp_cast fl32 (atof f), desiredAmplitude := amplitude,
       g_excitation_voltage_per_resistor := fp_cast fl32 (atof v), MUX_freq := of_nat m,
       active_strips := strip_flags strips, g_strip_count := of_nat (length (filter id (strip_flags strips)))\<rparr>"

lemma of_nat_ucast_16: "(ucast (of_nat m :: u32) :: u16) = of_nat m"
  by (rule bit_word_eqI) (auto simp: bit_ucast_iff bit_of_nat_iff)

lemma parse_all:
  assumes "\<forall>(f, t, h) \<in> set ((f1, t1, h1) # xs). token_ok t \<and> stores f t h" and "length (active_strips g) = 8"
  shows "\<exists>buf. parse_fields (f1 # map fst xs) (Some (length pre)) (pre @ join_tokens t1 (map (fst \<circ> snd) xs) @ 0 # rest) g =
      Inr (0, buf, fold (\<lambda>(_, _, h). h) xs (h1 g)) \<and>
    length buf = length (pre @ join_tokens t1 (map (fst \<circ> snd) xs) @ 0 # rest)"
  using assms
proof (induction xs arbitrary: f1 t1 h1 pre g)
  case Nil
  then show ?case using parse_last[of t1 f1 h1 g pre rest] by simp
next
  case (Cons x xs)
  obtain f2 t2 h2 where x: "x = (f2, t2, h2)" by (cases x)
  have 1: "token_ok t1" "stores f1 t1 h1" using Cons.prems(1) by auto
  have "length (active_strips (h1 g)) = 8" using 1(2) Cons.prems(2) by (simp add: stores_def)
  from Cons.IH[OF _ this, of f2 t2 h2 "pre @ t1 @ [0]"] Cons.prems(1)
  show ?case
    using parse_more[OF 1 Cons.prems(2), of "map fst (x # xs)" pre t2 "map (fst \<circ> snd) xs" rest]
    by (simp add: x o_def del: parse_fields.simps(2))
qed

lemma update_ok:
  assumes "w < 2 ^ 31" and "d < 2 ^ 31" and "m < 2 ^ 31" and "list_all token_ok [f, a, v, strips]"
    and "fp_to_u32 (atof a) = Inr amplitude" and "8 \<le> length strips" and "length (active_strips g) = 8"
  shows "\<exists>buf. updateParameters (command_line w d f a v m strips @ 0 # rest) g = Inr (0, buf, commanded w d f amplitude v m strips g) \<and>
    length buf = length (command_line w d f a v m strips @ 0 # rest)"
proof -
  have t: "token_ok f" "token_ok a" "token_ok v" "token_ok strips" using assms(4) by simp_all
  let ?g = "g\<lparr>waveType := of_nat w, dutyCycle := of_nat d, desiredFrequency := fp_cast fl32 (atof f), desiredAmplitude := amplitude,
       g_excitation_voltage_per_resistor := fp_cast fl32 (atof v), MUX_freq := of_nat m, active_strips := strip_flags strips\<rparr>"
  have parse: "\<exists>buf. parse_fields command_fields (Some 0) (command_line w d f a v m strips @ 0 # rest) g = Inr (0, buf, ?g) \<and>
      length buf = length (command_line w d f a v m strips @ 0 # rest)"
    using parse_all[where pre = "[]" and xs =
        "[(field_dutyCycle, decimal d, dutyCycle_update (\<lambda>_. of_nat d)),
          (field_desiredFrequency, f, desiredFrequency_update (\<lambda>_. fp_cast fl32 (atof f))),
          (field_desiredAmplitude, a, desiredAmplitude_update (\<lambda>_. amplitude)),
          (field_excitation, v, g_excitation_voltage_per_resistor_update (\<lambda>_. fp_cast fl32 (atof v))),
          (field_MUX_freq, decimal m, MUX_freq_update (\<lambda>_. ucast (of_nat m :: u32))),
          (field_active_strips, strips, active_strips_update (\<lambda>_. strip_flags strips))]",
        of field_waveType "decimal w" "waveType_update (\<lambda>_. of_nat w)" g rest]
      assms(7) t token_decimal stores_fields(1)[OF token_decimal atoi_decimal[OF assms(1)]]
      stores_fields(2)[OF token_decimal atoi_decimal[OF assms(2)]] stores_fields(3)[OF t(1)] stores_fields(4)[OF t(2) assms(5)]
      stores_fields(5)[OF t(3)] stores_fields(6)[OF token_decimal atoi_decimal[OF assms(3)]] stores_strips[OF assms(6)]
    by (simp add: command_fields_def command_line_def of_nat_ucast_16)
  have "count_strips ?g = Inr (?g\<lparr>g_strip_count := of_nat (length (filter id (strip_flags strips)))\<rparr>)"
    using count_strips_ok[of ?g] by (simp add: strip_flags_def n_active_def)
  then show ?thesis using parse by (auto simp: updateParameters_def commanded_def)
qed
section \<open>Numbers with decimals\<close>

text \<open>The number \<open>n / 10 ^ k\<close> with \<open>k\<close> digits after the point, none and no point for \<open>k = 0\<close>.\<close>

fun decimals :: "nat \<Rightarrow> nat \<Rightarrow> u8 list" where
  "decimals 0 n = []"
| "decimals (Suc k) n = decimals k (n div 10) @ [CHAR_0 + of_nat (n mod 10)]"

definition fixed_point :: "nat \<Rightarrow> nat \<Rightarrow> u8 list" where
  "fixed_point n k = decimal (n div 10 ^ k) @ (if k = 0 then [] else 46 # decimals k (n mod 10 ^ k))"

lemma decimals_chars: "c \<in> set (decimals k n) \<Longrightarrow> \<exists>j < 10. c = CHAR_0 + of_nat j"
  by (induction k arbitrary: n) (auto intro: exI[of _ "n mod 10" for n])

lemma decimals_length [simp]: "length (decimals k n) = k"
  by (induction k arbitrary: n) simp_all

lemma decimals_value: "n < 10 ^ k \<Longrightarrow> digits_value 10 (xs @ decimals k n) = digits_value 10 xs * 10 ^ k + n"
proof (induction k arbitrary: n)
  case (Suc k)
  then have "n div 10 < 10 ^ k" by (simp add: div_less_iff_less_mult mult.commute)
  then show ?case using Suc.IH[of "n div 10"] by (simp add: digits_value_append digit_char algebra_simps flip: append_assoc)
qed simp

lemma digits_prefix:
  assumes "\<And>c. c \<in> set xs \<Longrightarrow> \<exists>j < 10. c = CHAR_0 + of_nat j" and "case ys of [] \<Rightarrow> True | c # _ \<Rightarrow> \<not> is_digit 10 c"
  shows "take_digits 10 (xs @ ys) = (xs, ys)"
proof -
  have "\<forall>c \<in> set xs. is_digit 10 c" using assms(1) digit_char(1) by (fastforce simp: is_digit_def)
  then show ?thesis using assms(2) by (cases ys) (simp_all add: take_digits_def takeWhile_append dropWhile_append)
qed

lemma fixed_point_value: "number_value 10 101 10 (fixed_point n k) = real n / 10 ^ k"
proof (cases "k = 0")
  case True
  have "take_digits 10 (decimal n @ []) = (decimal n, [])" by (rule digits_prefix) (auto dest: decimal_chars)
  then show ?thesis using True by (simp add: fixed_point_def number_value_def decimal_nonempty decimal_value exponent_def)
next
  case False
  let ?w = "decimal (n div 10 ^ k)" and ?f = "decimals k (n mod 10 ^ k)"
  have "\<not> is_digit 10 46" by (simp add: is_digit_def digit_value_def to_lower_def)
  then have whole: "take_digits 10 (?w @ 46 # ?f) = (?w, 46 # ?f)" by (intro digits_prefix) (auto dest: decimal_chars)
  have frac: "take_digits 10 (?f @ []) = (?f, [])" by (rule digits_prefix) (auto dest: decimals_chars)
  have "digits_value 10 (?w @ ?f) = n div 10 ^ k * 10 ^ k + n mod 10 ^ k"
    by (subst decimals_value) (simp_all add: decimal_value)
  also have "\<dots> = n" by (rule div_mult_mod_eq)
  finally have v: "digits_value 10 (?w @ ?f) = n" .
  have shape: "fixed_point n k = ?w @ 46 # ?f" using False by (simp add: fixed_point_def)
  show ?thesis
    unfolding shape number_value_def whole Let_def prod.case list.case
    using frac v by (simp add: decimal_nonempty exponent_def)
qed

lemma fixed_point_start:
  obtains j s where "j < 10" "fixed_point n k = (CHAR_0 + of_nat j) # s" "case s of [] \<Rightarrow> True | c # _ \<Rightarrow> c = 46 \<or> (\<exists>i < 10. c = CHAR_0 + of_nat i)"
proof -
  obtain c s where d: "decimal (n div 10 ^ k) = c # s" using decimal_nonempty[of "n div 10 ^ k"] by (cases "decimal (n div 10 ^ k)") auto
  then obtain j where j: "j < 10" "c = CHAR_0 + of_nat j" using decimal_chars[of c "n div 10 ^ k"] by auto
  let ?s = "s @ (if k = 0 then [] else 46 # decimals k (n mod 10 ^ k))"
  have s: "\<exists>i < 10. x = CHAR_0 + of_nat i" if "x \<in> set s" for x using decimal_chars[of x "n div 10 ^ k"] that d by simp
  have "case ?s of [] \<Rightarrow> True | c # _ \<Rightarrow> c = 46 \<or> (\<exists>i < 10. c = CHAR_0 + of_nat i)"
    using s by (cases s) auto
  then show ?thesis using that[OF j(1), of ?s] d j(2) by (simp add: fixed_point_def)
qed

lemma digit_not_letter:
  assumes "j < 10" and "u \<notin> {48..57}"
  shows "to_lower (CHAR_0 + of_nat j) \<noteq> u"
proof -
  have "unat (CHAR_0 + of_nat j) = 48 + j" using assms(1) by (simp add: chars unat_word_ariths unat_of_nat)
  then have "48 \<le> CHAR_0 + of_nat j" "CHAR_0 + of_nat j \<le> 57" "\<not> 65 \<le> CHAR_0 + of_nat j"
    using assms(1) by (simp_all add: word_le_nat_alt)
  then show ?thesis using assms(2) unfolding to_lower_def by (metis atLeastAtMost_iff)
qed

lemma atof_fixed: "atof (fixed_point n k) = fl64 (real n / 10 ^ k)"
proof -
  obtain j s where f: "j < 10" "fixed_point n k = (CHAR_0 + of_nat j) # s"
    and s: "case s of [] \<Rightarrow> True | c # _ \<Rightarrow> c = 46 \<or> (\<exists>i < 10. c = CHAR_0 + of_nat i)" by (rule fixed_point_start)
  have "dropWhile is_space (fixed_point n k) = fixed_point n k" using f digit_char(4)[OF f(1)] by simp
  moreover have "take_sign (fixed_point n k) = (False, fixed_point n k)" using f digit_char(5,6)[OF f(1)] by (simp add: take_sign_def)
  moreover have "\<not> starts_with [105, 110, 102] (fixed_point n k)" "\<not> starts_with [110, 97, 110] (fixed_point n k)"
    using f digit_not_letter[OF f(1), of 105] digit_not_letter[OF f(1), of 110] by (simp_all add: starts_with_def)
  moreover have "\<not> hex_number (fixed_point n k)"
  proof (cases s)
    case (Cons c s')
    have "to_lower 46 \<noteq> 120" by (simp add: to_lower_def)
    moreover have "to_lower (CHAR_0 + of_nat i) \<noteq> 120" if "i < 10" for i by (rule digit_not_letter[OF that]) simp
    ultimately have "to_lower c \<noteq> 120" using s unfolding Cons list.case by blast
    then show ?thesis using f Cons by (simp add: hex_number_def starts_with_def)
  qed (simp add: hex_number_def starts_with_def f)
  ultimately show ?thesis by (simp add: atof_def fixed_point_value)
qed

lemma token_fixed: "token_ok (fixed_point n k)"
proof -
  have c: "COMMA \<notin> set (decimals j m)" "0 \<notin> set (decimals j m)" for j m
    using decimals_chars[of _ j m] digit_char(2,3) by metis+
  have p: "COMMA \<noteq> 46" by (simp add: chars)
  show ?thesis
    unfolding fixed_point_def using token_decimal[of "n div 10 ^ k"] c p by (cases "k = 0") (simp_all add: token_ok_def)
qed

lemma fixed_to_u32:
  assumes "n < 2 ^ 53" and "k \<le> 15" and "n div 10 ^ k < 2 ^ 32"
  shows "fp_to_u32 (atof (fixed_point n k)) = Inr (of_nat (n div 10 ^ k))"
proof -
  let ?x = "real n / real (10 ^ k)"
  have "(10 :: nat) ^ k \<le> 10 ^ 15" using assms(2) by (intro power_increasing) simp_all
  then have d: "0 < (10 :: nat) ^ k" "(10 :: nat) ^ k \<le> 2 ^ 53" by simp_all
  have fl: "\<lfloor>rnd64 ?x\<rfloor> = int (n div 10 ^ k)" by (rule rnd64_quotient_floor[OF d assms(1)])
  have "real n \<le> 2 ^ 53" using assms(1) by (simp add: less_imp_le)
  moreover have "real n * 1 \<le> real n * real (10 ^ k)" by (intro mult_left_mono) simp_all
  then have "?x \<le> real n" by (simp add: divide_le_eq)
  moreover have "0 \<le> ?x" by simp
  moreover have "(2 :: real) ^ 53 \<le> 2 ^ 1000" by (rule power_increasing) simp_all
  ultimately have "\<bar>?x\<bar> \<le> 2 ^ 1000" by linarith
  then have "fl64 ?x = Fin (rnd64 ?x)" by (rule fl64_finite)
  then have a: "atof (fixed_point n k) = Fin (rnd64 ?x)" by (simp add: atof_fixed)
  have "0 \<le> \<lfloor>rnd64 ?x\<rfloor>" unfolding fl by (rule of_nat_0_le_iff)
  then have "0 \<le> rnd64 ?x" by (simp only: zero_le_floor)
  then have "trunc (rnd64 ?x) = int (n div 10 ^ k)" using fl by (simp only: trunc_def if_True)
  moreover have "int (n div 10 ^ k) < int (2 ^ 32)" using assms(3) by (simp only: of_nat_less_iff)
  ultimately show ?thesis unfolding a by simp
qed

section \<open>Properties\<close>

definition strip_text :: "bool list \<Rightarrow> u8 list" where
  "strip_text bs = map (\<lambda>b. if b then CHAR_1 else CHAR_0) bs"

lemma strip_text_flags: "length bs = 8 \<Longrightarrow> strip_flags (strip_text bs @ eol) = bs"
proof -
  assume len: "length bs = 8"
  have "CHAR_0 \<noteq> CHAR_1" by (simp add: chars)
  then have "strip_flags (strip_text bs @ eol) = map (\<lambda>i. bs ! i) [0..<8]"
    using len by (simp add: strip_flags_def strip_text_def nth_append)
  then show ?thesis using len map_nth[of bs] by simp
qed

text \<open>
  C17: A command in the format of the interface, with printed numbers, is read back: wave type, duty cycle and multiplexer frequency are the whole numbers
  printed (the last must be below 65536, the type of its variable); frequency and voltage, printed as \<open>n / 10 ^ k\<close> with any number of decimals, are the single precision
  roundings of the nearest double to that quotient; the amplitude, with up to fifteen decimals, loses what is after the point; the strips are as the eight characters say, and
  their number is the number of ones. Every other shared variable and the length of the buffer are unchanged.
\<close>

theorem command_round_trip:
  assumes "w < 2 ^ 31" and "d < 2 ^ 31" and "m < 2 ^ 16" and "length bs = 8" and "length (active_strips g) = 8"
    and "na < 2 ^ 53" and "ka \<le> 15" and "na div 10 ^ ka < 2 ^ 32" and "set eol \<subseteq> {10, 13}"
  shows "\<exists>g' buf. updateParameters (command_line w d (fixed_point nf kf) (fixed_point na ka) (fixed_point nv kv) m (strip_text bs @ eol) @ 0 # rest) g =
      Inr (0, buf, g') \<and>
    unat (waveType g') = w \<and> unat (dutyCycle g') = d \<and> unat (MUX_freq g') = m \<and>
    desiredFrequency g' = fp_cast fl32 (fl64 (real nf / 10 ^ kf)) \<and> unat (desiredAmplitude g') = na div 10 ^ ka \<and>
    g_excitation_voltage_per_resistor g' = fp_cast fl32 (fl64 (real nv / 10 ^ kv)) \<and>
    active_strips g' = bs \<and> unat (g_strip_count g') = length (filter id bs) \<and>
    g' = g\<lparr>waveType := waveType g', dutyCycle := dutyCycle g', MUX_freq := MUX_freq g', desiredFrequency := desiredFrequency g',
      desiredAmplitude := desiredAmplitude g', g_excitation_voltage_per_resistor := g_excitation_voltage_per_resistor g',
      active_strips := active_strips g', g_strip_count := g_strip_count g'\<rparr> \<and>
    length buf = length (command_line w d (fixed_point nf kf) (fixed_point na ka) (fixed_point nv kv) m (strip_text bs @ eol) @ 0 # rest)"
proof -
  have eol: "COMMA \<notin> set eol" "0 \<notin> set eol" using assms(9) by (auto simp: chars)
  have strips: "token_ok (strip_text bs @ eol)" using assms(4) eol by (auto simp: token_ok_def strip_text_def chars)
  let ?g' = "commanded w d (fixed_point nf kf) (of_nat (na div 10 ^ ka)) (fixed_point nv kv) m (strip_text bs @ eol) g"
  have "\<exists>buf. updateParameters (command_line w d (fixed_point nf kf) (fixed_point na ka) (fixed_point nv kv) m (strip_text bs @ eol) @ 0 # rest) g =
      Inr (0, buf, ?g') \<and>
    length buf = length (command_line w d (fixed_point nf kf) (fixed_point na ka) (fixed_point nv kv) m (strip_text bs @ eol) @ 0 # rest)"
    using assms(3,4) strips by (intro update_ok assms(1,2,5) fixed_to_u32[OF assms(6-8)]) (simp_all add: token_fixed strip_text_def)
  moreover have "length (filter id bs) \<le> 8" using length_filter_le[of id bs] assms(4) by simp
  then have "unat (of_nat (length (filter id bs)) :: u8) = length (filter id bs)" by (intro unat_of_nat_eq) simp
  moreover have "unat (of_nat (na div 10 ^ ka) :: u32) = na div 10 ^ ka" using assms(8) by (intro unat_of_nat_eq) simp
  ultimately show ?thesis
    using assms(1-3) strip_text_flags[OF assms(4), of eol]
    by (intro exI[of _ ?g']) (auto simp: commanded_def atof_fixed unat_of_nat_eq)
qed

text \<open>The command \<open>1,40,0.5,14.25,0.75,8,10110001\<close> with the line feed that ends it.\<close>

lemma atof_14: "atof [49, 52] = Fin 14"
proof -
  have d: "digit_value 10 49 = Some 1" "digit_value 10 52 = Some 4" by (simp_all add: digit_value_def)
  then have "is_digit 10 49" "is_digit 10 52" by (simp_all add: is_digit_def)
  then have "number_value 10 101 10 [49, 52] = 14"
    using d by (simp add: number_value_def take_digits_def digits_value_def exponent_def)
  moreover have "fl64 14 = Fin 14" using fl64_nat[of 14] by simp
  ultimately show ?thesis
    by (simp add: atof_def take_sign_def is_space_def starts_with_def hex_number_def to_lower_def)
qed

theorem command_round_trip_witness:
  "\<exists>g' buf. updateParameters (command_line 1 40 (fixed_point 5 1) (fixed_point 1425 2) (fixed_point 75 2) 8
      (strip_text [True, False, True, True, False, False, False, True] @ [10]) @ 0 # []) init_globals = Inr (0, buf, g') \<and>
    fixed_point 1425 2 = [49, 52, 46, 50, 53] \<and>
    unat (desiredAmplitude g') = 14 \<and> active_strips g' = [True, False, True, True, False, False, False, True] \<and> unat (g_strip_count g') = 4"
proof -
  have "length (active_strips init_globals) = 8" by (simp add: init_globals_def)
  moreover have "fixed_point 1425 2 = [49, 52, 46, 50, 53]" by (simp add: fixed_point_def numeral_2_eq_2 decimal.simps chars)
  ultimately show ?thesis
    using command_round_trip[of 1 40 8 "[True, False, True, True, False, False, False, True]" init_globals 1425 2 "[10]" 5 1 75 2 "[]"] by auto
qed

lemma missing_fields:
  assumes "token_ok t" and "list_all token_ok ts" and "length ts + 1 = length ys" and "length (active_strips g) = 8"
    and "\<forall>(f, t, h) \<in> set (zip fs (zip (t # ts) hs)). stores f t h" and "length fs = length ys" and "length hs = length ys"
  shows "\<exists>buf g'. parse_fields (fs @ f' # fs') (Some (length pre)) (pre @ join_tokens t ts @ 0 # rest) g = Inr (- 1, buf, g') \<and>
    g' = fold (\<lambda>h. h) hs g"
  using assms
proof (induction ts arbitrary: t fs hs ys pre g)
  case Nil
  then have "length fs = 1" "length hs = 1" by simp_all
  then obtain f h where fh: "fs = [f]" "hs = [h]" by (auto simp: length_Suc_conv)
  then have "stores f t h" using Nil.prems(5) by simp
  then show ?case
    using strtok_token[OF Nil.prems(1), of 0 pre rest] Nil.prems(4) by (simp add: fh stores_def strtok_def)
next
  case (Cons t' ts)
  obtain f fs1 h hs1 ys1 y where l: "fs = f # fs1" "hs = h # hs1" "ys = y # ys1"
    using Cons.prems(3,6,7) by (cases fs; cases hs; cases ys) auto
  have s: "stores f t h" using Cons.prems(5) by (simp add: l)
  have "length (active_strips (h g)) = 8" using s Cons.prems(4) by (simp add: stores_def)
  with Cons.IH[of t' ys1 "h g" fs1 hs1 "pre @ t @ [0]"] Cons.prems show ?case
    using parse_more[OF Cons.prems(1) s Cons.prems(4), of "fs1 @ f' # fs'" pre t' ts rest] by (simp add: l del: parse_fields.simps(2))
qed

text \<open>
  A line with fewer fields is refused with -1, but not before the fields that are there have been stored: a line of only two numbers
  changes wave type and duty cycle and nothing else.
\<close>

theorem short_command_partly_stored:
  assumes "w < 2 ^ 31" and "d < 2 ^ 31" and "length (active_strips g) = 8"
  shows "\<exists>buf. updateParameters (join_tokens (decimal w) [decimal d] @ 0 # rest) g =
    Inr (- 1, buf, g\<lparr>waveType := of_nat w, dutyCycle := of_nat d\<rparr>)"
proof -
  have "\<exists>buf g'. parse_fields ([field_waveType, field_dutyCycle] @ field_desiredFrequency #
        [field_desiredAmplitude, field_excitation, field_MUX_freq, field_active_strips]) (Some (length ([] :: u8 list)))
      ([] @ join_tokens (decimal w) [decimal d] @ 0 # rest) g = Inr (- 1, buf, g') \<and>
    g' = fold (\<lambda>h. h) [waveType_update (\<lambda>_. of_nat w), dutyCycle_update (\<lambda>_. of_nat d)] g"
    using token_decimal stores_fields(1)[OF token_decimal atoi_decimal[OF assms(1)]]
      stores_fields(2)[OF token_decimal atoi_decimal[OF assms(2)]] assms(3)
    by (intro missing_fields[where ys = "[(), ()]"]) simp_all
  then show ?thesis by (auto simp: updateParameters_def command_fields_def)
qed

theorem short_command_partly_stored_witness:
  "\<exists>buf. updateParameters (join_tokens (decimal 2) [decimal 60] @ 0 # []) init_globals =
    Inr (- 1, buf, init_globals\<lparr>waveType := 2, dutyCycle := 60\<rparr>)"
proof -
  have "length (active_strips init_globals) = 8" by (simp add: init_globals_def)
  from short_command_partly_stored[of 2 60 init_globals "[]", OF _ _ this] show ?thesis by simp
qed

end
