(* ===== verification/Firmware.thy ===== *)
theory Firmware
  imports Interrupts Modbus Parameters
begin

text \<open>
  The main program (\<open>main.c\<close>): the initialisation of all peripherals from the parameters, their reset, and the two main loops, one for the
  commands of the graphical interface and one for Modbus. What the code takes from outside is one record: the chip, the sine and allocation functions of
  the C library, the words that the converters return during the calibration, and the clock frequency that the clock set-up has stored.
\<close>

record env =
  E_chip :: chip
  E_sin :: "fp \<Rightarrow> fp"
  E_malloc :: "nat \<Rightarrow> u8 list option"
  E_voltage_reads :: adc_reads
  E_current_reads :: adc_reads
  SystemCoreClock :: u32

type_synonym sys = "globals \<times> adc_vars \<times> board"

section \<open>Initialisation and reset\<close>

definition initialize_powermux :: "sys \<Rightarrow> (int \<times> sys) res" where
  "initialize_powermux s =
     (let (g, a, b) = s in rbind (on_regs_res InitPowerMux GPIO2 GPIO2_update b) (\<lambda>b. Inr (0, g, a, b)))"

definition initialize_mux :: "env \<Rightarrow> sys \<Rightarrow> (int \<times> sys) res" where
  "initialize_mux E s =
     (let (g, a, b) = s
      in rbind (on_dev_res InitMuxGpio GPIO4 GPIO4_update b) (\<lambda>b.
         rbind (on_regs_res EnableMux GPIO4 GPIO4_update b) (\<lambda>b.
         rbind (on_regs_res (SelectMuxChannel (ucast (FirstActiveStrip g))) GPIO4 GPIO4_update b) (\<lambda>b.
         rbind (ConvertActiveStrips (E_malloc E) g a) (\<lambda>a. Inr (0, g, a, b))))))"

definition initialize_voltage_adc :: "env \<Rightarrow> sys \<Rightarrow> (int \<times> sys) run" where
  "initialize_voltage_adc E s =
     (let (g, a, b) = s
      in run_bind (ADC_Voltage_Initialize (E_chip E) (E_voltage_reads E) b) (\<lambda>b. Some (Inr (0, g, a, b))))"

definition initialize_current_adc :: "env \<Rightarrow> sys \<Rightarrow> (int \<times> sys) run" where
  "initialize_current_adc E s =
     (let (g, a, b) = s
      in run_bind (ADC_Current_Initialize (E_chip E) (E_current_reads E) b) (\<lambda>b.
         Some (rbind (ADC_Voltage_timer_setup (E_chip E) g (a, b)) (\<lambda>(a, b). Inr (0, g, a, b)))))"

definition TimestampInit :: "env \<Rightarrow> sys \<Rightarrow> int \<times> sys" where
  "TimestampInit E s =
     (let (g, a, b) = s;
          g = g\<lparr>g_timestamp_ms := 0\<rparr>;
          b = call (NVIC_SetPriority SysTick 1) (call (SysTick_Config (SystemCoreClock E div 1000)) b)
      in (0, g, a, b))"

text \<open>One of the calls of \<open>InitializeAllPeripherals\<close>: a result other than 0 ends it with -1.\<close>

definition init_then :: "(int \<times> sys) run \<Rightarrow> (sys \<Rightarrow> (int \<times> sys) run) \<Rightarrow> (int \<times> sys) run" where
  "init_then m f = run_bind m (\<lambda>(r, s). if r \<noteq> 0 then Some (Inr (- 1, s)) else f s)"

definition InitializeAllPeripherals :: "env \<Rightarrow> sys \<Rightarrow> (int \<times> sys) run" where
  "InitializeAllPeripherals E s =
     init_then (Some (initialize_powermux s)) (\<lambda>(g, a, b).
     init_then (Some (rbind (initialize_dac_hot_plate (E_chip E) (E_sin E) (g, b)) (\<lambda>(r, g, b). Inr (r, g, a, b)))) (\<lambda>s.
     init_then (Some (initialize_mux E s)) (\<lambda>s.
     init_then (initialize_voltage_adc E s) (\<lambda>s.
     init_then (initialize_current_adc E s) (\<lambda>(g, a, b).
     init_then (Some (rbind (initialize_excitation_dac (E_chip E) g b) (\<lambda>(r, b). Inr (r, g, a, b)))) (\<lambda>s.
     init_then (Some (Inr (TimestampInit E s))) (\<lambda>(g, a, b).
       Some (rbind (fill 0 8 (\<lambda>i. Inr (0, 0)) (resistance_array g)) (\<lambda>rs. Inr (0, g\<lparr>resistance_array := rs\<rparr>, a, b))))))))))"

definition ResetAllPeripherals :: "chip \<Rightarrow> board \<Rightarrow> (int \<times> board) res" where
  "ResetAllPeripherals C b =
     (let b = on_dev (CTIMER_Deinit (L_ctimer C) 4) CTIMER4 CTIMER4_update b;
          b = on_dev (DAC14_Deinit (L_hpdac C) 2) DAC2 DAC2_update b
      in rbind (on_regs_res DisableMux GPIO4 GPIO4_update b) (\<lambda>b.
         let b = on_dev (CTIMER_Deinit (L_ctimer C) 2) CTIMER2 CTIMER2_update b;
             b = on_dev (LPADC_Deinit (L_lpadc C) 0) ADC0 ADC0_update b;
             b = on_dev (LPADC_Deinit (L_lpadc C) 1) ADC1 ADC1_update b;
             b = on_dev (DAC_Deinit (L_lpdac C) 0) DAC0 DAC0_update b
         in Inr (0, b\<lparr>SysTick_CTRL := SysTick_CTRL b AND NOT (fmask (SysTick_CTRL_ENABLE C))\<rparr>)))"

section \<open>The loop for the graphical interface\<close>

text \<open>The local variables of \<open>main\<close>, and how a turn of its loop ends.\<close>

record main_vars =
  m_buffer :: "u8 list"
  m_index :: nat
  Initializationsuccess :: bool

definition init_main_vars :: main_vars where
  "init_main_vars = \<lparr>m_buffer = replicate 256 0, m_index = 0, Initializationsuccess = False\<rparr>"

datatype turn = Continue main_vars sys | Exit int main_vars sys

definition command_done :: "main_vars \<Rightarrow> main_vars res" where
  "command_done m = rbind (arr_set (m_buffer m) 0 0) (\<lambda>buf. Inr (m\<lparr>m_index := 0, m_buffer := buf\<rparr>))"

definition end_of_line :: "env \<Rightarrow> main_vars \<Rightarrow> sys \<Rightarrow> turn run" where
  "end_of_line E m s =
     (let (g, a, b) = s
      in run_bind (Some (rbind (arr_set (m_buffer m) (m_index m) 0) (\<lambda>buf.
                         rbind (fill 0 8 (\<lambda>i. Inr False) (active_strips g)) (\<lambda>strips.
                         rbind (if Initializationsuccess m then ResetAllPeripherals (E_chip E) b else Inr (0, b)) (\<lambda>(_, b).
                         rbind (updateParameters buf (g\<lparr>active_strips := strips\<rparr>)) (\<lambda>(r, buf, g). Inr (r, buf, g, b))))))) (\<lambda>(r, buf, g, b).
         let m = m\<lparr>m_buffer := buf\<rparr>
         in if r = 0 then
              run_bind (InitializeAllPeripherals E (g, a, b)) (\<lambda>(r, s).
                if r \<noteq> 0 then Some (Inr (Exit (- 1) (m\<lparr>Initializationsuccess := True\<rparr>) s))
                else Some (rbind (command_done m) (\<lambda>m. Inr (Continue m s))))
            else Some (rbind (command_done m) (\<lambda>m. Inr (Continue m (g, a, b))))))"

definition gui_turn :: "env \<Rightarrow> u8 \<Rightarrow> main_vars \<Rightarrow> sys \<Rightarrow> turn run" where
  "gui_turn E ch m s =
     run_bind (Some (arr_set (m_buffer m) (m_index m) ch)) (\<lambda>buf.
       let m = m\<lparr>m_buffer := buf, m_index := m_index m + 1\<rparr>
       in if ch = 10 \<or> ch = 13 then end_of_line E m s else Some (Inr (Continue m s)))"

text \<open>The characters of the line one after the other, until \<open>main\<close> returns.\<close>

primrec gui_loop :: "env \<Rightarrow> u8 list \<Rightarrow> main_vars \<Rightarrow> sys \<Rightarrow> turn run" where
  "gui_loop E [] m s = Some (Inr (Continue m s))"
| "gui_loop E (ch # chs) m s =
     run_bind (gui_turn E ch m s) (\<lambda>t. case t of Continue m s \<Rightarrow> gui_loop E chs m s | Exit r m s \<Rightarrow> Some (Inr t))"

section \<open>The loop for Modbus\<close>

text \<open>
  A turn handles one frame; \<open>None\<close> in the result is the state in which the frame reader waits for more of the line. The result of the
  initialisation is ignored.
\<close>

definition modbus_turn ::
  "env \<Rightarrow> rx_event list \<Rightarrow> modbus_state \<Rightarrow> sys \<Rightarrow> (rx_event list \<times> modbus_state \<times> sys) option run" where
  "modbus_turn E evs m s =
     (let (g, a, b) = s
      in run_bind (Some (HandleModbusFrame evs (g, m))) (\<lambda>r.
         case r of
           Waiting buf len gm \<Rightarrow> Some (Inr None)
         | Returned evs (g, m) \<Rightarrow>
             if ModbusParamChanged g then
               run_bind (InitializeAllPeripherals E (g, a, b)) (\<lambda>(_, g, a, b).
                 Some (Inr (Some (evs, m, g\<lparr>ModbusParamChanged := False\<rparr>, a, b))))
             else Some (Inr (Some (evs, m, g, a, b)))))"

text \<open>The start of \<open>main\<close>: the power source is read before the pin is set up.\<close>

definition main_start :: "sys \<Rightarrow> sys res" where
  "main_start s =
     (let (g, a, b) = s
      in rbind (readPowerSource (GPIO2 b) g) (\<lambda>g. Inr (g, a, call (NVIC_SetPriority SysTick 1) b)))"
section \<open>The initialisation succeeds\<close>

text \<open>What each part of the initialisation leaves alone.\<close>

lemma hot_plate_frame:
  assumes "initialize_dac_hot_plate C c_sin (g, b) = Inr (r, g', b')"
  shows "ADC0 b' = ADC0 b" and "ADC1 b' = ADC1 b" and "GPIO4 b' = GPIO4 b"
proof -
  have dev: "ADC0 (Dac_and_other_setup C b) = ADC0 b" "ADC1 (Dac_and_other_setup C b) = ADC1 b"
      "GPIO4 (Dac_and_other_setup C b) = GPIO4 b"
    by (simp_all add: Dac_and_other_setup_def Let_def on_dev_def split: prod.split)
  have timer: "ADC0 b2 = ADC0 b1 \<and> ADC1 b2 = ADC1 b1 \<and> GPIO4 b2 = GPIO4 b1" if "SetupTimer C b1 = Inr b2" for b1 b2
    using that by (auto simp: SetupTimer_def Let_def on_dev_def on_dev_res_def res split: prod.splits)
  show "ADC0 b' = ADC0 b" "ADC1 b' = ADC1 b" "GPIO4 b' = GPIO4 b"
    using assms dev timer by (auto simp: initialize_dac_hot_plate_def Let_def res split: if_splits option.splits)
qed

lemma excitation_init_ok:
  assumes "chip_ok C" and "g_excitation_voltage_per_resistor g \<noteq> NaN" and "unat (g_strip_count g) \<le> 8"
  shows "\<exists>b'. initialize_excitation_dac C g b = Inr (0, b') \<and> ADC0 b' = ADC0 b \<and> ADC1 b' = ADC1 b \<and> GPIO4 b' = GPIO4 b \<and>
    CTIMER2 b' = CTIMER2 b \<and> CTIMER4 b' = CTIMER4 b"
proof -
  have "ADC0 (DAC_excitation_V_Init C b) = ADC0 b" "ADC1 (DAC_excitation_V_Init C b) = ADC1 b"
      "GPIO4 (DAC_excitation_V_Init C b) = GPIO4 b" "CTIMER2 (DAC_excitation_V_Init C b) = CTIMER2 b"
      "CTIMER4 (DAC_excitation_V_Init C b) = CTIMER4 b"
    by (simp_all add: DAC_excitation_V_Init_def Let_def on_dev_def split: prod.split)
  moreover have "lpdac_layout_ok (L_lpdac C)" using assms(1) by (simp add: chip_ok_def)
  from excitation_total[OF this assms(2,3)] obtain r' where
    "SetExcitationVoltage (L_lpdac C) g (DAC0 (DAC_excitation_V_Init C b)) = Inr r'" by blast
  ultimately show ?thesis by (simp add: initialize_excitation_dac_def on_regs_res_def)
qed

lemma selected_enable:
  assumes "EnableMux r = Inr r'"
  shows "mux_enabled r'"
  using assms pins.write_ok[of GPIO_PIN_ENABLE 1 r] by (auto simp: EnableMux_def mux_enabled_def mux_pins)

lemma mux_init_ok:
  assumes "arrays_ok g" and "count_ok g" and "0 < n_active g" and "E_malloc E (n_active g) = Some block" and "length block = n_active g"
  shows "\<exists>b'. initialize_mux E (g, a, b) = Inr (0, g, a\<lparr>active_strip_indices := Some (map of_nat (strip_list g))\<rparr>, b') \<and>
    selected_channel (GPIO4 b') = hd (strip_list g) \<and> ADC0 b' = ADC0 b \<and> ADC1 b' = ADC1 b \<and> CTIMER4 b' = CTIMER4 b"
proof -
  have ne: "strip_list g \<noteq> []" using assms(1,3) length_strip_list by fastforce
  then have hd8: "hd (strip_list g) < 8" using strip_list_less hd_in_set by blast
  have ch: "FirstActiveStrip g = of_nat (hd (strip_list g))" using ne by (simp add: first_strip)
  have "unat (ucast (of_nat (hd (strip_list g)) :: c_int) :: u8) = hd (strip_list g)"
    using hd8 by (simp add: unsigned_ucast_eq unat_of_nat take_bit_nat_eq_self)
  then have mod8: "unat (ucast (FirstActiveStrip g) :: u8) mod 8 = hd (strip_list g)" using hd8 ch by simp
  obtain r1 where r1: "InitMuxGpio (GPIO4 b, sys_calls b) = Inr (r1, sys_calls b @ [CLOCK_EnableClock (GPIO 4)])"
    using InitMuxGpio_ok by blast
  obtain r2 where r2: "EnableMux r1 = Inr r2" using EnableMux_ok by blast
  obtain r3 where r3: "SelectMuxChannel (ucast (FirstActiveStrip g)) r2 = Inr r3" "selected_channel r3 = hd (strip_list g)"
    using SelectMuxChannel_ok[of "ucast (FirstActiveStrip g)" r2] mod8 by auto
  have "ConvertActiveStrips (E_malloc E) g a = Inr (a\<lparr>active_strip_indices := Some (map of_nat (strip_list g))\<rparr>)"
    using collect_all[OF assms(1), of block] assms(2,4,5) length_strip_list[OF assms(1)]
    by (auto simp: ConvertActiveStrips_def count_ok_def)
  then show ?thesis
    using r1 r2 r3 by (simp add: initialize_mux_def on_dev_res_def on_regs_res_def)
qed

text \<open>
  What a start needs of the parameters, of the library and of the hardware: a strip is selected, the values are in range for the generators and
  timers, \<open>malloc\<close> gives the block, the calibrations end.
\<close>

definition params_ok :: "env \<Rightarrow> real \<Rightarrow> globals \<Rightarrow> bool" where
  "params_ok E f g \<longleftrightarrow>
     chip_ok (E_chip E) \<and> sin_range (E_sin E) \<and> count_ok g \<and> 0 < n_active g \<and>
     wave_params_ok g f \<and> MUX_freq g \<noteq> 0 \<and> g_excitation_voltage_per_resistor g \<noteq> NaN \<and>
     (\<exists>block. E_malloc E (n_active g) = Some block \<and> length block = n_active g) \<and>
     reads_ok (L_lpadc (E_chip E)) (E_voltage_reads E) \<and> reads_ok (L_lpadc (E_chip E)) (E_current_reads E)"

text \<open>What it needs of the state: true after the start of the program, and in every state of a measurement. The sums may have any values.\<close>

definition restartable :: "globals \<Rightarrow> adc_vars \<Rightarrow> board \<Rightarrow> bool" where
  "restartable g a b \<longleftrightarrow>
     arrays_ok g \<and> unat (g_Dac14InputIndex g) < MAX_ARRAY_SIZE \<and> SoftwareAverageCount a = 30 \<and>
     adc_regs_ok (ADC0 b) \<and> adc_regs_ok (ADC1 b)"

text \<open>The measurement that has just been started.\<close>

definition running :: "env \<Rightarrow> globals \<Rightarrow> adc_vars \<Rightarrow> board \<Rightarrow> bool" where
  "running E g a b \<longleftrightarrow>
     measuring (g, a, b, 0, 0) \<and> restartable g a b \<and> strip_list g \<noteq> [] \<and> g_timestamp_ms g = 0 \<and> resistance_array g = replicate 8 (0, 0) \<and>
     currentCountIndex a = 0 \<and> current_active_strip_index a = 0 \<and>
     selected_channel (GPIO4 b) = hd (strip_list g) \<and> sample_timer_ok (E_chip E) b \<and> adc_timer_ok (E_chip E) (tick_match g) b \<and>
     converter_ready (L_lpadc (E_chip E)) voltage_command (ADC0 b) \<and> converter_ready (L_lpadc (E_chip E)) current_command (ADC1 b)"

lemma clear_resistances: "length rs = 8 \<Longrightarrow> fill 0 8 (\<lambda>i. Inr (0, 0)) rs = Inr (replicate 8 (0 :: c_int, 0 :: c_int))"
  using fill_ok[of 0 8 rs "\<lambda>i. Inr (0, 0)" "\<lambda>i. (0, 0)"] by (simp add: map_replicate_const)

lemma initialise_ok:
  assumes "params_ok E f g" and "restartable g a b"
  shows "\<exists>n vs a' b'. InitializeAllPeripherals E (g, a, b) =
      Some (Inr (0, g\<lparr>g_Dac14ValueArraySize := n, g_Dac14Values := vs, g_timestamp_ms := 0, resistance_array := replicate 8 (0, 0)\<rparr>, a', b')) \<and>
    running E (g\<lparr>g_Dac14ValueArraySize := n, g_Dac14Values := vs, g_timestamp_ms := 0, resistance_array := replicate 8 (0, 0)\<rparr>) a' b' \<and>
    VoltageSum a' = VoltageSum a"
proof -
  let ?C = "E_chip E"
  have s: "chip_ok ?C" "sin_range (E_sin E)" "arrays_ok g" "count_ok g" "0 < n_active g" "wave_params_ok g f" "MUX_freq g \<noteq> 0"
      "g_excitation_voltage_per_resistor g \<noteq> NaN" "adc_regs_ok (ADC0 b)" "adc_regs_ok (ADC1 b)"
      "reads_ok (L_lpadc ?C) (E_voltage_reads E)" "reads_ok (L_lpadc ?C) (E_current_reads E)" "SoftwareAverageCount a = 30"
      "unat (g_Dac14InputIndex g) < MAX_ARRAY_SIZE"
    using assms by (simp_all add: params_ok_def restartable_def)
  obtain block where block: "E_malloc E (n_active g) = Some block" "length block = n_active g" using assms(1) by (auto simp: params_ok_def)
  obtain r0 where r0: "InitPowerMux (GPIO2 b) = Inr r0" using InitPowerMux_ok by blast
  let ?b0 = "b\<lparr>GPIO2 := r0\<rparr>"
  have p0: "initialize_powermux (g, a, b) = Inr (0, g, a, ?b0)" using r0 by (simp add: initialize_powermux_def on_regs_res_def)
  obtain n vs b1 where h: "initialize_dac_hot_plate ?C (E_sin E) (g, ?b0) =
        Inr (0, g\<lparr>g_Dac14ValueArraySize := n, g_Dac14Values := vs\<rparr>, b1)"
      "1 \<le> unat n" "unat n \<le> MAX_ARRAY_SIZE" "length vs = MAX_ARRAY_SIZE" "sample_timer_ok ?C b1"
    using hot_plate_ok[OF s(1-3,6), of ?b0] by blast
  have f1: "ADC0 b1 = ADC0 b" "ADC1 b1 = ADC1 b" using hot_plate_frame[OF h(1)] by simp_all
  define g1 where "g1 = g\<lparr>g_Dac14ValueArraySize := n, g_Dac14Values := vs\<rparr>"
  have g1: "arrays_ok g1" "count_ok g1" "n_active g1 = n_active g" "strip_list g1 = strip_list g" "MUX_freq g1 \<noteq> 0"
    using s(3,4,7) h(4) by (simp_all add: g1_def arrays_ok_def count_ok_def n_active_def strip_list_def)
  let ?a2 = "a\<lparr>active_strip_indices := Some (map of_nat (strip_list g))\<rparr>"
  obtain b2 where b2: "initialize_mux E (g1, a, b1) = Inr (0, g1, ?a2, b2)" "selected_channel (GPIO4 b2) = hd (strip_list g)"
      "ADC0 b2 = ADC0 b" "ADC1 b2 = ADC1 b" "CTIMER4 b2 = CTIMER4 b1"
    using mux_init_ok[OF g1(1,2), of E block a b1] g1(3,4) s(5) block f1 by auto
  obtain b3 where b3: "ADC_Voltage_Initialize ?C (E_voltage_reads E) b2 = Some (Inr b3)"
      "converter_ready (L_lpadc ?C) voltage_command (ADC0 b3)" "adc_regs_ok (ADC0 b3)" "ADC1 b3 = ADC1 b2" "others_same b2 b3"
    using voltage_setup[OF s(1), of b2 "E_voltage_reads E"] s(9,11) b2(3) by auto
  obtain b4 where b4: "ADC_Current_Initialize ?C (E_current_reads E) b3 = Some (Inr b4)"
      "converter_ready (L_lpadc ?C) current_command (ADC1 b4)" "adc_regs_ok (ADC1 b4)" "ADC0 b4 = ADC0 b3" "others_same b3 b4"
    using current_setup[OF s(1), of b3 "E_current_reads E"] s(10,12) b2(4) b3(4) by auto
  let ?a5 = "?a2\<lparr>current_active_strip_index := 0, currentCountIndex := 0\<rparr>"
  obtain b5 where b5: "ADC_Voltage_timer_setup ?C g1 (?a2, b4) = Inr (?a5, b5)" "adc_timer_ok ?C (tick_match g1) b5"
      "GPIO4 b5 = GPIO4 b4" "ADC0 b5 = ADC0 b4" "ADC1 b5 = ADC1 b4" "CTIMER4 b5 = CTIMER4 b4"
    using timer_setup_ok[OF s(1) _ g1(5), of ?a2 b4] s(13) by auto
  have cnt: "unat (g_strip_count g1) \<le> 8"
    using g1(1,2) n_active_le[of g1] by (simp add: count_ok_def)
  have "g_excitation_voltage_per_resistor g1 \<noteq> NaN" using s(8) by (simp add: g1_def)
  from excitation_init_ok[OF s(1) this cnt, of b5]
  obtain b6 where b6: "initialize_excitation_dac ?C g1 b5 = Inr (0, b6)" "ADC0 b6 = ADC0 b5" "ADC1 b6 = ADC1 b5" "GPIO4 b6 = GPIO4 b5"
      "CTIMER2 b6 = CTIMER2 b5" "CTIMER4 b6 = CTIMER4 b5" by blast
  let ?b7 = "call (NVIC_SetPriority SysTick 1) (call (SysTick_Config (SystemCoreClock E div 1000)) b6)"
  let ?g7 = "g1\<lparr>g_timestamp_ms := 0, resistance_array := replicate 8 (0, 0)\<rparr>"
  have ra: "length (resistance_array g1) = 8" using g1(1) by (simp add: arrays_ok_def)
  have run: "InitializeAllPeripherals E (g, a, b) = Some (Inr (0, ?g7, ?a5, ?b7))"
    using p0 h(1) b2(1) b3(1) b4(1) b5(1) b6(1) clear_resistances[OF ra]
    by (simp add: InitializeAllPeripherals_def init_then_def initialize_voltage_adc_def initialize_current_adc_def TimestampInit_def Let_def
        flip: g1_def)
  have "sampling_ready ?g7 ?a5"
    using g1(1-4) s(5,13) length_strip_list[OF s(3)]
    by (simp add: sampling_ready_def arrays_ok_def count_ok_def n_active_def strip_list_def)
  moreover have "playback_ok ?g7" using h(2,3) s(14) by (auto simp: playback_ok_def g1_def unsigned_eq_0_iff)
  moreover have ne: "strip_list ?g7 \<noteq> []" using g1(4) s(3,5) length_strip_list[of g] by (auto simp: strip_list_def)
  ultimately have "measuring (?g7, ?a5, ?b7, 0, 0)" by simp
  moreover have "restartable ?g7 ?a5 ?b7"
    using g1(1) s(13,14) b3(3) b4(3,4) b5(4,5) b6(2,3) by (simp add: restartable_def g1_def arrays_ok_def)
  moreover have "selected_channel (GPIO4 ?b7) = hd (strip_list ?g7)"
    using b2(2) b3(5) b4(5) b5(3) b6(4) g1(4) by (simp add: others_same_def strip_list_def)
  moreover have "adc_timer_ok ?C (tick_match ?g7) ?b7" using b5(2) b6(5) by (simp add: adc_timer_ok_def tick_match_def)
  moreover have "sample_timer_ok ?C ?b7"
    using h(5) b2(5) b3(5) b4(5) b5(6) b6(6) by (simp add: sample_timer_ok_def others_same_def)
  moreover have "converter_ready (L_lpadc ?C) voltage_command (ADC0 ?b7)" "converter_ready (L_lpadc ?C) current_command (ADC1 ?b7)"
    using b3(2) b4(2,4) b5(4,5) b6(2,3) by simp_all
  ultimately have "running E ?g7 ?a5 ?b7" using ne by (simp add: running_def)
  moreover have "VoltageSum ?a5 = VoltageSum a" by simp
  ultimately show ?thesis using run unfolding g1_def by blast
qed

text \<open>Interrupts leave the register arrays of the converters as they are, so every state of a measurement allows a restart.\<close>

lemma ctimer2_regs:
  assumes "CTIMER2_IRQHandler C (g, a, b) = Inr (g', a', b')"
  shows "adc_regs_ok (ADC0 b') = adc_regs_ok (ADC0 b)" and "adc_regs_ok (ADC1 b') = adc_regs_ok (ADC1 b)"
proof -
  have trig: "adc_regs_ok (LPADC_DoSoftwareTrigger w r) = adc_regs_ok r" for w r
    by (simp add: LPADC_DoSoftwareTrigger_def adc_regs_ok_def)
  have fin: "ADC0 b2 = ADC0 b1 \<and> ADC1 b2 = ADC1 b1" if "finish_strip (g, a, b1) = Inr (g', a', b2)" for b1 b2
    using that by (auto simp: finish_strip_def Let_def on_regs_res_def res split: if_splits)
  show "adc_regs_ok (ADC0 b') = adc_regs_ok (ADC0 b)" "adc_regs_ok (ADC1 b') = adc_regs_ok (ADC1 b)"
    using assms fin by (auto simp: CTIMER2_IRQHandler_def Let_def trigger_converters_def trig split: if_splits)
qed

lemma measuring_restartable:
  "measuring (g, a, b, p, q) \<Longrightarrow> restartable g a b \<longleftrightarrow> adc_regs_ok (ADC0 b) \<and> adc_regs_ok (ADC1 b)"
  by (auto simp: restartable_def sampling_ready_def playback_ok_def)

definition restart_inv :: "irq_state \<Rightarrow> bool" where
  "restart_inv s \<longleftrightarrow> measuring s \<and> (case s of (g, a, b, p, q) \<Rightarrow> restartable g a b)"

lemma restart_inv_step:
  assumes "restart_inv s" and "irq_step C depth s (Inr s')"
  shows "restart_inv s'"
proof -
  have m: "measuring s'" using irq_any.keeps[of s C depth s'] assms unfolding restart_inv_def by blast
  obtain g a b p q where s: "s = (g, a, b, p, q)" by (cases s)
  obtain g' a' b' p' q' where s': "s' = (g', a', b', p', q')" by (cases s')
  have inv: "measuring (g, a, b, p, q)" "adc_regs_ok (ADC0 b)" "adc_regs_ok (ADC1 b)"
    using assms(1) measuring_restartable[of g a b p q] by (auto simp: restart_inv_def s simp del: measuring.simps)
  have "adc_regs_ok (ADC0 b') \<and> adc_regs_ok (ADC1 b')"
    using assms(2)
  proof (cases rule: irq_step.cases)
    case (irq_ctimer2 g a b p q)
    from irq_ctimer2(2)[symmetric] show ?thesis
      using inv irq_ctimer2(1) ctimer2_regs[of C g a b] by (auto simp: s s' rbind_eq_Inr simp del: measuring.simps)
  next
    case (irq_ctimer4 g a b p q)
    from irq_ctimer4(2)[symmetric] show ?thesis
      using inv irq_ctimer4(1) ctimer4_runs[of g a b p q C] by (auto simp: s s' rbind_eq_Inr simp del: measuring.simps)
  qed (use inv in \<open>auto simp: s s' simp del: measuring.simps\<close>)
  then show ?thesis using m measuring_restartable[of g' a' b' p' q'] by (simp add: restart_inv_def s' del: measuring.simps)
qed

interpretation restarts: faulty_system "irq_step C depth" restart_inv "\<lambda>s e. e = CastRange \<and> unfit_at_end s"
proof unfold_locales
  fix s s' e
  assume inv: "restart_inv s"
  show "irq_step C depth s (Inr s') \<Longrightarrow> restart_inv s'" by (rule restart_inv_step[OF inv])
  show "irq_step C depth s (Inl e) \<Longrightarrow> e = CastRange \<and> unfit_at_end s"
    using inv irq_any.faults[of s C depth e] unfolding restart_inv_def by blast
qed

lemma running_inv: "running E g a b \<Longrightarrow> restart_inv (g, a, b, p, q)"
  by (simp add: running_def restart_inv_def)

text \<open>The bounds of the sums after a start, from those before it: the first start, and the restart of a measurement that was started once.\<close>

lemma running_bounds:
  assumes "running E g a b" and "p \<le> 16"
  shows "unat (VoltageSum a) + 65535 * p \<le> 65535 * 16 \<Longrightarrow> voltages_below (2 ^ 17) g \<Longrightarrow> irq_inv 16 (g, a, b, p, q)"
    and "unat (VoltageSum a) \<le> 65535 * 45 \<Longrightarrow> voltages_below 200000 g \<Longrightarrow>
      bounded_measuring (65535 * 45) 200000 16 (g, a, b, p, q)"
  using assms by (simp_all add: running_def sum_bounded_def bounded_measuring_def)

lemma irq_inv_bounds:
  assumes "irq_inv 16 (g, a, b, p, q)"
  shows "unat (VoltageSum a) \<le> 65535 * 45" and "voltages_below 200000 g"
  using assms voltages_below_200000 by (auto simp: sum_bounded_def sampling_ready_def)

section \<open>Reading a line\<close>

definition line_chars :: "u8 list \<Rightarrow> bool" where
  "line_chars cs \<longleftrightarrow> 10 \<notin> set cs \<and> 13 \<notin> set cs"

lemma gui_store:
  assumes "line_chars cs" and "m_index m + length cs \<le> length (m_buffer m)"
  shows "gui_loop E (cs @ rest) m s = gui_loop E rest
    (m\<lparr>m_buffer := take (m_index m) (m_buffer m) @ cs @ drop (m_index m + length cs) (m_buffer m), m_index := m_index m + length cs\<rparr>) s"
  using assms
proof (induction cs arbitrary: m)
  case (Cons c cs)
  let ?m = "m\<lparr>m_buffer := (m_buffer m)[m_index m := c], m_index := m_index m + 1\<rparr>"
  have lt: "m_index m < length (m_buffer m)" using Cons.prems(2) by simp
  have c: "c \<noteq> 10" "c \<noteq> 13" "line_chars cs" using Cons.prems(1) by (auto simp: line_chars_def)
  have "gui_turn E c m s = Some (Inr (Continue ?m s))" using c lt by (simp add: gui_turn_def Let_def)
  then have step: "gui_loop E ((c # cs) @ rest) m s = gui_loop E (cs @ rest) ?m s" by simp
  have "take (Suc (m_index m)) ((m_buffer m)[m_index m := c]) = take (m_index m) (m_buffer m) @ [c]"
    using lt by (simp add: take_Suc_conv_app_nth)
  then show ?case
    using step Cons.IH[OF c(3), of ?m] Cons.prems(2) by simp
qed simp

lemma gui_overflow:
  assumes "line_chars cs" and "length (m_buffer m) < m_index m + length cs" and "m_index m \<le> length (m_buffer m)"
  shows "gui_loop E (cs @ rest) m s = Some (Inl OutOfBounds)"
  using assms
proof (induction cs arbitrary: m)
  case (Cons c cs)
  let ?m = "m\<lparr>m_buffer := (m_buffer m)[m_index m := c], m_index := m_index m + 1\<rparr>"
  show ?case
  proof (cases "m_index m < length (m_buffer m)")
    case True
    have c: "c \<noteq> 10" "c \<noteq> 13" "line_chars cs" using Cons.prems(1) by (auto simp: line_chars_def)
    have "gui_turn E c m s = Some (Inr (Continue ?m s))" using c True by (simp add: gui_turn_def Let_def)
    then show ?thesis using Cons.IH[OF c(3), of ?m] Cons.prems(2) True by simp
  next
    case False
    then show ?thesis by (simp add: gui_turn_def)
  qed
qed simp

text \<open>The end of a line that fits.\<close>

lemma gui_loop_last:
  assumes "gui_turn E ch m s = Some (Inr t)"
  shows "gui_loop E [ch] m s = Some (Inr t)"
  using assms by (cases t) simp_all

lemma gui_line:
  assumes "line_chars cs" and "length cs \<le> 254" and "m_index m = 0" and "length (m_buffer m) = 256"
  shows "\<exists>rest. length (cs @ 10 # 0 # rest) = 256 \<and>
    (\<forall>t. end_of_line E (m\<lparr>m_buffer := cs @ 10 # 0 # rest, m_index := length cs + 1\<rparr>) s = Some (Inr t) \<longrightarrow>
      gui_loop E (cs @ [10]) m s = Some (Inr t))"
proof -
  obtain x y rest where d: "drop (length cs) (m_buffer m) = x # y # rest"
  proof -
    have "2 \<le> length (drop (length cs) (m_buffer m))" using assms(2,4) by simp
    then show ?thesis using that by (cases "drop (length cs) (m_buffer m)"; cases "tl (drop (length cs) (m_buffer m))") auto
  qed
  have len: "length rest + length cs = 254"
    using arg_cong[OF d, of length] assms(2,4) by simp
  let ?m = "m\<lparr>m_buffer := cs @ x # y # rest, m_index := length cs\<rparr>"
  have store: "gui_loop E (cs @ [10]) m s = gui_loop E [10] ?m s"
    using gui_store[OF assms(1), of m E "[10]" s] assms d by simp
  have eol: "gui_turn E 10 ?m s = end_of_line E (m\<lparr>m_buffer := cs @ 10 # 0 # rest, m_index := length cs + 1\<rparr>) s"
    by (cases s) (simp add: gui_turn_def Let_def list_update_append end_of_line_def arr_set_def cong: if_cong)
  show ?thesis using len store eol gui_loop_last[of E 10 ?m s] by (intro exI[of _ rest]) simp
qed

text \<open>
  C37: The command buffer has no check: a line of 255 characters or more, which the line feed or the next character pushes past the
  256 bytes, is written outside it.
\<close>

theorem long_line_overflows:
  assumes "line_chars cs" and "255 \<le> length cs"
  shows "gui_loop E (cs @ [10]) init_main_vars s = Some (Inl OutOfBounds)"
proof (cases "256 < length cs")
  case True
  then show ?thesis using gui_overflow[OF assms(1), of init_main_vars E "[10]" s] by (simp add: init_main_vars_def)
next
  case False
  let ?m = "init_main_vars\<lparr>m_buffer := cs @ drop (length cs) (replicate 256 0), m_index := length cs\<rparr>"
  have "gui_loop E (cs @ [10]) init_main_vars s = gui_loop E [10] ?m s"
    using gui_store[OF assms(1), of init_main_vars E "[10]" s] False by (simp add: init_main_vars_def)
  moreover have "gui_turn E 10 ?m s = Some (Inl OutOfBounds)"
  proof (cases "length cs = 256")
    case True
    then show ?thesis by (simp add: gui_turn_def)
  next
    case neq: False
    then have "length cs = 255" using False assms(2) by simp
    then show ?thesis by (simp add: gui_turn_def end_of_line_def Let_def list_update_append split: prod.split)
  qed
  ultimately show ?thesis by simp
qed

text \<open>An environment for which everything above can happen.\<close>

definition example_env :: env where
  "example_env =
    \<lparr>E_chip = example_chip, E_sin = rounded_sin, E_malloc = (\<lambda>n. Some (replicate n 0xA5)),
     E_voltage_reads = example_reads, E_current_reads = example_reads, SystemCoreClock = 150000000\<rparr>"

theorem long_line_overflows_witness:
  "gui_loop example_env (replicate 255 49 @ [10]) init_main_vars (init_globals, init_adc_vars, reset_board) = Some (Inl OutOfBounds)"
  using long_line_overflows[of "replicate 255 49" example_env "(init_globals, init_adc_vars, reset_board)"]
  by (simp add: line_chars_def)

section \<open>A command starts the measurement\<close>

lemma joined_chars: "set (join_tokens t ts) \<subseteq> set t \<union> \<Union> (set (map set ts)) \<union> {COMMA}"
proof (induction ts arbitrary: t)
  case Nil
  then show ?case by auto
next
  case (Cons t' ts)
  from Cons.IH[of t'] show ?case by auto
qed

lemma command_snoc: "command_line w d f a v m (strips @ [c]) = command_line w d f a v m strips @ [c]"
  by (simp add: command_line_def)

lemma decimal_line: "line_chars (decimal n)"
proof -
  have "\<not> is_space c" if "c \<in> set (decimal n)" for c using decimal_chars[OF that] digit_char(4) by blast
  moreover have "is_space 10" "is_space 13" by (simp_all add: is_space_def)
  ultimately show ?thesis unfolding line_chars_def by blast
qed

lemma command_chars:
  assumes "list_all line_chars [f, a, v, strips]"
  shows "line_chars (command_line w d f a v m strips)"
proof -
  have comma: "COMMA \<noteq> 10" "COMMA \<noteq> 13" by (simp_all add: chars)
  have sub: "set (command_line w d f a v m strips) \<subseteq>
      set (decimal w) \<union> (set (decimal d) \<union> set f \<union> set a \<union> set v \<union> set (decimal m) \<union> set strips) \<union> {COMMA}"
    using joined_chars[of "decimal w" "[decimal d, f, a, v, decimal m, strips]"] by (auto simp: command_line_def)
  have dec: "10 \<notin> set (decimal n) \<and> 13 \<notin> set (decimal n)" for n using decimal_line[of n] by (simp add: line_chars_def)
  have "c \<notin> set (command_line w d f a v m strips)" if "c = 10 \<or> c = 13" for c
    using that subsetD[OF sub, of c] assms comma dec by (auto simp: line_chars_def)
  then show ?thesis by (simp add: line_chars_def)
qed

lemma strip_flags_snoc: "8 \<le> length strips \<Longrightarrow> strip_flags (strips @ [c]) = strip_flags strips"
  by (simp add: strip_flags_def nth_append)

lemma commanded_snoc: "8 \<le> length strips \<Longrightarrow> commanded w d f A v m (strips @ [c]) g = commanded w d f A v m strips g"
  by (simp add: commanded_def strip_flags_snoc)

lemma commanded_clear: "commanded w d f A v m strips (g\<lparr>active_strips := bs\<rparr>) = commanded w d f A v m strips g"
  by (simp add: commanded_def)

text \<open>The state of \<open>main\<close> between two commands.\<close>

definition between_commands :: "main_vars \<Rightarrow> bool" where
  "between_commands m \<longleftrightarrow> m_index m = 0 \<and> length (m_buffer m) = 256 \<and> \<not> Initializationsuccess m"

lemma commanded_restartable: "restartable g a b \<Longrightarrow> restartable (commanded w d f A v m strips g) a b"
  by (simp add: restartable_def arrays_ok_def commanded_def strip_flags_def)

text \<open>
  C2: From the characters on the line to the running measurement. The command has the format of the interface, is sent character by character and ends with a
  line feed; it selects at least one strip, its values are in range for the generators and the timers (\<open>params_ok\<close>, with the wave form,
  its frequency and amplitude as in \<open>wave_params_ok\<close>, a multiplexer frequency other than zero and a voltage that is a number), \<open>malloc\<close> gives the block for the list of
  strips, and the calibrations of the converters end. The state is that after the start of the program or any state of a measurement (\<open>restartable\<close>), whatever
  sums and voltages it holds. Then the command sets exactly the commanded parameters, starts all peripherals, leaves the main
  loop ready for the next command, and the measurement is running: the list of strips agrees with the selection, the multiplexer
  connects the first selected strip, both timers count with the right periods, both converters are set up, and the state allows a restart again. The sum of the
  voltages is not cleared. (What the interrupts do then is C3.)
\<close>

theorem gui_command:
  assumes "w < 2 ^ 31" and "d < 2 ^ 31" and "m < 2 ^ 31" and "list_all token_ok [f, a, v, strips]" and "list_all line_chars [f, a, v, strips]"
    and "fp_to_u32 (atof a) = Inr amplitude" and "8 \<le> length strips" and "length (command_line w d f a v m strips) \<le> 254"
    and "between_commands mv" and "restartable g ad b" and "params_ok E fr (commanded w d f amplitude v m strips g)"
  shows "\<exists>n vs mv' ad' b'. gui_loop E (command_line w d f a v m strips @ [10]) mv (g, ad, b) =
      Some (Inr (Continue mv' ((commanded w d f amplitude v m strips g)
        \<lparr>g_Dac14ValueArraySize := n, g_Dac14Values := vs, g_timestamp_ms := 0, resistance_array := replicate 8 (0, 0)\<rparr>, ad', b'))) \<and>
    running E ((commanded w d f amplitude v m strips g)
        \<lparr>g_Dac14ValueArraySize := n, g_Dac14Values := vs, g_timestamp_ms := 0, resistance_array := replicate 8 (0, 0)\<rparr>) ad' b' \<and>
    VoltageSum ad' = VoltageSum ad \<and> between_commands mv'"
proof -
  let ?cs = "command_line w d f a v m strips"
  let ?g = "commanded w d f amplitude v m strips g"
  obtain rest where rest: "length (?cs @ 10 # 0 # rest) = 256"
    and line: "\<And>t. end_of_line E (mv\<lparr>m_buffer := ?cs @ 10 # 0 # rest, m_index := length ?cs + 1\<rparr>) (g, ad, b) = Some (Inr t) \<Longrightarrow>
      gui_loop E (?cs @ [10]) mv (g, ad, b) = Some (Inr t)"
    using gui_line[OF command_chars[OF assms(5)] assms(8), of mv E "(g, ad, b)"] assms(9) by (auto simp: between_commands_def)
  have strips: "length (active_strips g) = 8" using assms(10) by (simp add: restartable_def arrays_ok_def)
  then have clear: "fill 0 8 (\<lambda>i. Inr False) (active_strips g) = Inr (replicate 8 False)"
    using fill_ok[of 0 8 "active_strips g" "\<lambda>i. Inr False" "\<lambda>i. False"] strips by (simp add: map_replicate_const)
  have tokens: "list_all token_ok [f, a, v, strips @ [10]]" using assms(4) by (auto simp: token_ok_def chars)
  obtain buf where buf: "updateParameters (?cs @ 10 # 0 # rest) (g\<lparr>active_strips := replicate 8 False\<rparr>) = Inr (0, buf, ?g)" "length buf = 256"
    using update_ok[OF assms(1-3) tokens assms(6), of "g\<lparr>active_strips := replicate 8 False\<rparr>" rest] assms(7) rest strips
    by (auto simp: command_snoc commanded_snoc commanded_clear)
  have zero: "arr_set (?cs @ 10 # 0 # rest) (length ?cs + 1) 0 = Inr (?cs @ 10 # 0 # rest)"
    by (simp add: arr_set_def list_update_append)
  obtain n vs ad' b' where init: "InitializeAllPeripherals E (?g, ad, b) = Some (Inr (0,
        ?g\<lparr>g_Dac14ValueArraySize := n, g_Dac14Values := vs, g_timestamp_ms := 0, resistance_array := replicate 8 (0, 0)\<rparr>, ad', b'))"
    and run: "running E (?g\<lparr>g_Dac14ValueArraySize := n, g_Dac14Values := vs, g_timestamp_ms := 0, resistance_array := replicate 8 (0, 0)\<rparr>) ad' b'"
    and sum: "VoltageSum ad' = VoltageSum ad"
    using initialise_ok[OF assms(11) commanded_restartable[OF assms(10)]] by blast
  let ?g' = "?g\<lparr>g_Dac14ValueArraySize := n, g_Dac14Values := vs, g_timestamp_ms := 0, resistance_array := replicate 8 (0, 0)\<rparr>"
  define mv' where "mv' = mv\<lparr>m_index := 0, m_buffer := buf[0 := 0]\<rparr>"
  have "command_done (mv\<lparr>m_index := length ?cs + 1, m_buffer := buf\<rparr>) = Inr mv'"
    using buf(2) by (simp add: command_done_def arr_set_def mv'_def)
  then have "end_of_line E (mv\<lparr>m_buffer := ?cs @ 10 # 0 # rest, m_index := length ?cs + 1\<rparr>) (g, ad, b) =
      Some (Inr (Continue mv' (?g', ad', b')))"
    using zero clear buf(1) init assms(9) by (simp add: end_of_line_def between_commands_def)
  moreover have "between_commands mv'" using assms(9) buf(2) by (simp add: between_commands_def mv'_def)
  ultimately show ?thesis using line run sum by blast
qed

text \<open>The command \<open>1,40,0.5,14,0.5,8,00100000\<close>.\<close>

lemma atof_half: "atof [48, 46, 53] = Fin (1 / 2)"
proof -
  have d: "digit_value 10 48 = Some 0" "digit_value 10 53 = Some 5" "digit_value 10 46 = None" by (simp_all add: digit_value_def to_lower_def)
  then have "is_digit 10 48" "is_digit 10 53" "\<not> is_digit 10 46" by (simp_all add: is_digit_def)
  then have n: "number_value 10 101 10 [48, 46, 53] = 1 / 2"
    using d by (simp add: number_value_def take_digits_def digits_value_def exponent_def)
  have "rep64 (1 / 2)" using representable_scaled[of 1 53 "- 1074" "- 1"] by (simp add: power_int_minus)
  then have "fl64 (1 / 2) = Fin (1 / 2)" using fl64_finite[of "1 / 2"] by (simp add: r64.exact)
  then have "fl64 (number_value 10 101 10 [48, 46, 53]) = Fin (1 / 2)" by (simp only: n)
  then show ?thesis
    by (simp add: atof_def take_sign_def is_space_def starts_with_def hex_number_def to_lower_def)
qed

lemma cast_half: "fp_cast fl32 (Fin (1 / 2)) = Fin (1 / 2)"
proof -
  have "rep32 (1 / 2)" using representable_scaled[of 1 24 "- 149" "- 1"] by (simp add: power_int_minus)
  then show ?thesis using fl32_finite[of "1 / 2"] by (simp add: r32.exact)
qed

lemma lowest_freq_below: "1 / 32 \<le> x \<Longrightarrow> \<not> fp_lt (Fin x) LOWEST_FREQ_POSSIBLE"
proof -
  assume x: "1 / 32 \<le> x"
  have "rep64 0" "rep64 (1 / 256)" using rep64_nat[of 0] representable_scaled[of 1 53 "- 1074" "- 8"] by (simp_all add: power_int_minus)
  from fl64_between[OF this, of "2 / 1000"] show ?thesis using x by (simp add: LOWEST_FREQ_POSSIBLE_def)
qed

definition example_strips :: "u8 list" where
  "example_strips = [48, 48, 49, 48, 48, 48, 48, 48]"

lemma example_flags: "strip_flags example_strips = [False, False, True, False, False, False, False, False]"
  by (simp add: strip_flags_def example_strips_def chars upt_rec)

lemma example_params_ok:
  assumes "active_strips g = [False, False, True, False, False, False, False, False]" and "g_strip_count g = 1"
    and "wave_params_ok g f" and "MUX_freq g \<noteq> 0" and "g_excitation_voltage_per_resistor g \<noteq> NaN"
  shows "params_ok example_env f g"
proof -
  have "n_active g = 1" using assms(1) by (simp add: n_active_def)
  then have "count_ok g" "0 < n_active g" using assms(2) by (simp_all add: count_ok_def)
  moreover have "L_lpadc example_chip = example_lpadc" by (simp add: example_chip_def)
  ultimately show ?thesis
    using assms example_chip_ok rounded_sin_range example_reads_ok by (simp add: params_ok_def example_env_def)
qed

lemma init_restartable: "restartable init_globals init_adc_vars reset_board"
  using reset_adc_ok by (simp add: restartable_def init_adc_vars_def reset_board_def MAX_ARRAY_SIZE_def init_globals_def[THEN arg_cong[where f = g_Dac14InputIndex]])

lemma example_command_ok: "params_ok example_env (1 / 2) (commanded 1 40 [48, 46, 53] 14 [48, 46, 53] 8 example_strips init_globals)"
proof (rule example_params_ok)
  let ?g = "commanded 1 40 [48, 46, 53] 14 [48, 46, 53] 8 example_strips init_globals"
  show "active_strips ?g = [False, False, True, False, False, False, False, False]" "g_strip_count ?g = 1" "MUX_freq ?g \<noteq> 0"
    by (simp_all add: commanded_def example_flags)
  show "wave_params_ok ?g (1 / 2)" using lowest_freq_below[of "1 / 2"] by (simp add: wave_params_ok_def commanded_def atof_half cast_half[simplified])
  show "g_excitation_voltage_per_resistor ?g \<noteq> NaN" by (simp add: commanded_def atof_half cast_half[simplified])
qed

theorem gui_command_witness:
  "\<exists>mv' s'. gui_loop example_env (command_line 1 40 [48, 46, 53] [49, 52] [48, 46, 53] 8 example_strips @ [10]) init_main_vars
      (init_globals, init_adc_vars, reset_board) = Some (Inr (Continue mv' s')) \<and>
    running example_env (fst s') (fst (snd s')) (snd (snd s')) \<and> between_commands mv'"
proof -
  have tokens: "list_all token_ok [[48, 46, 53], [49, 52], [48, 46, 53], example_strips]"
    by (simp add: token_ok_def chars example_strips_def)
  have lines: "list_all line_chars [[48, 46, 53], [49, 52], [48, 46, 53], example_strips]"
    by (simp add: line_chars_def example_strips_def)
  have amp: "fp_to_u32 (atof [49, 52]) = Inr 14" by (simp add: atof_14 trunc_def)
  have len: "length (command_line 1 40 [48, 46, 53] [49, 52] [48, 46, 53] 8 example_strips) \<le> 254"
    by (simp add: command_line_def decimal.simps example_strips_def)
  have start: "between_commands init_main_vars" "8 \<le> length example_strips"
    by (simp_all add: between_commands_def init_main_vars_def example_strips_def)
  show ?thesis
    using gui_command[OF _ _ _ tokens lines amp start(2) len start(1) init_restartable example_command_ok] by fastforce
qed

text \<open>
  C3: Start or restart, followed by any sequence of interrupts. When a strip is selected, the parameters are in range, \<open>malloc\<close> gives the block and the calibrations
  end (\<open>params_ok\<close>), in the state after the start of the program or in any state of a measurement (\<open>restartable\<close>: nothing is asked of the sums and voltages), every
  call of the initialisation succeeds and the measurement is running. Whatever the order of the interrupts afterwards,
  with any number of conversions still pending and whatever the converters return: every state reached allows a restart again, no handler reads or writes outside an array, divides
  by zero or follows a null pointer, and the one fault left is the conversion, at the end of a round, of a resistance that does not fit into an
  \<open>int\<close>. The voltage sum that is not cleared shows in the bounds: if it was at most 65535 * 45 and no voltage above 200000 counts was stored, as in every state with
  the invariant of C7, only a round without current has such a resistance; if sum and pending conversions are within the first sixteen conversions and no voltage above
  131072 counts was stored, as after the start of the program, the invariant of C7 itself holds in every state reached.
\<close>

theorem initialised_runs_safely:
  assumes "params_ok E f g" and "restartable g a b"
  shows "\<exists>g' a' b'. InitializeAllPeripherals E (g, a, b) = Some (Inr (0, g', a', b')) \<and> running E g' a' b' \<and>
    VoltageSum a' = VoltageSum a \<and> V_sens_strip_values g' = V_sens_strip_values g \<and>
    (\<forall>p q s. reach (irq_step (E_chip E) 16) (g', a', b', p, q) s \<longrightarrow>
      measuring s \<and> (case s of (g2, a2, b2, _) \<Rightarrow> restartable g2 a2 b2) \<and>
      (\<forall>e. irq_step (E_chip E) 16 s (Inl e) \<longrightarrow> e = CastRange \<and> unfit_at_end s) \<and>
      (p \<le> 16 \<and> unat (VoltageSum a) \<le> 65535 * 45 \<and> voltages_below 200000 g \<longrightarrow>
        (\<forall>e. irq_step (E_chip E) 16 s (Inl e) \<longrightarrow> no_current_at_end s)) \<and>
      (p \<le> 16 \<and> unat (VoltageSum a) + 65535 * p \<le> 65535 * 16 \<and> voltages_below (2 ^ 17) g \<longrightarrow> irq_inv 16 s))"
proof -
  obtain g' a' b' where init: "InitializeAllPeripherals E (g, a, b) = Some (Inr (0, g', a', b'))"
    and run: "running E g' a' b'" and same: "VoltageSum a' = VoltageSum a" "V_sens_strip_values g' = V_sens_strip_values g"
    using initialise_ok[OF assms] by fastforce
  have below: "voltages_below v g' = voltages_below v g" for v using same(2) by (simp add: voltages_below_def)
  have "restart_inv s \<and> (\<forall>e. irq_step (E_chip E) 16 s (Inl e) \<longrightarrow> e = CastRange \<and> unfit_at_end s)"
    if "reach (irq_step (E_chip E) 16) (g', a', b', p, q) s" for p q s
    using restarts.reachable[OF that running_inv[OF run]] restarts.reachable_faults[OF that running_inv[OF run]] by blast
  moreover have "no_current_at_end s"
    if "reach (irq_step (E_chip E) 16) (g', a', b', p, q) s" "irq_step (E_chip E) 16 s (Inl e)"
      "p \<le> 16" "unat (VoltageSum a) \<le> 65535 * 45" "voltages_below 200000 g" for p q s e
    using irq_bounded.reachable_faults[OF that(1) running_bounds(2)[OF run that(3)] that(2)] that(4,5) same(1) below
    by (simp add: tolerated_fault_def)
  moreover have "irq_inv 16 s"
    if "reach (irq_step (E_chip E) 16) (g', a', b', p, q) s"
      "p \<le> 16" "unat (VoltageSum a) + 65535 * p \<le> 65535 * 16" "voltages_below (2 ^ 17) g" for p q s
    using irq.reachable[OF that(1)] running_bounds(1)[OF run that(2)] that(3,4) same(1) below by simp
  ultimately show ?thesis
    unfolding restart_inv_def using init run same by blast
qed

text \<open>The start after the reset, and the restart of the measurement that it has begun.\<close>

theorem initialised_runs_safely_witness:
  "\<exists>g' a' b'. InitializeAllPeripherals example_env (commanded 1 40 [48, 46, 53] 14 [48, 46, 53] 8 example_strips init_globals,
      init_adc_vars, reset_board) = Some (Inr (0, g', a', b')) \<and> running example_env g' a' b' \<and> irq_inv 16 (g', a', b', 0, 0) \<and>
    (\<exists>g2 a2 b2. InitializeAllPeripherals example_env (commanded 1 40 [48, 46, 53] 14 [48, 46, 53] 8 example_strips g', a', b') =
      Some (Inr (0, g2, a2, b2)) \<and> running example_env g2 a2 b2)"
proof -
  let ?c = "commanded 1 40 [48, 46, 53] 14 [48, 46, 53] 8 example_strips"
  have low: "voltages_below (2 ^ 17) (?c init_globals)"
    by (auto simp: voltages_below_def commanded_def init_globals_def MAX_STRIP_COUNT_def)
  have "VoltageSum init_adc_vars = 0" by (simp add: init_adc_vars_def)
  with initialised_runs_safely[OF example_command_ok commanded_restartable[OF init_restartable]] low
  obtain g' a' b' where first: "InitializeAllPeripherals example_env (?c init_globals, init_adc_vars, reset_board) = Some (Inr (0, g', a', b'))"
    "running example_env g' a' b'" "irq_inv 16 (g', a', b', 0, 0)"
    using reach_init by fastforce
  have "restartable g' a' b'" using first(2) by (simp add: running_def)
  moreover have "params_ok example_env (1 / 2) (?c g')"
    using example_command_ok by (simp add: params_ok_def count_ok_def n_active_def commanded_def wave_params_ok_def)
  ultimately obtain g2 a2 b2 where "InitializeAllPeripherals example_env (?c g', a', b') = Some (Inr (0, g2, a2, b2))"
    "running example_env g2 a2 b2"
    using initialised_runs_safely[OF _ commanded_restartable, of example_env "1 / 2" 1 40 "[48, 46, 53]" 14 "[48, 46, 53]" 8 example_strips g' a' b']
    by blast
  then show ?thesis using first by blast
qed

section \<open>New parameters over Modbus\<close>

lemma request_restartable:
  assumes "request_effect w len g m = (g1, m1)" and "restartable g a b"
  shows "restartable g1 a b"
proof -
  have "g1 = g \<or> (\<exists>regs. g1 = updated_globals regs g)"
    using assms(1) by (auto simp: request_effect_def Let_def split: if_splits)
  then show ?thesis using assms(2) by (auto simp: restartable_def updated_arrays_ok updated_globals_def arrays_ok_def)
qed

text \<open>A complete frame, as the frame reader takes it from the line.\<close>

definition complete_frame :: "u8 list \<Rightarrow> bool" where
  "complete_frame f \<longleftrightarrow> 8 \<le> length f \<and> length f \<le> 256 \<and> length f = (if f ! 1 = 16 then 9 + unat (f ! 6) else 8)"

lemma complete_frame_handled:
  assumes "arrays_ok g" and "regs_ok m" and "\<not> ModbusParamChanged g" and "complete_frame f"
    and "request_effect (padded f) (of_nat (length f)) g m = (g1, m1)"
  shows "HandleModbusFrame (map RxByte f @ evs) (g, m) = Inr (Returned evs (g1, m1))"
proof -
  have f: "8 \<le> length f" "length f \<le> 256" "length f = frame_length f"
    using assms(4) by (simp_all add: frame_length_def complete_frame_def)
  have "HandleModbusFrame (map RxByte f @ evs) (g, m) =
      rbind (Modbus_HandleRequest (padded f) (of_nat (length f)) (g, m)) (\<lambda>s. Inr (Returned evs s))"
    using HandleModbusFrame_frame[of "(g, m)" f evs] assms(3) f by simp
  moreover have "Modbus_HandleRequest (padded f) (of_nat (length f)) (g, m) = Inr (g1, m1)"
    using request_effect[OF assms(1,2), of "padded f" "of_nat (length f)"] f(2) assms(5) by simp
  ultimately show ?thesis by simp
qed

lemma running_flag: "running E g a b \<Longrightarrow> running E (g\<lparr>ModbusParamChanged := False\<rparr>) a b"
  by (simp add: running_def restartable_def sampling_ready_def arrays_ok_def count_ok_def n_active_def strip_list_def playback_ok_def
      tick_match_def)




section \<open>Requests and interrupts in any order\<close>

lemma irq_keeps_flag:
  assumes "measuring s" and "irq_step C depth s (Inr s')"
  shows "ModbusParamChanged (fst s') = ModbusParamChanged (fst s)"
  using assms(2)
proof (cases rule: irq_step.cases)
  case (irq_ctimer2 g a b p q)
  then obtain g' a' b' where t: "CTIMER2_IRQHandler C (g, a, b) = Inr (g', a', b')" "fst s' = g'"
    by (cases "CTIMER2_IRQHandler C (g, a, b)") auto
  have m: "measuring (g, a, b, p, q)" using assms(1) irq_ctimer2(1) by simp
  then have "ModbusParamChanged g' = ModbusParamChanged g"
  proof (cases rule: ctimer2_cases[where C = C])
    case ends
    have r: "sampling_ready g a" using m by simp
    have "end_of_round (store_voltage g a) (next_strip g a) = Inr (g', a')" by (rule strip_end(1)[OF r ends(1,3) t(1)])
    then show ?thesis
      using end_of_round_cases[OF strip_ends(2,3)[OF r ends(1)], of "next_strip g a"] by (auto simp: store_voltage_def)
  qed (use t in auto)
  then show ?thesis using t(2) irq_ctimer2(1) by simp
next
  case (irq_ctimer4 g a b p q)
  from irq_ctimer4(2)[symmetric] show ?thesis
    using irq_ctimer4(1) by (auto simp: CTIMER4_IRQHandler_def dac_update_callback_def Let_def res split: if_splits)
qed (auto simp: SysTick_Handler_def)

definition write_in_range :: "env \<Rightarrow> u8 list \<Rightarrow> globals \<Rightarrow> modbus_state \<Rightarrow> bool" where
  "write_in_range E f g m \<longleftrightarrow>
     (let g1 = fst (request_effect (padded f) (of_nat (length f)) g m) in ModbusParamChanged g1 \<longrightarrow> (\<exists>fr. params_ok E fr g1))"

text \<open>
  The firmware under Modbus: the main loop handles any complete frames, writes that leave the parameters in range among them, and any interrupts come between
  its turns.
\<close>

inductive modbus_run :: "env \<Rightarrow> irq_state \<times> modbus_state \<Rightarrow> (irq_state \<times> modbus_state) res \<Rightarrow> bool" for E where
  run_interrupt: "irq_step (E_chip E) 16 s r \<Longrightarrow> modbus_run E (s, m) (rbind r (\<lambda>s'. Inr (s', m)))"
| run_turn: "complete_frame f \<Longrightarrow> write_in_range E f g m \<Longrightarrow> modbus_turn E (map RxByte f @ evs) m (g, a, b) = Some r \<Longrightarrow>
    modbus_run E ((g, a, b, p, q), m) (rbind r (\<lambda>x. case x of None \<Rightarrow> Inr ((g, a, b, p, q), m)
      | Some (evs', m', g', a', b') \<Rightarrow> Inr ((g', a', b', p, q), m')))"

definition modbus_run_inv :: "irq_state \<times> modbus_state \<Rightarrow> bool" where
  "modbus_run_inv s \<longleftrightarrow> restart_inv (fst s) \<and> regs_ok (snd s) \<and> \<not> ModbusParamChanged (fst (fst s))"

lemma turn_returns:
  assumes "modbus_run_inv ((g, a, b, p, q), m)" and "complete_frame f" and "write_in_range E f g m"
  shows "\<exists>m' g' a' b'. modbus_turn E (map RxByte f @ evs) m (g, a, b) = Some (Inr (Some (evs, m', g', a', b'))) \<and>
    m' = snd (request_effect (padded f) (of_nat (length f)) g m) \<and> modbus_run_inv ((g', a', b', p, q), m')"
proof -
  have inv: "measuring (g, a, b, p, q)" "restartable g a b" "regs_ok m" "\<not> ModbusParamChanged g"
    using assms(1) by (simp_all add: modbus_run_inv_def restart_inv_def del: measuring.simps)
  have arr: "arrays_ok g" using inv(2) by (simp add: restartable_def)
  obtain g1 m1 where e: "request_effect (padded f) (of_nat (length f)) g m = (g1, m1)" by fastforce
  note frame = complete_frame_handled[OF arr inv(3,4) assms(2) e, of evs]
  have "count_ok g" using inv(1) by (simp add: sampling_ready_def)
  then have regs: "regs_ok m1"
    using request_effect_inv[of g m "padded f" "of_nat (length f)"] e arr inv(3) assms(2)
    by (simp add: modbus_inv_def complete_frame_def)
  show ?thesis
  proof (cases "ModbusParamChanged g1")
    case True
    then obtain fr where "params_ok E fr g1" using assms(3) e by (auto simp: write_in_range_def)
    from initialise_ok[OF this request_restartable[OF e inv(2)]]
    obtain g2 a' b' where init: "InitializeAllPeripherals E (g1, a, b) = Some (Inr (0, g2, a', b'))" "running E g2 a' b'" by blast
    from running_inv[OF running_flag[OF init(2)], of p q] show ?thesis
      using True frame init(1) regs e by (simp add: modbus_turn_def modbus_run_inv_def)
  next
    case False
    then have "g1 = g" using e by (auto simp: request_effect_def Let_def updated_globals_def split: if_splits)
    then show ?thesis using False frame regs e assms(1) by (simp add: modbus_turn_def modbus_run_inv_def)
  qed
qed

interpretation modbus_system: faulty_system "modbus_run E" modbus_run_inv "\<lambda>s e. e = CastRange \<and> unfit_at_end (fst s)"
proof unfold_locales
  fix s s'
  assume inv: "modbus_run_inv s" and step: "modbus_run E s (Inr s')"
  show "modbus_run_inv s'"
    using step
  proof (cases rule: modbus_run.cases)
    case (run_interrupt t r m)
    then obtain t' where t': "irq_step (E_chip E) 16 t (Inr t')" "s' = (t', m)" by (cases r) auto
    have "restart_inv t" "measuring t" using inv run_interrupt(1) by (simp_all add: modbus_run_inv_def restart_inv_def)
    then show ?thesis
      using t' inv run_interrupt(1) restarts.keeps[of t "E_chip E" 16 t'] irq_keeps_flag[of t "E_chip E" 16 t'] by (simp add: modbus_run_inv_def)
  next
    case (run_turn f g m evs a b r p q)
    then show ?thesis using turn_returns[of g a b p q m f E evs] inv by auto
  qed
next
  fix s e
  assume inv: "modbus_run_inv s" and step: "modbus_run E s (Inl e)"
  show "e = CastRange \<and> unfit_at_end (fst s)"
    using step
  proof (cases rule: modbus_run.cases)
    case (run_interrupt t r m)
    then have "irq_step (E_chip E) 16 t (Inl e)" by (cases r) auto
    then show ?thesis using restarts.faults[of t "E_chip E" 16 e] inv run_interrupt(1) by (simp add: modbus_run_inv_def)
  next
    case (run_turn f g m evs a b r p q)
    then show ?thesis using turn_returns[of g a b p q m f E evs] inv by auto
  qed
qed

text \<open>
  C16: The firmware under Modbus, from a measurement that has just been started: interrupts in any order, and between them turns of the main loop with any complete
  frames - reads, refused requests, frames for others, and writes that leave a strip selected and the values in range, each of which restarts
  the measurement. Every state reached is that of a measurement from which a write can restart: list and number of strips agree, all
  indices are in range, the register files have their lengths. Every such turn returns with the rest of the line and the specified reply. The only fault
  of any step is the conversion of a resistance that does not fit into an \<open>int\<close>, at the end of a round.
\<close>

theorem modbus_operation_safe:
  assumes "running E g a b" and "regs_ok m" and "\<not> ModbusParamChanged g" and "reach (modbus_run E) ((g, a, b, p, q), m) s"
  shows "(case s of ((g1, a1, b1, p1, q1), m1) \<Rightarrow>
      measuring (g1, a1, b1, p1, q1) \<and> restartable g1 a1 b1 \<and> regs_ok m1 \<and>
      (\<forall>f evs. complete_frame f \<longrightarrow> write_in_range E f g1 m1 \<longrightarrow>
        (\<exists>g2 a2 b2. modbus_turn E (map RxByte f @ evs) m1 (g1, a1, b1) =
          Some (Inr (Some (evs, snd (request_effect (padded f) (of_nat (length f)) g1 m1), g2, a2, b2)))))) \<and>
    (\<forall>e. modbus_run E s (Inl e) \<longrightarrow> e = CastRange \<and> unfit_at_end (fst s))"
proof -
  have "modbus_run_inv ((g, a, b, p, q), m)" using running_inv[OF assms(1)] assms(2,3) by (simp add: modbus_run_inv_def)
  then have inv: "modbus_run_inv s" "\<forall>e. modbus_run E s (Inl e) \<longrightarrow> e = CastRange \<and> unfit_at_end (fst s)"
    using modbus_system.reachable[OF assms(4)] modbus_system.reachable_faults[OF assms(4)] by blast+
  obtain g1 a1 b1 p1 q1 m1 where s: "s = ((g1, a1, b1, p1, q1), m1)" by (metis prod.exhaust)
  have "\<exists>g2 a2 b2. modbus_turn E (map RxByte f @ evs) m1 (g1, a1, b1) =
      Some (Inr (Some (evs, snd (request_effect (padded f) (of_nat (length f)) g1 m1), g2, a2, b2)))"
    if "complete_frame f" "write_in_range E f g1 m1" for f evs
    using turn_returns[OF inv(1)[unfolded s] that] by blast
  then show ?thesis using inv by (simp add: s modbus_run_inv_def restart_inv_def del: measuring.simps)
qed

lemma example_running:
  "\<exists>g a b. InitializeAllPeripherals example_env (commanded 1 40 [48, 46, 53] 14 [48, 46, 53] 8 example_strips init_globals, init_adc_vars,
      reset_board) = Some (Inr (0, g, a, b)) \<and> running example_env g a b \<and> \<not> ModbusParamChanged g"
  using initialise_ok[OF example_command_ok commanded_restartable[OF init_restartable]] by (fastforce simp: commanded_def)

theorem modbus_operation_safe_witness:
  "\<exists>g a b g2 a2 b2. running example_env g a b \<and>
    modbus_turn example_env (map RxByte [1, 3, 0, 0, 0, 1, 0, 0] @ [RxByte 1]) init_modbus (g, a, b) =
      Some (Inr (Some ([RxByte 1], add_tx (read_reply 1 3 [1]) init_modbus, g2, a2, b2)))"
proof -
  let ?f = "[1, 3, 0, 0, 0, 1, 0, 0] :: u8 list"
  obtain g a b where run: "running example_env g a b" "\<not> ModbusParamChanged g" using example_running by blast
  have e: "request_effect (padded ?f) (of_nat (length ?f)) g init_modbus = (g, add_tx (read_reply 1 3 [1]) init_modbus)"
  proof -
    have "request_word (padded ?f) 2 = 0" "request_word (padded ?f) 4 = 1" by (simp_all add: request_word_def join16_def padded_def)
    then show ?thesis by (simp add: request_effect_def init_modbus_def padded_def in_range_def)
  qed
  have "complete_frame ?f" by (simp add: complete_frame_def)
  moreover have "write_in_range example_env ?f g init_modbus" using e run(2) by (simp add: write_in_range_def)
  ultimately show ?thesis
    using modbus_operation_safe[OF run(1) regs_ok_init run(2) reach_init, of 0 0] run(1) e by fastforce
qed

section \<open>The reset\<close>

lemma clear_field: "(w AND NOT (fmask f)) AND fmask f = 0"
  by (simp add: and.assoc bit.conj_cancel_left)

text \<open>
  C38: The reset always succeeds and leaves nothing running: both timers are stopped with their interrupts and clocks off, the
  converters are disabled, the multiplexer is off with channel 0 selected, and the millisecond timer is off.
\<close>

theorem reset_stops_everything:
  "\<exists>b'. ResetAllPeripherals C b = Inr (0, b') \<and>
    ct_TCR (CTIMER4 b') AND fmask (TCR_CEN (L_ctimer C)) = 0 \<and> ct_TCR (CTIMER2 b') AND fmask (TCR_CEN (L_ctimer C)) = 0 \<and>
    hp_GCR (DAC2 b') AND fmask (HP_GCR_DACEN (L_hpdac C)) = 0 \<and> lp_GCR (DAC0 b') AND fmask (LP_GCR_DACEN (L_lpdac C)) = 0 \<and>
    ad_CTRL (ADC0 b') AND fmask (CTRL_ADCEN (L_lpadc C)) = 0 \<and> ad_CTRL (ADC1 b') AND fmask (CTRL_ADCEN (L_lpadc C)) = 0 \<and>
    \<not> mux_enabled (GPIO4 b') \<and> selected_channel (GPIO4 b') = 0 \<and> SysTick_CTRL b' AND fmask (SysTick_CTRL_ENABLE C) = 0 \<and>
    {DisableIRQ (CTIMER 4), DisableIRQ (CTIMER 2), CLOCK_DisableClock (CTIMER 4), CLOCK_DisableClock (CTIMER 2), CLOCK_DisableClock (HPDAC 2),
      CLOCK_DisableClock (LPADC 0), CLOCK_DisableClock (LPADC 1), CLOCK_DisableClock (LPDAC 0)} \<subseteq> set (sys_calls b')"
proof -
  obtain r where r: "DisableMux (GPIO4 b) = Inr r" "\<not> mux_enabled r" "selected_channel r = 0"
    using pins.writes_ok[of "[(GPIO_PIN_ENABLE, 0), (GPIO_PIN_S0, 0), (GPIO_PIN_S1, 0), (GPIO_PIN_S2, 0)]" "GPIO4 b"]
    by (auto simp: DisableMux_writes mux_enabled_def selected_channel_def mux_pins)
  have dac: "hp_GCR (DAC14_Enable L False d) AND fmask (HP_GCR_DACEN L) = 0" for L d
    by (simp add: DAC14_Enable_def switch_field_def clear_field)
  have exc: "lp_GCR (DAC_Enable L False d) AND fmask (LP_GCR_DACEN L) = 0" for L d
    by (simp add: DAC_Enable_def switch_field_def clear_field)
  have adc: "ad_CTRL (LPADC_Enable L False d) AND fmask (CTRL_ADCEN L) = 0" for L d
    by (simp add: LPADC_Enable_def switch_field_def clear_field)
  show ?thesis
    using r by (simp add: ResetAllPeripherals_def Let_def on_dev_def on_regs_res_def CTIMER_Deinit_def DAC14_Deinit_def DAC_Deinit_def
        LPADC_Deinit_def clear_field dac exc adc)
qed

section \<open>An empty line\<close>

lemma empty_line_fields:
  assumes "length (active_strips g) = 8" and "c = 10 \<or> c = 13"
  shows "updateParameters (c # 0 # rest) g = Inr (- 1, c # 0 # rest, g\<lparr>waveType := 0\<rparr>)"
proof -
  have t: "token_ok [c]" using assms(2) by (auto simp: token_ok_def chars)
  have first: "strtok (Some 0) (c # 0 # rest) = Inr (Some 0, None, c # 0 # rest)"
    using strtok_token[OF t, of 0 "[]" rest] by simp
  have "atoi [c] = Inr 0" using assms(2) by (auto simp: atoi_def is_space_def take_sign_def take_digits_def digits_value_def)
  then have "field_waveType ([] @ [c] @ 0 # rest) (length ([] :: u8 list)) g = Inr (g\<lparr>waveType := 0\<rparr>)"
    using stores_fields(1)[OF t] assms(1) unfolding stores_def by blast
  then show ?thesis using first by (simp add: updateParameters_def command_fields_def strtok_def)
qed

text \<open>
  A line feed alone, as a terminal that ends its lines with carriage return and line feed sends after every command, is taken as a
  command: it is refused, but only after it has cleared the selection of the strips and set the wave type to sine; the number of strips
  keeps its old value and the running measurement is not touched.
\<close>

theorem empty_line_clears_selection:
  assumes "between_commands mv" and "length (active_strips g) = 8" and "ch = 10 \<or> ch = 13"
  shows "\<exists>mv'. gui_loop E [ch] mv (g, ad, b) =
      Some (Inr (Continue mv' (g\<lparr>active_strips := replicate 8 False, waveType := 0\<rparr>, ad, b))) \<and> between_commands mv'"
proof -
  obtain x y rest where buf: "m_buffer mv = x # y # rest" and len: "length rest = 254"
    using assms(1) by (cases "m_buffer mv"; cases "tl (m_buffer mv)") (auto simp: between_commands_def)
  have clear: "fill 0 8 (\<lambda>i. Inr False) (active_strips g) = Inr (replicate 8 False)"
    using fill_ok[of 0 8 "active_strips g" "\<lambda>i. Inr False" "\<lambda>i. False"] assms(2) by (simp add: map_replicate_const)
  have upd: "updateParameters (ch # 0 # rest) (g\<lparr>active_strips := replicate 8 False\<rparr>) =
      Inr (- 1, ch # 0 # rest, g\<lparr>active_strips := replicate 8 False, waveType := 0\<rparr>)"
    using empty_line_fields[of "g\<lparr>active_strips := replicate 8 False\<rparr>" ch rest] assms(3) by simp
  let ?m = "mv\<lparr>m_buffer := ch # y # rest, m_index := 1\<rparr>"
  define mv' where "mv' = mv\<lparr>m_index := 0, m_buffer := 0 # 0 # rest\<rparr>"
  have "command_done (mv\<lparr>m_index := 1, m_buffer := ch # 0 # rest\<rparr>) = Inr mv'"
    by (simp add: command_done_def mv'_def)
  then have "end_of_line E ?m (g, ad, b) = Some (Inr (Continue mv' (g\<lparr>active_strips := replicate 8 False, waveType := 0\<rparr>, ad, b)))"
    using clear upd assms(1) by (simp add: end_of_line_def between_commands_def)
  then have "gui_turn E ch mv (g, ad, b) = Some (Inr (Continue mv' (g\<lparr>active_strips := replicate 8 False, waveType := 0\<rparr>, ad, b)))"
    using assms(1,3) buf by (simp add: gui_turn_def between_commands_def)
  moreover have "between_commands mv'" using assms(1) len by (simp add: between_commands_def mv'_def)
  ultimately show ?thesis by auto
qed

theorem empty_line_clears_selection_witness:
  "\<exists>mv'. gui_loop example_env [10] init_main_vars (one_strip_globals, init_adc_vars, reset_board) =
    Some (Inr (Continue mv' (one_strip_globals\<lparr>active_strips := replicate 8 False, waveType := 0\<rparr>, init_adc_vars, reset_board))) \<and>
    between_commands mv'"
proof -
  have "between_commands init_main_vars" by (simp add: between_commands_def init_main_vars_def)
  then show ?thesis by (intro empty_line_clears_selection) (simp_all add: one_strip_globals_def)
qed

end
