(* ===== verification/Preemption.thy ===== *)
theory Preemption
  imports Interrupts
begin

text \<open>
  The interrupts with preemption. The priorities of the firmware are: system tick 1, sampling timer 2, converters 3, hot plate timer 4, so the
  handlers of the converters can be interrupted by the sampling timer, which works on the same sums. Here a handler of a converter is
  three steps: it takes the result, it loads the sum and adds, it stores the sum. The other handlers stay single steps: the sampling timer is interrupted only by the
  system tick, whose time stamp it reads once, and the hot plate timer shares no variable with the others.
\<close>

section \<open>The handlers of the converters in steps\<close>

datatype adc_progress = Resting | Fetched0 u16 | Adding0 u32 | Fetched1 u16 | Adding1 u32

definition fetch0 :: "lpadc_layout \<Rightarrow> u32 \<Rightarrow> adc_vars \<Rightarrow> adc_vars \<times> adc_progress" where
  "fetch0 L w a =
     (let (ok, result) = LPADC_GetConvResult L w (V_sens_LpadcResultConfigStruct a);
          a = a\<lparr>V_sens_LpadcResultConfigStruct := result\<rparr>
      in if ok then (a\<lparr>V_sens_LpadcConversionCompletedFlag := True\<rparr>, Fetched0 (convValue result)) else (a, Resting))"

definition fetch1 :: "lpadc_layout \<Rightarrow> u32 \<Rightarrow> adc_vars \<Rightarrow> adc_vars \<times> adc_progress" where
  "fetch1 L w a =
     (let (ok, result) = LPADC_GetConvResult L w (I_sens_LpadcResultConfigStruct a);
          a = a\<lparr>I_sens_LpadcResultConfigStruct := result\<rparr>
      in if ok then (a\<lparr>I_sens_LpadcConversionCompletedFlag := True\<rparr>, Fetched1 (convValue result)) else (a, Resting))"

fun go_on :: "adc_progress \<Rightarrow> adc_vars \<Rightarrow> adc_vars \<times> adc_progress" where
  "go_on Resting a = (a, Resting)"
| "go_on (Fetched0 c) a = (a, Adding0 (VoltageSum a + drop_bit V_sens_LpadcResultShift (ucast c)))"
| "go_on (Adding0 v) a = (a\<lparr>VoltageSum := v\<rparr>, Resting)"
| "go_on (Fetched1 c) a = (a, Adding1 (CurrentSum a + drop_bit I_sens_LpadcResultShift (ucast c)))"
| "go_on (Adding1 v) a = (a\<lparr>CurrentSum := v\<rparr>, Resting)"

text \<open>The tick that ends a strip.\<close>

definition ends_strip :: "globals \<Rightarrow> adc_vars \<Rightarrow> bool" where
  "ends_strip g a \<longleftrightarrow> triggers g \<and> \<not> int (unat (currentCountIndex a)) < int (unat (SoftwareAverageCount a)) - 1"

text \<open>
  Without \<open>races\<close> the tick that ends a strip does not come while a handler of a converter is at work; all other preemption is there in both cases.
\<close>

inductive preempt_step :: "chip \<Rightarrow> nat \<Rightarrow> bool \<Rightarrow> irq_state \<times> adc_progress \<Rightarrow> (irq_state \<times> adc_progress) res \<Rightarrow> bool" for C depth races where
  pre_systick: "preempt_step C depth races ((g, a, b, p, q), pc) (Inr ((SysTick_Handler g, a, b, p, q), pc))"
| pre_ctimer2: "races \<or> pc = Resting \<or> \<not> ends_strip g a \<Longrightarrow> preempt_step C depth races ((g, a, b, p, q), pc)
    (rbind (CTIMER2_IRQHandler C (g, a, b)) (\<lambda>(g', a', b'). Inr ((g', a', b', pending depth g p, pending depth g q), pc)))"
| pre_fetch0: "0 < p \<Longrightarrow> fetch0 (L_lpadc C) w a = (a', pc) \<Longrightarrow>
    preempt_step C depth races ((g, a, b, p, q), Resting) (Inr ((g, a', b, p - 1, q), pc))"
| pre_fetch1: "0 < q \<Longrightarrow> fetch1 (L_lpadc C) w a = (a', pc) \<Longrightarrow>
    preempt_step C depth races ((g, a, b, p, q), Resting) (Inr ((g, a', b, p, q - 1), pc))"
| pre_go_on: "go_on pc a = (a', pc') \<Longrightarrow> preempt_step C depth races ((g, a, b, p, q), pc) (Inr ((g, a', b, p, q), pc'))"
| pre_ctimer4: "preempt_step C depth races ((g, a, b, p, q), Resting)
    (rbind (CTIMER4_IRQHandler C (g, b)) (\<lambda>(g', b'). Inr ((g', a, b', p, q), Resting)))"

section \<open>Without a race preemption changes nothing\<close>

text \<open>What the variables will be when the handler at work has gone on to its end.\<close>

definition finish_adc :: "adc_progress \<Rightarrow> adc_vars \<Rightarrow> adc_vars" where
  "finish_adc pc a = (let (a, pc) = go_on pc a in fst (go_on pc a))"

fun completed :: "irq_state \<times> adc_progress \<Rightarrow> irq_state" where
  "completed ((g, a, b, p, q), pc) = (g, finish_adc pc a, b, p, q)"

lemma finish_simps [simp]:
  "finish_adc Resting a = a" "finish_adc (Adding0 v) a = a\<lparr>VoltageSum := v\<rparr>" "finish_adc (Adding1 v) a = a\<lparr>CurrentSum := v\<rparr>"
  "finish_adc (Fetched0 c) a = a\<lparr>VoltageSum := VoltageSum a + drop_bit V_sens_LpadcResultShift (ucast c)\<rparr>"
  "finish_adc (Fetched1 c) a = a\<lparr>CurrentSum := CurrentSum a + drop_bit I_sens_LpadcResultShift (ucast c)\<rparr>"
  by (simp_all add: finish_adc_def)

lemma fetch_finish:
  "fetch0 L w a = (a', pc) \<Longrightarrow> finish_adc pc a' = ADC0_IRQHandler L w a"
  "fetch1 L w a = (a', pc) \<Longrightarrow> finish_adc pc a' = ADC1_IRQHandler L w a"
  by (auto simp: fetch0_def fetch1_def ADC0_IRQHandler_def ADC1_IRQHandler_def Let_def split: prod.splits if_splits)

lemma go_on_finish: "go_on pc a = (a', pc') \<Longrightarrow> finish_adc pc' a' = finish_adc pc a"
  by (cases pc) auto

lemma timer_during_handler:
  assumes "\<not> ends_strip g a"
  shows "rbind (CTIMER2_IRQHandler C (g, a, b)) (\<lambda>(g', a', b'). Inr (g', finish_adc pc a', b')) = CTIMER2_IRQHandler C (g, finish_adc pc a, b)"
  using assms by (cases pc) (auto simp: CTIMER2_IRQHandler_def ends_strip_def triggers_def Let_def)

lemma preempt_step_completed:
  assumes "preempt_step C depth False s r"
  shows "(\<exists>s'. r = Inr s' \<and> completed s' = completed s) \<or> irq_step C depth (completed s) (rbind r (\<lambda>s'. Inr (completed s')))"
  using assms
proof (cases rule: preempt_step.cases)
  case (pre_systick g a b p q pc)
  then show ?thesis using irq_systick[of C depth g "finish_adc pc a" b p q] by simp
next
  case (pre_ctimer2 pc g a b p q)
  have t: "rbind (CTIMER2_IRQHandler C (g, a, b)) (\<lambda>(g', a', b'). Inr (g', finish_adc pc a', b')) = CTIMER2_IRQHandler C (g, finish_adc pc a, b)"
  proof (cases "pc = Resting")
    case True
    then show ?thesis by (cases "CTIMER2_IRQHandler C (g, a, b)") auto
  next
    case False
    then show ?thesis using pre_ctimer2(3) by (intro timer_during_handler) simp
  qed
  have "rbind r (\<lambda>s'. Inr (completed s')) = rbind (CTIMER2_IRQHandler C (g, finish_adc pc a, b))
      (\<lambda>(g', a', b'). Inr (g', a', b', pending depth g p, pending depth g q))"
    unfolding t[symmetric] pre_ctimer2(2) by (cases "CTIMER2_IRQHandler C (g, a, b)") auto
  then show ?thesis using irq_ctimer2[of C depth g "finish_adc pc a" b p q] pre_ctimer2(1) by simp
next
  case (pre_fetch0 p w a a' pc g b q)
  then show ?thesis using irq_adc0[of p C depth g a b q w] by (simp add: fetch_finish(1)[OF pre_fetch0(4)])
next
  case (pre_fetch1 q w a a' pc g b p)
  then show ?thesis using irq_adc1[of q C depth g a b p w] by (simp add: fetch_finish(2)[OF pre_fetch1(4)])
next
  case (pre_go_on pc a a' pc' g b p q)
  then show ?thesis by (simp add: go_on_finish[OF pre_go_on(3)])
next
  case (pre_ctimer4 g a b p q)
  then show ?thesis using irq_ctimer4[of C depth g a b p q]
    by (cases "CTIMER4_IRQHandler C (g, b)") (auto simp: rbind_def split: sum.splits)
qed

lemma preempt_reach_completed:
  "reach (preempt_step C depth False) s0 s \<Longrightarrow> reach (irq_step C depth) (completed s0) (completed s)"
proof (induction rule: reach.induct)
  case (reach_step s s')
  from preempt_step_completed[OF reach_step(2)] show ?case
    using reach_step(3) reach.reach_step by (auto simp: rbind_def)
qed (rule reach_init)

text \<open>
  C8: Preemption without a race: if no tick ends a strip while a handler of a converter is at work, every run in which handlers interrupt each other by their
  priorities refines a run of whole handlers, in which each conversion counts at once. So what holds of whole handlers holds of it: the invariant, and
  no fault but the conversion of the resistance at the end of a round without current.
\<close>

theorem preemption_refines:
  assumes "depth \<le> 16" and "irq_inv depth s0" and "reach (preempt_step C depth False) (s0, Resting) s"
  shows "reach (irq_step C depth) s0 (completed s) \<and> irq_inv depth (completed s) \<and>
    (\<forall>e. preempt_step C depth False s (Inl e) \<longrightarrow>
      irq_step C depth (completed s) (Inl e) \<and> e = CastRange \<and> no_current_at_end (completed s))"
proof -
  have start: "completed (s0, Resting) = s0" by (cases s0) simp
  have r: "reach (irq_step C depth) s0 (completed s)" using preempt_reach_completed[OF assms(3)] start by simp
  have "irq_step C depth (completed s) (Inl e)" if "preempt_step C depth False s (Inl e)" for e
    using preempt_step_completed[OF that] by simp
  then show ?thesis
    using r irq.reachable[OF r] irq.reachable_faults[OF r] assms(1,2) by (auto simp: tolerated_fault_def)
qed


section \<open>The race\<close>

lemma fetch0_valid:
  assumes "lpadc_fifo_layout_ok L" and "valid_word L w"
  shows "\<exists>a' c. fetch0 L w a = (a', Fetched0 c) \<and> drop_bit V_sens_LpadcResultShift (ucast c) = (of_nat (sample_value L w) :: u32) \<and>
    strip_state a' = strip_state a \<and> VoltageSum a' = VoltageSum a \<and> CurrentSum a' = CurrentSum a \<and> currentCountIndex a' = currentCountIndex a"
  using GetConvResult_valid[OF assms]
  by (simp add: fetch0_def V_sens_LpadcResultShift_def sample_word sample_value_def strip_state_def)

lemma reach_trans: "reach step s1 s2 \<Longrightarrow> reach step s0 s1 \<Longrightarrow> reach step s0 s2"
  by (induction rule: reach.induct) (auto intro: reach.reach_step)

lemma reach_one: "step s0 (Inr s) \<Longrightarrow> reach step s0 s"
  by (rule reach.reach_step[OF reach.reach_init])

lemma strip_ends_quietly:
  assumes "sampling_ready g a" and "strip_list g \<noteq> []" and "unat (currentCountIndex a) = 29"
    and "Suc (unat (current_active_strip_index a)) < length (strip_list g)"
  shows "\<exists>b'. CTIMER2_IRQHandler C (g, a, b) = Inr (store_voltage g a, next_strip g a, b')"
proof -
  have "unat (current_active_strip_index (next_strip g a)) = Suc (unat (current_active_strip_index a))"
    using next_index_lt[OF assms(1,2)] assms(4) by (simp add: next_strip_def)
  then have e: "end_of_round (store_voltage g a) (next_strip g a) = Inr (store_voltage g a, next_strip g a)"
    by (auto simp: end_of_round_def)
  obtain b1 where b1: "CTIMER2_IRQHandler C (g, a, b) = finish_strip (g, a, b1)" using timer_finishes[OF assms(1-3)] by blast
  from finish_strip_parts[OF assms(1,2), of b1] show ?thesis unfolding b1 e by auto
qed

text \<open>The same two interrupts, with the sampling timer between the load and the store, and after the store.\<close>

lemma race_run:
  assumes "chip_ok C" and "sampling_ready g a" and "strip_list g \<noteq> []" and "unat (currentCountIndex a) = 29"
    and "Suc (unat (current_active_strip_index a)) < length (strip_list g)" and "0 < p" and "valid_word (L_lpadc C) w"
  shows "\<exists>a1 b1. reach (preempt_step C depth True) ((g, a, b, p, q), Resting)
      ((store_voltage g a, a1, b1, pending depth g (p - 1), pending depth g q), Resting) \<and>
    sampling_ready (store_voltage g a) a1 \<and> VoltageSum a1 = VoltageSum a + of_nat (sample_value (L_lpadc C) w) \<and>
    CurrentSum a1 = 0 \<and> currentCountIndex a1 = 0"
proof -
  let ?L = "L_lpadc C"
  have L: "lpadc_fifo_layout_ok ?L" using assms(1) by (simp add: chip_ok_def)
  from fetch0_valid[OF L assms(7), of a] obtain af c where f: "fetch0 ?L w a = (af, Fetched0 c)"
    "drop_bit V_sens_LpadcResultShift (ucast c) = (of_nat (sample_value ?L w) :: u32)" "strip_state af = strip_state a"
    "VoltageSum af = VoltageSum a" "CurrentSum af = CurrentSum a" "currentCountIndex af = currentCountIndex a" by blast
  let ?v = "VoltageSum a + of_nat (sample_value ?L w)"
  have ready: "sampling_ready g af" using strip_state_ready[OF f(3) _ assms(2)] f(6) assms(4) by simp
  note same = strip_state_eqD[OF f(3)]
  have store: "store_voltage g af = store_voltage g a" using f(4) same by (simp add: store_voltage_def current_strip_def)
  have n: "unat (currentCountIndex af) = 29" "Suc (unat (current_active_strip_index af)) < length (strip_list g)"
    using assms(4,5) f(6) same by simp_all
  from strip_ends_quietly[OF ready assms(3) n, of C b] obtain b1 where
    b1: "CTIMER2_IRQHandler C (g, af, b) = Inr (store_voltage g a, next_strip g af, b1)" unfolding store by blast
  let ?step = "preempt_step C depth True" and ?a1 = "(next_strip g af)\<lparr>VoltageSum := ?v\<rparr>"
  have "reach ?step ((g, a, b, p, q), Resting) ((g, af, b, p - 1, q), Fetched0 c)"
    using pre_fetch0[OF assms(6) f(1), of depth True g b q] by (rule reach_one)
  then have "reach ?step ((g, a, b, p, q), Resting) ((g, af, b, p - 1, q), Adding0 ?v)"
    by (rule reach.reach_step, intro pre_go_on) (simp add: f(2,4))
  moreover have "?step ((g, af, b, p - 1, q), Adding0 ?v)
      (Inr ((store_voltage g a, next_strip g af, b1, pending depth g (p - 1), pending depth g q), Adding0 ?v))"
    using pre_ctimer2[of True "Adding0 ?v" g af C depth b "p - 1" q] unfolding b1 by simp
  ultimately have "reach ?step ((g, a, b, p, q), Resting)
      ((store_voltage g a, next_strip g af, b1, pending depth g (p - 1), pending depth g q), Adding0 ?v)" by (rule reach.reach_step)
  then have "reach ?step ((g, a, b, p, q), Resting) ((store_voltage g a, ?a1, b1, pending depth g (p - 1), pending depth g q), Resting)"
    by (rule reach.reach_step, intro pre_go_on) simp
  moreover have "sampling_ready (store_voltage g a) ?a1"
    using next_strip_ready[OF ready assms(3)] strip_state_ready[of ?a1 "next_strip g af"]
    unfolding store by (simp add: strip_state_def next_strip_def)
  ultimately show ?thesis by (intro exI[of _ ?a1] exI[of _ b1]) (simp add: next_strip_def)
qed

lemma ordered_run:
  assumes "chip_ok C" and "sampling_ready g a" and "strip_list g \<noteq> []" and "unat (currentCountIndex a) = 29"
    and "Suc (unat (current_active_strip_index a)) < length (strip_list g)" and "0 < p" and "valid_word (L_lpadc C) w"
  shows "\<exists>g1 a1 b1. reach (preempt_step C depth False) ((g, a, b, p, q), Resting)
      ((g1, a1, b1, pending depth g (p - 1), pending depth g q), Resting) \<and> VoltageSum a1 = 0 \<and> currentCountIndex a1 = 0"
proof -
  let ?L = "L_lpadc C"
  have L: "lpadc_fifo_layout_ok ?L" using assms(1) by (simp add: chip_ok_def)
  from fetch0_valid[OF L assms(7), of a] obtain af c where f: "fetch0 ?L w a = (af, Fetched0 c)"
    "drop_bit V_sens_LpadcResultShift (ucast c) = (of_nat (sample_value ?L w) :: u32)" "strip_state af = strip_state a"
    "VoltageSum af = VoltageSum a" "CurrentSum af = CurrentSum a" "currentCountIndex af = currentCountIndex a" by blast
  let ?v = "VoltageSum a + of_nat (sample_value ?L w)" and ?step = "preempt_step C depth False"
  define a2 where "a2 = af\<lparr>VoltageSum := ?v\<rparr>"
  have s: "strip_state a2 = strip_state a" "currentCountIndex a2 = currentCountIndex a" using f(3,6) by (simp_all add: a2_def strip_state_def)
  have ready: "sampling_ready g a2" using strip_state_ready[OF s(1) _ assms(2)] s(2) assms(4) by simp
  have n: "unat (currentCountIndex a2) = 29" "Suc (unat (current_active_strip_index a2)) < length (strip_list g)"
    using assms(4,5) s(2) strip_state_eqD[OF s(1)] by simp_all
  from strip_ends_quietly[OF ready assms(3) n, of C b] obtain b1 where
    b1: "CTIMER2_IRQHandler C (g, a2, b) = Inr (store_voltage g a2, next_strip g a2, b1)" by blast
  have "reach ?step ((g, a, b, p, q), Resting) ((g, af, b, p - 1, q), Fetched0 c)"
    using pre_fetch0[OF assms(6) f(1), of depth False g b q] by (rule reach_one)
  then have "reach ?step ((g, a, b, p, q), Resting) ((g, af, b, p - 1, q), Adding0 ?v)"
    by (rule reach.reach_step, intro pre_go_on) (simp add: f(2,4))
  then have "reach ?step ((g, a, b, p, q), Resting) ((g, a2, b, p - 1, q), Resting)"
    by (rule reach.reach_step, intro pre_go_on) (simp add: a2_def)
  moreover have "?step ((g, a2, b, p - 1, q), Resting)
      (Inr ((store_voltage g a2, next_strip g a2, b1, pending depth g (p - 1), pending depth g q), Resting))"
    using pre_ctimer2[of False Resting g a2 C depth b "p - 1" q] unfolding b1 by simp
  ultimately show ?thesis
    by (intro exI[of _ "store_voltage g a2"] exI[of _ "next_strip g a2"] exI[of _ b1] conjI)
      (erule reach.reach_step, assumption, simp_all add: next_strip_def)
qed


text \<open>
  C9: The race: the handler of the voltage converter has loaded the sum when the tick that ends a strip comes. The tick stores the voltage of the strip and
  clears the sum, and then the handler stores the old sum with its conversion over it: whatever 29 further rounds of conversions follow, the sum from which the
  voltage of the next strip is computed contains all conversions of the strip before as well. The current sum is not concerned. When the handler ends before the tick,
  the next strip starts from zero.
\<close>

theorem race_adds_previous_strip:
  assumes "chip_ok C" and "sampling_ready g a" and "strip_list g \<noteq> []" and "unat (currentCountIndex a) = 29"
    and "Suc (unat (current_active_strip_index a)) < length (strip_list g)" and "0 < p" and "valid_word (L_lpadc C) w"
    and "length ws = 29" and "valid_words (L_lpadc C) ws"
  shows "(\<exists>g1 a1 b1. reach (preempt_step C depth True) ((g, a, b, p, q), Resting) ((g1, a1, b1, pending depth g (p - 1), pending depth g q), Resting) \<and>
      g1 = store_voltage g a \<and> currentCountIndex a1 = 0 \<and>
      (\<exists>a2 b2. for_each (concat (map sample_round ws)) (sample_irq_handler C) (g1, a1, b1) = Inr (g1, a2, b2) \<and>
        (\<exists>b3. CTIMER2_IRQHandler C (g1, a2, b2) = finish_strip (g1, a2, b3)) \<and>
        VoltageSum a2 = VoltageSum a + of_nat (sample_value (L_lpadc C) w + volts (L_lpadc C) ws) \<and>
        CurrentSum a2 = of_nat (amps (L_lpadc C) ws))) \<and>
    (\<exists>g1 a1 b1. reach (preempt_step C depth False) ((g, a, b, p, q), Resting) ((g1, a1, b1, pending depth g (p - 1), pending depth g q), Resting) \<and>
      VoltageSum a1 = 0 \<and> currentCountIndex a1 = 0)"
proof -
  let ?L = "L_lpadc C"
  from race_run[OF assms(1-7), of depth b q] obtain a1 b1 where
    r: "reach (preempt_step C depth True) ((g, a, b, p, q), Resting) ((store_voltage g a, a1, b1, pending depth g (p - 1), pending depth g q), Resting)"
    "sampling_ready (store_voltage g a) a1" "VoltageSum a1 = VoltageSum a + of_nat (sample_value ?L w)" "CurrentSum a1 = 0" "currentCountIndex a1 = 0"
    by blast
  have len: "unat (currentCountIndex a1) + length ws \<le> 29" using r(5) assms(8) by simp
  have ne: "strip_list (store_voltage g a) \<noteq> []" using assms(3) by simp
  from sample_rounds[OF assms(1) ne assms(9) r(2) len, of b1] obtain a2 b2 where
    w: "for_each (concat (map sample_round ws)) (sample_irq_handler C) (store_voltage g a, a1, b1) = Inr (store_voltage g a, a2, b2)"
    "sums_after (length ws) (volts ?L ws) (amps ?L ws) a1 a2" by blast
  have c: "unat (currentCountIndex a2) = 29" "strip_state a2 = strip_state a1" using w(2) r(5) assms(8) by (simp_all add: sums_after_def)
  have ready: "sampling_ready (store_voltage g a) a2" using strip_state_ready[OF c(2) _ r(2)] c(1) by simp
  from timer_finishes[OF ready ne c(1)] have "\<exists>b3. CTIMER2_IRQHandler C (store_voltage g a, a2, b2) = finish_strip (store_voltage g a, a2, b3)"
    by blast
  moreover have "VoltageSum a2 = VoltageSum a + of_nat (sample_value ?L w + volts ?L ws)" "CurrentSum a2 = of_nat (amps ?L ws)"
    using w(2) r(3,4) by (simp_all add: sums_after_def)
  ultimately show ?thesis using r(1,5) w(1) ordered_run[OF assms(1-7), of depth b q] by blast
qed

text \<open>Two strips, the first at its end with a sum of 29000: the second starts with 30000.\<close>

definition two_strips :: globals where
  "two_strips = init_globals\<lparr>active_strips := [True, False, True, False, False, False, False, False], g_strip_count := 2, g_Dac14ValueArraySize := 4\<rparr>"

definition at_end :: adc_vars where
  "at_end = init_adc_vars\<lparr>active_strip_indices := Some [0, 2], currentCountIndex := 29, VoltageSum := 29000\<rparr>"

lemma two_strips_ready: "strip_list two_strips = [0, 2]" "sampling_ready two_strips at_end"
proof -
  show l: "strip_list two_strips = [0, 2]" by (simp add: strip_list_def two_strips_def upt_rec)
  have "arrays_ok two_strips" "count_ok two_strips"
    using arrays_ok_init by (simp_all add: arrays_ok_def count_ok_def n_active_def two_strips_def)
  then show "sampling_ready two_strips at_end" using l by (simp add: sampling_ready_def at_end_def init_adc_vars_def)
qed

theorem race_adds_previous_strip_witness:
  "\<exists>s a2 b2. reach (preempt_step example_chip 16 True) ((two_strips, at_end, reset_board, 1, 1), Resting) (s, Resting) \<and>
    for_each (concat (map sample_round (replicate 29 (0x800003E8, 0x800001F4)))) (sample_irq_handler example_chip) (fst s, fst (snd s), fst (snd (snd s))) =
      Inr (fst s, a2, b2) \<and> VoltageSum a2 = 59000 \<and> CurrentSum a2 = 14500"
proof -
  let ?ws = "replicate 29 (0x800003E8, 0x800001F4) :: (u32 \<times> u32) list" and ?L = "L_lpadc example_chip"
  have L: "?L = example_lpadc" by (simp add: example_chip_def)
  have a: "unat (currentCountIndex at_end) = 29" "Suc (unat (current_active_strip_index at_end)) < length (strip_list two_strips)"
    "VoltageSum at_end = 29000" "strip_list two_strips \<noteq> []"
    by (simp_all add: at_end_def init_adc_vars_def two_strips_ready(1))
  have w: "valid_word ?L 0x800003E8" "valid_words ?L ?ws" "sample_value ?L 0x800003E8 = 1000" "volts ?L ?ws = 29000" "amps ?L ?ws = 14500"
    using example_words unfolding L by (auto simp: valid_words_def volts_def amps_def sum_list_replicate)
  have "length ?ws = 29" "(0 :: nat) < 1" by simp_all
  note race = race_adds_previous_strip[OF example_chip_ok two_strips_ready(2) a(4) a(1,2) this(2) w(1) this(1) w(2), of 16 reset_board 1]
  from race[THEN conjunct1] obtain s a2 b2 where
    r: "reach (preempt_step example_chip 16 True) ((two_strips, at_end, reset_board, 1, 1), Resting) (s, Resting)"
    "for_each (concat (map sample_round ?ws)) (sample_irq_handler example_chip) (fst s, fst (snd s), fst (snd (snd s))) = Inr (fst s, a2, b2)"
    "VoltageSum a2 = VoltageSum at_end + of_nat (sample_value ?L 0x800003E8 + volts ?L ?ws)" "CurrentSum a2 = of_nat (amps ?L ?ws)"
    by force
  have "VoltageSum a2 = 59000" "CurrentSum a2 = 14500" using r(3,4) unfolding a(3) w(3-5) by simp_all
  with r(1,2) show ?thesis by blast
qed

text \<open>A tick during the handler, in the middle of a strip.\<close>

theorem preemption_refines_witness:
  "\<exists>s. reach (preempt_step example_chip 16 False) ((one_strip_globals\<lparr>g_Dac14ValueArraySize := 4\<rparr>,
       init_adc_vars\<lparr>active_strip_indices := Some [2]\<rparr>, reset_board, 1, 0), Resting) s \<and>
     (\<exists>v. snd s = Adding0 v) \<and> currentCountIndex (fst (snd (fst s))) = 1 \<and> irq_inv 16 (completed s)"
proof -
  let ?g = "one_strip_globals\<lparr>g_Dac14ValueArraySize := 4\<rparr>" and ?a = "init_adc_vars\<lparr>active_strip_indices := Some [2]\<rparr>"
  let ?step = "preempt_step example_chip 16 False" and ?s0 = "(?g, ?a, reset_board, 1, 0)"
  have inv: "irq_inv 16 ?s0" using one_strip_inv[of reset_board] by (simp add: sum_bounded_def init_adc_vars_def)
  have L: "lpadc_fifo_layout_ok (L_lpadc example_chip)" using example_chip_ok by (simp add: chip_ok_def)
  have "valid_word (L_lpadc example_chip) 0x800003E8" using example_words(1) by (simp add: example_chip_def)
  from fetch0_valid[OF L this, of ?a] obtain af c where f: "fetch0 (L_lpadc example_chip) 0x800003E8 ?a = (af, Fetched0 c)"
    "strip_state af = strip_state ?a" "currentCountIndex af = currentCountIndex ?a" by blast
  obtain v where v: "go_on (Fetched0 c) af = (af, Adding0 v)" by simp
  have ready: "sampling_ready ?g ?a" using inv by simp
  then have ready': "sampling_ready ?g af" using strip_state_ready[OF f(2)] f(3) by (simp add: init_adc_vars_def)
  have ne: "strip_list ?g \<noteq> []" using one_strip_ready(1) by (simp add: strip_list_def)
  have lt: "unat (currentCountIndex af) < 29" using f(3) by (simp add: init_adc_vars_def)
  from timer_counts[OF ready' ne lt, of example_chip reset_board] obtain b' where
    t: "CTIMER2_IRQHandler example_chip (?g, af, reset_board) = Inr (?g, af\<lparr>currentCountIndex := currentCountIndex af + 1\<rparr>, b')" by blast
  have quiet: "\<not> ends_strip ?g af" using ready' lt by (simp add: ends_strip_def sampling_ready_def)
  have "(0 :: nat) < 1" by simp
  from pre_fetch0[of 1 example_chip "0x800003E8" ?a af "Fetched0 c" 16 False ?g reset_board 0, OF this f(1)]
  have "reach ?step (?s0, Resting) ((?g, af, reset_board, 0, 0), Fetched0 c)" by (intro reach_one) simp
  then have "reach ?step (?s0, Resting) ((?g, af, reset_board, 0, 0), Adding0 v)"
    by (rule reach.reach_step, intro pre_go_on) (rule v)
  moreover have "?step ((?g, af, reset_board, 0, 0), Adding0 v)
      (Inr ((?g, af\<lparr>currentCountIndex := currentCountIndex af + 1\<rparr>, b', pending 16 ?g 0, pending 16 ?g 0), Adding0 v))"
    using pre_ctimer2[of False "Adding0 v" ?g af example_chip 16 reset_board 0 0] quiet unfolding t by simp
  ultimately have r: "reach ?step (?s0, Resting)
      ((?g, af\<lparr>currentCountIndex := currentCountIndex af + 1\<rparr>, b', pending 16 ?g 0, pending 16 ?g 0), Adding0 v)" by (rule reach.reach_step)
  have "(16 :: nat) \<le> 16" by simp
  from preemption_refines[OF this inv r] r f(3) show ?thesis
    by (intro exI conjI) (assumption, simp, simp add: init_adc_vars_def, blast)
qed

end
