(* ===== verification/Lpuart.thy ===== *)
theory Lpuart
  imports Registers
begin

text \<open>
  The UART driver (\<open>fsl_lpuart.c\<close>, \<open>fsl_lpuart.h\<close> of the SDK for the LP_FLEXCOMM) with the features of the MCXN947: FIFOs of eight
  characters, modem control, seven bit data, timeouts, software reset. What the hardware makes a polled register hold, look
  after look, is an argument of the operations that wait; a wait that uses it up does not return (\<open>None\<close>). The selection of the UART in its
  LP_FLEXCOMM (\<open>fsl_lpflexcomm.c\<close>) comes with it. The transactional functions with their handle are in theory \<open>Lpuart_Transfer\<close>.
\<close>

section \<open>Enumerations and structures\<close>

datatype lpuart_status =
    kStatus_Success
  | kStatus_Fail
  | kStatus_OutOfRange
  | kStatus_NoTransferInProgress
  | kStatus_LPUART_TxBusy
  | kStatus_LPUART_RxBusy
  | kStatus_LPUART_TxIdle
  | kStatus_LPUART_RxIdle
  | kStatus_LPUART_FlagCannotClearManually
  | kStatus_LPUART_RxRingBufferOverrun
  | kStatus_LPUART_RxHardwareOverrun
  | kStatus_LPUART_NoiseError
  | kStatus_LPUART_FramingError
  | kStatus_LPUART_ParityError
  | kStatus_LPUART_BaudrateNotSupport
  | kStatus_LPUART_IdleLineDetected

datatype lpuart_parity_mode = kLPUART_ParityDisabled | kLPUART_ParityEven | kLPUART_ParityOdd

primrec parity_val :: "lpuart_parity_mode \<Rightarrow> u32" where
  "parity_val kLPUART_ParityDisabled = 0x0"
| "parity_val kLPUART_ParityEven = 0x2"
| "parity_val kLPUART_ParityOdd = 0x3"

datatype lpuart_data_bits = kLPUART_EightDataBits | kLPUART_SevenDataBits

datatype lpuart_stop_bit_count = kLPUART_OneStopBit | kLPUART_TwoStopBit

primrec stop_bit_val :: "lpuart_stop_bit_count \<Rightarrow> u32" where
  "stop_bit_val kLPUART_OneStopBit = 0"
| "stop_bit_val kLPUART_TwoStopBit = 1"

datatype lpuart_transmit_cts_source = kLPUART_CtsSourcePin | kLPUART_CtsSourceMatchResult

primrec cts_source_val :: "lpuart_transmit_cts_source \<Rightarrow> u32" where
  "cts_source_val kLPUART_CtsSourcePin = 0"
| "cts_source_val kLPUART_CtsSourceMatchResult = 1"

datatype lpuart_transmit_cts_config = kLPUART_CtsSampleAtStart | kLPUART_CtsSampleAtIdle

primrec cts_config_val :: "lpuart_transmit_cts_config \<Rightarrow> u32" where
  "cts_config_val kLPUART_CtsSampleAtStart = 0"
| "cts_config_val kLPUART_CtsSampleAtIdle = 1"

datatype lpuart_idle_type_select = kLPUART_IdleTypeStartBit | kLPUART_IdleTypeStopBit

primrec idle_type_val :: "lpuart_idle_type_select \<Rightarrow> u32" where
  "idle_type_val kLPUART_IdleTypeStartBit = 0"
| "idle_type_val kLPUART_IdleTypeStopBit = 1"

datatype lpuart_idle_config =
    kLPUART_IdleCharacter1 | kLPUART_IdleCharacter2 | kLPUART_IdleCharacter4 | kLPUART_IdleCharacter8
  | kLPUART_IdleCharacter16 | kLPUART_IdleCharacter32 | kLPUART_IdleCharacter64 | kLPUART_IdleCharacter128

primrec idle_config_val :: "lpuart_idle_config \<Rightarrow> u32" where
  "idle_config_val kLPUART_IdleCharacter1 = 0"
| "idle_config_val kLPUART_IdleCharacter2 = 1"
| "idle_config_val kLPUART_IdleCharacter4 = 2"
| "idle_config_val kLPUART_IdleCharacter8 = 3"
| "idle_config_val kLPUART_IdleCharacter16 = 4"
| "idle_config_val kLPUART_IdleCharacter32 = 5"
| "idle_config_val kLPUART_IdleCharacter64 = 6"
| "idle_config_val kLPUART_IdleCharacter128 = 7"

datatype lpuart_timeout_condition =
    kLPUART_TimeoutAfterCharacters | kLPUART_TimeoutAfterIdle | kLPUART_TimeoutAfterNext | kLPUART_TimeoutAfterIdleBeforeExtended

primrec timeout_val :: "lpuart_timeout_condition \<Rightarrow> u32" where
  "timeout_val kLPUART_TimeoutAfterCharacters = 0"
| "timeout_val kLPUART_TimeoutAfterIdle = 1"
| "timeout_val kLPUART_TimeoutAfterNext = 2"
| "timeout_val kLPUART_TimeoutAfterIdleBeforeExtended = 3"

record lpuart_timeout_counter_config =
  enableCounter :: bool
  timeoutCondition :: lpuart_timeout_condition
  timeoutValue :: u16

record lpuart_timeout_config =
  rxExtendedTimeoutValue :: u16
  txExtendedTimeoutValue :: u16
  rxCounter0 :: lpuart_timeout_counter_config
  rxCounter1 :: lpuart_timeout_counter_config
  txCounter0 :: lpuart_timeout_counter_config
  txCounter1 :: lpuart_timeout_counter_config

record lpuart_config =
  baudRate_Bps :: u32
  parityMode :: lpuart_parity_mode
  dataBitsCount :: lpuart_data_bits
  isMsb :: bool
  stopBitCount :: lpuart_stop_bit_count
  txFifoWatermark :: u8
  rxFifoWatermark :: u8
  enableRxRTS :: bool
  enableTxCTS :: bool
  txCtsSource :: lpuart_transmit_cts_source
  txCtsConfig :: lpuart_transmit_cts_config
  rxIdleType :: lpuart_idle_type_select
  rxIdleConfig :: lpuart_idle_config
  timeoutConfig :: lpuart_timeout_config
  enableSingleWire :: bool
  rtsDelay :: u8
  enableTx :: bool
  enableRx :: bool

text \<open>The registers. \<open>lu_DATA\<close> is the last word written to the data register.\<close>

record lpuart =
  lu_GLOBAL :: u32
  lu_BAUD :: u32
  lu_STAT :: u32
  lu_CTRL :: u32
  lu_DATA :: u32
  lu_MATCH :: u32
  lu_MODIR :: u32
  lu_FIFO :: u32
  lu_WATER :: u32
  lu_MCR :: u32
  lu_MSR :: u32
  lu_REIR :: u32
  lu_TEIR :: u32
  lu_HDCR :: u32
  lu_TOCR :: u32
  lu_TOSR :: u32
  lu_TIMEOUT :: "u32 list"

text \<open>A UART, the selection register of its LP_FLEXCOMM, and the calls made.\<close>

type_synonym lpuart_dev = "lpuart \<times> u32 \<times> sys_call list"

record lpuart_layout =
  PSELID_PERSEL :: bitfield
  PSELID_LOCK :: bitfield
  GLOBAL_RST :: bitfield
  BAUD_SBR :: bitfield
  BAUD_SBNS :: bitfield
  BAUD_RXEDGIE :: bitfield
  BAUD_LBKDIE :: bitfield
  BAUD_BOTHEDGE :: bitfield
  BAUD_RDMAE :: bitfield
  BAUD_TDMAE :: bitfield
  BAUD_OSR :: bitfield
  BAUD_M10 :: bitfield
  BAUD_MAEN2 :: bitfield
  BAUD_MAEN1 :: bitfield
  STAT_MA2F :: bitfield
  STAT_MA1F :: bitfield
  STAT_PF :: bitfield
  STAT_FE :: bitfield
  STAT_NF :: bitfield
  STAT_OR :: bitfield
  STAT_IDLE :: bitfield
  STAT_RDRF :: bitfield
  STAT_TC :: bitfield
  STAT_TDRE :: bitfield
  STAT_RAF :: bitfield
  STAT_MSBF :: bitfield
  STAT_RXEDGIF :: bitfield
  STAT_LBKDIF :: bitfield
  CTRL_PT :: bitfield
  CTRL_PE :: bitfield
  CTRL_ILT :: bitfield
  CTRL_M :: bitfield
  CTRL_IDLECFG :: bitfield
  CTRL_M7 :: bitfield
  CTRL_MA2IE :: bitfield
  CTRL_MA1IE :: bitfield
  CTRL_RE :: bitfield
  CTRL_TE :: bitfield
  CTRL_ILIE :: bitfield
  CTRL_RIE :: bitfield
  CTRL_TCIE :: bitfield
  CTRL_TIE :: bitfield
  CTRL_PEIE :: bitfield
  CTRL_FEIE :: bitfield
  CTRL_NEIE :: bitfield
  CTRL_ORIE :: bitfield
  DATA_R8T8 :: bitfield
  MODIR_TXCTSE :: bitfield
  MODIR_RXRTSE :: bitfield
  MODIR_TXCTSC :: bitfield
  MODIR_TXCTSSRC :: bitfield
  FIFO_RXFE :: bitfield
  FIFO_TXFE :: bitfield
  FIFO_RXUFE :: bitfield
  FIFO_TXOFE :: bitfield
  FIFO_RXFLUSH :: bitfield
  FIFO_TXFLUSH :: bitfield
  FIFO_RXUF :: bitfield
  FIFO_TXOF :: bitfield
  FIFO_RXEMPT :: bitfield
  FIFO_TXEMPT :: bitfield
  WATER_TXWATER :: bitfield
  WATER_TXCOUNT :: bitfield
  WATER_RXWATER :: bitfield
  WATER_RXCOUNT :: bitfield
  MCR_CTS :: bitfield
  MCR_DSR :: bitfield
  MCR_RIN :: bitfield
  MCR_DCD :: bitfield

section \<open>Interrupts and flags\<close>

text \<open>The members of \<open>_lpuart_interrupt_enable\<close> that only occur in the combination of all of them are written out there.\<close>

definition kLPUART_RxActiveEdgeInterruptEnable :: "lpuart_layout \<Rightarrow> u32" where
  "kLPUART_RxActiveEdgeInterruptEnable L = drop_bit 8 (fmask (BAUD_RXEDGIE L))"

definition kLPUART_LinBreakInterruptEnable :: "lpuart_layout \<Rightarrow> u32" where
  "kLPUART_LinBreakInterruptEnable L = drop_bit 8 (fmask (BAUD_LBKDIE L))"

definition fifo_interrupts :: "lpuart_layout \<Rightarrow> u32" where
  "fifo_interrupts L = fmask (FIFO_TXOFE L) OR fmask (FIFO_RXUFE L)"

definition kLPUART_AllInterruptEnable :: "lpuart_layout \<Rightarrow> u32" where
  "kLPUART_AllInterruptEnable L =
     fmask (MCR_CTS L) OR fmask (MCR_DSR L) OR fmask (MCR_RIN L) OR fmask (MCR_DCD L) OR
     kLPUART_RxActiveEdgeInterruptEnable L OR fmask (CTRL_ILIE L) OR fmask (CTRL_RIE L) OR fmask (CTRL_TCIE L) OR fmask (CTRL_TIE L) OR
     fmask (CTRL_PEIE L) OR fmask (CTRL_FEIE L) OR fmask (CTRL_NEIE L) OR fmask (CTRL_ORIE L) OR
     kLPUART_LinBreakInterruptEnable L OR fifo_interrupts L OR fmask (CTRL_MA2IE L) OR fmask (CTRL_MA1IE L)"

text \<open>The flags that can be cleared: modem status, status register, and FIFO register shifted down.\<close>

definition modem_flags :: "lpuart_layout \<Rightarrow> u32" where
  "modem_flags L = push_bit 2 (fmask (MCR_CTS L)) OR push_bit 2 (fmask (MCR_DSR L)) OR push_bit 2 (fmask (MCR_RIN L)) OR
     push_bit 2 (fmask (MCR_DCD L))"

definition stat_flags :: "lpuart_layout \<Rightarrow> u32" where
  "stat_flags L = fmask (STAT_PF L) OR fmask (STAT_FE L) OR fmask (STAT_NF L) OR fmask (STAT_OR L) OR fmask (STAT_IDLE L) OR
     fmask (STAT_RXEDGIF L) OR fmask (STAT_MA2F L) OR fmask (STAT_MA1F L) OR fmask (STAT_LBKDIF L)"

definition fifo_flags :: "lpuart_layout \<Rightarrow> u32" where
  "fifo_flags L = drop_bit 16 (fmask (FIFO_TXOF L)) OR drop_bit 16 (fmask (FIFO_RXUF L))"

definition kLPUART_AllClearFlags :: "lpuart_layout \<Rightarrow> u32" where
  "kLPUART_AllClearFlags L = modem_flags L OR stat_flags L OR fifo_flags L"

definition kLPUART_AllFlags :: "lpuart_layout \<Rightarrow> u32" where
  "kLPUART_AllFlags L =
     kLPUART_AllClearFlags L OR fmask (STAT_RDRF L) OR fmask (STAT_TC L) OR fmask (STAT_TDRE L) OR fmask (STAT_RAF L) OR
     drop_bit 16 (fmask (FIFO_TXEMPT L)) OR drop_bit 16 (fmask (FIFO_RXEMPT L))"

text \<open>
  What a write does: a flag is cleared by writing a one to it; flush bits read as zero; the flags for an empty FIFO and the
  counts cannot be written; of the status register otherwise only the five bits that are not status.
\<close>

definition write_STAT :: "lpuart_layout \<Rightarrow> u32 \<Rightarrow> lpuart \<Rightarrow> lpuart" where
  "write_STAT L w r =
     r\<lparr>lu_STAT := (lu_STAT r AND NOT 0x3E000000 AND NOT (w AND stat_flags L)) OR (w AND 0x3E000000)\<rparr>"

definition write_FIFO :: "lpuart_layout \<Rightarrow> u32 \<Rightarrow> lpuart \<Rightarrow> lpuart" where
  "write_FIFO L w r =
     (let w1c = fmask (FIFO_TXOF L) OR fmask (FIFO_RXUF L);
          flush = fmask (FIFO_TXFLUSH L) OR fmask (FIFO_RXFLUSH L);
          status = fmask (FIFO_TXEMPT L) OR fmask (FIFO_RXEMPT L)
      in r\<lparr>lu_FIFO := (w AND NOT (w1c OR flush OR status)) OR (lu_FIFO r AND w1c AND NOT w) OR (lu_FIFO r AND status)\<rparr>)"

definition write_WATER :: "lpuart_layout \<Rightarrow> u32 \<Rightarrow> lpuart \<Rightarrow> lpuart" where
  "write_WATER L w r =
     (let counts = fmask (WATER_TXCOUNT L) OR fmask (WATER_RXCOUNT L)
      in r\<lparr>lu_WATER := (w AND NOT counts) OR (lu_WATER r AND counts)\<rparr>)"

definition write_MSR :: "u32 \<Rightarrow> lpuart \<Rightarrow> lpuart" where
  "write_MSR w r = r\<lparr>lu_MSR := lu_MSR r AND NOT (w AND 0xF)\<rparr>"

definition write_TOSR :: "u32 \<Rightarrow> lpuart \<Rightarrow> lpuart" where
  "write_TOSR w r = r\<lparr>lu_TOSR := lu_TOSR r AND NOT (w AND 0xF00)\<rparr>"

definition interrupt_baud_bits :: "lpuart_layout \<Rightarrow> u32 \<Rightarrow> u32" where
  "interrupt_baud_bits L m = (push_bit 8 m AND fmask (BAUD_LBKDIE L)) OR
     (push_bit 8 (m AND NOT (kLPUART_LinBreakInterruptEnable L)) AND fmask (BAUD_RXEDGIE L))"

definition interrupt_ctrl_bits :: "lpuart_layout \<Rightarrow> u32 \<Rightarrow> u32" where
  "interrupt_ctrl_bits L m =
     m AND NOT (kLPUART_LinBreakInterruptEnable L) AND NOT (kLPUART_RxActiveEdgeInterruptEnable L) AND NOT (fifo_interrupts L)"

definition LPUART_EnableInterrupts :: "lpuart_layout \<Rightarrow> u32 \<Rightarrow> lpuart \<Rightarrow> lpuart" where
  "LPUART_EnableInterrupts L m r =
     (let m = m AND kLPUART_AllInterruptEnable L;
          r = r\<lparr>lu_MCR := lu_MCR r OR (m AND 0xF)\<rparr>;
          r = write_TOSR (lu_TOSR r OR (drop_bit 2 m AND 0xF00)) r;
          r = r\<lparr>lu_BAUD := lu_BAUD r OR interrupt_baud_bits L m\<rparr>;
          r = write_FIFO L ((lu_FIFO r AND NOT (fmask (FIFO_TXOF L) OR fmask (FIFO_RXUF L))) OR (m AND fifo_interrupts L)) r
      in r\<lparr>lu_CTRL := lu_CTRL r OR interrupt_ctrl_bits L m\<rparr>)"

definition LPUART_DisableInterrupts :: "lpuart_layout \<Rightarrow> u32 \<Rightarrow> lpuart \<Rightarrow> lpuart" where
  "LPUART_DisableInterrupts L m r =
     (let m = m AND kLPUART_AllInterruptEnable L;
          r = r\<lparr>lu_MCR := lu_MCR r AND NOT (m AND 0xF)\<rparr>;
          r = write_TOSR (lu_TOSR r AND NOT (drop_bit 2 m AND 0xF00)) r;
          r = r\<lparr>lu_BAUD := lu_BAUD r AND NOT (interrupt_baud_bits L m)\<rparr>;
          r = write_FIFO L ((lu_FIFO r AND NOT (fmask (FIFO_TXOF L) OR fmask (FIFO_RXUF L))) AND NOT (m AND fifo_interrupts L)) r
      in r\<lparr>lu_CTRL := lu_CTRL r AND NOT (interrupt_ctrl_bits L m)\<rparr>)"

definition LPUART_GetEnabledInterrupts :: "lpuart_layout \<Rightarrow> lpuart \<Rightarrow> u32" where
  "LPUART_GetEnabledInterrupts L r =
     (let temp = lu_CTRL r AND 0xFF0C000;
          temp = temp OR (lu_MCR r AND 0xF);
          temp = temp OR push_bit 2 (lu_TOCR r AND 0xF00);
          temp = (temp AND NOT (kLPUART_RxActiveEdgeInterruptEnable L)) OR drop_bit 8 (lu_BAUD r AND fmask (BAUD_RXEDGIE L));
          temp = (temp AND NOT (kLPUART_LinBreakInterruptEnable L)) OR drop_bit 8 (lu_BAUD r AND fmask (BAUD_LBKDIE L))
      in (temp AND NOT (fifo_interrupts L)) OR (lu_FIFO r AND fifo_interrupts L))"

definition LPUART_GetStatusFlags :: "lpuart_layout \<Rightarrow> lpuart \<Rightarrow> u32" where
  "LPUART_GetStatusFlags L r =
     (let temp = lu_STAT r AND 0xC1FFC000;
          temp = temp OR push_bit 2 (lu_MSR r AND 0xF);
          temp = temp OR push_bit 2 (lu_TOSR r AND 0xF00);
          temp = temp OR drop_bit 16 (lu_FIFO r AND
                   (fmask (FIFO_TXEMPT L) OR fmask (FIFO_RXEMPT L) OR fmask (FIFO_TXOF L) OR fmask (FIFO_RXUF L)))
      in temp AND kLPUART_AllFlags L)"

definition LPUART_ClearStatusFlags :: "lpuart_layout \<Rightarrow> u32 \<Rightarrow> lpuart \<Rightarrow> lpuart_status \<times> lpuart" where
  "LPUART_ClearStatusFlags L m r =
     (let m = m AND kLPUART_AllClearFlags L;
          r = write_MSR (drop_bit 2 m AND 0xF) r;
          r = write_TOSR (drop_bit 2 m AND 0xF00) r;
          r = (if m AND fifo_flags L \<noteq> 0 then
                 write_FIFO L
                   ((lu_FIFO r AND NOT (fmask (FIFO_TXFLUSH L) OR fmask (FIFO_RXFLUSH L) OR fmask (FIFO_TXOF L) OR fmask (FIFO_RXUF L)))
                    OR (push_bit 16 m AND (fmask (FIFO_TXOF L) OR fmask (FIFO_RXUF L)))) r
               else r);
          r = write_STAT L ((lu_STAT r AND 0x3E000000) OR m) r
      in (if m AND LPUART_GetStatusFlags L r \<noteq> 0 then kStatus_LPUART_FlagCannotClearManually else kStatus_Success, r))"

section \<open>The baud rate\<close>

text \<open>The divider for an oversampling rate, rounded to the nearest, and one turn of the search: on equal differences the later rate wins.\<close>

definition sbr_for :: "lpuart_layout \<Rightarrow> u32 \<Rightarrow> u32 \<Rightarrow> nat \<Rightarrow> u16 res" where
  "sbr_for L srcClock_Hz baud osrTemp =
     (if baud * of_nat osrTemp = 0 then Inl DivByZero
      else
        let sbrTemp = ucast ((srcClock_Hz * 10 div (baud * of_nat osrTemp) + 5) div 10) :: u16
        in Inr (if sbrTemp = 0 then 1 else if ucast sbrTemp > fmask (BAUD_SBR L) then ucast (fmask (BAUD_SBR L)) else sbrTemp))"

definition baud_step :: "lpuart_layout \<Rightarrow> u32 \<Rightarrow> u32 \<Rightarrow> nat \<Rightarrow> u8 \<times> u16 \<times> u32 \<Rightarrow> (u8 \<times> u16 \<times> u32) res" where
  "baud_step L srcClock_Hz baud osrTemp s =
     (let (osr, sbr, baudDiff) = s
      in rbind (sbr_for L srcClock_Hz baud osrTemp) (\<lambda>sbrTemp.
         if of_nat osrTemp * (ucast sbrTemp :: u32) = 0 then Inl DivByZero
         else
           let calculatedBaud = srcClock_Hz div (of_nat osrTemp * ucast sbrTemp);
               tempDiff = (if calculatedBaud > baud then calculatedBaud - baud else baud - calculatedBaud)
           in Inr (if tempDiff \<le> baudDiff then (of_nat osrTemp, sbrTemp, tempDiff) else (osr, sbr, baudDiff))))"

definition baud_search :: "lpuart_layout \<Rightarrow> u32 \<Rightarrow> u32 \<Rightarrow> (u8 \<times> u16 \<times> u32) res" where
  "baud_search L srcClock_Hz baud = for_each [4..<33] (baud_step L srcClock_Hz baud) (0, 0, baud)"

definition program_baud :: "lpuart_layout \<Rightarrow> u8 \<Rightarrow> u16 \<Rightarrow> lpuart \<Rightarrow> lpuart" where
  "program_baud L osr sbr r =
     (let temp = lu_BAUD r;
          temp = (if osr > 3 \<and> osr < 8 then temp OR fmask (BAUD_BOTHEDGE L) else temp);
          temp = (temp AND NOT (fmask (BAUD_OSR L))) OR fval (BAUD_OSR L) (ucast osr - 1);
          temp = temp AND NOT (fmask (BAUD_SBR L))
      in r\<lparr>lu_BAUD := temp OR fval (BAUD_SBR L) (ucast sbr)\<rparr>)"

section \<open>The selection of the peripheral\<close>

datatype lp_flexcomm_periph =
    LP_FLEXCOMM_PERIPH_NONE | LP_FLEXCOMM_PERIPH_LPUART | LP_FLEXCOMM_PERIPH_LPSPI | LP_FLEXCOMM_PERIPH_LPI2C
  | LP_FLEXCOMM_PERIPH_LPI2CAndLPUART

primrec flexcomm_periph_val :: "lp_flexcomm_periph \<Rightarrow> nat" where
  "flexcomm_periph_val LP_FLEXCOMM_PERIPH_NONE = 0"
| "flexcomm_periph_val LP_FLEXCOMM_PERIPH_LPUART = 1"
| "flexcomm_periph_val LP_FLEXCOMM_PERIPH_LPSPI = 2"
| "flexcomm_periph_val LP_FLEXCOMM_PERIPH_LPI2C = 3"
| "flexcomm_periph_val LP_FLEXCOMM_PERIPH_LPI2CAndLPUART = 7"

definition LP_FLEXCOMM_PeripheralIsPresent :: "u32 \<Rightarrow> lp_flexcomm_periph \<Rightarrow> bool" where
  "LP_FLEXCOMM_PeripheralIsPresent pselid periph \<longleftrightarrow>
     (if periph = LP_FLEXCOMM_PERIPH_NONE then True
      else if flexcomm_periph_val periph \<le> flexcomm_periph_val LP_FLEXCOMM_PERIPH_LPI2C
      then pselid AND push_bit (flexcomm_periph_val periph + 3) 1 > 0
      else periph = LP_FLEXCOMM_PERIPH_LPI2CAndLPUART)"

text \<open>Of the selection register only the selection and the lock are written.\<close>

definition write_PSELID :: "lpuart_layout \<Rightarrow> u32 \<Rightarrow> u32 \<Rightarrow> u32" where
  "write_PSELID L w pselid =
     (let sel = fmask (PSELID_PERSEL L) OR fmask (PSELID_LOCK L) in (pselid AND NOT sel) OR (w AND sel))"

definition LP_FLEXCOMM_SetPeriph :: "lpuart_layout \<Rightarrow> lp_flexcomm_periph \<Rightarrow> bool \<Rightarrow> u32 \<Rightarrow> lpuart_status \<times> u32" where
  "LP_FLEXCOMM_SetPeriph L periph lock pselid =
     (let val = of_nat (flexcomm_periph_val periph)
      in if \<not> LP_FLEXCOMM_PeripheralIsPresent pselid periph then (kStatus_OutOfRange, pselid)
         else if pselid AND fmask (PSELID_LOCK L) \<noteq> 0 \<and> pselid AND fmask (PSELID_PERSEL L) \<noteq> val then (kStatus_Fail, pselid)
         else (kStatus_Success, write_PSELID L (if lock then val OR fmask (PSELID_LOCK L) else val) pselid))"

definition LP_FLEXCOMM_Init ::
  "lpuart_layout \<Rightarrow> nat \<Rightarrow> lp_flexcomm_periph \<Rightarrow> u32 \<times> sys_call list \<Rightarrow> lpuart_status \<times> u32 \<times> sys_call list" where
  "LP_FLEXCOMM_Init L n periph f =
     (let calls = snd f @ [CLOCK_EnableClock (FLEXCOMM n), RESET_ClearPeripheralReset (FLEXCOMM n)];
          (status, pselid) = LP_FLEXCOMM_SetPeriph L periph False (fst f)
      in (status, pselid, calls))"

definition LP_FLEXCOMM_Deinit :: "nat \<Rightarrow> u32 \<times> sys_call list \<Rightarrow> u32 \<times> sys_call list" where
  "LP_FLEXCOMM_Deinit n f = (fst f, snd f @ [CLOCK_DisableClock (FLEXCOMM n), RESET_SetPeripheralReset (FLEXCOMM n)])"

section \<open>Initialisation\<close>

text \<open>
  The reset sets every register but the global one to its reset value, which is a parameter.
\<close>

definition LPUART_SoftwareReset :: "lpuart_layout \<Rightarrow> lpuart \<Rightarrow> lpuart \<Rightarrow> lpuart" where
  "LPUART_SoftwareReset L reset r =
     (let r = reset\<lparr>lu_GLOBAL := lu_GLOBAL r OR fmask (GLOBAL_RST L)\<rparr>
      in r\<lparr>lu_GLOBAL := lu_GLOBAL r AND NOT (fmask (GLOBAL_RST L))\<rparr>)"

definition frame_format :: "lpuart_layout \<Rightarrow> lpuart_config \<Rightarrow> lpuart \<Rightarrow> lpuart" where
  "frame_format L config r =
     (let temp = lu_CTRL r AND NOT (fmask (CTRL_PE L) OR fmask (CTRL_PT L) OR fmask (CTRL_M L) OR fmask (CTRL_ILT L) OR
                   fmask (CTRL_IDLECFG L));
          temp = temp OR (parity_val (parityMode config) OR fval (CTRL_IDLECFG L) (idle_config_val (rxIdleConfig config)) OR
                   fval (CTRL_ILT L) (idle_type_val (rxIdleType config)));
          temp = (if dataBitsCount config = kLPUART_SevenDataBits
                  then (if parityMode config \<noteq> kLPUART_ParityDisabled then temp AND NOT (fmask (CTRL_M7 L)) else temp OR fmask (CTRL_M7 L))
                  else (if parityMode config \<noteq> kLPUART_ParityDisabled then temp OR fmask (CTRL_M L) else temp))
      in r\<lparr>lu_CTRL := temp\<rparr>)"

definition modem_config :: "lpuart_layout \<Rightarrow> lpuart_config \<Rightarrow> lpuart \<Rightarrow> lpuart" where
  "modem_config L config r =
     (let m = lu_MODIR r OR (fval (MODIR_TXCTSC L) (cts_config_val (txCtsConfig config)) OR
                fval (MODIR_TXCTSSRC L) (cts_source_val (txCtsSource config)));
          m = (if enableRxRTS config then m OR fmask (MODIR_RXRTSE L) else m);
          m = (if enableTxCTS config then m OR fmask (MODIR_TXCTSE L) else m)
      in r\<lparr>lu_MODIR := m\<rparr>)"

definition counter_word :: "lpuart_timeout_counter_config \<Rightarrow> u32" where
  "counter_word c = push_bit 30 (timeout_val (timeoutCondition c)) OR ucast (timeoutValue c)"

definition timeout_setup :: "lpuart_timeout_config \<Rightarrow> lpuart \<Rightarrow> lpuart res" where
  "timeout_setup t r =
     (let r = r\<lparr>lu_REIR := ucast (rxExtendedTimeoutValue t)\<rparr>;
          r = r\<lparr>lu_TEIR := ucast (txExtendedTimeoutValue t)\<rparr>;
          r = r\<lparr>lu_TOCR := lu_TOCR r OR (of_bool (enableCounter (rxCounter0 t)) OR push_bit 1 (of_bool (enableCounter (rxCounter1 t))) OR
                 push_bit 2 (of_bool (enableCounter (txCounter0 t))) OR push_bit 3 (of_bool (enableCounter (txCounter1 t))))\<rparr>
      in rbind (arr_set (lu_TIMEOUT r) 0 (counter_word (rxCounter0 t))) (\<lambda>ts.
         rbind (arr_set ts 1 (counter_word (rxCounter1 t))) (\<lambda>ts.
         rbind (arr_set ts 2 (counter_word (txCounter0 t))) (\<lambda>ts.
         rbind (arr_set ts 3 (counter_word (txCounter1 t))) (\<lambda>ts. Inr (r\<lparr>lu_TIMEOUT := ts\<rparr>))))))"

definition LPUART_EnableTx :: "lpuart_layout \<Rightarrow> bool \<Rightarrow> lpuart \<Rightarrow> lpuart" where
  "LPUART_EnableTx L enable r =
     r\<lparr>lu_CTRL := (if enable then lu_CTRL r OR fmask (CTRL_TE L) else lu_CTRL r AND NOT (fmask (CTRL_TE L)))\<rparr>"

definition LPUART_EnableRx :: "lpuart_layout \<Rightarrow> bool \<Rightarrow> lpuart \<Rightarrow> lpuart" where
  "LPUART_EnableRx L enable r =
     r\<lparr>lu_CTRL := (if enable then lu_CTRL r OR fmask (CTRL_RE L) else lu_CTRL r AND NOT (fmask (CTRL_RE L)))\<rparr>"

definition stop_bits :: "lpuart_layout \<Rightarrow> lpuart_config \<Rightarrow> lpuart \<Rightarrow> lpuart" where
  "stop_bits L config r =
     r\<lparr>lu_BAUD := (lu_BAUD r AND NOT (fmask (BAUD_SBNS L))) OR fval (BAUD_SBNS L) (stop_bit_val (stopBitCount config))\<rparr>"

definition fifo_setup :: "lpuart_layout \<Rightarrow> lpuart_config \<Rightarrow> lpuart \<Rightarrow> lpuart" where
  "fifo_setup L config r =
     (let r = write_WATER L (push_bit 16 (ucast (rxFifoWatermark config)) OR ucast (txFifoWatermark config)) r;
          r = write_FIFO L (lu_FIFO r OR (fmask (FIFO_TXFE L) OR fmask (FIFO_RXFE L))) r
      in write_FIFO L (lu_FIFO r OR (fmask (FIFO_TXFLUSH L) OR fmask (FIFO_RXFLUSH L))) r)"

definition bit_order :: "lpuart_layout \<Rightarrow> lpuart_config \<Rightarrow> lpuart \<Rightarrow> lpuart" where
  "bit_order L config r =
     (let temp = stat_flags L;
          temp = (if isMsb config then temp OR fmask (STAT_MSBF L) else temp AND NOT (fmask (STAT_MSBF L)))
      in write_STAT L (lu_STAT r OR temp) r)"

definition enable_line :: "lpuart_layout \<Rightarrow> lpuart_config \<Rightarrow> lpuart \<Rightarrow> lpuart" where
  "enable_line L config r =
     (let temp = lu_CTRL r;
          temp = (if enableTx config then temp OR fmask (CTRL_TE L) else temp);
          temp = (if enableRx config then temp OR fmask (CTRL_RE L) else temp)
      in r\<lparr>lu_CTRL := temp\<rparr>)"

definition line_setup :: "lpuart_layout \<Rightarrow> lpuart_config \<Rightarrow> u8 \<Rightarrow> u16 \<Rightarrow> lpuart \<Rightarrow> lpuart" where
  "line_setup L config osr sbr r =
     (let r = program_baud L osr sbr r;
          r = r\<lparr>lu_BAUD := lu_BAUD r AND NOT (fmask (BAUD_M10 L))\<rparr>;
          r = frame_format L config r;
          r = stop_bits L config r;
          r = fifo_setup L config r;
          r = modem_config L config r;
          r = bit_order L config r
      in enable_line L config r)"

definition configure :: "lpuart_layout \<Rightarrow> lpuart_config \<Rightarrow> u8 \<Rightarrow> u16 \<Rightarrow> lpuart \<Rightarrow> lpuart res" where
  "configure L config osr sbr r =
     rbind (timeout_setup (timeoutConfig config) (line_setup L config osr sbr r)) (\<lambda>r.
       let r = r\<lparr>lu_HDCR := push_bit 8 (ucast (rtsDelay config))\<rparr>
       in Inr (if enableSingleWire config then r\<lparr>lu_HDCR := lu_HDCR r OR 0xF\<rparr> else r))"

text \<open>A rate that is more than three percent off is refused. \<open>n\<close> is the number of the instance.\<close>

definition LPUART_Init ::
  "lpuart_layout \<Rightarrow> lpuart \<Rightarrow> nat \<Rightarrow> lpuart_config \<Rightarrow> u32 \<Rightarrow> lpuart_dev \<Rightarrow> (lpuart_status \<times> lpuart_dev) res" where
  "LPUART_Init L reset n config srcClock_Hz d =
     (if \<not> 0 < baudRate_Bps config \<or> \<not> 8 > txFifoWatermark config \<or> \<not> 8 > rxFifoWatermark config then Inl AssertFailed
      else
        rbind (baud_search L srcClock_Hz (baudRate_Bps config)) (\<lambda>(osr, sbr, baudDiff).
        if baudDiff > baudRate_Bps config div 100 * 3 then Inr (kStatus_LPUART_BaudrateNotSupport, d)
        else
          let (status, f) = LP_FLEXCOMM_Init L n LP_FLEXCOMM_PERIPH_LPUART (snd d)
          in if status \<noteq> kStatus_Success then Inr (status, fst d, f)
             else rbind (configure L config osr sbr (LPUART_SoftwareReset L reset (fst d))) (\<lambda>r. Inr (status, r, f))))"

definition LPUART_GetDefaultConfig :: lpuart_config where
  "LPUART_GetDefaultConfig =
     (let none = \<lparr>enableCounter = False, timeoutCondition = kLPUART_TimeoutAfterCharacters, timeoutValue = 0\<rparr>
      in \<lparr>baudRate_Bps = 115200, parityMode = kLPUART_ParityDisabled, dataBitsCount = kLPUART_EightDataBits, isMsb = False,
          stopBitCount = kLPUART_OneStopBit, txFifoWatermark = 0, rxFifoWatermark = 0, enableRxRTS = False, enableTxCTS = False,
          txCtsSource = kLPUART_CtsSourcePin, txCtsConfig = kLPUART_CtsSampleAtStart, rxIdleType = kLPUART_IdleTypeStartBit,
          rxIdleConfig = kLPUART_IdleCharacter1,
          timeoutConfig = \<lparr>rxExtendedTimeoutValue = 0, txExtendedTimeoutValue = 0, rxCounter0 = none, rxCounter1 = none,
            txCounter0 = none, txCounter1 = none\<rparr>,
          enableSingleWire = False, rtsDelay = 0, enableTx = False, enableRx = False\<rparr>)"

definition LPUART_SetBaudRate :: "lpuart_layout \<Rightarrow> u32 \<Rightarrow> u32 \<Rightarrow> lpuart \<Rightarrow> (lpuart_status \<times> lpuart) res" where
  "LPUART_SetBaudRate L baud srcClock_Hz r =
     (if \<not> 0 < baud then Inl AssertFailed
      else
        rbind (baud_search L srcClock_Hz baud) (\<lambda>(osr, sbr, baudDiff).
        if baudDiff < baud div 100 * 3 then
          let oldCtrl = lu_CTRL r;
              r = r\<lparr>lu_CTRL := lu_CTRL r AND NOT (fmask (CTRL_TE L) OR fmask (CTRL_RE L))\<rparr>;
              r = program_baud L osr sbr r
          in Inr (kStatus_Success, r\<lparr>lu_CTRL := oldCtrl\<rparr>)
        else Inr (kStatus_LPUART_BaudrateNotSupport, r)))"

definition LPUART_Enable9bitMode :: "lpuart_layout \<Rightarrow> bool \<Rightarrow> lpuart \<Rightarrow> lpuart" where
  "LPUART_Enable9bitMode L enable r =
     (let r = (if enable
               then r\<lparr>lu_CTRL := (lu_CTRL r AND NOT (fmask (CTRL_PE L) OR fmask (CTRL_M L))) OR fmask (CTRL_M L)\<rparr>
               else r\<lparr>lu_CTRL := lu_CTRL r AND NOT (fmask (CTRL_M L))\<rparr>);
          r = r\<lparr>lu_CTRL := lu_CTRL r AND NOT (fmask (CTRL_M7 L))\<rparr>
      in r\<lparr>lu_BAUD := lu_BAUD r AND NOT (fmask (BAUD_M10 L))\<rparr>)"

text \<open>\<open>v\<close> is the word the read of the data register returns.\<close>

definition LPUART_SendAddress :: "lpuart_layout \<Rightarrow> u32 \<Rightarrow> u8 \<Rightarrow> lpuart \<Rightarrow> lpuart" where
  "LPUART_SendAddress L v address r = r\<lparr>lu_DATA := (v AND 0xFFFFFC00) OR (ucast address OR push_bit (fshift (DATA_R8T8 L)) 1)\<rparr>"

definition LPUART_SetMatchAddress :: "u16 \<Rightarrow> u16 \<Rightarrow> lpuart \<Rightarrow> lpuart" where
  "LPUART_SetMatchAddress address1 address2 r = r\<lparr>lu_MATCH := push_bit 16 (ucast address2) OR ucast address1 OR 0x1000100\<rparr>"

definition LPUART_EnableMatchAddress :: "lpuart_layout \<Rightarrow> bool \<Rightarrow> bool \<Rightarrow> lpuart \<Rightarrow> lpuart" where
  "LPUART_EnableMatchAddress L match1 match2 r =
     (let r = r\<lparr>lu_BAUD := (if match1 then lu_BAUD r OR fmask (BAUD_MAEN1 L) else lu_BAUD r AND NOT (fmask (BAUD_MAEN1 L)))\<rparr>
      in r\<lparr>lu_BAUD := (if match2 then lu_BAUD r OR fmask (BAUD_MAEN2 L) else lu_BAUD r AND NOT (fmask (BAUD_MAEN2 L)))\<rparr>)"

definition LPUART_SetRxFifoWatermark :: "lpuart_layout \<Rightarrow> u8 \<Rightarrow> lpuart \<Rightarrow> lpuart res" where
  "LPUART_SetRxFifoWatermark L water r =
     (if 8 > water then Inr (write_WATER L ((lu_WATER r AND NOT (fmask (WATER_RXWATER L))) OR fval (WATER_RXWATER L) (ucast water)) r)
      else Inl AssertFailed)"

definition LPUART_SetTxFifoWatermark :: "lpuart_layout \<Rightarrow> u8 \<Rightarrow> lpuart \<Rightarrow> lpuart res" where
  "LPUART_SetTxFifoWatermark L water r =
     (if 8 > water then Inr (write_WATER L ((lu_WATER r AND NOT (fmask (WATER_TXWATER L))) OR fval (WATER_TXWATER L) (ucast water)) r)
      else Inl AssertFailed)"

definition LPUART_EnableTxDMA :: "lpuart_layout \<Rightarrow> bool \<Rightarrow> lpuart \<Rightarrow> lpuart" where
  "LPUART_EnableTxDMA L enable r =
     r\<lparr>lu_BAUD := (if enable then lu_BAUD r OR fmask (BAUD_TDMAE L) else lu_BAUD r AND NOT (fmask (BAUD_TDMAE L)))\<rparr>"

definition LPUART_EnableRxDMA :: "lpuart_layout \<Rightarrow> bool \<Rightarrow> lpuart \<Rightarrow> lpuart" where
  "LPUART_EnableRxDMA L enable r =
     r\<lparr>lu_BAUD := (if enable then lu_BAUD r OR fmask (BAUD_RDMAE L) else lu_BAUD r AND NOT (fmask (BAUD_RDMAE L)))\<rparr>"

definition LPUART_WriteByte :: "u8 \<Rightarrow> lpuart \<Rightarrow> lpuart" where
  "LPUART_WriteByte data r = r\<lparr>lu_DATA := ucast data\<rparr>"

definition LPUART_ReadByte :: "lpuart_layout \<Rightarrow> u32 \<Rightarrow> lpuart \<Rightarrow> u8" where
  "LPUART_ReadByte L v r =
     (let ctrl = lu_CTRL r;
          isSevenDataBits = ctrl AND fmask (CTRL_M7 L) \<noteq> 0 \<or>
            (ctrl AND fmask (CTRL_M7 L) = 0 \<and> ctrl AND fmask (CTRL_M L) = 0 \<and> ctrl AND fmask (CTRL_PE L) \<noteq> 0)
      in if isSevenDataBits then ucast (v AND 0x7F) else ucast v)"

definition LPUART_GetRxFifoCount :: "lpuart_layout \<Rightarrow> lpuart \<Rightarrow> u8" where
  "LPUART_GetRxFifoCount L r = ucast (fget (WATER_RXCOUNT L) (lu_WATER r))"

definition LPUART_GetTxFifoCount :: "lpuart_layout \<Rightarrow> lpuart \<Rightarrow> u8" where
  "LPUART_GetTxFifoCount L r = ucast (fget (WATER_TXCOUNT L) (lu_WATER r))"

definition LPUART_GetInstance :: "'a list \<Rightarrow> 'a \<Rightarrow> nat res" where
  "LPUART_GetInstance s_lpuartBases base = get_instance s_lpuartBases base"

section \<open>Blocking transfers\<close>

text \<open>Looking at a register until the word read satisfies a condition: the words that are left.\<close>

primrec look_until :: "(u32 \<Rightarrow> bool) \<Rightarrow> u32 list \<Rightarrow> (u32 \<times> u32 list) option" where
  "look_until P [] = None"
| "look_until P (w # ws) = (if P w then Some (w, ws) else look_until P ws)"

text \<open>Everything written to the data register is collected in order.\<close>

primrec send_bytes :: "lpuart_layout \<Rightarrow> u8 list \<Rightarrow> u32 list \<Rightarrow> lpuart \<times> u32 list \<Rightarrow> (lpuart \<times> u32 list \<times> u32 list) option" where
  "send_bytes L [] stats s = Some (fst s, snd s, stats)"
| "send_bytes L (d # ds) stats s =
     (case look_until (\<lambda>w. w AND fmask (STAT_TDRE L) \<noteq> 0) stats of
        None \<Rightarrow> None
      | Some (w, stats) \<Rightarrow> send_bytes L ds stats ((fst s)\<lparr>lu_STAT := w, lu_DATA := ucast d\<rparr>, snd s @ [ucast d]))"

definition LPUART_WriteBlocking ::
  "lpuart_layout \<Rightarrow> u8 list \<Rightarrow> nat \<Rightarrow> u32 list \<Rightarrow> lpuart \<times> u32 list \<Rightarrow> (lpuart_status \<times> lpuart \<times> u32 list \<times> u32 list) run" where
  "LPUART_WriteBlocking L data len stats s =
     (case send_bytes L (take len data) stats s of
        None \<Rightarrow> None
      | Some (r, sent, stats) \<Rightarrow>
          if length data < len
          then map_option (\<lambda>_. Inl OutOfBounds) (look_until (\<lambda>w. w AND fmask (STAT_TDRE L) \<noteq> 0) stats)
          else
            (case look_until (\<lambda>w. w AND fmask (STAT_TC L) \<noteq> 0) stats of
               None \<Rightarrow> None
             | Some (w, stats) \<Rightarrow> Some (Inr (kStatus_Success, r\<lparr>lu_STAT := w\<rparr>, sent, stats))))"

text \<open>
  What the registers hold when a receiving loop looks at them once. The word in \<open>v_DATA\<close> is what the data register returns if it is
  read then.
\<close>

record line_view =
  v_WATER :: u32
  v_STAT :: u32
  v_FIFO :: u32
  v_MSR :: u32
  v_TOSR :: u32
  v_DATA :: u32

definition look :: "line_view \<Rightarrow> lpuart \<Rightarrow> lpuart" where
  "look v r = r\<lparr>lu_STAT := v_STAT v, lu_FIFO := v_FIFO v, lu_WATER := v_WATER v, lu_MSR := v_MSR v, lu_TOSR := v_TOSR v\<rparr>"

definition clear_error :: "lpuart_layout \<Rightarrow> u32 \<Rightarrow> lpuart_status \<Rightarrow> u32 \<Rightarrow> lpuart_status \<times> lpuart \<Rightarrow> lpuart_status \<times> lpuart" where
  "clear_error L flag error statusFlag s =
     (if statusFlag AND flag \<noteq> 0
      then let (cleared, r) = LPUART_ClearStatusFlags L flag (snd s)
           in (if cleared = kStatus_Success then error else kStatus_LPUART_FlagCannotClearManually, r)
      else s)"

text \<open>The body of the loop that waits: an overrun ends it at once, of the other errors the last one found remains.\<close>

definition check_errors :: "lpuart_layout \<Rightarrow> lpuart \<Rightarrow> lpuart_status \<times> lpuart" where
  "check_errors L r =
     (let statusFlag = LPUART_GetStatusFlags L r
      in if statusFlag AND fmask (STAT_OR L) \<noteq> 0
         then clear_error L (fmask (STAT_OR L)) kStatus_LPUART_RxHardwareOverrun statusFlag (kStatus_Success, r)
         else clear_error L (fmask (STAT_NF L)) kStatus_LPUART_NoiseError statusFlag
              (clear_error L (fmask (STAT_FE L)) kStatus_LPUART_FramingError statusFlag
              (clear_error L (fmask (STAT_PF L)) kStatus_LPUART_ParityError statusFlag (kStatus_Success, r))))"

primrec wait_byte :: "lpuart_layout \<Rightarrow> line_view list \<Rightarrow> lpuart \<Rightarrow> (lpuart_status \<times> u32 \<times> lpuart \<times> line_view list) option" where
  "wait_byte L [] r = None"
| "wait_byte L (v # vs) r =
     (let r = look v r
      in if fget (WATER_RXCOUNT L) (lu_WATER r) \<noteq> 0 then Some (kStatus_Success, v_DATA v, r, vs)
         else let (status, r) = check_errors L r
              in if status \<noteq> kStatus_Success then Some (status, 0, r, vs) else wait_byte L vs r)"

definition seven_data_bits :: "lpuart_layout \<Rightarrow> u32 \<Rightarrow> bool" where
  "seven_data_bits L ctrl \<longleftrightarrow> ctrl AND fmask (CTRL_M7 L) \<noteq> 0 \<or> (ctrl AND fmask (CTRL_M L) = 0 \<and> ctrl AND fmask (CTRL_PE L) \<noteq> 0)"

text \<open>The result holds the bytes stored before the return.\<close>

primrec read_bytes ::
  "lpuart_layout \<Rightarrow> bool \<Rightarrow> nat \<Rightarrow> line_view list \<Rightarrow> lpuart \<Rightarrow> u8 list \<Rightarrow> (lpuart_status \<times> u8 list \<times> lpuart \<times> line_view list) option" where
  "read_bytes L seven 0 vs r data = Some (kStatus_Success, data, r, vs)"
| "read_bytes L seven (Suc n) vs r data =
     (case wait_byte L vs r of
        None \<Rightarrow> None
      | Some (status, word, r, vs) \<Rightarrow>
          if status = kStatus_Success
          then read_bytes L seven n vs r (data @ [if seven then ucast (word AND 0x7F) else ucast word])
          else Some (status, data, r, vs))"

definition LPUART_ReadBlocking ::
  "lpuart_layout \<Rightarrow> nat \<Rightarrow> line_view list \<Rightarrow> lpuart \<Rightarrow> (lpuart_status \<times> u8 list \<times> lpuart \<times> line_view list) option" where
  "LPUART_ReadBlocking L len vs r = read_bytes L (seven_data_bits L (lu_CTRL r)) len vs r []"

text \<open>The wait for the last character, the flags cleared, everything off.\<close>

definition LPUART_Deinit :: "lpuart_layout \<Rightarrow> nat \<Rightarrow> u32 list \<Rightarrow> u32 list \<Rightarrow> lpuart_dev \<Rightarrow> lpuart_dev option" where
  "LPUART_Deinit L n waters stats d =
     (case look_until (\<lambda>w. drop_bit (fshift (WATER_TXWATER L)) (w AND fmask (WATER_TXCOUNT L)) = 0) waters of
        None \<Rightarrow> None
      | Some (water, _) \<Rightarrow>
          (case look_until (\<lambda>w. w AND fmask (STAT_TC L) \<noteq> 0) stats of
             None \<Rightarrow> None
           | Some (stat, _) \<Rightarrow>
               let r = (fst d)\<lparr>lu_STAT := stat, lu_WATER := water\<rparr>;
                   r = write_STAT L (lu_STAT r OR stat_flags L) r
               in Some (r\<lparr>lu_CTRL := 0\<rparr>, LP_FLEXCOMM_Deinit n (snd d))))"

section \<open>The positions of the bits\<close>

text \<open>
  What the driver assumes of the header of the device: the comments of \<open>fsl_lpuart.h\<close> give the bit of every interrupt and flag, the
  literals of the driver fix the fields around them; the divider has its thirteen bits at the bottom of its register.
\<close>

definition bitat :: "nat \<Rightarrow> bitfield" where
  "bitat n = \<lparr>fshift = n, fwidth = 1\<rparr>"

definition interrupt_bits_ok :: "lpuart_layout \<Rightarrow> bool" where
  "interrupt_bits_ok L \<longleftrightarrow>
     MCR_CTS L = bitat 0 \<and> MCR_DSR L = bitat 1 \<and> MCR_RIN L = bitat 2 \<and> MCR_DCD L = bitat 3 \<and>
     BAUD_RXEDGIE L = bitat 14 \<and> BAUD_LBKDIE L = bitat 15 \<and> FIFO_RXUFE L = bitat 8 \<and> FIFO_TXOFE L = bitat 9 \<and>
     CTRL_MA2IE L = bitat 14 \<and> CTRL_MA1IE L = bitat 15 \<and> CTRL_ILIE L = bitat 20 \<and> CTRL_RIE L = bitat 21 \<and> CTRL_TCIE L = bitat 22 \<and>
     CTRL_TIE L = bitat 23 \<and> CTRL_PEIE L = bitat 24 \<and> CTRL_FEIE L = bitat 25 \<and> CTRL_NEIE L = bitat 26 \<and> CTRL_ORIE L = bitat 27 \<and>
     CTRL_PT L = bitat 0 \<and> CTRL_PE L = bitat 1"

definition flag_bits_ok :: "lpuart_layout \<Rightarrow> bool" where
  "flag_bits_ok L \<longleftrightarrow>
     STAT_MA2F L = bitat 14 \<and> STAT_MA1F L = bitat 15 \<and> STAT_PF L = bitat 16 \<and> STAT_FE L = bitat 17 \<and> STAT_NF L = bitat 18 \<and>
     STAT_OR L = bitat 19 \<and> STAT_IDLE L = bitat 20 \<and> STAT_RDRF L = bitat 21 \<and> STAT_TC L = bitat 22 \<and> STAT_TDRE L = bitat 23 \<and>
     STAT_RAF L = bitat 24 \<and> STAT_MSBF L = bitat 29 \<and> STAT_RXEDGIF L = bitat 30 \<and> STAT_LBKDIF L = bitat 31 \<and>
     FIFO_RXUF L = bitat 16 \<and> FIFO_TXOF L = bitat 17 \<and> FIFO_RXEMPT L = bitat 22 \<and> FIFO_TXEMPT L = bitat 23 \<and>
     FIFO_RXFLUSH L = bitat 14 \<and> FIFO_TXFLUSH L = bitat 15 \<and> FIFO_RXFE L = bitat 3 \<and> FIFO_TXFE L = bitat 7"

definition baud_bits_ok :: "lpuart_layout \<Rightarrow> bool" where
  "baud_bits_ok L \<longleftrightarrow>
     BAUD_SBR L = \<lparr>fshift = 0, fwidth = 13\<rparr> \<and> BAUD_SBNS L = bitat 13 \<and> BAUD_BOTHEDGE L = bitat 17 \<and>
     BAUD_OSR L = \<lparr>fshift = 24, fwidth = 5\<rparr> \<and> BAUD_M10 L = bitat 29 \<and> CTRL_RE L = bitat 18 \<and> CTRL_TE L = bitat 19 \<and>
     CTRL_ILT L = bitat 2 \<and> CTRL_M L = bitat 4 \<and> CTRL_IDLECFG L = \<lparr>fshift = 8, fwidth = 3\<rparr> \<and> CTRL_M7 L = bitat 11 \<and>
     PSELID_PERSEL L = \<lparr>fshift = 0, fwidth = 3\<rparr> \<and> PSELID_LOCK L = bitat 3"

lemma bitat_mask: "fmask (bitat n) = push_bit n 1"
  by (simp add: bitat_def fmask_def)

section \<open>The search for the baud rate\<close>

text \<open>The divider and the deviation of the rate in hertz that an oversampling rate leads to, as numbers.\<close>

definition nearest_sbr :: "nat \<Rightarrow> nat \<Rightarrow> nat \<Rightarrow> nat" where
  "nearest_sbr src baud osr = max 1 ((src * 10 div (baud * osr) + 5) div 10)"

definition deviation :: "nat \<Rightarrow> nat \<Rightarrow> nat \<Rightarrow> nat" where
  "deviation src baud osr = (let rate = src div (osr * nearest_sbr src baud osr) in if baud < rate then rate - baud else baud - rate)"

text \<open>The numbers stay in their types: no product overflows and the divider has at most thirteen bits.\<close>

definition baud_in_range :: "nat \<Rightarrow> nat \<Rightarrow> bool" where
  "baud_in_range src baud \<longleftrightarrow> 0 < baud \<and> src * 10 < 2 ^ 32 \<and> baud * 32 < 2 ^ 32 \<and> src < 32764 * baud"

lemma nearest_sbr_bounds:
  assumes "baud_in_range src baud" and "4 \<le> osr"
  shows "1 \<le> nearest_sbr src baud osr" and "nearest_sbr src baud osr \<le> 8191"
    and "(src * 10 div (baud * osr) + 5) div 10 \<le> 8191"
proof -
  have "src * 10 < 81910 * (baud * osr)"
  proof -
    have "src * 10 < 32764 * baud * 10" using assms(1) by (simp add: baud_in_range_def)
    also have "\<dots> = 81910 * (baud * 4)" by simp
    also have "\<dots> \<le> 81910 * (baud * osr)" using assms(2) by simp
    finally show ?thesis .
  qed
  then have "src * 10 div (baud * osr) < 81910" by (simp add: less_mult_imp_div_less)
  then show "(src * 10 div (baud * osr) + 5) div 10 \<le> 8191" by simp
  then show "1 \<le> nearest_sbr src baud osr" "nearest_sbr src baud osr \<le> 8191" by (simp_all add: nearest_sbr_def)
qed

lemma rate_bounded:
  assumes "0 < baud" and "0 < osr"
  shows "src div (osr * nearest_sbr src baud osr) \<le> 2 * baud"
proof -
  let ?d = "baud * osr"
  let ?q = "src * 10 div ?d"
  let ?s = "nearest_sbr src baud osr"
  have d: "0 < ?d" using assms by simp
  have "\<forall>q :: nat. q + 5 < 10 * ((q + 5) div 10) + 10" by presburger
  then have "?q + 5 < 10 * ((?q + 5) div 10) + 10" by blast
  then have "?q + 1 \<le> 10 * ?s + 5" by (simp add: nearest_sbr_def)
  moreover have "1 \<le> ?s" by (simp add: nearest_sbr_def)
  ultimately have "?q + 1 \<le> 20 * ?s" by linarith
  then have "(?q + 1) * ?d \<le> 20 * ?s * ?d" by (rule mult_le_mono1)
  moreover have "src * 10 < (?q + 1) * ?d"
    using dividend_less_times_div[OF d, of "src * 10"] by (simp add: algebra_simps)
  ultimately have "src < 2 * baud * (osr * ?s) + 1" by (simp add: algebra_simps)
  then have "src \<le> 2 * baud * (osr * ?s)" by simp
  then have "src div (osr * ?s) \<le> 2 * baud * (osr * ?s) div (osr * ?s)" by (rule div_le_mono)
  then show ?thesis using assms by (auto split: if_splits)
qed

lemma deviation_le: "0 < baud \<Longrightarrow> 0 < osr \<Longrightarrow> deviation src baud osr \<le> baud"
  using rate_bounded[of baud osr src] by (auto simp: deviation_def Let_def)

lemma unat_eq_of_nat: "unat x = n \<Longrightarrow> x = of_nat n"
  by (auto simp: of_nat_unat)

lemma sbr_for_eq:
  assumes "baud_bits_ok L" and "baud_in_range (unat src) (unat baud)" and "4 \<le> osr" and "osr \<le> 32"
  shows "sbr_for L src baud osr = Inr (of_nat (nearest_sbr (unat src) (unat baud) osr))"
proof -
  have "unat baud * osr \<le> unat baud * 32" using assms(4) by simp
  also have "\<dots> < 2 ^ 32" using assms(2) by (simp add: baud_in_range_def)
  finally have "unat baud * osr < 2 ^ 32" .
  then have r: "unat baud * osr < 2 ^ 32" "0 < unat baud" "unat src * 10 < 2 ^ 32"
    using assms(2) unfolding baud_in_range_def by blast+
  have p: "unat (baud * of_nat osr) = unat baud * osr"
    using r(1) assms(4) by (simp add: unat_word_ariths unat_of_nat)
  have nz: "baud * of_nat osr \<noteq> 0" using p r(2) assms(3) by (auto simp: unsigned_eq_0_iff[symmetric] simp del: unsigned_eq_0_iff)
  let ?q = "(unat src * 10 div (unat baud * osr) + 5) div 10"
  have q: "?q \<le> 8191" using nearest_sbr_bounds(3)[OF assms(2,3)] .
  have "unat (src * 10) = unat src * 10" using r(3) by (simp add: unat_word_ariths)
  then have d: "unat (src * 10 div (baud * of_nat osr)) = unat src * 10 div (unat baud * osr)" using p by (simp add: unat_div)
  have "unat src * 10 div (unat baud * osr) \<le> unat src * 10" by simp
  then have "unat (src * 10 div (baud * of_nat osr) + 5) = unat src * 10 div (unat baud * osr) + 5"
    using d q by (simp add: unat_word_ariths)
  then have "unat ((src * 10 div (baud * of_nat osr) + 5) div 10) = ?q" by (simp add: unat_div)
  then have u: "unat (ucast ((src * 10 div (baud * of_nat osr) + 5) div 10) :: u16) = ?q"
    using q by (simp add: unsigned_ucast_eq take_bit_nat_eq_self)
  have m: "fmask (BAUD_SBR L) = 8191" using assms(1) by (simp add: baud_bits_ok_def fmask_def mask_eq_exp_minus_1)
  let ?t = "ucast ((src * 10 div (baud * of_nat osr) + 5) div 10) :: u16"
  have zero: "?t = 0 \<longleftrightarrow> ?q = 0" using u by (metis unsigned_eq_0_iff)
  have "unat (ucast t :: u32) = unat t" for t :: u16
    using unsigned_less[of t, where ?'a = nat] by (simp add: unsigned_ucast_eq take_bit_nat_eq_self)
  then have "unat (ucast ?t :: u32) = ?q" using u by (simp only:)
  then have "\<not> ucast ?t > fmask (BAUD_SBR L)" using q m by (simp add: word_less_nat_alt not_less)
  then have "sbr_for L src baud osr = Inr (if ?t = 0 then 1 else ?t)" using nz by (simp add: sbr_for_def)
  moreover have "?t = of_nat ?q" by (rule unat_eq_of_nat[OF u])
  ultimately show ?thesis using zero by (auto simp: nearest_sbr_def max_def)
qed

lemma unat_distance:
  fixes a b :: u32
  shows "unat (if a > b then a - b else b - a) = (if unat b < unat a then unat a - unat b else unat b - unat a)"
  using unat_sub[of b a] unat_sub[of a b] by (simp add: word_less_nat_alt word_le_nat_alt)

lemma baud_step_eq:
  assumes "baud_bits_ok L" and "baud_in_range (unat src) (unat baud)" and "4 \<le> osr" and "osr \<le> 32" and "diff \<le> unat baud"
  shows "baud_step L src baud osr (o', s', of_nat diff) =
    Inr (if deviation (unat src) (unat baud) osr \<le> diff
         then (of_nat osr, of_nat (nearest_sbr (unat src) (unat baud) osr), of_nat (deviation (unat src) (unat baud) osr))
         else (o', s', of_nat diff))"
proof -
  let ?s = "nearest_sbr (unat src) (unat baud) osr"
  have s: "1 \<le> ?s" "?s \<le> 8191" using nearest_sbr_bounds[OF assms(2,3)] by simp_all
  have "osr * ?s \<le> 32 * 8191" using s assms(4) by (intro mult_le_mono) simp_all
  then have p: "unat (of_nat osr * (ucast (of_nat ?s :: u16) :: u32)) = osr * ?s"
    using s assms(4) by (simp add: unat_word_ariths unat_of_nat unsigned_ucast_eq take_bit_nat_eq_self)
  have "osr * ?s \<noteq> 0" using s assms(3) by simp
  then have nz: "of_nat osr * (ucast (of_nat ?s :: u16) :: u32) \<noteq> 0" using p by (metis unsigned_0)
  let ?rate = "src div (of_nat osr * ucast (of_nat ?s :: u16))"
  have rate: "unat ?rate = unat src div (osr * ?s)" using p by (simp add: unat_div)
  let ?dev = "deviation (unat src) (unat baud) osr"
  have dev: "unat (if ?rate > baud then ?rate - baud else baud - ?rate) = ?dev"
    unfolding unat_distance rate by (simp add: deviation_def Let_def)
  have lt: "diff < 2 ^ 32" using assms(5) unsigned_less[of baud, where ?'a = nat] by simp
  have "(if ?rate > baud then ?rate - baud else baud - ?rate) = of_nat ?dev" by (rule unat_eq_of_nat[OF dev])
  moreover have "(if ?rate > baud then ?rate - baud else baud - ?rate) \<le> of_nat diff \<longleftrightarrow> ?dev \<le> diff"
    unfolding word_le_nat_alt dev using lt by (simp add: unat_of_nat)
  ultimately show ?thesis
    using sbr_for_eq[OF assms(1-4)] nz by (simp add: baud_step_def Let_def)
qed

text \<open>The best so far: no earlier one is better, and of equally good ones it is the last.\<close>

definition best_osr :: "nat \<Rightarrow> nat \<Rightarrow> nat \<Rightarrow> nat \<Rightarrow> bool" where
  "best_osr src baud k osr \<longleftrightarrow> 4 \<le> osr \<and> osr < k \<and>
     (\<forall>i. 4 \<le> i \<longrightarrow> i < k \<longrightarrow> deviation src baud osr \<le> deviation src baud i \<and> (osr < i \<longrightarrow> deviation src baud osr < deviation src baud i))"

lemma best_osr_step:
  assumes "best_osr src baud k osr"
  shows "best_osr src baud (Suc k) (if deviation src baud k \<le> deviation src baud osr then k else osr)"
  using assms unfolding best_osr_def by (auto simp: less_Suc_eq)

text \<open>What the search keeps for an oversampling rate.\<close>

definition rate_result :: "nat \<Rightarrow> nat \<Rightarrow> nat \<Rightarrow> u8 \<times> u16 \<times> u32" where
  "rate_result src baud osr = (of_nat osr, of_nat (nearest_sbr src baud osr), of_nat (deviation src baud osr))"

lemma baud_search_best:
  assumes "baud_bits_ok L" and "baud_in_range (unat src) (unat baud)"
  shows "\<exists>osr. best_osr (unat src) (unat baud) 33 osr \<and> baud_search L src baud = Inr (rate_result (unat src) (unat baud) osr)"
proof -
  let ?dev = "deviation (unat src) (unat baud)"
  let ?best = "best_osr (unat src) (unat baud)"
  let ?res = "rate_result (unat src) (unat baud)"
  have pos: "0 < unat baud" using assms(2) by (simp add: baud_in_range_def)
  have first: "baud_step L src baud 4 (0, 0, baud) = Inr (?res 4)"
    using baud_step_eq[OF assms, of 4 "unat baud" 0 0] deviation_le[OF pos, of 4] by (simp add: of_nat_unat rate_result_def)
  let ?P = "\<lambda>k st. \<exists>osr. ?best k osr \<and> st = ?res osr"
  have "\<exists>st. for_each [5..<33] (baud_step L src baud) (?res 4) = Inr st \<and> ?P 33 st"
  proof (rule for_each_upt_inv[where P = ?P])
    have e: "i = 4" if "4 \<le> i" "i < 5" for i :: nat using that by simp
    have "?best 5 4" by (auto simp: best_osr_def dest: e)
    then show "?P 5 (?res 4)" by blast
  next
    fix k st
    assume k: "5 \<le> k" "k < 33" and "?P k st"
    then obtain osr where osr: "?best k osr" "st = ?res osr" by blast
    have "?dev osr \<le> unat baud" using deviation_le[OF pos] osr(1) by (simp add: best_osr_def)
    from baud_step_eq[OF assms _ _ this, of k]
    have "baud_step L src baud k st = Inr (?res (if ?dev k \<le> ?dev osr then k else osr))" using k osr(2) by (simp add: rate_result_def)
    then show "\<exists>st'. baud_step L src baud k st = Inr st' \<and> ?P (Suc k) st'"
      using best_osr_step[OF osr(1)] by blast
  qed simp
  moreover have "[4..<33] = 4 # [5..<33]" by (simp add: upt_conv_Cons)
  ultimately show ?thesis using first unfolding baud_search_def by (fastforce simp del: upt_Suc)
qed

section \<open>Interrupts\<close>

lemma interrupt_masks:
  assumes "interrupt_bits_ok L"
  shows "kLPUART_AllInterruptEnable L = 0x0FF0C3CF" and "fifo_interrupts L = 0x300"
    and "kLPUART_LinBreakInterruptEnable L = 0x80" and "kLPUART_RxActiveEdgeInterruptEnable L = 0x40"
    and "fmask (BAUD_LBKDIE L) = 0x8000" and "fmask (BAUD_RXEDGIE L) = 0x4000"
  using assms
  by (simp_all add: interrupt_bits_ok_def bitat_mask fifo_interrupts_def kLPUART_AllInterruptEnable_def
      kLPUART_LinBreakInterruptEnable_def kLPUART_RxActiveEdgeInterruptEnable_def push_bit_eq_mult drop_bit_eq_div)

lemma fifo_masks:
  assumes "flag_bits_ok L"
  shows "fmask (FIFO_TXOF L) = 0x20000" and "fmask (FIFO_RXUF L) = 0x10000" and "fmask (FIFO_TXFLUSH L) = 0x8000"
    and "fmask (FIFO_RXFLUSH L) = 0x4000" and "fmask (FIFO_TXEMPT L) = 0x800000" and "fmask (FIFO_RXEMPT L) = 0x400000"
    and "fifo_flags L = 3" and "stat_flags L = 0xC01FC000" and "fmask (STAT_MSBF L) = 0x20000000"
    and "fmask (STAT_OR L) = 0x80000" and "fmask (STAT_NF L) = 0x40000" and "fmask (STAT_FE L) = 0x20000" and "fmask (STAT_PF L) = 0x10000"
    and "fmask (STAT_RDRF L) = 0x200000" and "fmask (STAT_TC L) = 0x400000" and "fmask (STAT_TDRE L) = 0x800000"
    and "fmask (STAT_RAF L) = 0x1000000"
  using assms
  by (simp_all add: flag_bits_ok_def bitat_mask fifo_flags_def stat_flags_def push_bit_eq_mult drop_bit_eq_div)

lemma all_flags:
  assumes "interrupt_bits_ok L" and "flag_bits_ok L"
  shows "modem_flags L = 0x3C" and "kLPUART_AllClearFlags L = 0xC01FC03F" and "kLPUART_AllFlags L = 0xC1FFC0FF"
proof -
  show "modem_flags L = 0x3C"
    using assms by (simp add: interrupt_bits_ok_def bitat_mask modem_flags_def push_bit_eq_mult)
  then show "kLPUART_AllClearFlags L = 0xC01FC03F" by (simp add: kLPUART_AllClearFlags_def fifo_masks[OF assms(2)])
  then show "kLPUART_AllFlags L = 0xC1FFC0FF" by (simp add: kLPUART_AllFlags_def fifo_masks[OF assms(2)] drop_bit_eq_div)
qed

text \<open>A word of 32 bits, bit by bit.\<close>

lemma word32_eqI:
  fixes a b :: u32
  assumes "list_all (\<lambda>n. bit a n = bit b n) [0..<32]"
  shows "a = b"
  using assms by (intro bit_word_eqI) (auto simp: list_all_iff)

lemmas word32 = word32_eqI upt_conv_Cons bit_simps

text \<open>
  The interrupts of the UART as a set: enabling adds the requested ones that exist to those enabled, disabling removes them, wherever
  their bits are kept, and the query returns exactly the set.
\<close>

theorem uart_interrupt_set:
  assumes "interrupt_bits_ok L" and "flag_bits_ok L"
  shows "LPUART_GetEnabledInterrupts L (LPUART_EnableInterrupts L m r) =
      LPUART_GetEnabledInterrupts L r OR (m AND kLPUART_AllInterruptEnable L) \<and>
    LPUART_GetEnabledInterrupts L (LPUART_DisableInterrupts L m r) =
      LPUART_GetEnabledInterrupts L r AND NOT (m AND kLPUART_AllInterruptEnable L)"
  unfolding LPUART_GetEnabledInterrupts_def LPUART_EnableInterrupts_def LPUART_DisableInterrupts_def interrupt_baud_bits_def
    interrupt_ctrl_bits_def Let_def write_TOSR_def write_FIFO_def interrupt_masks[OF assms(1)] fifo_masks[OF assms(2)] lpuart.simps
  by (intro conjI; rule word32_eqI; simp add: upt_conv_Cons bit_simps; blast)

text \<open>A layout with the positions of the comments, and the registers after a reset.\<close>

definition example_lpuart :: lpuart_layout where
  "example_lpuart =
    \<lparr>PSELID_PERSEL = \<lparr>fshift = 0, fwidth = 3\<rparr>, PSELID_LOCK = bitat 3, GLOBAL_RST = bitat 1,
     BAUD_SBR = \<lparr>fshift = 0, fwidth = 13\<rparr>, BAUD_SBNS = bitat 13, BAUD_RXEDGIE = bitat 14, BAUD_LBKDIE = bitat 15,
     BAUD_BOTHEDGE = bitat 17, BAUD_RDMAE = bitat 21, BAUD_TDMAE = bitat 23, BAUD_OSR = \<lparr>fshift = 24, fwidth = 5\<rparr>,
     BAUD_M10 = bitat 29, BAUD_MAEN2 = bitat 30, BAUD_MAEN1 = bitat 31, STAT_MA2F = bitat 14, STAT_MA1F = bitat 15, STAT_PF = bitat 16,
     STAT_FE = bitat 17, STAT_NF = bitat 18, STAT_OR = bitat 19, STAT_IDLE = bitat 20, STAT_RDRF = bitat 21, STAT_TC = bitat 22,
     STAT_TDRE = bitat 23, STAT_RAF = bitat 24, STAT_MSBF = bitat 29, STAT_RXEDGIF = bitat 30, STAT_LBKDIF = bitat 31,
     CTRL_PT = bitat 0, CTRL_PE = bitat 1, CTRL_ILT = bitat 2, CTRL_M = bitat 4, CTRL_IDLECFG = \<lparr>fshift = 8, fwidth = 3\<rparr>,
     CTRL_M7 = bitat 11, CTRL_MA2IE = bitat 14, CTRL_MA1IE = bitat 15, CTRL_RE = bitat 18, CTRL_TE = bitat 19, CTRL_ILIE = bitat 20,
     CTRL_RIE = bitat 21, CTRL_TCIE = bitat 22, CTRL_TIE = bitat 23, CTRL_PEIE = bitat 24, CTRL_FEIE = bitat 25, CTRL_NEIE = bitat 26,
     CTRL_ORIE = bitat 27, DATA_R8T8 = bitat 8, MODIR_TXCTSE = bitat 0, MODIR_RXRTSE = bitat 3, MODIR_TXCTSC = bitat 4,
     MODIR_TXCTSSRC = bitat 5, FIFO_RXFE = bitat 3, FIFO_TXFE = bitat 7, FIFO_RXUFE = bitat 8, FIFO_TXOFE = bitat 9,
     FIFO_RXFLUSH = bitat 14, FIFO_TXFLUSH = bitat 15, FIFO_RXUF = bitat 16, FIFO_TXOF = bitat 17, FIFO_RXEMPT = bitat 22,
     FIFO_TXEMPT = bitat 23, WATER_TXWATER = \<lparr>fshift = 0, fwidth = 3\<rparr>,
     WATER_TXCOUNT = \<lparr>fshift = 8, fwidth = 4\<rparr>, WATER_RXWATER = \<lparr>fshift = 16, fwidth = 3\<rparr>,
     WATER_RXCOUNT = \<lparr>fshift = 24, fwidth = 4\<rparr>, MCR_CTS = bitat 0, MCR_DSR = bitat 1, MCR_RIN = bitat 2,
     MCR_DCD = bitat 3\<rparr>"

lemma example_lpuart_ok: "interrupt_bits_ok example_lpuart" "flag_bits_ok example_lpuart" "baud_bits_ok example_lpuart"
  by (simp_all add: interrupt_bits_ok_def flag_bits_ok_def baud_bits_ok_def example_lpuart_def)

definition reset_lpuart :: lpuart where
  "reset_lpuart =
    \<lparr>lu_GLOBAL = 0, lu_BAUD = 0x0F000004, lu_STAT = 0x00C00000, lu_CTRL = 0, lu_DATA = 0x1000, lu_MATCH = 0, lu_MODIR = 0,
     lu_FIFO = 0x00C00011, lu_WATER = 0, lu_MCR = 0, lu_MSR = 0, lu_REIR = 0, lu_TEIR = 0, lu_HDCR = 0, lu_TOCR = 0, lu_TOSR = 0,
     lu_TIMEOUT = replicate 4 0\<rparr>"

theorem uart_interrupt_set_witness:
  "LPUART_GetEnabledInterrupts example_lpuart (LPUART_EnableInterrupts example_lpuart 0xFFFFFFFF reset_lpuart) = 0x0FF0C3CF"
proof -
  have "LPUART_GetEnabledInterrupts example_lpuart reset_lpuart = 0"
    by (simp add: LPUART_GetEnabledInterrupts_def reset_lpuart_def interrupt_masks[OF example_lpuart_ok(1)])
  then show ?thesis
    using uart_interrupt_set[OF example_lpuart_ok(1,2), of "0xFFFFFFFF" reset_lpuart] by (simp add: interrupt_masks[OF example_lpuart_ok(1)])
qed

text \<open>
  What enabling interrupts does besides: the four bits of the modem interrupts are also set in the control register, where
  the lowest two are the parity type and the parity enable, so that enabling the interrupt of a changed DSR line switches parity on; the
  flags of all timeouts that are pending are lost; and no timeout interrupt is ever enabled.
\<close>

theorem enable_interrupts_side_effects:
  assumes "interrupt_bits_ok L" and "flag_bits_ok L"
  shows "lu_CTRL (LPUART_EnableInterrupts L m r) AND 0xF = (lu_CTRL r OR m) AND 0xF \<and>
    lu_TOSR (LPUART_EnableInterrupts L m r) AND 0xF00 = 0 \<and> lu_TOCR (LPUART_EnableInterrupts L m r) = lu_TOCR r"
  unfolding LPUART_EnableInterrupts_def interrupt_ctrl_bits_def Let_def write_TOSR_def write_FIFO_def
    interrupt_masks[OF assms(1)] fifo_masks[OF assms(2)] lpuart.simps
  by (intro conjI refl; rule word32_eqI; simp add: upt_conv_Cons bit_simps; blast)

theorem enable_interrupts_side_effects_witness:
  "lu_CTRL (LPUART_EnableInterrupts example_lpuart (fmask (MCR_DSR example_lpuart)) reset_lpuart) AND 0xF = fmask (CTRL_PE example_lpuart)"
proof -
  have "fmask (MCR_DSR example_lpuart) = 2" "fmask (CTRL_PE example_lpuart) = 2"
    by (simp_all add: example_lpuart_def bitat_mask)
  then show ?thesis
    using enable_interrupts_side_effects[OF example_lpuart_ok(1,2), of 2 reset_lpuart] by (simp add: reset_lpuart_def)
qed

section \<open>Flags\<close>

lemma clear_flags:
  assumes "interrupt_bits_ok L" and "flag_bits_ok L"
  shows "LPUART_GetStatusFlags L (snd (LPUART_ClearStatusFlags L m r)) =
      LPUART_GetStatusFlags L r AND NOT (m AND kLPUART_AllClearFlags L)"
    and "fst (LPUART_ClearStatusFlags L m r) = kStatus_Success"
    and "lu_STAT (snd (LPUART_ClearStatusFlags L m r)) AND 0x3E000000 = lu_STAT r AND 0x3E000000"
    and "lu_FIFO (snd (LPUART_ClearStatusFlags L m r)) AND 0x388 = lu_FIFO r AND 0x388"
proof -
  let ?r = "snd (LPUART_ClearStatusFlags L m r)"
  let ?m = "m AND 0xC01FC03F"
  note masks = all_flags[OF assms] fifo_masks[OF assms(2)]
  have regs: "lu_MSR ?r = lu_MSR r AND NOT (drop_bit 2 ?m AND 0xF)" "lu_TOSR ?r = lu_TOSR r AND NOT (drop_bit 2 ?m AND 0xF00)"
      "lu_STAT ?r = (lu_STAT r AND NOT 0x3E000000 AND NOT (((lu_STAT r AND 0x3E000000) OR ?m) AND 0xC01FC000)) OR
        (((lu_STAT r AND 0x3E000000) OR ?m) AND 0x3E000000)"
      "lu_FIFO ?r = (if ?m AND 3 = 0 then lu_FIFO r
        else (((lu_FIFO r AND NOT 0x3C000) OR (push_bit 16 ?m AND 0x30000)) AND NOT 0xC3C000) OR
          (lu_FIFO r AND 0x30000 AND NOT ((lu_FIFO r AND NOT 0x3C000) OR (push_bit 16 ?m AND 0x30000))) OR (lu_FIFO r AND 0xC00000))"
    by (simp_all add: LPUART_ClearStatusFlags_def Let_def write_TOSR_def write_FIFO_def write_MSR_def write_STAT_def masks)
  have two: "?m AND 3 = 0 \<longleftrightarrow> \<not> bit m 0 \<and> \<not> bit m 1"
  proof -
    have "?m AND 3 = of_bool (bit m 0) OR push_bit 1 (of_bool (bit m 1))"
      by (rule word32_eqI) (simp add: upt_conv_Cons bit_simps)
    then show ?thesis by (cases "bit m 0"; cases "bit m 1") simp_all
  qed
  show get: "LPUART_GetStatusFlags L ?r = LPUART_GetStatusFlags L r AND NOT (m AND kLPUART_AllClearFlags L)"
    unfolding LPUART_GetStatusFlags_def Let_def masks regs
    by (cases "?m AND 3 = 0"; simp only: if_True if_False; rule word32_eqI; use two in \<open>simp add: upt_conv_Cons bit_simps; blast\<close>)
  have "(m AND kLPUART_AllClearFlags L) AND (LPUART_GetStatusFlags L r AND NOT (m AND kLPUART_AllClearFlags L)) = 0"
    by (rule bit_word_eqI) (auto simp: bit_simps)
  moreover have "fst (LPUART_ClearStatusFlags L m r) =
      (if (m AND kLPUART_AllClearFlags L) AND LPUART_GetStatusFlags L ?r \<noteq> 0 then kStatus_LPUART_FlagCannotClearManually else kStatus_Success)"
    by (simp add: LPUART_ClearStatusFlags_def Let_def)
  ultimately show "fst (LPUART_ClearStatusFlags L m r) = kStatus_Success" unfolding get by simp
  show "lu_STAT ?r AND 0x3E000000 = lu_STAT r AND 0x3E000000"
    unfolding regs by (rule word32_eqI) (simp add: upt_conv_Cons bit_simps; blast)
  show "lu_FIFO ?r AND 0x388 = lu_FIFO r AND 0x388"
    unfolding regs by (cases "?m AND 3 = 0"; simp only: if_True if_False; rule word32_eqI; simp add: upt_conv_Cons bit_simps; blast)
qed

text \<open>
  Clearing flags succeeds, removes exactly the given flags that can be cleared from the set of flags, and leaves the bit order, the other
  configuration bits of the status register and the enables of the FIFO as they are.
\<close>

theorem uart_flags_cleared:
  assumes "interrupt_bits_ok L" and "flag_bits_ok L"
  shows "\<exists>r'. LPUART_ClearStatusFlags L m r = (kStatus_Success, r') \<and>
    LPUART_GetStatusFlags L r' = LPUART_GetStatusFlags L r AND NOT (m AND kLPUART_AllClearFlags L) \<and>
    lu_STAT r' AND 0x3E000000 = lu_STAT r AND 0x3E000000 \<and> lu_FIFO r' AND 0x388 = lu_FIFO r AND 0x388"
  using clear_flags[OF assms, of m r] by (cases "LPUART_ClearStatusFlags L m r") simp

theorem uart_flags_cleared_witness:
  "\<exists>r'. LPUART_ClearStatusFlags example_lpuart (fmask (STAT_OR example_lpuart)) (reset_lpuart\<lparr>lu_STAT := 0x00CA0000\<rparr>) = (kStatus_Success, r') \<and>
    LPUART_GetStatusFlags example_lpuart r' = 0x00C200C0"
proof -
  have "LPUART_GetStatusFlags example_lpuart (reset_lpuart\<lparr>lu_STAT := 0x00CA0000\<rparr>) = 0x00CA00C0"
    by (simp add: LPUART_GetStatusFlags_def reset_lpuart_def all_flags[OF example_lpuart_ok(1,2)] fifo_masks[OF example_lpuart_ok(2)]
        drop_bit_eq_div)
  then show ?thesis
    using uart_flags_cleared[OF example_lpuart_ok(1,2), of "0x80000" "reset_lpuart\<lparr>lu_STAT := 0x00CA0000\<rparr>"]
    by (auto simp: all_flags[OF example_lpuart_ok(1,2)] fifo_masks[OF example_lpuart_ok(2)])
qed

section \<open>Initialisation\<close>

text \<open>The fields of the baud rate register do not overlap.\<close>

lemma baud_fields:
  assumes "baud_bits_ok L"
  shows "fields_ok [BAUD_SBR L, BAUD_SBNS L, BAUD_BOTHEDGE L, BAUD_OSR L, BAUD_M10 L]"
    and "interrupt_bits_ok L \<Longrightarrow>
      fields_ok [CTRL_PT L, CTRL_PE L, CTRL_ILT L, CTRL_M L, CTRL_IDLECFG L, CTRL_M7 L, CTRL_RE L, CTRL_TE L]"
  using assms by (simp_all add: baud_bits_ok_def interrupt_bits_ok_def bitat_def field_ok_def apart_def)

lemma program_baud_fields:
  assumes "baud_bits_ok L" and "4 \<le> osr" "osr \<le> 32" and "sbr \<le> 8191"
  shows "unat (fget (BAUD_OSR L) (lu_BAUD (program_baud L (of_nat osr) (of_nat sbr) r))) = osr - 1"
    and "unat (fget (BAUD_SBR L) (lu_BAUD (program_baud L (of_nat osr) (of_nat sbr) r))) = sbr"
    and "fget (BAUD_BOTHEDGE L) (lu_BAUD (program_baud L (of_nat osr) (of_nat sbr) r)) =
      (if osr < 8 then 1 else fget (BAUD_BOTHEDGE L) (lu_BAUD r))"
proof -
  have w: "fwidth (BAUD_OSR L) = 5" "fwidth (BAUD_SBR L) = 13" "fwidth (BAUD_BOTHEDGE L) = 1"
    using assms(1) by (simp_all add: baud_bits_ok_def bitat_def)
  have o: "unat (of_nat osr :: u8) = osr" using assms(3) by (simp add: unat_of_nat)
  have lt: "(of_nat osr :: u8) > 3" "(of_nat osr :: u8) < 8 \<longleftrightarrow> osr < 8" using o assms(2) by (simp_all add: word_less_nat_alt)
  have "unat (ucast (of_nat osr :: u8) :: u32) = osr" using assms(3) by (simp add: unsigned_ucast_eq unat_of_nat take_bit_nat_eq_self)
  then have o1: "unat (ucast (of_nat osr :: u8) - 1 :: u32) = osr - 1"
    using assms(2) by (subst unat_sub) (simp_all add: word_le_nat_alt)
  have s: "unat (ucast (of_nat sbr :: u16) :: u32) = sbr" using assms(4) by (simp add: unsigned_ucast_eq unat_of_nat take_bit_nat_eq_self)
  note f = baud_fields(1)[OF assms(1)]
  have "fget (BAUD_OSR L) (lu_BAUD (program_baud L (of_nat osr) (of_nat sbr) r)) = (ucast (of_nat osr :: u8) - 1) AND mask 5"
    using f w by (simp add: program_baud_def Let_def regs)
  then show "unat (fget (BAUD_OSR L) (lu_BAUD (program_baud L (of_nat osr) (of_nat sbr) r))) = osr - 1"
    using o1 assms(3) by (simp add: unsigned_take_bit_eq take_bit_nat_eq_self flip: take_bit_eq_mask)
  have "fget (BAUD_SBR L) (lu_BAUD (program_baud L (of_nat osr) (of_nat sbr) r)) = ucast (of_nat sbr :: u16) AND mask 13"
    using f w by (simp add: program_baud_def Let_def regs)
  then show "unat (fget (BAUD_SBR L) (lu_BAUD (program_baud L (of_nat osr) (of_nat sbr) r))) = sbr"
    using s assms(4) by (simp add: unsigned_take_bit_eq take_bit_nat_eq_self flip: take_bit_eq_mask)
  have "fget (BAUD_BOTHEDGE L) x OR 1 = 1" for x :: u32
    using fget_bit[OF w(3)] f by (cases "bit x (fshift (BAUD_BOTHEDGE L))") simp_all
  then show "fget (BAUD_BOTHEDGE L) (lu_BAUD (program_baud L (of_nat osr) (of_nat sbr) r)) =
      (if osr < 8 then 1 else fget (BAUD_BOTHEDGE L) (lu_BAUD r))"
    using f w lt by (simp add: program_baud_def Let_def regs)
qed

lemma fget_not_mask_apart: "apart f g \<Longrightarrow> field_ok f \<Longrightarrow> fget f (NOT (fmask g)) = mask (fwidth f)"
  by (rule bit_word_eqI) (auto simp: bit_fget bit_fmask bit_not_iff bit_mask_iff apart_def field_ok_def)

lemma parity_elsewhere: "2 \<le> fshift f \<Longrightarrow> fget f (parity_val p) = 0"
proof -
  assume f: "2 \<le> fshift f"
  have "parity_val p = parity_val p AND mask 2" by (cases p) (simp_all add: mask_eq_exp_minus_1)
  then have "\<not> bit (parity_val p) n" if "2 \<le> n" for n
    using that by (metis bit_and_iff bit_mask_iff not_less)
  then show ?thesis using f by (intro bit_word_eqI) (auto simp: bit_fget)
qed

text \<open>The registers that carry the frame, after the set-up.\<close>

lemma setup_steps:
  "lu_BAUD (fifo_setup L c r) = lu_BAUD r" "lu_CTRL (fifo_setup L c r) = lu_CTRL r" "lu_TIMEOUT (fifo_setup L c r) = lu_TIMEOUT r"
  "lu_BAUD (modem_config L c r) = lu_BAUD r" "lu_CTRL (modem_config L c r) = lu_CTRL r" "lu_TIMEOUT (modem_config L c r) = lu_TIMEOUT r"
  "lu_BAUD (bit_order L c r) = lu_BAUD r" "lu_CTRL (bit_order L c r) = lu_CTRL r" "lu_TIMEOUT (bit_order L c r) = lu_TIMEOUT r"
  "lu_BAUD (frame_format L c r) = lu_BAUD r" "lu_TIMEOUT (frame_format L c r) = lu_TIMEOUT r"
  "lu_CTRL (frame_format L c (r\<lparr>lu_BAUD := w\<rparr>)) = lu_CTRL (frame_format L c r)"
  by (simp_all add: fifo_setup_def modem_config_def bit_order_def frame_format_def write_WATER_def write_FIFO_def write_STAT_def Let_def)

lemma program_baud_only: "program_baud L osr sbr r = r\<lparr>lu_BAUD := lu_BAUD (program_baud L osr sbr r)\<rparr>"
  by (simp add: program_baud_def Let_def)

lemma line_setup_regs:
  "lu_BAUD (line_setup L c osr sbr r) =
     ((lu_BAUD (program_baud L osr sbr r) AND NOT (fmask (BAUD_M10 L))) AND NOT (fmask (BAUD_SBNS L)))
       OR fval (BAUD_SBNS L) (stop_bit_val (stopBitCount c))"
  "lu_CTRL (line_setup L c osr sbr r) =
     (lu_CTRL (frame_format L c r) OR (if enableTx c then fmask (CTRL_TE L) else 0)) OR (if enableRx c then fmask (CTRL_RE L) else 0)"
  "lu_TIMEOUT (line_setup L c osr sbr r) = lu_TIMEOUT r"
proof -
  have e: "lu_BAUD (enable_line L c s) = lu_BAUD s" "lu_TIMEOUT (enable_line L c s) = lu_TIMEOUT s"
      "lu_CTRL (enable_line L c s) = (lu_CTRL s OR (if enableTx c then fmask (CTRL_TE L) else 0)) OR (if enableRx c then fmask (CTRL_RE L) else 0)"
    for s by (simp_all add: enable_line_def Let_def)
  show "lu_BAUD (line_setup L c osr sbr r) =
     ((lu_BAUD (program_baud L osr sbr r) AND NOT (fmask (BAUD_M10 L))) AND NOT (fmask (BAUD_SBNS L)))
       OR fval (BAUD_SBNS L) (stop_bit_val (stopBitCount c))"
    by (simp add: line_setup_def e setup_steps stop_bits_def Let_def)
  show "lu_TIMEOUT (line_setup L c osr sbr r) = lu_TIMEOUT r"
    unfolding line_setup_def Let_def e setup_steps stop_bits_def lpuart.simps
    by (subst program_baud_only) (simp add: setup_steps)
  show "lu_CTRL (line_setup L c osr sbr r) =
     (lu_CTRL (frame_format L c r) OR (if enableTx c then fmask (CTRL_TE L) else 0)) OR (if enableRx c then fmask (CTRL_RE L) else 0)"
    unfolding line_setup_def Let_def e setup_steps stop_bits_def lpuart.simps
    by (subst program_baud_only) (simp add: setup_steps)
qed

lemma configure_regs:
  assumes "length (lu_TIMEOUT r) = 4"
  shows "\<exists>r'. configure L c osr sbr r = Inr r' \<and> lu_BAUD r' = lu_BAUD (line_setup L c osr sbr r) \<and>
    lu_CTRL r' = lu_CTRL (line_setup L c osr sbr r)"
proof -
  let ?s = "line_setup L c osr sbr r"
  have "length (lu_TIMEOUT ?s) = 4" using assms by (simp add: line_setup_regs)
  then obtain r' where "timeout_setup (timeoutConfig c) ?s = Inr r'" "lu_BAUD r' = lu_BAUD ?s" "lu_CTRL r' = lu_CTRL ?s"
    by (simp add: timeout_setup_def Let_def)
  then show ?thesis by (simp add: configure_def Let_def)
qed

text \<open>
  The format of a character: ten bit mode off, parity and its kind, the ninth bit for eight data bits with parity, the mode of seven data bits
  without parity, when an idle line counts and how long. For eight data bits the seven bit mode is not written.
\<close>

definition format_programmed :: "lpuart_layout \<Rightarrow> lpuart_config \<Rightarrow> u32 \<Rightarrow> u32 \<Rightarrow> bool" where
  "format_programmed L c old ctrl \<longleftrightarrow>
     fget (CTRL_PE L) ctrl = of_bool (parityMode c \<noteq> kLPUART_ParityDisabled) \<and>
     fget (CTRL_PT L) ctrl = of_bool (parityMode c = kLPUART_ParityOdd) \<and>
     fget (CTRL_M L) ctrl = of_bool (dataBitsCount c = kLPUART_EightDataBits \<and> parityMode c \<noteq> kLPUART_ParityDisabled) \<and>
     fget (CTRL_M7 L) ctrl = (if dataBitsCount c = kLPUART_SevenDataBits then of_bool (parityMode c = kLPUART_ParityDisabled)
       else fget (CTRL_M7 L) old) \<and>
     fget (CTRL_ILT L) ctrl = idle_type_val (rxIdleType c) \<and> fget (CTRL_IDLECFG L) ctrl = idle_config_val (rxIdleConfig c)"

lemma frame_format_fields:
  assumes "interrupt_bits_ok L" and "baud_bits_ok L"
  shows "format_programmed L c (lu_CTRL r)
    ((lu_CTRL (frame_format L c r) OR (if enableTx c then fmask (CTRL_TE L) else 0)) OR (if enableRx c then fmask (CTRL_RE L) else 0))"
proof -
  note ct = baud_fields(2)[OF assms(2,1)]
  have w: "fwidth (CTRL_PE L) = 1" "fwidth (CTRL_PT L) = 1" "fwidth (CTRL_M L) = 1" "fwidth (CTRL_M7 L) = 1" "fwidth (CTRL_ILT L) = 1"
      "fwidth (CTRL_IDLECFG L) = 3"
    and p: "fget (CTRL_M L) (parity_val x) = 0" "fget (CTRL_M7 L) (parity_val x) = 0" "fget (CTRL_ILT L) (parity_val x) = 0"
      "fget (CTRL_IDLECFG L) (parity_val x) = 0" for x
    using assms by (simp_all add: baud_bits_ok_def interrupt_bits_ok_def bitat_def parity_elsewhere)
  have "CTRL_PE L = bitat 1" "CTRL_PT L = bitat 0" using assms(1) by (simp_all add: interrupt_bits_ok_def)
  then have pe: "fget (CTRL_PE L) (parity_val x) = of_bool (x \<noteq> kLPUART_ParityDisabled)"
      "fget (CTRL_PT L) (parity_val x) = of_bool (x = kLPUART_ParityOdd)" for x
    by (cases x; simp add: fget_def bitat_def fmask_def mask_eq_exp_minus_1)+
  have v: "idle_type_val x AND mask 1 = idle_type_val x" "idle_config_val y AND mask 3 = idle_config_val y" for x y
    by (cases x; simp) (cases y; simp add: mask_eq_exp_minus_1)
  have one: "fget (CTRL_M7 L) x OR 1 = 1" for x :: u32
    using fget_bit[OF w(4), of x] ct by simp
  have idem: "fget (CTRL_M7 L) x AND 1 = fget (CTRL_M7 L) x" for x
    using fget_idem[of "CTRL_M7 L" x] w by simp
  show ?thesis
    using ct w
    by (cases "dataBitsCount c"; cases "parityMode c = kLPUART_ParityDisabled")
       (simp_all add: format_programmed_def frame_format_def Let_def fget_and fget_not_mask fget_not_mask_apart idem one p pe v[simplified] regs)
qed

lemma configure_ok:
  assumes "interrupt_bits_ok L" and "baud_bits_ok L" and "4 \<le> osr" "osr \<le> 32" and "sbr \<le> 8191" and "length (lu_TIMEOUT r) = 4"
  shows "\<exists>r'. configure L c (of_nat osr) (of_nat sbr) r = Inr r' \<and>
    unat (fget (BAUD_OSR L) (lu_BAUD r')) = osr - 1 \<and> unat (fget (BAUD_SBR L) (lu_BAUD r')) = sbr \<and>
    fget (BAUD_BOTHEDGE L) (lu_BAUD r') = (if osr < 8 then 1 else fget (BAUD_BOTHEDGE L) (lu_BAUD r)) \<and>
    fget (BAUD_SBNS L) (lu_BAUD r') = stop_bit_val (stopBitCount c) \<and> fget (BAUD_M10 L) (lu_BAUD r') = 0 \<and>
    fget (CTRL_TE L) (lu_CTRL r') = (if enableTx c then 1 else fget (CTRL_TE L) (lu_CTRL r)) \<and>
    fget (CTRL_RE L) (lu_CTRL r') = (if enableRx c then 1 else fget (CTRL_RE L) (lu_CTRL r)) \<and>
    format_programmed L c (lu_CTRL r) (lu_CTRL r')"
proof -
  note b = baud_fields(1)[OF assms(2)] and ct = baud_fields(2)[OF assms(2,1)] and pb = program_baud_fields[OF assms(2-5), of r]
  have w: "fwidth (CTRL_TE L) = 1" "fwidth (CTRL_RE L) = 1" "fwidth (BAUD_SBNS L) = 1"
    and p: "fget (CTRL_TE L) (parity_val x) = 0" "fget (CTRL_RE L) (parity_val x) = 0" for x
    using assms(1,2) by (simp_all add: baud_bits_ok_def interrupt_bits_ok_def bitat_def parity_elsewhere)
  have one: "fget (CTRL_TE L) x OR 1 = 1" "fget (CTRL_RE L) x OR 1 = 1" for x :: u32
    using fget_bit[OF w(1), of x] fget_bit[OF w(2), of x] ct by simp_all
  have sb: "stop_bit_val x AND mask 1 = stop_bit_val x" for x by (cases x) simp_all
  obtain r' where r': "configure L c (of_nat osr) (of_nat sbr) r = Inr r'"
    and s: "lu_BAUD r' = lu_BAUD (line_setup L c (of_nat osr) (of_nat sbr) r)" "lu_CTRL r' = lu_CTRL (line_setup L c (of_nat osr) (of_nat sbr) r)"
    using configure_regs[OF assms(6)] by blast
  have idem: "fget (CTRL_TE L) x AND 1 = fget (CTRL_TE L) x" "fget (CTRL_RE L) x AND 1 = fget (CTRL_RE L) x" for x
    using fget_idem[of "CTRL_TE L" x] fget_idem[of "CTRL_RE L" x] w by simp_all
  have "fget (CTRL_TE L) (lu_CTRL (frame_format L c r)) = fget (CTRL_TE L) (lu_CTRL r)"
    "fget (CTRL_RE L) (lu_CTRL (frame_format L c r)) = fget (CTRL_RE L) (lu_CTRL r)"
    using ct w p one by (simp_all add: frame_format_def Let_def fget_and fget_not_mask fget_not_mask_apart idem regs)
  moreover have "fget (BAUD_M10 L) (lu_BAUD r') = 0"
    using b by (simp add: s line_setup_regs fget_and fget_not_mask regs)
  ultimately show ?thesis
    using r' pb b ct w one sb frame_format_fields[OF assms(1,2), of c r]
    by (intro exI[of _ r'] conjI) (simp_all add: s line_setup_regs regs)
qed

lemma select_uart:
  assumes "baud_bits_ok L" and "bit pselid 4" and "\<not> bit pselid 3"
  shows "LP_FLEXCOMM_Init L n LP_FLEXCOMM_PERIPH_LPUART (pselid, calls) =
      (kStatus_Success, write_PSELID L 1 pselid, calls @ [CLOCK_EnableClock (FLEXCOMM n), RESET_ClearPeripheralReset (FLEXCOMM n)])"
    and "fget (PSELID_PERSEL L) (write_PSELID L 1 pselid) = 1"
proof -
  have L: "PSELID_PERSEL L = \<lparr>fshift = 0, fwidth = 3\<rparr>" "PSELID_LOCK L = bitat 3" using assms(1) by (simp_all add: baud_bits_ok_def)
  have "bit (pselid AND 16) 4" using assms(2) by (simp add: bit_simps)
  then have "pselid AND 16 \<noteq> 0" by (intro notI) simp
  then have p: "pselid AND 16 > 0" by (simp only: word_gt_0 not_False_eq_True)
  have "pselid AND 8 = 0" using assms(3) by (intro word32_eqI) (simp add: upt_conv_Cons bit_simps numeral_3_eq_3)
  then show "LP_FLEXCOMM_Init L n LP_FLEXCOMM_PERIPH_LPUART (pselid, calls) =
      (kStatus_Success, write_PSELID L 1 pselid, calls @ [CLOCK_EnableClock (FLEXCOMM n), RESET_ClearPeripheralReset (FLEXCOMM n)])"
    using p by (simp add: LP_FLEXCOMM_Init_def LP_FLEXCOMM_SetPeriph_def LP_FLEXCOMM_PeripheralIsPresent_def L bitat_mask Let_def)
  show "fget (PSELID_PERSEL L) (write_PSELID L 1 pselid) = 1"
    unfolding L fget_def fmask_def write_PSELID_def bitat_def Let_def
    by (rule word32_eqI) (simp add: upt_conv_Cons bit_simps)
qed

lemma refused_iff:
  fixes baud :: u32
  assumes "dev \<le> unat baud"
  shows "of_nat dev > baud div 100 * 3 \<longleftrightarrow> unat baud div 100 * 3 < dev"
    and "of_nat dev < baud div 100 * 3 \<longleftrightarrow> dev < unat baud div 100 * 3"
proof -
  have b: "unat baud < 2 ^ 32" using unsigned_less[of baud, where ?'a = nat] by simp
  have "unat (baud div 100 * 3) = unat baud div 100 * 3"
    using b by (simp add: unat_word_ariths unat_div)
  moreover have "unat (of_nat dev :: u32) = dev" using assms b by (simp add: unat_of_nat)
  ultimately show "of_nat dev > baud div 100 * 3 \<longleftrightarrow> unat baud div 100 * 3 < dev"
    "of_nat dev < baud div 100 * 3 \<longleftrightarrow> dev < unat baud div 100 * 3" by (simp_all add: word_less_nat_alt)
qed

definition line_programmed :: "lpuart_layout \<Rightarrow> lpuart_config \<Rightarrow> nat \<Rightarrow> nat \<Rightarrow> lpuart \<Rightarrow> bool" where
  "line_programmed L c osr sbr r \<longleftrightarrow>
     unat (fget (BAUD_OSR L) (lu_BAUD r)) = osr - 1 \<and> unat (fget (BAUD_SBR L) (lu_BAUD r)) = sbr \<and>
     fget (BAUD_BOTHEDGE L) (lu_BAUD r) = of_bool (osr < 8) \<and>
     fget (BAUD_SBNS L) (lu_BAUD r) = stop_bit_val (stopBitCount c) \<and>
     fget (CTRL_TE L) (lu_CTRL r) = of_bool (enableTx c) \<and> fget (CTRL_RE L) (lu_CTRL r) = of_bool (enableRx c) \<and>
     fget (CTRL_PE L) (lu_CTRL r) = of_bool (parityMode c \<noteq> kLPUART_ParityDisabled) \<and> fget (BAUD_M10 L) (lu_BAUD r) = 0"

text \<open>What the reset leaves: the four timeout counters are there, both edges are not sampled, nothing is enabled.\<close>

definition reset_state_ok :: "lpuart_layout \<Rightarrow> lpuart \<Rightarrow> bool" where
  "reset_state_ok L reset \<longleftrightarrow> length (lu_TIMEOUT reset) = 4 \<and> fget (BAUD_BOTHEDGE L) (lu_BAUD reset) = 0 \<and>
     fget (CTRL_TE L) (lu_CTRL reset) = 0 \<and> fget (CTRL_RE L) (lu_CTRL reset) = 0"

lemma init_outcome:
  assumes "interrupt_bits_ok L" and "baud_bits_ok L" and "reset_state_ok L reset"
    and "baud_in_range (unat src) (unat (baudRate_Bps c))" and "txFifoWatermark c < 8" "rxFifoWatermark c < 8"
    and "bit pselid 4" and "\<not> bit pselid 3"
  shows "\<exists>osr. best_osr (unat src) (unat (baudRate_Bps c)) 33 osr \<and>
    (if unat (baudRate_Bps c) div 100 * 3 < deviation (unat src) (unat (baudRate_Bps c)) osr
     then LPUART_Init L reset n c src (r, pselid, calls) = Inr (kStatus_LPUART_BaudrateNotSupport, r, pselid, calls)
     else \<exists>r'. LPUART_Init L reset n c src (r, pselid, calls) = Inr (kStatus_Success, r', write_PSELID L 1 pselid,
            calls @ [CLOCK_EnableClock (FLEXCOMM n), RESET_ClearPeripheralReset (FLEXCOMM n)]) \<and>
          line_programmed L c osr (nearest_sbr (unat src) (unat (baudRate_Bps c)) osr) r' \<and>
          format_programmed L c (lu_CTRL reset) (lu_CTRL r'))"
proof -
  let ?src = "unat src" and ?baud = "unat (baudRate_Bps c)"
  obtain osr where best: "best_osr ?src ?baud 33 osr" and s: "baud_search L src (baudRate_Bps c) = Inr (rate_result ?src ?baud osr)"
    using baud_search_best[OF assms(2,4)] by blast
  have osr: "4 \<le> osr" "osr \<le> 32" using best by (simp_all add: best_osr_def)
  have pos: "0 < ?baud" using assms(4) by (simp add: baud_in_range_def)
  then have nz: "0 < baudRate_Bps c" by (simp add: word_less_nat_alt)
  have "0 < osr" using osr by simp
  note ref = refused_iff(1)[OF deviation_le[OF pos this, of ?src]]
  let ?reset = "LPUART_SoftwareReset L reset r"
  have rs: "length (lu_TIMEOUT ?reset) = 4" "fget (BAUD_BOTHEDGE L) (lu_BAUD ?reset) = 0"
      "lu_CTRL ?reset = lu_CTRL reset" "fget (CTRL_TE L) (lu_CTRL reset) = 0" "fget (CTRL_RE L) (lu_CTRL reset) = 0"
    using assms(3) by (simp_all add: reset_state_ok_def LPUART_SoftwareReset_def Let_def)
  obtain r' where r': "configure L c (of_nat osr) (of_nat (nearest_sbr ?src ?baud osr)) ?reset = Inr r'"
    "line_programmed L c osr (nearest_sbr ?src ?baud osr) r'" "format_programmed L c (lu_CTRL reset) (lu_CTRL r')"
    using configure_ok[OF assms(1,2) osr nearest_sbr_bounds(2)[OF assms(4) osr(1)] rs(1), of c] osr(1)
    by (auto simp: line_programmed_def rs format_programmed_def)
  show ?thesis
    using best s nz assms(5,6) osr r' osr
    by (intro exI[of _ osr]) (simp add: LPUART_Init_def rate_result_def ref select_uart(1)[OF assms(2,7,8)] osr)
qed

text \<open>
  C13: The initialisation of the UART, for a clock and a rate that stay in range: it searches the oversampling rates from 4 to 32 for
  the one whose rate in hertz is closest to the requested one, the highest of several, refuses the rate without any effect if that is more than three
  percent off, and otherwise gives the UART its LP_FLEXCOMM and programs that oversampling rate with its divider, both edges
  for the low ones, and from the configuration the stop bits, the enables of transmitter and receiver, and the format of a character: parity and its kind,
  seven or eight data bits (with eight, the bit for seven is left as the reset leaves it), and the counting of idle lines.
\<close>

theorem uart_init:
  assumes "interrupt_bits_ok L" and "baud_bits_ok L" and "reset_state_ok L reset"
    and "baud_in_range (unat src) (unat (baudRate_Bps c))" and "txFifoWatermark c < 8" and "rxFifoWatermark c < 8"
    and "bit pselid 4" and "\<not> bit pselid 3"
  shows "\<exists>osr. best_osr (unat src) (unat (baudRate_Bps c)) 33 osr \<and>
    (if unat (baudRate_Bps c) div 100 * 3 < deviation (unat src) (unat (baudRate_Bps c)) osr
     then LPUART_Init L reset n c src (r, pselid, calls) = Inr (kStatus_LPUART_BaudrateNotSupport, r, pselid, calls)
     else \<exists>r'. LPUART_Init L reset n c src (r, pselid, calls) = Inr (kStatus_Success, r', write_PSELID L 1 pselid,
            calls @ [CLOCK_EnableClock (FLEXCOMM n), RESET_ClearPeripheralReset (FLEXCOMM n)]) \<and>
          fget (PSELID_PERSEL L) (write_PSELID L 1 pselid) = 1 \<and>
          line_programmed L c osr (nearest_sbr (unat src) (unat (baudRate_Bps c)) osr) r' \<and>
          format_programmed L c (lu_CTRL reset) (lu_CTRL r'))"
  using init_outcome[OF assms, of n r calls] unfolding select_uart(2)[OF assms(2,7,8)] by (simp only: simp_thms)

lemma example_reset_ok: "reset_state_ok example_lpuart reset_lpuart"
  by (simp add: reset_state_ok_def reset_lpuart_def example_lpuart_def fget_def bitat_mask)

text \<open>At 12 MHz no oversampling rate gives a million baud closer than the twelvefold one.\<close>

definition fast_config :: lpuart_config where
  "fast_config = LPUART_GetDefaultConfig\<lparr>baudRate_Bps := 1000000\<rparr>"

lemma fast_config: "baudRate_Bps fast_config = 1000000" "txFifoWatermark fast_config < 8" "rxFifoWatermark fast_config < 8"
  by (simp_all add: fast_config_def LPUART_GetDefaultConfig_def Let_def)

lemma best_osr_fast: "best_osr 12000000 1000000 33 osr \<longleftrightarrow> osr = 12"
proof -
  have d: "deviation 12000000 1000000 12 = 0" by (simp add: deviation_def nearest_sbr_def)
  have "list_all (\<lambda>k. 0 < deviation 12000000 1000000 k) [13..<33]"
    by (simp add: upt_conv_Cons deviation_def nearest_sbr_def Let_def)
  then have all: "\<forall>k \<in> {13..<33}. 0 < deviation 12000000 1000000 k" by (simp only: list_all_iff set_upt)
  have late: "0 < deviation 12000000 1000000 k" if "12 < k" "k < 33" for k using bspec[OF all, of k] that by simp
  have "osr = 12" if b: "best_osr 12000000 1000000 33 osr"
  proof (rule ccontr)
    assume "osr \<noteq> 12"
    then consider "osr < 12" | "12 < osr" by linarith
    then show False using b d late[of osr] by cases (auto simp: best_osr_def dest!: spec[of _ 12])
  qed
  moreover have "best_osr 12000000 1000000 33 12" using d late by (simp add: best_osr_def)
  ultimately show ?thesis by blast
qed

theorem uart_init_witness:
  "\<exists>r' f. LPUART_Init example_lpuart reset_lpuart 2 fast_config 12000000 (reset_lpuart, 0x10, []) = Inr (kStatus_Success, r', f) \<and>
     unat (fget (BAUD_OSR example_lpuart) (lu_BAUD r')) = 11"
proof -
  have "baud_in_range (unat (12000000 :: u32)) (unat (baudRate_Bps fast_config))" by (simp add: baud_in_range_def fast_config)
  moreover have "bit (0x10 :: u32) 4" "\<not> bit (0x10 :: u32) 3" by simp_all
  moreover have "deviation 12000000 1000000 12 = 0" by (simp add: deviation_def nearest_sbr_def)
  ultimately show ?thesis
    using uart_init[OF example_lpuart_ok(1,3) example_reset_ok _ fast_config(2,3), where src = 12000000 and pselid = "0x10" and n = 2
        and r = reset_lpuart and calls = "[]"]
    by (auto simp: fast_config(1) best_osr_fast line_programmed_def)
qed

section \<open>Changing the rate\<close>

text \<open>
  Changing the rate of a UART in use: again the best oversampling rate decides; the divider and the oversampling rate are programmed with the
  enables of transmitter and receiver as they were. Unlike the initialisation it refuses a rate that is exactly three percent off, and so
  every rate below 100 baud, and a refusal changes nothing.
\<close>

theorem set_baud_rate:
  assumes "baud_bits_ok L" and "baud_in_range (unat src) (unat baud)"
  shows "\<exists>osr. best_osr (unat src) (unat baud) 33 osr \<and>
    (if deviation (unat src) (unat baud) osr < unat baud div 100 * 3
     then \<exists>r'. LPUART_SetBaudRate L baud src r = Inr (kStatus_Success, r') \<and>
       unat (fget (BAUD_OSR L) (lu_BAUD r')) = osr - 1 \<and> unat (fget (BAUD_SBR L) (lu_BAUD r')) = nearest_sbr (unat src) (unat baud) osr \<and>
       r' = r\<lparr>lu_BAUD := lu_BAUD r'\<rparr>
     else LPUART_SetBaudRate L baud src r = Inr (kStatus_LPUART_BaudrateNotSupport, r))"
proof -
  let ?src = "unat src" and ?baud = "unat baud"
  obtain osr where best: "best_osr ?src ?baud 33 osr" and s: "baud_search L src baud = Inr (rate_result ?src ?baud osr)"
    using baud_search_best[OF assms] by blast
  have osr: "4 \<le> osr" "osr \<le> 32" "0 < osr" using best by (simp_all add: best_osr_def)
  have pos: "0 < ?baud" using assms(2) by (simp add: baud_in_range_def)
  then have nz: "0 < baud" by (simp add: word_less_nat_alt)
  note ref = refused_iff(2)[OF deviation_le[OF pos osr(3), of ?src]]
  let ?off = "r\<lparr>lu_CTRL := lu_CTRL r AND NOT (fmask (CTRL_TE L) OR fmask (CTRL_RE L))\<rparr>"
  let ?r' = "(program_baud L (of_nat osr) (of_nat (nearest_sbr ?src ?baud osr)) ?off)\<lparr>lu_CTRL := lu_CTRL r\<rparr>"
  have "?r' = r\<lparr>lu_BAUD := lu_BAUD ?r'\<rparr>" by (subst program_baud_only) simp
  then show ?thesis
    using best s nz program_baud_fields(1,2)[OF assms(1) osr(1,2) nearest_sbr_bounds(2)[OF assms(2) osr(1)], of ?off]
    by (intro exI[of _ osr]) (simp add: LPUART_SetBaudRate_def rate_result_def ref Let_def)
qed

theorem set_baud_rate_witness:
  "LPUART_SetBaudRate example_lpuart 50 1000000 reset_lpuart = Inr (kStatus_LPUART_BaudrateNotSupport, reset_lpuart)"
proof -
  have "baud_in_range (unat (1000000 :: u32)) (unat (50 :: u32))" by (simp add: baud_in_range_def)
  from set_baud_rate[OF example_lpuart_ok(3) this, of reset_lpuart] show ?thesis by auto
qed

section \<open>Receiving\<close>

text \<open>What happens on the line, as the receiver reports it look by look: bytes in the FIFO, and errors while it is empty.\<close>

datatype line_event = LineByte u8 | LineError lpuart_status

definition line_error :: "lpuart_layout \<Rightarrow> u32 \<Rightarrow> lpuart_status" where
  "line_error L stat =
     (if stat AND fmask (STAT_OR L) \<noteq> 0 then kStatus_LPUART_RxHardwareOverrun
      else if stat AND fmask (STAT_NF L) \<noteq> 0 then kStatus_LPUART_NoiseError
      else if stat AND fmask (STAT_FE L) \<noteq> 0 then kStatus_LPUART_FramingError
      else if stat AND fmask (STAT_PF L) \<noteq> 0 then kStatus_LPUART_ParityError
      else kStatus_Success)"

primrec line_events :: "lpuart_layout \<Rightarrow> bool \<Rightarrow> line_view list \<Rightarrow> line_event list" where
  "line_events L seven [] = []"
| "line_events L seven (v # vs) =
     (if fget (WATER_RXCOUNT L) (v_WATER v) \<noteq> 0
      then LineByte (if seven then ucast (v_DATA v AND 0x7F) else ucast (v_DATA v)) # line_events L seven vs
      else if line_error L (v_STAT v) \<noteq> kStatus_Success then LineError (line_error L (v_STAT v)) # line_events L seven vs
      else line_events L seven vs)"

text \<open>Reading \<open>n\<close> bytes from such a line.\<close>

primrec read_line :: "nat \<Rightarrow> line_event list \<Rightarrow> (lpuart_status \<times> u8 list \<times> line_event list) option" where
  "read_line 0 es = Some (kStatus_Success, [], es)"
| "read_line (Suc n) es =
     (case es of
        [] \<Rightarrow> None
      | LineError e # es \<Rightarrow> Some (e, [], es)
      | LineByte b # es \<Rightarrow> map_option (\<lambda>(status, bs, es). (status, b # bs, es)) (read_line n es))"

lemma clear_flags_ctrl: "lu_CTRL (snd (LPUART_ClearStatusFlags L m r)) = lu_CTRL r"
  by (simp add: LPUART_ClearStatusFlags_def Let_def write_MSR_def write_TOSR_def write_FIFO_def write_STAT_def)

lemma status_flag:
  assumes "interrupt_bits_ok L" and "flag_bits_ok L"
  shows "LPUART_GetStatusFlags L r AND fmask (STAT_OR L) = lu_STAT r AND fmask (STAT_OR L)"
    and "LPUART_GetStatusFlags L r AND fmask (STAT_NF L) = lu_STAT r AND fmask (STAT_NF L)"
    and "LPUART_GetStatusFlags L r AND fmask (STAT_FE L) = lu_STAT r AND fmask (STAT_FE L)"
    and "LPUART_GetStatusFlags L r AND fmask (STAT_PF L) = lu_STAT r AND fmask (STAT_PF L)"
  unfolding LPUART_GetStatusFlags_def Let_def all_flags[OF assms] fifo_masks[OF assms(2)]
  by (rule word32_eqI; simp add: upt_conv_Cons bit_simps)+

lemma clear_error_eq:
  assumes "interrupt_bits_ok L" and "flag_bits_ok L"
  shows "fst (clear_error L flag error sf s) = (if sf AND flag \<noteq> 0 then error else fst s)"
    and "lu_CTRL (snd (clear_error L flag error sf s)) = lu_CTRL (snd s)"
  using clear_flags(2)[OF assms, of flag "snd s"] clear_flags_ctrl[of L flag "snd s"]
  by (cases "LPUART_ClearStatusFlags L flag (snd s)"; simp add: clear_error_def)+

lemma check_errors_eq:
  assumes "interrupt_bits_ok L" and "flag_bits_ok L"
  shows "fst (check_errors L r) = line_error L (lu_STAT r)" and "lu_CTRL (snd (check_errors L r)) = lu_CTRL r"
  by (simp_all add: check_errors_def line_error_def Let_def clear_error_eq[OF assms] status_flag[OF assms])

lemma wait_byte_events:
  assumes "interrupt_bits_ok L" and "flag_bits_ok L"
  shows "(case line_events L seven vs of
      [] \<Rightarrow> wait_byte L vs r = None
    | LineByte b # es \<Rightarrow> \<exists>word r' vs'. wait_byte L vs r = Some (kStatus_Success, word, r', vs') \<and>
        b = (if seven then ucast (word AND 0x7F) else ucast word) \<and> line_events L seven vs' = es \<and> lu_CTRL r' = lu_CTRL r \<and> length vs' < length vs
    | LineError e # es \<Rightarrow> e \<noteq> kStatus_Success \<and>
        (\<exists>r' vs'. wait_byte L vs r = Some (e, 0, r', vs') \<and> line_events L seven vs' = es \<and> lu_CTRL r' = lu_CTRL r \<and> length vs' < length vs))"
proof (induction vs arbitrary: r)
  case (Cons v vs)
  have look: "lu_STAT (look v r) = v_STAT v" "lu_WATER (look v r) = v_WATER v" "lu_CTRL (look v r) = lu_CTRL r"
    by (simp_all add: look_def)
  have errors: "fst (check_errors L (look v r)) = line_error L (v_STAT v)" "lu_CTRL (snd (check_errors L (look v r))) = lu_CTRL r"
    using check_errors_eq[OF assms, of "look v r"] look by simp_all
  obtain status r1 where c: "check_errors L (look v r) = (status, r1)" by (cases "check_errors L (look v r)")
  have s: "line_error L (v_STAT v) = status" "lu_CTRL r1 = lu_CTRL r" using errors c by simp_all
  show ?case
    using Cons.IH[of r1] by (auto simp: look c s split: list.splits line_event.splits)
qed simp

lemma read_bytes_events:
  assumes "interrupt_bits_ok L" and "flag_bits_ok L"
  shows "map_option (\<lambda>(status, data, r', vs'). (status, data, line_events L seven vs', lu_CTRL r')) (read_bytes L seven n vs r data) =
    map_option (\<lambda>(status, bs, es). (status, data @ bs, es, lu_CTRL r)) (read_line n (line_events L seven vs))"
proof (induction n arbitrary: vs r data)
  case (Suc n)
  show ?case
  proof (cases "line_events L seven vs")
    case Nil
    then show ?thesis using wait_byte_events[OF assms, where seven = seven and vs = vs and r = r] by simp
  next
    case (Cons e es)
    then show ?thesis
    proof (cases e)
      case (LineByte b)
      then obtain word r' vs' where w: "wait_byte L vs r = Some (kStatus_Success, word, r', vs')" "line_events L seven vs' = es"
        "lu_CTRL r' = lu_CTRL r" "b = (if seven then ucast (word AND 0x7F) else ucast word)"
        using wait_byte_events[OF assms, where seven = seven and vs = vs and r = r] Cons by auto
      then show ?thesis
        using Suc.IH[of vs' r' "data @ [b]"] Cons LineByte by (auto simp: option.map_comp o_def case_prod_beta)
    next
      case (LineError x)
      then show ?thesis using wait_byte_events[OF assms, where seven = seven and vs = vs and r = r] Cons by auto
    qed
  qed
qed simp

text \<open>
  C12: The blocking read of \<open>n\<close> bytes, whatever the registers show at each look: it refines the read of \<open>n\<close> bytes from the events on the line. It
  stores the bytes in their order and returns with success after the last one; an error found while the FIFO is empty ends it with that error, an
  overrun before noise, framing and parity, after the bytes before it; and it returns in no other case.
\<close>

theorem read_blocking_refines:
  assumes "interrupt_bits_ok L" and "flag_bits_ok L"
  shows "map_option (\<lambda>(status, data, r', vs'). (status, data, line_events L (seven_data_bits L (lu_CTRL r)) vs'))
      (LPUART_ReadBlocking L n vs r) = read_line n (line_events L (seven_data_bits L (lu_CTRL r)) vs)"
proof -
  let ?seven = "seven_data_bits L (lu_CTRL r)"
  show ?thesis
    using read_bytes_events[OF assms, of ?seven n vs r "[]"]
    by (cases "read_bytes L ?seven n vs r []"; cases "read_line n (line_events L ?seven vs)") (auto simp: LPUART_ReadBlocking_def)
qed

text \<open>A look that finds the FIFO empty, one that finds a character, and one that finds a framing error.\<close>

definition view :: "u32 \<Rightarrow> u32 \<Rightarrow> u32 \<Rightarrow> line_view" where
  "view water stat word =
     \<lparr>v_WATER = water, v_STAT = stat, v_FIFO = 0x00C00088, v_MSR = 0, v_TOSR = 0, v_DATA = word\<rparr>"

theorem read_blocking_refines_witness:
  "\<exists>r' vs'. LPUART_ReadBlocking example_lpuart 2 [view 0 0x00C00000 0, view 0x01000000 0x00E00000 0x41, view 0 0x00C20000 0, view 0 0x00C00000 0]
     reset_lpuart = Some (kStatus_LPUART_FramingError, [0x41], r', vs')"
proof -
  let ?vs = "[view 0 0x00C00000 0, view 0x01000000 0x00E00000 0x41, view 0 0x00C20000 0, view 0 0x00C00000 0]"
  have count: "fget (WATER_RXCOUNT example_lpuart) 0x01000000 = 1"
    by (simp add: example_lpuart_def fget_def fmask_def mask_eq_exp_minus_1 drop_bit_eq_div)
  have seven: "seven_data_bits example_lpuart (lu_CTRL reset_lpuart) = False" by (simp add: seven_data_bits_def reset_lpuart_def)
  have ev: "line_events example_lpuart False ?vs = [LineByte 0x41, LineError kStatus_LPUART_FramingError]"
    by (simp add: view_def line_error_def fifo_masks[OF example_lpuart_ok(2)] count)
  from read_blocking_refines[OF example_lpuart_ok(1,2), where n = 2 and vs = ?vs and r = reset_lpuart]
  show ?thesis by (auto simp: ev seven numeral_2_eq_2 simp del: line_events.simps)
qed

section \<open>Sending\<close>

lemma look_until_some:
  "look_until P ws = Some (w, rest) \<longleftrightarrow> (\<exists>idle. ws = idle @ w # rest \<and> P w \<and> list_all (\<lambda>x. \<not> P x) idle)"
proof (induction ws)
  case (Cons x xs)
  show ?case
  proof (cases "P x")
    case True
    then show ?thesis by (auto simp: Cons_eq_append_conv)
  next
    case False
    then show ?thesis using Cons.IH by (auto simp: Cons_eq_append_conv)
  qed
qed simp

lemma look_until_none: "look_until P ws = None \<longleftrightarrow> list_all (\<lambda>x. \<not> P x) ws"
  by (induction ws) auto

text \<open>\<open>n\<close> characters can be sent: the status shows room for one that many times, then the end of the transmission.\<close>

definition room_for :: "lpuart_layout \<Rightarrow> u32 list \<Rightarrow> nat" where
  "room_for L ws = length (filter (\<lambda>w. w AND fmask (STAT_TDRE L) \<noteq> 0) ws)"

lemma room_for_simps [simp]:
  "room_for L [] = 0" "room_for L (w # ws) = of_bool (w AND fmask (STAT_TDRE L) \<noteq> 0) + room_for L ws"
  "room_for L (ws @ ws') = room_for L ws + room_for L ws'"
  by (simp_all add: room_for_def)

lemma room_for_none: "list_all (\<lambda>x. \<not> x AND fmask (STAT_TDRE L) \<noteq> 0) ws \<Longrightarrow> room_for L ws = 0"
  by (induction ws) simp_all

lemma send_bytes_some:
  "send_bytes L ds stats s = Some (r, sent, rest) \<Longrightarrow>
     sent = snd s @ map ucast ds \<and> (\<exists>used. stats = used @ rest \<and> room_for L used = length ds \<and>
       (\<forall>p q. used = p @ q \<longrightarrow> q \<noteq> [] \<longrightarrow> room_for L p < length ds))"
proof (induction ds arbitrary: stats s)
  case (Cons d ds)
  then obtain w stats' where l: "look_until (\<lambda>w. w AND fmask (STAT_TDRE L) \<noteq> 0) stats = Some (w, stats')"
    and send: "send_bytes L ds stats' ((fst s)\<lparr>lu_STAT := w, lu_DATA := ucast d\<rparr>, snd s @ [ucast d]) = Some (r, sent, rest)"
    by (auto split: option.splits)
  from l obtain idle where idle: "stats = idle @ w # stats'" "w AND fmask (STAT_TDRE L) \<noteq> 0" "room_for L idle = 0"
    using room_for_none by (auto simp: look_until_some)
  from Cons.IH[OF send] obtain used where used: "stats' = used @ rest" "room_for L used = length ds" "sent = snd s @ map ucast (d # ds)"
    and least: "\<And>p q. used = p @ q \<Longrightarrow> q \<noteq> [] \<Longrightarrow> room_for L p < length ds" by auto
  have "room_for L p < length (d # ds)" if e: "idle @ w # used = p @ q" "q \<noteq> []" for p q
    using e(1) unfolding append_eq_append_conv2 Cons_eq_append_conv
    using idle(2,3) least e(2) by auto
  then show ?case using idle used by (auto intro!: exI[of _ "idle @ w # used"])
qed simp

lemma send_bytes_none: "send_bytes L ds stats s = None \<longleftrightarrow> room_for L stats < length ds"
proof (induction ds arbitrary: stats s)
  case (Cons d ds)
  show ?case
  proof (cases "look_until (\<lambda>w. w AND fmask (STAT_TDRE L) \<noteq> 0) stats")
    case None
    then have "list_all (\<lambda>x. \<not> x AND fmask (STAT_TDRE L) \<noteq> 0) stats" by (simp only: look_until_none)
    then show ?thesis using None room_for_none by simp
  next
    case (Some p)
    then obtain w stats' where p: "p = (w, stats')" by (cases p)
    with Some obtain idle where "stats = idle @ w # stats'" "w AND fmask (STAT_TDRE L) \<noteq> 0" "room_for L idle = 0"
      using room_for_none by (auto simp: look_until_some)
    then show ?thesis using Cons.IH Some p by simp
  qed
qed simp

lemma write_blocking_result:
  assumes "len \<le> length data" and "LPUART_WriteBlocking L data len stats (r, sent) = Some out"
  shows "\<exists>r' rest. out = Inr (kStatus_Success, r', sent @ map ucast (take len data), rest)"
  using assms by (auto simp: LPUART_WriteBlocking_def split: option.splits dest!: send_bytes_some)

lemma write_blocking_short:
  "length data < len \<Longrightarrow> LPUART_WriteBlocking L data len stats s \<in> {None, Some (Inl OutOfBounds)}"
  by (cases "send_bytes L (take len data) stats s") (auto simp: LPUART_WriteBlocking_def map_option_case split: option.splits)

lemma write_blocking_returns:
  assumes "len \<le> length data"
  shows "LPUART_WriteBlocking L data len stats (r, sent) \<noteq> None \<longleftrightarrow>
    (\<exists>before w rest. stats = before @ w # rest \<and> len \<le> room_for L before \<and> w AND fmask (STAT_TC L) \<noteq> 0)"
proof (cases "send_bytes L (take len data) stats (r, sent)")
  case None
  then have "room_for L stats < len" using assms by (simp add: send_bytes_none)
  then show ?thesis using None assms by (auto simp: LPUART_WriteBlocking_def)
next
  case (Some p)
  then obtain r1 sent1 rest1 where s: "send_bytes L (take len data) stats (r, sent) = Some (r1, sent1, rest1)" by (cases p) auto
  from send_bytes_some[OF this] assms obtain used where used: "stats = used @ rest1" "room_for L used = len"
    and least: "\<And>p q. used = p @ q \<Longrightarrow> q \<noteq> [] \<Longrightarrow> room_for L p < len" by auto
  let ?tc = "\<lambda>w. w AND fmask (STAT_TC L) \<noteq> 0"
  have "LPUART_WriteBlocking L data len stats (r, sent) \<noteq> None \<longleftrightarrow> (\<exists>w \<in> set rest1. ?tc w)"
    using s assms by (auto simp: LPUART_WriteBlocking_def look_until_none list_all_iff split: option.splits dest!: look_until_some[THEN iffD1])
  moreover have "(\<exists>before w rest. stats = before @ w # rest \<and> len \<le> room_for L before \<and> ?tc w)" if "w \<in> set rest1" "?tc w" for w
  proof -
    from that(1) obtain xs ys where "rest1 = xs @ w # ys" by (auto simp: in_set_conv_decomp)
    then show ?thesis using used that(2) by (intro exI[of _ "used @ xs"] exI[of _ w] exI[of _ ys]) simp
  qed
  moreover have "w \<in> set rest1" if e: "stats = before @ w # rest" "len \<le> room_for L before" for before w rest
  proof -
    from e(1) used(1) have "used @ rest1 = before @ w # rest" by simp
    then obtain us where "(used = before @ us \<and> us @ rest1 = w # rest) \<or> (used @ us = before \<and> rest1 = us @ w # rest)"
      unfolding append_eq_append_conv2 by blast
    then show ?thesis
      using least[of before us] e(2) by (cases us) auto
  qed
  ultimately show ?thesis by blast
qed

text \<open>
  C24: The blocking write: it returns exactly if the transmitter shows room for a character as often as there are bytes, and afterwards, at a later
  look, the end of the transmission; then it has written all bytes to the data register in their order, each once, and returns success. If the array
  is too short, it does not return before it has read past its end.
\<close>

theorem write_blocking:
  "(length data < len \<longrightarrow> LPUART_WriteBlocking L data len stats (r, sent) \<in> {None, Some (Inl OutOfBounds)}) \<and>
   (len \<le> length data \<longrightarrow>
     (LPUART_WriteBlocking L data len stats (r, sent) \<noteq> None \<longleftrightarrow>
       (\<exists>before w rest. stats = before @ w # rest \<and> len \<le> room_for L before \<and> w AND fmask (STAT_TC L) \<noteq> 0)) \<and>
     (\<forall>out. LPUART_WriteBlocking L data len stats (r, sent) = Some out \<longrightarrow>
       (\<exists>r' rest. out = Inr (kStatus_Success, r', sent @ map ucast (take len data), rest))))"
  using write_blocking_returns[of len data L stats r sent] write_blocking_result[of len data L stats r sent]
    write_blocking_short[of data len L stats "(r, sent)"] by auto

theorem write_blocking_witness:
  "\<exists>r' rest. LPUART_WriteBlocking example_lpuart [1, 2] 2 [0x00800000, 0, 0x00800000, 0x00800000, 0x00C00000] (reset_lpuart, []) =
     Some (Inr (kStatus_Success, r', [1, 2], rest))"
proof -
  let ?stats = "[0x00800000, 0, 0x00800000, 0x00800000, 0x00C00000] :: u32 list"
  have "?stats = [0x00800000, 0, 0x00800000, 0x00800000] @ 0x00C00000 # []" by simp
  moreover have "2 \<le> room_for example_lpuart [0x00800000, 0, 0x00800000, 0x00800000]"
    and "0x00C00000 AND fmask (STAT_TC example_lpuart) \<noteq> 0"
    by (simp_all add: fifo_masks[OF example_lpuart_ok(2)])
  ultimately have "LPUART_WriteBlocking example_lpuart [1, 2] 2 ?stats (reset_lpuart, []) \<noteq> None"
    using write_blocking[of "[1, 2]" 2 example_lpuart ?stats reset_lpuart "[]"] by (metis length_Cons list.size(3) numeral_2_eq_2 order_refl)
  then show ?thesis using write_blocking[of "[1, 2]" 2 example_lpuart ?stats reset_lpuart "[]"] by auto
qed

end
