(* ===== verification/Console.thy ===== *)
theory Console
  imports Parameters Lpuart
begin

text \<open>
  The debug console through which the firmware talks to the graphical interface: \<open>debug_console_lite/fsl_debug_console.c\<close> of the kit, and the part of
  \<open>components/uart/fsl_adapter_lpuart.c\<close> that it calls, as configured for the firmware (\<open>PRINTF_ADVANCED_ENABLE\<close> and
  \<open>PRINTF_FLOAT_ENABLE\<close> are 0, blocking mode). A string is the list of its characters, without the zero that ends it.
\<close>

section \<open>Formatting\<close>

text \<open>What a call passes after the format. Asking for an argument of another type, or one more than passed, is undefined in C.\<close>

datatype printf_arg = ArgInt u32 | ArgDouble fp | ArgString "u8 list option" | ArgPointer u32

text \<open>
  The local variables: the array for the digits of a number (33 bytes with whatever the stack held), the position in it that is
  printed next, the length of the number; the arguments left; the characters printed so far and their count.
\<close>

record printf_state =
  vstr :: "u8 list"
  vstrp :: "nat option"
  vlen :: nat
  ap :: "printf_arg list"
  printed :: "u8 list"
  count :: nat

definition func_ptr :: "u8 \<Rightarrow> printf_state \<Rightarrow> printf_state" where
  "func_ptr c s = s\<lparr>printed := printed s @ [c], count := count s + 1\<rparr>"

text \<open>The limit of the padding is the width converted to an \<open>int32_t\<close>.\<close>

definition DbgConsole_PrintfPaddingCharacter :: "u8 \<Rightarrow> nat \<Rightarrow> u32 \<Rightarrow> printf_state \<Rightarrow> printf_state" where
  "DbgConsole_PrintfPaddingCharacter c curlen width s = (func_ptr c ^^ (nat (sint width - int curlen))) s"

text \<open>The digits of a number, lowest first; for a radix of one the loop does not end.\<close>

definition radix_char :: "bool \<Rightarrow> u32 \<Rightarrow> u8" where
  "radix_char use_caps uc = (if uc < 10 then ucast (uc + 48) else ucast (uc - 10 + (if use_caps then 65 else 97)))"

partial_function (option) radix_loop :: "u32 \<Rightarrow> bool \<Rightarrow> u32 \<Rightarrow> u8 list \<Rightarrow> nat \<Rightarrow> (u8 list \<times> nat) run" where
  "radix_loop radix use_caps ua numstr nlen =
     (if ua = 0 then Some (Inr (numstr, nlen))
      else if radix = 0 then Some (Inl DivByZero)
      else
        let ub = ua div radix;
            uc = ua - ub * radix
        in case arr_set numstr (nlen + 1) (radix_char use_caps uc) of
             Inl e \<Rightarrow> Some (Inl e)
           | Inr numstr \<Rightarrow> radix_loop radix use_caps ub numstr (nlen + 1))"

text \<open>The length and the array. The sign is not looked at in this configuration: the number is unsigned.\<close>

definition DbgConsole_ConvertRadixNumToString :: "u8 list \<Rightarrow> u32 \<Rightarrow> u32 \<Rightarrow> bool \<Rightarrow> (u8 list \<times> nat) run" where
  "DbgConsole_ConvertRadixNumToString numstr num radix use_caps =
     (case arr_set numstr 0 0 of
        Inl e \<Rightarrow> Some (Inl e)
      | Inr numstr \<Rightarrow>
          if num = 0 then Some (rbind (arr_set numstr 1 48) (\<lambda>numstr. Inr (numstr, 1)))
          else radix_loop radix use_caps num numstr 0)"

text \<open>The number is printed backwards from its highest digit to the zero in front: the characters, and the position of the zero.\<close>

primrec print_back :: "u8 list \<Rightarrow> nat \<Rightarrow> (u8 list \<times> nat) res" where
  "print_back str 0 = rbind (arr_get str 0) (\<lambda>c. if c = 0 then Inr ([], 0) else Inl OutOfBounds)"
| "print_back str (Suc i) =
     rbind (arr_get str (Suc i)) (\<lambda>c.
       if c = 0 then Inr ([], Suc i) else rbind (print_back str i) (\<lambda>(cs, j). Inr (c # cs, j)))"

definition PERCENT :: u8 where "PERCENT = 37"

definition CHR_d :: u8 where "CHR_d = 100"
definition CHR_i :: u8 where "CHR_i = 105"
definition CHR_f :: u8 where "CHR_f = 102"
definition CHR_F :: u8 where "CHR_F = 70"
definition CHR_x :: u8 where "CHR_x = 120"
definition CHR_X :: u8 where "CHR_X = 88"
definition CHR_o :: u8 where "CHR_o = 111"
definition CHR_b :: u8 where "CHR_b = 98"
definition CHR_p :: u8 where "CHR_p = 112"
definition CHR_u :: u8 where "CHR_u = 117"
definition CHR_c :: u8 where "CHR_c = 99"
definition CHR_s :: u8 where "CHR_s = 115"

lemmas chrs = PERCENT_def CHR_d_def CHR_i_def CHR_f_def CHR_F_def CHR_x_def CHR_X_def CHR_o_def CHR_b_def CHR_p_def CHR_u_def CHR_c_def CHR_s_def

definition va_int :: "printf_state \<Rightarrow> (u32 \<times> printf_state) res" where
  "va_int s = (case ap s of ArgInt v # as \<Rightarrow> Inr (v, s\<lparr>ap := as\<rparr>) | _ \<Rightarrow> Inl BadPointer)"

definition va_pointer :: "printf_state \<Rightarrow> (u32 \<times> printf_state) res" where
  "va_pointer s = (case ap s of ArgPointer v # as \<Rightarrow> Inr (v, s\<lparr>ap := as\<rparr>) | _ \<Rightarrow> Inl BadPointer)"

definition va_string :: "printf_state \<Rightarrow> (u8 list option \<times> printf_state) res" where
  "va_string s = (case ap s of ArgString v # as \<Rightarrow> Inr (v, s\<lparr>ap := as\<rparr>) | _ \<Rightarrow> Inl BadPointer)"

definition to_digits :: "u32 \<Rightarrow> bool \<Rightarrow> u32 \<times> printf_state \<Rightarrow> printf_state run" where
  "to_digits radix use_caps v =
     (case v of (num, s) \<Rightarrow>
        run_bind (DbgConsole_ConvertRadixNumToString (vstr s) num radix use_caps) (\<lambda>(str, len).
          Some (Inr (s\<lparr>vstr := str, vlen := len, vstrp := Some len\<rparr>))))"

text \<open>The conversion of an argument to digits; \<open>%f\<close> takes no argument and leaves the digits of the number before it.\<close>

definition number_to_digits :: "u8 \<Rightarrow> printf_state \<Rightarrow> printf_state run" where
  "number_to_digits c s =
     (if c = CHR_d \<or> c = CHR_i then run_bind (Some (va_int s)) (to_digits 10 True)
      else if c = CHR_X \<or> c = CHR_x then run_bind (Some (va_int s)) (to_digits 16 (c = CHR_X))
      else if c = CHR_o \<or> c = CHR_b \<or> c = CHR_p \<or> c = CHR_u
      then run_bind (Some (if c = CHR_p then va_pointer s else va_int s))
             (to_digits (if c = CHR_o then 8 else if c = CHR_b then 2 else if c = CHR_p then 16 else 10) True)
      else Some (Inr s))"

definition print_number :: "u32 \<Rightarrow> printf_state \<Rightarrow> printf_state res" where
  "print_number field_width s =
     (let s = DbgConsole_PrintfPaddingCharacter 32 (vlen s) field_width s
      in case vstrp s of
           None \<Rightarrow> Inr s
         | Some p \<Rightarrow> rbind (print_back (vstr s) p) (\<lambda>(cs, p). Inr (fold func_ptr cs (s\<lparr>vstrp := Some p\<rparr>))))"

definition print_string :: "u32 \<Rightarrow> printf_state \<Rightarrow> printf_state res" where
  "print_string field_width s =
     rbind (va_string s) (\<lambda>(sval, s).
       case sval of
         None \<Rightarrow> Inr s
       | Some t \<Rightarrow>
           let s = s\<lparr>vlen := length t\<rparr>;
               s = DbgConsole_PrintfPaddingCharacter 32 (vlen s) field_width s
           in Inr (fold func_ptr t s))"

definition conversion :: "u8 \<Rightarrow> u32 \<Rightarrow> printf_state \<Rightarrow> printf_state run" where
  "conversion c field_width s =
     (if c \<in> {CHR_d, CHR_i, CHR_f, CHR_F, CHR_x, CHR_X, CHR_o, CHR_b, CHR_p, CHR_u}
      then run_bind (number_to_digits c s) (\<lambda>s. Some (print_number field_width s))
      else if c = CHR_c then Some (rbind (va_int s) (\<lambda>(v, s). Inr (func_ptr (ucast v) s)))
      else if c = CHR_s then Some (print_string field_width s)
      else Some (Inr (func_ptr c s)))"

text \<open>The width: decimal digits in an \<open>uint32_t\<close>, and the rest of the format.\<close>

primrec take_width :: "u32 \<Rightarrow> u8 list \<Rightarrow> u32 \<times> u8 list" where
  "take_width w [] = (w, [])"
| "take_width w (c # cs) = (if 48 \<le> c \<and> c \<le> 57 then take_width (w * 10 + (ucast c - 48)) cs else (w, c # cs))"

text \<open>After a point comes a precision, which is read and not used.\<close>

definition directive :: "u8 list \<Rightarrow> u32 \<times> u8 list" where
  "directive cs =
     (let (field_width, cs) = take_width 0 cs
      in (field_width, case cs of c # cs' \<Rightarrow> if c = 46 then snd (take_width 0 cs') else cs | [] \<Rightarrow> []))"

lemma take_width_length: "length (snd (take_width w cs)) \<le> length cs"
  by (induction cs arbitrary: w) (auto simp: le_Suc_eq)

lemma directive_length: "length (snd (directive cs)) \<le> length cs"
proof -
  obtain w ds where d: "take_width 0 cs = (w, ds)" by (cases "take_width 0 cs")
  have "length (case ds of c # cs' \<Rightarrow> if c = 46 then snd (take_width 0 cs') else ds | [] \<Rightarrow> []) \<le> length ds"
    by (cases ds) (auto simp: le_SucI take_width_length)
  also have "\<dots> \<le> length cs" using take_width_length[of 0 cs] d by simp
  finally show ?thesis by (simp add: directive_def d)
qed

text \<open>The loop over the format. A format that ends inside a directive is read past its end, after the zero has been printed.\<close>

function format_loop :: "u8 list \<Rightarrow> printf_state \<Rightarrow> printf_state run" where
  "format_loop [] s = Some (Inr s)"
| "format_loop (c # cs) s =
     (if c = 0 then Some (Inr s)
      else if c \<noteq> PERCENT then format_loop cs (func_ptr c s)
      else
        case directive cs of
          (field_width, []) \<Rightarrow> Some (Inl OutOfBounds)
        | (field_width, c' # cs') \<Rightarrow> run_bind (conversion c' field_width s) (format_loop cs'))"
  by pat_completeness auto

termination
proof (relation "measure (\<lambda>(cs, s). length cs)", goal_cases)
  case (3 c cs s x y a list)
  then show ?case using directive_length[of cs] by (cases "directive cs") auto
qed auto

definition DbgConsole_PrintfFormattedData :: "u8 list \<Rightarrow> u8 list \<Rightarrow> printf_arg list \<Rightarrow> (u8 list \<times> nat) run" where
  "DbgConsole_PrintfFormattedData stack fmt args =
     run_bind (format_loop fmt \<lparr>vstr = stack, vstrp = None, vlen = 0, ap = args, printed = [], count = 0\<rparr>)
       (\<lambda>s. Some (Inr (printed s, count s)))"

section \<open>What is printed\<close>

text \<open>A number in a radix, from its highest digit.\<close>

function digits_of :: "nat \<Rightarrow> bool \<Rightarrow> nat \<Rightarrow> u8 list" where
  "digits_of r caps n = (if n = 0 \<or> r < 2 then [] else radix_char caps (of_nat (n mod r)) # digits_of r caps (n div r))"
  by pat_completeness auto

termination
  by (relation "measure (\<lambda>(r, caps, n). n)") auto

declare digits_of.simps [simp del]

definition numeral_text :: "nat \<Rightarrow> bool \<Rightarrow> nat \<Rightarrow> u8 list" where
  "numeral_text r caps n = (if n = 0 then [48] else rev (digits_of r caps n))"

lemma digits_of_bound: "n < r ^ k \<Longrightarrow> length (digits_of r caps n) \<le> k"
proof (induction k arbitrary: n)
  case 0
  then show ?case by (simp add: digits_of.simps)
next
  case (Suc k)
  then have "n div r < r ^ k" by (simp add: less_mult_imp_div_less mult.commute)
  from Suc.IH[OF this] show ?case by (subst digits_of.simps) simp
qed

lemma radix_char_nonzero: "k < 16 \<Longrightarrow> radix_char caps (of_nat k) \<noteq> 0"
proof -
  assume k: "k < 16"
  have "list_all (\<lambda>k. radix_char caps (of_nat k) \<noteq> 0) [0..<16]"
    by (simp add: radix_char_def upt_rec)
  then have all: "\<forall>k \<in> {0..<16}. radix_char caps (of_nat k) \<noteq> 0" by (simp only: list_all_iff set_upt)
  show ?thesis using bspec[OF all, of k] k by simp
qed

lemma digits_of_nonzero: "r \<le> 16 \<Longrightarrow> 0 \<notin> set (digits_of r caps n)"
proof (induction r caps n rule: digits_of.induct)
  case (1 r caps n)
  show ?case
  proof (cases "n = 0 \<or> r < 2")
    case True
    then show ?thesis by (simp add: digits_of.simps)
  next
    case False
    then have "n mod r < 16" using 1(2) by (meson less_le_trans mod_less_divisor not_gr_zero order_less_le_trans zero_less_numeral not_less)
    then have "radix_char caps (of_nat (n mod r)) \<noteq> 0" by (rule radix_char_nonzero)
    then show ?thesis using 1(1)[OF False 1(2)] False by (subst digits_of.simps) auto
  qed
qed

lemma radix_loop_eq:
  assumes "2 \<le> unat radix"
  shows "nlen + length (digits_of (unat radix) caps (unat ua)) < length str \<Longrightarrow>
    radix_loop radix caps ua str nlen =
      Some (Inr (take (Suc nlen) str @ digits_of (unat radix) caps (unat ua) @
        drop (Suc nlen + length (digits_of (unat radix) caps (unat ua))) str, nlen + length (digits_of (unat radix) caps (unat ua))))"
proof (induction "unat ua" arbitrary: ua str nlen rule: less_induct)
  case less
  show ?case
  proof (cases "ua = 0")
    case True
    then show ?thesis by (subst radix_loop.simps) (simp add: digits_of.simps)
  next
    case False
    let ?d = "radix_char caps (of_nat (unat ua mod unat radix))"
    let ?ds = "digits_of (unat radix) caps (unat ua div unat radix)"
    have nz: "radix \<noteq> 0" using assms by auto
    have pos: "0 < unat ua" using False by (simp add: unat_gt_0)
    have ds: "digits_of (unat radix) caps (unat ua) = ?d # ?ds"
      using assms pos by (subst digits_of.simps) simp
    have ub: "unat (ua div radix) = unat ua div unat radix" by (rule unat_div)
    have "ua - ua div radix * radix = ua mod radix" by (simp add: minus_div_mult_eq_mod)
    also have "\<dots> = of_nat (unat ua mod unat radix)" by (rule unat_eq_of_nat) (rule unat_mod)
    finally have uc: "ua - ua div radix * radix = of_nat (unat ua mod unat radix)" .
    have lt: "Suc nlen < length str" using less.prems ds by simp
    have "unat (ua div radix) < unat ua" using assms pos by (simp add: ub)
    moreover have "Suc nlen + length (digits_of (unat radix) caps (unat (ua div radix))) < length (str[Suc nlen := ?d])"
      using less.prems ds ub by simp
    ultimately have IH: "radix_loop radix caps (ua div radix) (str[Suc nlen := ?d]) (Suc nlen) =
      Some (Inr (take (Suc (Suc nlen)) (str[Suc nlen := ?d]) @ ?ds @ drop (Suc (Suc nlen) + length ?ds) (str[Suc nlen := ?d]),
        Suc nlen + length ?ds))"
      using less.hyps ub by metis
    have "radix_loop radix caps ua str nlen = radix_loop radix caps (ua div radix) (str[Suc nlen := ?d]) (Suc nlen)"
      using False nz lt by (subst radix_loop.simps) (simp add: Let_def uc)
    also have "\<dots> = Some (Inr (take (Suc nlen) str @ (?d # ?ds) @ drop (Suc nlen + length (?d # ?ds)) str, nlen + length (?d # ?ds)))"
      using lt unfolding IH by (simp add: take_Suc_conv_app_nth drop_update_cancel)
    finally show ?thesis unfolding ds .
  qed
qed

lemma convert_eq:
  assumes "2 \<le> unat radix" and "unat radix \<le> 16" and "length str = 33"
  shows "\<exists>ds rest. DbgConsole_ConvertRadixNumToString str num radix caps = Some (Inr (0 # ds @ rest, length ds)) \<and>
    rev ds = numeral_text (unat radix) caps (unat num) \<and> 0 \<notin> set ds \<and> length (0 # ds @ rest) = 33"
proof (cases "num = 0")
  case True
  obtain a b rest where "str = a # b # rest" "length rest = 31"
    using assms(3) by (auto simp: length_Suc_conv numeral_eq_Suc)
  then show ?thesis
    using True by (intro exI[of _ "[48]"] exI[of _ rest]) (simp add: DbgConsole_ConvertRadixNumToString_def numeral_text_def)
next
  case False
  let ?ds = "digits_of (unat radix) caps (unat num)"
  have "unat num < 2 ^ 32" using unsigned_less[of num, where ?'a = nat] by simp
  also have "(2::nat) ^ 32 \<le> unat radix ^ 32" using assms(1) by (intro power_mono) simp_all
  finally have len: "length ?ds \<le> 32" by (rule digits_of_bound)
  obtain a rest where str: "str = a # rest" "length rest = 32"
    using assms(3) by (auto simp: length_Suc_conv numeral_eq_Suc)
  have "DbgConsole_ConvertRadixNumToString str num radix caps = radix_loop radix caps num (0 # rest) 0"
    using False str by (simp add: DbgConsole_ConvertRadixNumToString_def)
  also have "\<dots> = Some (Inr (0 # ?ds @ drop (length ?ds) rest, length ?ds))"
    using radix_loop_eq[OF assms(1), of 0 caps num "0 # rest"] len str by simp
  finally have "DbgConsole_ConvertRadixNumToString str num radix caps = Some (Inr (0 # ?ds @ drop (length ?ds) rest, length ?ds)) \<and>
      rev ?ds = numeral_text (unat radix) caps (unat num) \<and> 0 \<notin> set ?ds \<and> length (0 # ?ds @ drop (length ?ds) rest) = 33"
    using False len str digits_of_nonzero[OF assms(2)] by (simp add: numeral_text_def unsigned_eq_0_iff)
  then show ?thesis by blast
qed

lemma print_back_eq: "0 \<notin> set ds \<Longrightarrow> print_back (0 # ds @ rest) (length ds) = Inr (rev ds, 0)"
proof (induction ds arbitrary: rest rule: rev_induct)
  case (snoc d ds)
  then show ?case using snoc.IH[of "d # rest"] by (simp add: nth_append)
qed simp

text \<open>Printing adds to the characters and to their count.\<close>

definition put :: "u8 list \<Rightarrow> printf_state \<Rightarrow> printf_state" where
  "put cs s = s\<lparr>printed := printed s @ cs, count := count s + length cs\<rparr>"

lemma put_simps [simp]:
  "vstr (put cs s) = vstr s" "vstrp (put cs s) = vstrp s" "vlen (put cs s) = vlen s" "ap (put cs s) = ap s"
  "printed (put cs s) = printed s @ cs" "count (put cs s) = count s + length cs" "put [] s = s" "put ds (put cs s) = put (cs @ ds) s"
  by (simp_all add: put_def)

lemma func_ptr_put: "func_ptr c s = put [c] s"
  by (simp add: func_ptr_def put_def)

lemma fold_func_ptr: "fold func_ptr cs s = put cs s"
  by (induction cs arbitrary: s) (simp_all add: func_ptr_put)

lemma padding_put: "DbgConsole_PrintfPaddingCharacter c curlen width s = put (replicate (nat (sint width - int curlen)) c) s"
proof -
  have "(func_ptr c ^^ k) s = put (replicate k c) s" for k
    by (induction k) (simp_all add: func_ptr_put replicate_append_same)
  then show ?thesis by (simp add: DbgConsole_PrintfPaddingCharacter_def)
qed

text \<open>
  A format as its pieces: text; a number, with the digits of its width and of its precision; a string; a character; a percent sign; a
  floating point number.
\<close>

datatype piece =
    Text "u8 list"
  | Number u8 "u8 list" "u8 list option" u32
  | Word "u8 list" "u8 list option" "u8 list"
  | Char "u8 list" "u8 list option" u32
  | Percent
  | Real u8 "u8 list" "u8 list option"

definition width_text :: "u8 list \<Rightarrow> u8 list option \<Rightarrow> u8 list" where
  "width_text ws prec = ws @ (case prec of None \<Rightarrow> [] | Some ds \<Rightarrow> 46 # ds)"

primrec piece_format :: "piece \<Rightarrow> u8 list" where
  "piece_format (Text t) = t"
| "piece_format (Number c ws prec x) = PERCENT # width_text ws prec @ [c]"
| "piece_format (Word ws prec t) = PERCENT # width_text ws prec @ [CHR_s]"
| "piece_format (Char ws prec x) = PERCENT # width_text ws prec @ [CHR_c]"
| "piece_format Percent = [PERCENT, PERCENT]"
| "piece_format (Real c ws prec) = PERCENT # width_text ws prec @ [c]"

primrec piece_args :: "piece \<Rightarrow> printf_arg list" where
  "piece_args (Text t) = []"
| "piece_args (Number c ws prec x) = [if c = CHR_p then ArgPointer x else ArgInt x]"
| "piece_args (Word ws prec t) = [ArgString (Some t)]"
| "piece_args (Char ws prec x) = [ArgInt x]"
| "piece_args Percent = []"
| "piece_args (Real c ws prec) = []"

definition digits_ok :: "u8 list \<Rightarrow> bool" where
  "digits_ok ws \<longleftrightarrow> list_all (\<lambda>c. 48 \<le> c \<and> c \<le> 57) ws"

definition width_ok :: "u8 list \<Rightarrow> u8 list option \<Rightarrow> bool" where
  "width_ok ws prec \<longleftrightarrow> digits_ok ws \<and> (case prec of None \<Rightarrow> True | Some ds \<Rightarrow> digits_ok ds)"

definition number_chars :: "u8 list" where
  "number_chars = [CHR_d, CHR_i, CHR_x, CHR_X, CHR_o, CHR_b, CHR_p, CHR_u]"

primrec piece_ok :: "piece \<Rightarrow> bool" where
  "piece_ok (Text t) \<longleftrightarrow> 0 \<notin> set t \<and> PERCENT \<notin> set t"
| "piece_ok (Number c ws prec x) \<longleftrightarrow> c \<in> set number_chars \<and> width_ok ws prec"
| "piece_ok (Word ws prec t) \<longleftrightarrow> width_ok ws prec"
| "piece_ok (Char ws prec x) \<longleftrightarrow> width_ok ws prec"
| "piece_ok Percent \<longleftrightarrow> True"
| "piece_ok (Real c ws prec) \<longleftrightarrow> c \<in> {CHR_f, CHR_F} \<and> width_ok ws prec"

text \<open>What each piece should look like; the padding is spaces whatever the width is written like.\<close>

definition number_radix :: "u8 \<Rightarrow> nat" where
  "number_radix c = (if c \<in> {CHR_x, CHR_X, CHR_p} then 16 else if c = CHR_o then 8 else if c = CHR_b then 2 else 10)"

definition number_text :: "u8 \<Rightarrow> u32 \<Rightarrow> u8 list" where
  "number_text c x = numeral_text (number_radix c) (c \<noteq> CHR_x) (unat x)"

definition padding :: "u8 list \<Rightarrow> nat \<Rightarrow> u8 list" where
  "padding ws len = replicate (nat (sint (fst (take_width 0 ws)) - int len)) 32"

primrec piece_text :: "nat \<Rightarrow> piece \<Rightarrow> u8 list \<times> nat" where
  "piece_text len (Text t) = (t, len)"
| "piece_text len (Number c ws prec x) = (padding ws (length (number_text c x)) @ number_text c x, length (number_text c x))"
| "piece_text len (Word ws prec t) = (padding ws (length t) @ t, length t)"
| "piece_text len (Char ws prec x) = ([ucast x], len)"
| "piece_text len Percent = ([PERCENT], len)"
| "piece_text len (Real c ws prec) = (padding ws len, len)"

primrec pieces_text :: "nat \<Rightarrow> piece list \<Rightarrow> u8 list" where
  "pieces_text len [] = []"
| "pieces_text len (p # ps) = fst (piece_text len p) @ pieces_text (snd (piece_text len p)) ps"

lemma take_width_digits: "digits_ok ws \<Longrightarrow> take_width w (ws @ cs) = take_width (fst (take_width w ws)) cs"
  by (induction ws arbitrary: w) (simp_all add: digits_ok_def)

lemma directive_eq:
  assumes "width_ok ws prec" and "\<not> (48 \<le> c \<and> c \<le> 57)" and "c \<noteq> 46"
  shows "directive (width_text ws prec @ c # cs) = (fst (take_width 0 ws), c # cs)"
proof -
  have dot: "\<not> (48 \<le> (46 :: u8))" by simp
  have "take_width 0 (ds @ c # cs) = (fst (take_width 0 ds), c # cs)" if "digits_ok ds" for ds
    using take_width_digits[OF that, of 0 "c # cs"] assms(2) by simp
  then show ?thesis
    using assms take_width_digits[of ws 0 "46 # ds @ c # cs" for ds] dot
    by (cases prec) (auto simp: directive_def width_text_def width_ok_def)
qed

text \<open>The state between two pieces.\<close>

definition between :: "nat \<Rightarrow> printf_arg list \<Rightarrow> printf_state \<Rightarrow> bool" where
  "between len args s \<longleftrightarrow> length (vstr s) = 33 \<and> (vstrp s = None \<or> vstrp s = Some 0 \<and> hd (vstr s) = 0) \<and> vlen s = len \<and> ap s = args"

lemma conversion_step:
  assumes "width_ok ws prec" and "\<not> (48 \<le> c \<and> c \<le> 57)" and "c \<noteq> 46"
  shows "format_loop ((PERCENT # width_text ws prec @ [c]) @ cs) s =
    run_bind (conversion c (fst (take_width 0 ws)) s) (format_loop cs)"
  using directive_eq[OF assms, of cs] by (simp add: chrs)

lemma format_text: "0 \<notin> set t \<Longrightarrow> PERCENT \<notin> set t \<Longrightarrow> format_loop (t @ cs) s = format_loop cs (put t s)"
  by (induction t arbitrary: s) (auto simp: func_ptr_put)

lemma number_conversion:
  assumes "c \<in> set number_chars" and "length (vstr s) = 33" and "ap s = piece_args (Number c ws prec x) @ as"
  shows "\<exists>str. number_to_digits c s =
      Some (Inr (s\<lparr>ap := as, vstr := str, vlen := length (number_text c x), vstrp := Some (length (number_text c x))\<rparr>)) \<and>
    length str = 33 \<and> hd str = 0 \<and> print_back str (length (number_text c x)) = Inr (number_text c x, 0)"
proof -
  have *: "\<exists>str. to_digits radix caps (x, s\<lparr>ap := as\<rparr>) =
      Some (Inr (s\<lparr>ap := as, vstr := str, vlen := length (numeral_text (unat radix) caps (unat x)),
        vstrp := Some (length (numeral_text (unat radix) caps (unat x)))\<rparr>)) \<and>
    length str = 33 \<and> hd str = 0 \<and> print_back str (length (numeral_text (unat radix) caps (unat x))) =
      Inr (numeral_text (unat radix) caps (unat x), 0)"
    if r: "2 \<le> unat radix" "unat radix \<le> 16" for radix :: u32 and caps
  proof -
    obtain ds rest where d: "DbgConsole_ConvertRadixNumToString (vstr s) x radix caps = Some (Inr (0 # ds @ rest, length ds))"
      "rev ds = numeral_text (unat radix) caps (unat x)" "0 \<notin> set ds" "length (0 # ds @ rest) = 33"
      using convert_eq[OF r assms(2), of x caps] by blast
    have "length ds = length (numeral_text (unat radix) caps (unat x))" unfolding d(2)[symmetric] by simp
    then show ?thesis
      using d print_back_eq[OF d(3), of rest] by (intro exI[of _ "0 # ds @ rest"]) (simp add: to_digits_def)
  qed
  from assms(1) consider "c = CHR_d" | "c = CHR_i" | "c = CHR_x" | "c = CHR_X" | "c = CHR_o" | "c = CHR_b" | "c = CHR_p" | "c = CHR_u"
    by (auto simp: number_chars_def)
  then show ?thesis
    using assms(3) *[of 10 True] *[of 16 False] *[of 16 True] *[of 8 True] *[of 2 True]
    by cases (simp_all add: number_to_digits_def va_int_def va_pointer_def number_text_def number_radix_def chrs)
qed

lemma print_back_zero: "length str = 33 \<Longrightarrow> hd str = 0 \<Longrightarrow> print_back str 0 = Inr ([], 0)"
  by (cases str) simp_all

lemma piece_step:
  assumes "piece_ok p" and "between len (piece_args p @ as) s"
  shows "\<exists>s'. format_loop (piece_format p @ cs) s = format_loop cs s' \<and> between (snd (piece_text len p)) as s' \<and>
    printed s' = printed s @ fst (piece_text len p) \<and> count s' = count s + length (fst (piece_text len p))"
proof (cases p)
  case (Text t)
  then show ?thesis using assms by (intro exI[of _ "put t s"]) (simp add: format_text between_def)
next
  case (Number c ws prec x)
  then have c: "c \<in> set number_chars" "width_ok ws prec" using assms(1) by simp_all
  then have nd: "\<not> (48 \<le> c \<and> c \<le> 57)" "c \<noteq> 46" by (auto simp: number_chars_def chrs)
  have "length (vstr s) = 33" "ap s = piece_args (Number c ws prec x) @ as" using assms(2) Number by (simp_all add: between_def)
  from number_conversion[OF c(1) this] obtain str where str: "number_to_digits c s =
      Some (Inr (s\<lparr>ap := as, vstr := str, vlen := length (number_text c x), vstrp := Some (length (number_text c x))\<rparr>))"
    "length str = 33" "hd str = 0" "print_back str (length (number_text c x)) = Inr (number_text c x, 0)" by blast
  let ?s = "put (fst (piece_text len p)) (s\<lparr>ap := as, vstr := str, vlen := length (number_text c x), vstrp := Some 0\<rparr>)"
  have "c \<in> {CHR_d, CHR_i, CHR_f, CHR_F, CHR_x, CHR_X, CHR_o, CHR_b, CHR_p, CHR_u}" using c(1) by (auto simp: number_chars_def)
  then have "conversion c (fst (take_width 0 ws)) s = Some (Inr ?s)"
    using str Number by (simp only: conversion_def if_True run_bind_simps)
      (simp add: print_number_def padding_put padding_def fold_func_ptr Let_def put_def)
  then have "format_loop (piece_format p @ cs) s = format_loop cs ?s"
    using conversion_step[OF c(2) nd, of cs s] Number by simp
  moreover have "between (snd (piece_text len p)) as ?s" using str Number by (simp add: between_def)
  ultimately show ?thesis by (intro exI[of _ ?s]) simp
next
  case (Word ws prec t)
  then have w: "width_ok ws prec" "ap s = ArgString (Some t) # as" using assms by (simp_all add: between_def)
  let ?s = "put (fst (piece_text len p)) (s\<lparr>ap := as, vlen := length t\<rparr>)"
  have "conversion CHR_s (fst (take_width 0 ws)) s = Some (Inr ?s)"
    using w(2) Word by (simp add: conversion_def chrs print_string_def va_string_def padding_put padding_def fold_func_ptr Let_def)
  moreover have "\<not> (48 \<le> CHR_s \<and> CHR_s \<le> 57)" "CHR_s \<noteq> 46" by (simp_all add: chrs)
  ultimately have "format_loop (piece_format p @ cs) s = format_loop cs ?s"
    using conversion_step[OF w(1), of CHR_s cs s] Word by simp
  moreover have "between (snd (piece_text len p)) as ?s" using assms(2) Word by (simp add: between_def)
  ultimately show ?thesis by (intro exI[of _ ?s]) simp
next
  case (Char ws prec x)
  then have w: "width_ok ws prec" "ap s = ArgInt x # as" using assms by (simp_all add: between_def)
  let ?s = "put [ucast x] (s\<lparr>ap := as\<rparr>)"
  have "conversion CHR_c (fst (take_width 0 ws)) s = Some (Inr ?s)"
    using w(2) by (simp add: conversion_def chrs va_int_def func_ptr_put)
  moreover have "\<not> (48 \<le> CHR_c \<and> CHR_c \<le> 57)" "CHR_c \<noteq> 46" by (simp_all add: chrs)
  ultimately have "format_loop (piece_format p @ cs) s = format_loop cs ?s"
    using conversion_step[OF w(1), of CHR_c cs s] Char by simp
  moreover have "between (snd (piece_text len p)) as ?s" using assms(2) Char by (simp add: between_def)
  ultimately show ?thesis using Char by (intro exI[of _ ?s]) simp
next
  case Percent
  have "directive (PERCENT # cs) = (0, PERCENT # cs)" using directive_eq[of "[]" None PERCENT cs] by (simp add: width_ok_def digits_ok_def width_text_def chrs)
  moreover have "conversion PERCENT 0 s = Some (Inr (put [PERCENT] s))" by (simp add: conversion_def chrs func_ptr_put)
  ultimately have "format_loop (piece_format p @ cs) s = format_loop cs (put [PERCENT] s)"
    using Percent by (simp add: chrs)
  then show ?thesis using assms(2) Percent by (intro exI[of _ "put [PERCENT] s"]) (simp add: between_def)
next
  case (Real c ws prec)
  then have c: "c \<in> {CHR_f, CHR_F}" "width_ok ws prec" using assms(1) by simp_all
  then have nd: "\<not> (48 \<le> c \<and> c \<le> 57)" "c \<noteq> 46" by (auto simp: chrs)
  let ?s = "put (fst (piece_text len p)) s"
  have "number_to_digits c s = Some (Inr s)" using c(1) by (auto simp: number_to_digits_def chrs)
  moreover have "print_number (fst (take_width 0 ws)) s = Inr ?s"
    using assms(2) Real print_back_zero[of "vstr s"]
    by (auto simp: print_number_def between_def padding_put padding_def Let_def fold_func_ptr put_def split: option.split)
  moreover have "c \<in> {CHR_d, CHR_i, CHR_f, CHR_F, CHR_x, CHR_X, CHR_o, CHR_b, CHR_p, CHR_u}" using c(1) by auto
  ultimately have "conversion c (fst (take_width 0 ws)) s = Some (Inr ?s)"
    by (simp only: conversion_def if_True run_bind_simps)
  then have "format_loop (piece_format p @ cs) s = format_loop cs ?s"
    using conversion_step[OF c(2) nd, of cs s] Real by simp
  then show ?thesis using assms(2) Real by (intro exI[of _ ?s]) (simp add: between_def)
qed

lemma format_pieces:
  assumes "list_all piece_ok ps" and "between len (concat (map piece_args ps) @ as) s"
  shows "\<exists>s'. format_loop (concat (map piece_format ps) @ cs) s = format_loop cs s' \<and>
    printed s' = printed s @ pieces_text len ps \<and> count s' = count s + length (pieces_text len ps) \<and> (\<exists>len'. between len' as s')"
  using assms
proof (induction ps arbitrary: len s)
  case Nil
  then show ?case by auto
next
  case (Cons p ps)
  then have "piece_ok p" "between len (piece_args p @ concat (map piece_args ps) @ as) s" by simp_all
  from piece_step[OF this, of "concat (map piece_format ps) @ cs"] obtain s1 where
    s1: "format_loop (piece_format p @ concat (map piece_format ps) @ cs) s = format_loop (concat (map piece_format ps) @ cs) s1"
    "between (snd (piece_text len p)) (concat (map piece_args ps) @ as) s1"
    "printed s1 = printed s @ fst (piece_text len p)" "count s1 = count s + length (fst (piece_text len p))" by blast
  from Cons.IH[OF _ s1(2)] Cons.prems(1) show ?case using s1 by auto
qed

text \<open>
  C27: What the console prints: for a format of text, numbers, strings, characters, percent signs and floating point directives, with any widths and
  precisions, and with its arguments, it prints the pieces in order and returns their length, without leaving the 33 bytes for the
  digits. A number is its digits from the highest, of the unsigned value whatever the directive; the padding is spaces, and the precision has no
  effect. A floating point directive prints nothing but padding and takes no argument.
\<close>

theorem printf_prints:
  assumes "list_all piece_ok ps" and "length stack = 33"
  shows "DbgConsole_PrintfFormattedData stack (concat (map piece_format ps)) (concat (map piece_args ps) @ as) =
    Some (Inr (pieces_text 0 ps, length (pieces_text 0 ps)))"
proof -
  let ?s = "\<lparr>vstr = stack, vstrp = None, vlen = 0, ap = concat (map piece_args ps) @ as, printed = [], count = 0\<rparr>"
  have "between 0 (concat (map piece_args ps) @ as) ?s" using assms(2) by (simp add: between_def)
  from format_pieces[OF assms(1) this, of "[]"] show ?thesis by (auto simp: DbgConsole_PrintfFormattedData_def)
qed

text \<open>The line for a strip, and one for the frequency.\<close>

theorem printf_prints_witness:
  "DbgConsole_PrintfFormattedData (replicate 33 7) [82, 32, 37, 100, 58, 32, 37, 48, 50, 88, 10, 37, 102, 46] [ArgInt 3, ArgInt 10, ArgDouble PosInf] =
    Some (Inr ([82, 32, 51, 58, 32, 32, 65, 10, 46], 9))"
proof -
  let ?ps = "[Text [82, 32], Number CHR_d [] None 3, Text [58, 32], Number CHR_X [48, 50] None 10, Text [10], Real CHR_f [] None, Text [46]]"
  have "digits_of 10 True 3 = [51]" "digits_of 16 True 10 = [65]" by (simp_all add: digits_of.simps radix_char_def)
  then have t: "number_text CHR_d 3 = [51]" "number_text CHR_X 10 = [65]"
    by (simp_all add: number_text_def number_radix_def numeral_text_def chrs)
  have p: "padding [] n = []" "padding [48, 50] 1 = [32]" for n by (simp_all add: padding_def)
  have ok: "list_all piece_ok ?ps" by (simp add: number_chars_def width_ok_def digits_ok_def chrs)
  have fmt: "concat (map piece_format ?ps) = [82, 32, 37, 100, 58, 32, 37, 48, 50, 88, 10, 37, 102, 46]"
    by (simp add: width_text_def chrs)
  have args: "concat (map piece_args ?ps) @ [ArgDouble PosInf] = [ArgInt 3, ArgInt 10, ArgDouble PosInf]" by (simp add: chrs)
  have out: "pieces_text 0 ?ps = [82, 32, 51, 58, 32, 32, 65, 10, 46]" using p(2) by (simp add: t p(1))
  have "length (replicate 33 (7 :: u8)) = 33" by simp
  from printf_prints[OF ok this, of "[ArgDouble PosInf]"] show ?thesis unfolding fmt args out by simp
qed

section \<open>What the host reads\<close>

lemma digits_of_decimal: "0 < n \<Longrightarrow> rev (digits_of 10 caps n) = decimal n"
proof (induction n rule: decimal.induct)
  case (1 n)
  have c: "radix_char caps (of_nat (n mod 10)) = CHAR_0 + of_nat (n mod 10)"
  proof -
    have "n mod 10 \<in> set [0..<10]" by simp
    moreover have "list_all (\<lambda>k. radix_char caps (of_nat k) = CHAR_0 + of_nat k) [0..<10]"
      by (simp add: radix_char_def chars upt_rec)
    then have "\<forall>k \<in> set [0..<10]. radix_char caps (of_nat k) = CHAR_0 + of_nat k" by (simp only: list_all_iff)
    ultimately show ?thesis by (rule bspec[rotated])
  qed
  show ?case
  proof (cases "n < 10")
    case True
    have z: "digits_of 10 caps 0 = []" by (simp add: digits_of.simps)
    have "n div 10 = 0" "n mod 10 = n" using True by simp_all
    then have "digits_of 10 caps n = [CHAR_0 + of_nat n]" using c 1(2) z by (subst digits_of.simps) simp
    then show ?thesis using True by (simp add: decimal.simps)
  next
    case False
    then have "rev (digits_of 10 caps (n div 10)) = decimal (n div 10)" using 1(1) by simp
    then show ?thesis using False c by (subst digits_of.simps, subst decimal.simps) simp
  qed
qed

lemma number_text_decimal: "c \<in> {CHR_d, CHR_i, CHR_u} \<Longrightarrow> number_text c x = decimal (unat x)"
proof -
  assume "c \<in> {CHR_d, CHR_i, CHR_u}"
  then have "number_text c x = numeral_text 10 (c \<noteq> CHR_x) (unat x)" by (auto simp: number_text_def number_radix_def chrs)
  also have "\<dots> = decimal (unat x)"
    by (cases "unat x = 0") (simp_all add: numeral_text_def digits_of_decimal decimal.simps[of 0] chars)
  finally show ?thesis .
qed

lemma unat_sint:
  fixes x :: u32
  shows "int (unat x) = (if 0 \<le> sint x then sint x else 2 ^ 32 + sint x)" and "sint x < 2 ^ 31" and "- (2 ^ 31) \<le> sint x"
proof -
  have b: "- (2 ^ 31) \<le> sint x" "sint x < 2 ^ 31" using sint_greater_eq[of x] sint_less[of x] by simp_all
  have "int (unat x) = sint x mod 2 ^ 32" using uint_sint[of x] by (simp add: take_bit_eq_mod uint_nat)
  moreover have "sint x mod 2 ^ 32 = 2 ^ 32 + sint x" if "sint x < 0"
    using mod_pos_pos_trivial[of "2 ^ 32 + sint x" "2 ^ 32"] b that by simp
  ultimately show "int (unat x) = (if 0 \<le> sint x then sint x else 2 ^ 32 + sint x)" using b by simp
  show "sint x < 2 ^ 31" "- (2 ^ 31) \<le> sint x" by (rule b)+
qed

lemma atoi_decimal_large: "2 ^ 31 \<le> n \<Longrightarrow> atoi (decimal n) = Inl CastRange"
proof -
  assume n: "2 ^ 31 \<le> n"
  obtain c s where d: "decimal n = c # s" using decimal_nonempty[of n] by (cases "decimal n") auto
  then obtain k where k: "k < 10" "c = CHAR_0 + of_nat k" using decimal_chars[of c n] by auto
  have "dropWhile is_space (decimal n) = decimal n" using d k digit_char(4)[of k] by simp
  moreover have "take_sign (decimal n) = (False, decimal n)"
    using d k digit_char(5,6)[of k] by (simp add: take_sign_def)
  ultimately show ?thesis
    using n by (simp add: atoi_def take_digits_def decimal_all_digits decimal_value)
qed

lemma atoi_padding: "atoi (padding ws n @ cs) = atoi cs"
proof -
  have "is_space 32" by (simp add: is_space_def)
  then have "dropWhile is_space (replicate k 32 @ cs) = dropWhile is_space cs" for k by (induction k) simp_all
  then show ?thesis by (simp add: atoi_def padding_def)
qed

lemma print_one_number:
  assumes "c \<in> set number_chars" and "width_ok ws prec" and "length stack = 33"
  shows "DbgConsole_PrintfFormattedData stack (PERCENT # width_text ws prec @ [c]) (piece_args (Number c ws prec x)) =
    Some (Inr (padding ws (length (number_text c x)) @ number_text c x, length (padding ws (length (number_text c x)) @ number_text c x)))"
proof -
  let ?s = "\<lparr>vstr = stack, vstrp = None, vlen = 0, ap = piece_args (Number c ws prec x), printed = [], count = 0\<rparr>"
  have "between 0 (concat (map piece_args [Number c ws prec x]) @ []) ?s" using assms(3) by (simp add: between_def)
  moreover have "list_all piece_ok [Number c ws prec x]" using assms(1,2) by simp
  ultimately show ?thesis
    using format_pieces[of "[Number c ws prec x]" 0 "[]" ?s "[]"] by (auto simp: DbgConsole_PrintfFormattedData_def)
qed

text \<open>
  C29: A decimal number on the console: what \<open>DbgConsole_PrintfFormattedData\<close> prints for a directive \<open>%d\<close>, \<open>%i\<close> or \<open>%u\<close>, with any width and precision and whatever the stack
  holds, is read back by \<open>atoi\<close> as the number printed if that is not negative; for a negative one it prints the decimal digits of the number that is larger
  by \<open>2 ^ 32\<close>, which is more than an \<open>int\<close> holds. What it returns is the number of characters printed.
\<close>

theorem printed_number_reads_back:
  assumes "c \<in> {CHR_d, CHR_i, CHR_u}" and "width_ok ws prec" and "length stack = 33"
  shows "\<exists>cs. DbgConsole_PrintfFormattedData stack (PERCENT # width_text ws prec @ [c]) [ArgInt x] = Some (Inr (cs, length cs)) \<and>
    (if 0 \<le> sint x then atoi cs = Inr x
     else dropWhile is_space cs = decimal (nat (2 ^ 32 + sint x)) \<and> atoi cs = Inl CastRange)"
proof -
  have c: "c \<in> set number_chars" "piece_args (Number c ws prec x) = [ArgInt x]"
    using assms(1) by (auto simp: number_chars_def chrs)
  let ?cs = "padding ws (length (number_text c x)) @ number_text c x"
  have t: "number_text c x = decimal (unat x)" by (rule number_text_decimal[OF assms(1)])
  have "if 0 \<le> sint x then atoi ?cs = Inr x
    else dropWhile is_space ?cs = decimal (nat (2 ^ 32 + sint x)) \<and> atoi ?cs = Inl CastRange"
  proof (cases "0 \<le> sint x")
    case True
    then have "unat x < 2 ^ 31" using unat_sint[of x] by simp
    then show ?thesis
      using True atoi_decimal[of "unat x"] unat_eq_of_nat[of x "unat x"] by (simp add: t atoi_padding)
  next
    case False
    then have u: "unat x = nat (2 ^ 32 + sint x)" "2 ^ 31 \<le> unat x" using unat_sint[of x] by simp_all
    obtain d ds where d: "decimal (unat x) = d # ds" using decimal_nonempty[of "unat x"] by (cases "decimal (unat x)") auto
    then obtain k where "k < 10" "d = CHAR_0 + of_nat k" using decimal_chars[of d "unat x"] by auto
    then have "\<not> is_space d" using digit_char(4) by simp
    moreover have "is_space 32" by (simp add: is_space_def)
    then have "dropWhile is_space (replicate n 32 @ cs) = dropWhile is_space cs" for n cs by (induction n) simp_all
    ultimately have "dropWhile is_space ?cs = decimal (unat x)" unfolding t padding_def using d by simp
    then show ?thesis using False u atoi_decimal_large[of "unat x"] by (simp add: t atoi_padding)
  qed
  then show ?thesis using print_one_number[OF c(1) assms(2,3), of x] unfolding c(2) by (intro exI[of _ ?cs]) simp
qed

theorem printed_number_reads_back_witness:
  "\<exists>cs. DbgConsole_PrintfFormattedData (replicate 33 7) [37, 54, 100] [ArgInt 9000] = Some (Inr (cs, length cs)) \<and> atoi cs = Inr 9000"
proof -
  have "width_ok [54] None" "PERCENT # width_text [54] None @ [CHR_d] = [37, 54, 100]"
    by (simp_all add: width_ok_def digits_ok_def width_text_def chrs)
  moreover have "0 \<le> sint (9000 :: u32)" by simp
  ultimately show ?thesis using printed_number_reads_back[of CHR_d "[54]" None "replicate 33 7" 9000] by auto
qed

section \<open>A format that ends in a directive\<close>

text \<open>
  A format that ends in a percent sign, or in the middle of a directive, is read past its end.
\<close>

theorem truncated_format_overrun:
  assumes "list_all piece_ok ps" and "length stack = 33" and "width_ok ws prec"
  shows "DbgConsole_PrintfFormattedData stack (concat (map piece_format ps) @ PERCENT # width_text ws prec) (concat (map piece_args ps) @ as) =
    Some (Inl OutOfBounds)"
proof -
  let ?s = "\<lparr>vstr = stack, vstrp = None, vlen = 0, ap = concat (map piece_args ps) @ as, printed = [], count = 0\<rparr>"
  have none: "take_width w ds = (fst (take_width w ds), [])" if "digits_ok ds" for w ds
    using that by (induction ds arbitrary: w) (simp_all add: digits_ok_def)
  then have none': "snd (take_width w ds) = []" if "digits_ok ds" for w ds using that by (metis snd_conv)
  have "snd (directive (width_text ws prec)) = []"
    using assms(3) none[of ws 0] take_width_digits[of ws 0 "46 # ds" for ds] none'
    by (cases prec) (auto simp: directive_def width_text_def width_ok_def split: prod.split)
  then have e: "format_loop (PERCENT # width_text ws prec) s = Some (Inl OutOfBounds)" for s
    by (cases "directive (width_text ws prec)") (simp add: chrs)
  have "between 0 (concat (map piece_args ps) @ as) ?s" using assms(2) by (simp add: between_def)
  from format_pieces[OF assms(1) this, of "PERCENT # width_text ws prec"] e show ?thesis
    by (auto simp: DbgConsole_PrintfFormattedData_def)
qed

theorem truncated_format_overrun_witness:
  "DbgConsole_PrintfFormattedData (replicate 33 0) [53, 48, 37] [] = Some (Inl OutOfBounds)"
  using truncated_format_overrun[of "[Text [53, 48]]" "replicate 33 0" "[]" None "[]"]
  by (simp add: chrs width_ok_def digits_ok_def width_text_def)

end
