(* ===== verification/Modbus_Line.thy ===== *)
theory Modbus_Line
  imports Modbus Lpuart
begin

text \<open>
  The Modbus server on its UART: the set-up of the UART (\<open>Modbus_init_UARTs\<close> of \<open>modbus.c\<close>, \<open>initialize_Modbus\<close> of \<open>main.c\<close>) and
  the receiving loop of \<open>HandleModbusFrame\<close> over the registers of the UART, which refines the loop of theory \<open>Modbus\<close> over
  events. The frequency that the clock driver reports after the set-up of the clocks is a parameter.
\<close>

section \<open>Set-up\<close>

text \<open>The UART is the one of LP_FLEXCOMM 2.\<close>

definition MODBUS_LPUART :: nat where
  "MODBUS_LPUART = 2"

definition MODBUS_LPUART_CLK_ATTACH :: clock_attach where
  "MODBUS_LPUART_CLK_ATTACH = kFRO12M_to_FLEXCOMM2"

definition BOARD_DEBUG_UART_BAUDRATE :: u32 where
  "BOARD_DEBUG_UART_BAUDRATE = 115200"

definition Modbus_init_UARTs :: "lpuart_layout \<Rightarrow> lpuart \<Rightarrow> (sys_call list \<Rightarrow> u32) \<Rightarrow> lpuart_dev \<Rightarrow> lpuart_dev res" where
  "Modbus_init_UARTs L reset CLOCK_GetLPFlexCommClkFreq d =
     (let (r, pselid, calls) = d;
          calls = calls @ [CLOCK_SetClkDiv kCLOCK_DivFlexcom2Clk 1];
          calls = calls @ [CLOCK_AttachClk MODBUS_LPUART_CLK_ATTACH];
          config = LPUART_GetDefaultConfig;
          config = config\<lparr>baudRate_Bps := BOARD_DEBUG_UART_BAUDRATE\<rparr>;
          config = config\<lparr>enableTx := True\<rparr>;
          config = config\<lparr>enableRx := True\<rparr>
      in rbind (LPUART_Init L reset MODBUS_LPUART config (CLOCK_GetLPFlexCommClkFreq calls) (r, pselid, calls))
           (\<lambda>(_, d). Inr d))"

definition initialize_Modbus :: "lpuart_layout \<Rightarrow> lpuart \<Rightarrow> (sys_call list \<Rightarrow> u32) \<Rightarrow> lpuart_dev \<Rightarrow> (lpuart_dev \<times> int) res" where
  "initialize_Modbus L reset CLOCK_GetLPFlexCommClkFreq d = rbind (Modbus_init_UARTs L reset CLOCK_GetLPFlexCommClkFreq d) (\<lambda>d. Inr (d, 0))"

text \<open>Of the rates near 115200 baud that 12 MHz can be divided to, the closest is reached with 26 samples per bit and a divider of 4.\<close>

lemma best_osr_modbus: "best_osr 12000000 115200 33 osr \<longleftrightarrow> osr = 26"
proof -
  have d: "deviation 12000000 115200 26 = 184" by (simp add: deviation_def nearest_sbr_def)
  have "list_all (\<lambda>k. 184 < deviation 12000000 115200 k) [27..<33]" "list_all (\<lambda>k. 184 \<le> deviation 12000000 115200 k) [4..<26]"
    by (simp_all add: upt_conv_Cons deviation_def nearest_sbr_def Let_def)
  then have all: "\<forall>k \<in> {27..<33}. 184 < deviation 12000000 115200 k" "\<forall>k \<in> {4..<26}. 184 \<le> deviation 12000000 115200 k"
    by (simp_all only: list_all_iff set_upt)
  have late: "184 < deviation 12000000 115200 k" if "26 < k" "k < 33" for k using bspec[OF all(1), of k] that by simp
  have early: "184 \<le> deviation 12000000 115200 k" if "4 \<le> k" "k \<le> 26" for k
    using bspec[OF all(2), of k] that d by (cases "k = 26") simp_all
  have "osr = 26" if b: "best_osr 12000000 115200 33 osr"
  proof (rule ccontr)
    assume "osr \<noteq> 26"
    then consider "osr < 26" | "26 < osr" by linarith
    then show False
      using b d late[of osr] early[of osr] by cases (auto simp: best_osr_def dest!: spec[of _ 26])
  qed
  moreover have "deviation 12000000 115200 26 \<le> deviation 12000000 115200 k" if "4 \<le> k" "k < 33" for k
    using late[of k] early[of k] that d by (cases "k \<le> 26") simp_all
  then have "best_osr 12000000 115200 33 26" using d late by (auto simp: best_osr_def)
  ultimately show ?thesis by blast
qed

definition modbus_config :: lpuart_config where
  "modbus_config = LPUART_GetDefaultConfig\<lparr>baudRate_Bps := BOARD_DEBUG_UART_BAUDRATE, enableTx := True, enableRx := True\<rparr>"

lemma modbus_config: "baudRate_Bps modbus_config = 115200" "txFifoWatermark modbus_config < 8" "rxFifoWatermark modbus_config < 8"
  "enableTx modbus_config" "enableRx modbus_config" "parityMode modbus_config = kLPUART_ParityDisabled"
  "stopBitCount modbus_config = kLPUART_OneStopBit"
  by (simp_all add: modbus_config_def LPUART_GetDefaultConfig_def BOARD_DEBUG_UART_BAUDRATE_def Let_def)

lemma initialize_Modbus_eq:
  "initialize_Modbus L reset freq (r, pselid, calls) =
     (let calls = calls @ [CLOCK_SetClkDiv kCLOCK_DivFlexcom2Clk 1, CLOCK_AttachClk kFRO12M_to_FLEXCOMM2]
      in rbind (LPUART_Init L reset 2 modbus_config (freq calls) (r, pselid, calls)) (\<lambda>(_, d). Inr (d, 0)))"
  by (simp add: initialize_Modbus_def Modbus_init_UARTs_def Let_def modbus_config_def MODBUS_LPUART_def MODBUS_LPUART_CLK_ATTACH_def
      rbind_assoc case_prod_unfold)

text \<open>
  C25: With the 12 MHz oscillator as the clock that the driver reports once it is attached, the set-up of Modbus leaves the UART of LP_FLEXCOMM 2 selected,
  clocked and out of reset, sampling 26 times a bit with a divider of 4, which is 115384 baud and within 0.16 percent of the 115200
  requested, one stop bit, no parity, transmitter and receiver on; and it reports success.
\<close>

theorem modbus_uart_ready:
  assumes "interrupt_bits_ok L" and "baud_bits_ok L" and "reset_state_ok L reset" and "bit pselid 4" and "\<not> bit pselid 3"
    and "freq (calls @ [CLOCK_SetClkDiv kCLOCK_DivFlexcom2Clk 1, CLOCK_AttachClk kFRO12M_to_FLEXCOMM2]) = 12000000"
  shows "\<exists>r'. initialize_Modbus L reset freq (r, pselid, calls) =
      Inr ((r', write_PSELID L 1 pselid, calls @ [CLOCK_SetClkDiv kCLOCK_DivFlexcom2Clk 1, CLOCK_AttachClk kFRO12M_to_FLEXCOMM2,
        CLOCK_EnableClock (FLEXCOMM 2), RESET_ClearPeripheralReset (FLEXCOMM 2)]), 0) \<and>
    fget (PSELID_PERSEL L) (write_PSELID L 1 pselid) = 1 \<and>
    unat (fget (BAUD_OSR L) (lu_BAUD r')) = 25 \<and> unat (fget (BAUD_SBR L) (lu_BAUD r')) = 4 \<and> fget (BAUD_SBNS L) (lu_BAUD r') = 0 \<and>
    fget (CTRL_TE L) (lu_CTRL r') = 1 \<and> fget (CTRL_RE L) (lu_CTRL r') = 1 \<and> fget (CTRL_PE L) (lu_CTRL r') = 0"
proof -
  have "baud_in_range (unat (12000000 :: u32)) (unat (baudRate_Bps modbus_config))" by (simp add: baud_in_range_def modbus_config)
  moreover have "deviation 12000000 115200 26 = 184" "nearest_sbr 12000000 115200 26 = 4" by (simp_all add: deviation_def nearest_sbr_def)
  ultimately show ?thesis
    using init_outcome[OF assms(1-3) _ modbus_config(2,3) assms(4,5), where src = 12000000 and n = 2 and r = r
        and calls = "calls @ [CLOCK_SetClkDiv kCLOCK_DivFlexcom2Clk 1, CLOCK_AttachClk kFRO12M_to_FLEXCOMM2]"]
    by (auto simp: initialize_Modbus_eq Let_def assms(6) modbus_config best_osr_modbus line_programmed_def select_uart(2)[OF assms(2,4,5)]
        simp del: One_nat_def)
qed

theorem modbus_uart_ready_witness:
  "\<exists>r'. initialize_Modbus example_lpuart reset_lpuart (\<lambda>_. 12000000) (reset_lpuart, 0x10, []) =
     Inr ((r', write_PSELID example_lpuart 1 0x10, [CLOCK_SetClkDiv kCLOCK_DivFlexcom2Clk 1, CLOCK_AttachClk kFRO12M_to_FLEXCOMM2,
       CLOCK_EnableClock (FLEXCOMM 2), RESET_ClearPeripheralReset (FLEXCOMM 2)]), 0)"
proof -
  have "bit (0x10 :: u32) 4" "\<not> bit (0x10 :: u32) 3" by simp_all
  from modbus_uart_ready[OF example_lpuart_ok(1,3) example_reset_ok this, of "\<lambda>_. 12000000" "[]" reset_lpuart] show ?thesis by auto
qed

text \<open>
  If the driver reports no clock, the initialisation of the UART refuses the rate and touches nothing, and the set-up of Modbus
  reports success all the same: the status is not looked at.
\<close>

theorem modbus_uart_silent:
  assumes "interrupt_bits_ok L" and "baud_bits_ok L" and "reset_state_ok L reset" and "bit pselid 4" and "\<not> bit pselid 3"
    and "freq (calls @ [CLOCK_SetClkDiv kCLOCK_DivFlexcom2Clk 1, CLOCK_AttachClk kFRO12M_to_FLEXCOMM2]) = 0"
  shows "initialize_Modbus L reset freq (r, pselid, calls) =
    Inr ((r, pselid, calls @ [CLOCK_SetClkDiv kCLOCK_DivFlexcom2Clk 1, CLOCK_AttachClk kFRO12M_to_FLEXCOMM2]), 0)"
proof -
  have "baud_in_range (unat (0 :: u32)) (unat (baudRate_Bps modbus_config))" by (simp add: baud_in_range_def modbus_config)
  moreover have "deviation 0 115200 osr = 115200" for osr by (simp add: deviation_def)
  ultimately show ?thesis
    using init_outcome[OF assms(1-3) _ modbus_config(2,3) assms(4,5), where src = 0 and n = 2 and r = r
        and calls = "calls @ [CLOCK_SetClkDiv kCLOCK_DivFlexcom2Clk 1, CLOCK_AttachClk kFRO12M_to_FLEXCOMM2]"]
    by (auto simp: initialize_Modbus_eq Let_def assms(6) modbus_config simp del: One_nat_def)
qed

theorem modbus_uart_silent_witness:
  "initialize_Modbus example_lpuart reset_lpuart (\<lambda>_. 0) (reset_lpuart, 0x10, []) =
     Inr ((reset_lpuart, 0x10, [CLOCK_SetClkDiv kCLOCK_DivFlexcom2Clk 1, CLOCK_AttachClk kFRO12M_to_FLEXCOMM2]), 0)"
proof -
  have "bit (0x10 :: u32) 4" "\<not> bit (0x10 :: u32) 3" by simp_all
  from modbus_uart_silent[OF example_lpuart_ok(1,3) example_reset_ok this, of "\<lambda>_. 0" "[]" reset_lpuart] show ?thesis by simp
qed

section \<open>The frame on the line\<close>

text \<open>
  The loop of \<open>HandleModbusFrame\<close> with the UART: the looks left, the registers, the buffer, the number of bytes in it, the shared state. A byte
  read while new parameters wait to be applied is lost.
\<close>

datatype line_result =
    LineWaiting "u8 list" u16 modbus_sys
  | LineReturned lpuart "line_view list" modbus_sys

lemma wait_byte_shorter: "wait_byte L vs r = Some (status, word, r', vs') \<Longrightarrow> length vs' < length vs"
proof (induction vs arbitrary: r)
  case (Cons v vs)
  then show ?case by (fastforce simp: Let_def split: if_splits prod.splits)
qed simp

lemma read_one_shorter: "LPUART_ReadBlocking L 1 vs r = Some (status, data, r', vs') \<Longrightarrow> length vs' < length vs"
  by (auto simp: LPUART_ReadBlocking_def split: option.splits if_splits dest: wait_byte_shorter)

function receive_frame :: "lpuart_layout \<Rightarrow> line_view list \<Rightarrow> lpuart \<Rightarrow> u8 list \<Rightarrow> u16 \<Rightarrow> modbus_sys \<Rightarrow> line_result res" where
  "receive_frame L vs r rxBuffer len s =
     (case LPUART_ReadBlocking L 1 vs r of
        None \<Rightarrow> Inr (LineWaiting rxBuffer len s)
      | Some (status, data, r', vs') \<Rightarrow>
          if status = kStatus_Success \<and> \<not> ModbusParamChanged (fst s)
          then rbind (if unat len < MODBUS_BUFFER_LENGTH
                 then rbind (arr_set rxBuffer (unat len) (hd data)) (\<lambda>b. Inr (b, len + 1))
                 else Inr (rxBuffer, len)) (\<lambda>(rxBuffer, len).
               if 8 \<le> len \<and> len = expected_length rxBuffer
               then rbind (Modbus_HandleRequest rxBuffer len s) (\<lambda>s. Inr (LineReturned r' vs' s))
               else receive_frame L vs' r' rxBuffer len s)
          else Inr (LineReturned r' vs' s))"
  by pat_completeness auto

termination
  by (relation "measure (\<lambda>(L, vs, _). length vs)") (auto dest: read_one_shorter[unfolded One_nat_def])

declare receive_frame.simps [simp del]

definition HandleModbusFrame_line :: "lpuart_layout \<Rightarrow> line_view list \<Rightarrow> lpuart \<Rightarrow> modbus_sys \<Rightarrow> line_result res" where
  "HandleModbusFrame_line L vs r s = receive_frame L vs r (replicate 256 0) 0 s"

text \<open>The events of theory \<open>Modbus\<close>, and what a result amounts to there.\<close>

primrec to_rx :: "line_event \<Rightarrow> rx_event" where
  "to_rx (LineByte b) = RxByte b"
| "to_rx (LineError e) = RxError"

definition rx_events :: "lpuart_layout \<Rightarrow> lpuart \<Rightarrow> line_view list \<Rightarrow> rx_event list" where
  "rx_events L r vs = map to_rx (line_events L (seven_data_bits L (lu_CTRL r)) vs)"

primrec to_frame_result :: "lpuart_layout \<Rightarrow> line_result \<Rightarrow> frame_result" where
  "to_frame_result L (LineWaiting buf len s) = Waiting buf len s"
| "to_frame_result L (LineReturned r vs s) = Returned (rx_events L r vs) s"

lemma read_one:
  assumes "interrupt_bits_ok L" and "flag_bits_ok L"
  shows "case rx_events L r vs of
      [] \<Rightarrow> LPUART_ReadBlocking L 1 vs r = None
    | RxByte b # es \<Rightarrow> \<exists>r' vs'. LPUART_ReadBlocking L 1 vs r = Some (kStatus_Success, [b], r', vs') \<and> rx_events L r' vs' = es
    | RxError # es \<Rightarrow> \<exists>e d r' vs'. LPUART_ReadBlocking L 1 vs r = Some (e, d, r', vs') \<and> e \<noteq> kStatus_Success \<and> rx_events L r' vs' = es"
proof -
  let ?seven = "seven_data_bits L (lu_CTRL r)"
  show ?thesis
    using wait_byte_events[OF assms, where seven = ?seven and vs = vs and r = r]
    by (cases "line_events L ?seven vs"; cases "hd (line_events L ?seven vs)")
      (auto simp: rx_events_def LPUART_ReadBlocking_def split: rx_event.splits)
qed

lemma map_rbind_pair:
  "(\<And>x y. map_sum id f (X x y) = Y x y) \<Longrightarrow> map_sum id f (rbind m (\<lambda>(x, y). X x y)) = rbind m (\<lambda>(x, y). Y x y)"
  by (cases m) auto

lemma receive_frame_loop:
  assumes "interrupt_bits_ok L" and "flag_bits_ok L"
  shows "map_sum id (to_frame_result L) (receive_frame L vs r buf len s) = frame_loop (rx_events L r vs) buf len s"
  using assms
proof (induction L vs r buf len s rule: receive_frame.induct)
  case (1 L vs r buf len s)
  show ?case
  proof (cases "rx_events L r vs")
    case Nil
    then show ?thesis using read_one[OF 1(2,3), where r = r and vs = vs] by (subst receive_frame.simps) simp
  next
    case (Cons e es)
    show ?thesis
    proof (cases e)
      case RxError
      then show ?thesis using Cons read_one[OF 1(2,3), where r = r and vs = vs] by (subst receive_frame.simps) auto
    next
      case (RxByte b)
      then obtain r' vs' where rd: "LPUART_ReadBlocking L 1 vs r = Some (kStatus_Success, [b], r', vs')" "rx_events L r' vs' = es"
        using Cons read_one[OF 1(2,3), where r = r and vs = vs] by auto
      have step: "map_sum id (to_frame_result L) (receive_frame L vs' r' buf' len' s) = frame_loop es buf' len' s"
        if "\<not> ModbusParamChanged (fst s)" "\<not> (8 \<le> len' \<and> len' = expected_length buf')" for buf' len'
        using 1(1)[OF rd(1) refl refl refl conjI[OF refl that(1)] that(2) 1(2,3)] unfolding rd(2) .
      show ?thesis
      proof (cases "ModbusParamChanged (fst s)")
        case True
        then show ?thesis using Cons RxByte rd by (subst receive_frame.simps) simp
      next
        case False
        let ?store = "if unat len < MODBUS_BUFFER_LENGTH then rbind (arr_set buf (unat len) b) (\<lambda>b. Inr (b, len + 1)) else Inr (buf, len)"
        let ?X = "\<lambda>buf' len'. if 8 \<le> len' \<and> len' = expected_length buf'
          then rbind (Modbus_HandleRequest buf' len' s) (\<lambda>s. Inr (LineReturned r' vs' s)) else receive_frame L vs' r' buf' len' s"
        let ?Y = "\<lambda>buf' len'. if 8 \<le> len' \<and> len' = expected_length buf'
          then rbind (Modbus_HandleRequest buf' len' s) (\<lambda>s. Inr (Returned es s)) else frame_loop es buf' len' s"
        have "map_sum id (to_frame_result L) (?X buf' len') = ?Y buf' len'" for buf' len'
        proof (cases "8 \<le> len' \<and> len' = expected_length buf'")
          case True
          have "map_sum id (to_frame_result L) (rbind (Modbus_HandleRequest buf' len' s) (\<lambda>s. Inr (LineReturned r' vs' s))) =
              rbind (Modbus_HandleRequest buf' len' s) (\<lambda>s. Inr (Returned es s))"
            using rd(2) by (cases "Modbus_HandleRequest buf' len' s") simp_all
          then show ?thesis unfolding if_P[OF True] .
        next
          case no: False
          from step[OF False no] show ?thesis unfolding if_not_P[OF no] .
        qed
        moreover have "receive_frame L vs r buf len s = rbind ?store (\<lambda>(buf', len'). ?X buf' len')"
          unfolding receive_frame.simps[of L vs r] rd(1) using False by (simp only: option.case prod.case list.sel simp_thms if_True)
        moreover have "frame_loop (rx_events L r vs) buf len s = rbind ?store (\<lambda>(buf', len'). ?Y buf' len')"
          unfolding Cons RxByte using False by (simp only: frame_loop.simps if_False)
        ultimately show ?thesis by (simp only: map_rbind_pair)
      qed
    qed
  qed
qed

text \<open>
  C11: The receiving loop on the registers of the UART refines the loop on events: whatever the registers show at each look, it ends
  with the same shared state and replies, or waits with the same buffer, as the loop on the bytes and errors that these looks amount to,
  and leaves exactly the events behind that it did not use.
\<close>

theorem receive_refines:
  assumes "interrupt_bits_ok L" and "flag_bits_ok L"
  shows "map_sum id (to_frame_result L) (HandleModbusFrame_line L vs r s) = HandleModbusFrame (rx_events L r vs) s"
  using receive_frame_loop[OF assms] by (simp only: HandleModbusFrame_line_def HandleModbusFrame_def)

theorem receive_refines_witness:
  "\<exists>r' vs'. HandleModbusFrame_line example_lpuart [view 0 0x00C00000 0, view 0 0x00C20000 0] reset_lpuart (init_globals, init_modbus) =
     Inr (LineReturned r' vs' (init_globals, init_modbus))"
proof -
  let ?vs = "[view 0 0x00C00000 0, view 0 0x00C20000 0]"
  have "rx_events example_lpuart reset_lpuart ?vs = [RxError]"
    by (simp add: rx_events_def view_def line_error_def fifo_masks[OF example_lpuart_ok(2)])
  then have m: "map_sum id (to_frame_result example_lpuart) (HandleModbusFrame_line example_lpuart ?vs reset_lpuart (init_globals, init_modbus)) =
      Inr (Returned [] (init_globals, init_modbus))"
    using receive_refines[OF example_lpuart_ok(1,2), of ?vs reset_lpuart "(init_globals, init_modbus)"] by (simp add: HandleModbusFrame_def)
  show ?thesis
  proof (cases "HandleModbusFrame_line example_lpuart ?vs reset_lpuart (init_globals, init_modbus)")
    case (Inr x)
    then show ?thesis using m by (cases x) simp_all
  qed (use m in simp)
qed

text \<open>The replies of a session, sent with the driver.\<close>

primrec send_frames :: "lpuart_layout \<Rightarrow> u8 list list \<Rightarrow> u32 list \<Rightarrow> lpuart \<times> u32 list \<Rightarrow> (lpuart \<times> u32 list \<times> u32 list) run" where
  "send_frames L [] stats s = Some (Inr (fst s, snd s, stats))"
| "send_frames L (f # fs) stats s =
     run_bind (LPUART_WriteBlocking L f (length f) stats s) (\<lambda>(status, r, sent, stats). send_frames L fs stats (r, sent))"

lemma send_frames_result:
  "send_frames L fs stats (r, sent) = Some out \<Longrightarrow> \<exists>r' rest. out = Inr (r', sent @ map ucast (concat fs), rest)"
proof (induction fs arbitrary: stats r sent)
  case (Cons f fs)
  show ?case
  proof (cases "LPUART_WriteBlocking L f (length f) stats (r, sent)")
    case None
    then show ?thesis using Cons.prems by simp
  next
    case (Some w)
    then obtain r1 rest1 where "w = Inr (kStatus_Success, r1, sent @ map ucast f, rest1)"
      using write_blocking_result[of "length f" f L stats r sent w] by auto
    then show ?thesis using Cons.IH[of rest1 r1 "sent @ map ucast f"] Cons.prems Some by auto
  qed
qed auto

lemma to_frame_result_Returned:
  "map_sum id (to_frame_result L) x = Inr (Returned es s) \<Longrightarrow> \<exists>r vs. x = Inr (LineReturned r vs s) \<and> rx_events L r vs = es"
  by (cases x; cases "projr x") auto

text \<open>
  C5: A request on the line, however its bytes are spread over the looks at the receiver: the call of \<open>HandleModbusFrame\<close> returns with the effect
  of the request on parameters and registers, leaves the line behind the frame untouched, and answers with at most one frame, which
  has a correct checksum; what the driver then writes to the data register is that frame, each byte once and in order.
\<close>

theorem request_on_the_line:
  assumes "interrupt_bits_ok L" and "flag_bits_ok L" and "arrays_ok g" and "regs_ok m" and "\<not> ModbusParamChanged g"
    and "8 \<le> length f" and "length f \<le> 256" and "length f = (if f ! 1 = 16 then 9 + unat (f ! 6) else 8)"
    and "rx_events L r vs = map RxByte f @ es"
  shows "\<exists>r' vs' fs. HandleModbusFrame_line L vs r (g, m) = Inr (LineReturned r' vs' (request_effect (padded f) (of_nat (length f)) g m)) \<and>
    rx_events L r' vs' = es \<and>
    uart_tx (snd (request_effect (padded f) (of_nat (length f)) g m)) = uart_tx m @ fs \<and> length fs \<le> 1 \<and> list_all valid_reply fs \<and>
    (\<forall>stats sent out. send_frames L fs stats (r', sent) = Some out \<longrightarrow> (\<exists>r'' rest. out = Inr (r'', sent @ map ucast (concat fs), rest)))"
proof -
  have fl: "length f = frame_length f" using assms(6,8) by (simp add: frame_length_def)
  have "HandleModbusFrame (rx_events L r vs) (g, m) =
      rbind (Modbus_HandleRequest (padded f) (of_nat (length f)) (g, m)) (\<lambda>s. Inr (Returned es s))"
    unfolding assms(9) using HandleModbusFrame_frame[of "(g, m)" f es] assms(5-7) fl by simp
  also have "Modbus_HandleRequest (padded f) (of_nat (length f)) (g, m) = Inr (request_effect (padded f) (of_nat (length f)) g m)"
    using request_effect[OF assms(3,4), of "padded f" "of_nat (length f)"] assms(7) by simp
  finally have "map_sum id (to_frame_result L) (HandleModbusFrame_line L vs r (g, m)) =
      Inr (Returned es (request_effect (padded f) (of_nat (length f)) g m))"
    using receive_frame_loop[OF assms(1,2)] by (simp add: HandleModbusFrame_line_def HandleModbusFrame_def)
  then obtain r' vs' where "HandleModbusFrame_line L vs r (g, m) = Inr (LineReturned r' vs' (request_effect (padded f) (of_nat (length f)) g m))"
    "rx_events L r' vs' = es" using to_frame_result_Returned by blast
  moreover obtain fs where "uart_tx (snd (request_effect (padded f) (of_nat (length f)) g m)) = uart_tx m @ fs" "length fs \<le> 1"
    "list_all valid_reply fs"
    using request_effect_reply[of "padded f" "of_nat (length f)" g m] assms(7) by auto
  ultimately show ?thesis using send_frames_result by blast
qed

text \<open>A read of the first register, its bytes in the FIFO at eight looks in a row.\<close>

theorem request_on_the_line_witness:
  "\<exists>r' vs'. HandleModbusFrame_line example_lpuart (map (\<lambda>b. view 0x01000000 0x00E00000 (ucast b)) [1, 3, 0, 0, 0, 1, 0x84, 0x0A :: u8])
     reset_lpuart (init_globals, init_modbus) =
     Inr (LineReturned r' vs' (request_effect (padded [1, 3, 0, 0, 0, 1, 0x84, 0x0A]) 8 init_globals init_modbus))"
proof -
  let ?f = "[1, 3, 0, 0, 0, 1, 0x84, 0x0A] :: u8 list"
  let ?vs = "map (\<lambda>b. view 0x01000000 0x00E00000 (ucast b)) ?f"
  have count: "fget (WATER_RXCOUNT example_lpuart) 0x01000000 = 1"
    by (simp add: example_lpuart_def fget_def fmask_def mask_eq_exp_minus_1 drop_bit_eq_div)
  have "rx_events example_lpuart reset_lpuart ?vs = map RxByte ?f @ []"
    by (simp add: rx_events_def view_def count seven_data_bits_def reset_lpuart_def)
  from request_on_the_line[OF example_lpuart_ok(1,2) _ _ _ _ _ _ this, of init_globals init_modbus]
  show ?thesis by auto
qed

text \<open>
  C39: A disturbed frame: a line error at any point before the frame is complete, that is, after fewer than eight bytes, or in a write of several registers after
  fewer bytes than it announces, or any number if it announces more than the buffer holds. The call returns, nothing has changed and nothing is answered, the bytes
  are forgotten, and the next call starts a frame with whatever follows, so that the rest of the disturbed frame is taken for a new one.
\<close>

theorem line_error_drops_frame:
  assumes "interrupt_bits_ok L" and "flag_bits_ok L" and "\<not> ModbusParamChanged (fst s)" and "unfinished p"
    and "rx_events L r vs = map RxByte p @ RxError # es"
  shows "\<exists>r' vs'. HandleModbusFrame_line L vs r s = Inr (LineReturned r' vs' s) \<and> rx_events L r' vs' = es \<and>
    map_sum id (to_frame_result L) (HandleModbusFrame_line L vs' r' s) = HandleModbusFrame es s"
proof -
  have "HandleModbusFrame (rx_events L r vs) s = Inr (Returned es s)"
    unfolding assms(5) by (rule unfinished_error[OF assms(3,4)])
  then have "map_sum id (to_frame_result L) (HandleModbusFrame_line L vs r s) = Inr (Returned es s)"
    using receive_frame_loop[OF assms(1,2)] by (simp add: HandleModbusFrame_line_def HandleModbusFrame_def)
  then obtain r' vs' where "HandleModbusFrame_line L vs r s = Inr (LineReturned r' vs' s)" "rx_events L r' vs' = es"
    using to_frame_result_Returned by blast
  then show ?thesis
    using receive_frame_loop[OF assms(1,2)] by (auto simp: HandleModbusFrame_line_def HandleModbusFrame_def)
qed

text \<open>An error on the tenth byte of a write of one register, which has eleven.\<close>

theorem line_error_drops_frame_witness:
  "\<exists>r' vs'. HandleModbusFrame_line example_lpuart
      (map (view 0x01000000 0x00E00000) [1, 16, 0, 5, 0, 1, 2, 0, 9] @ [view 0 0x00C20000 0]) reset_lpuart (init_globals, init_modbus) =
     Inr (LineReturned r' vs' (init_globals, init_modbus))"
proof -
  have count: "fget (WATER_RXCOUNT example_lpuart) 0x01000000 = 1"
    by (simp add: example_lpuart_def fget_def fmask_def mask_eq_exp_minus_1 drop_bit_eq_div)
  have "rx_events example_lpuart reset_lpuart
      (map (view 0x01000000 0x00E00000) [1, 16, 0, 5, 0, 1, 2, 0, 9] @ [view 0 0x00C20000 0]) =
      map RxByte [1, 16, 0, 5, 0, 1, 2, 0, 9] @ RxError # []"
    by (simp add: rx_events_def view_def line_error_def count seven_data_bits_def reset_lpuart_def fifo_masks[OF example_lpuart_ok(2)])
  from line_error_drops_frame[OF example_lpuart_ok(1,2) _ _ this, of "(init_globals, init_modbus)"]
  show ?thesis by (auto simp: unfinished_def)
qed

end
