(* ===== verification/Console_Port.thy ===== *)
theory Console_Port
  imports Console Modbus_Line
begin

text \<open>
  The debug console on its UART: the adapter \<open>fsl_adapter_lpuart.c\<close> in its blocking configuration, the functions of
  \<open>debug_console_lite/fsl_debug_console.c\<close> that send and receive, and the set-up by \<open>BOARD_InitDebugConsole\<close> of \<open>board.c\<close>. The UARTs of the device
  are a function of their number.
\<close>

section \<open>The adapter\<close>

datatype hal_uart_status =
    kStatus_HAL_UartSuccess
  | kStatus_HAL_UartTxBusy
  | kStatus_HAL_UartRxBusy
  | kStatus_HAL_UartTxIdle
  | kStatus_HAL_UartRxIdle
  | kStatus_HAL_UartBaudrateNotSupport
  | kStatus_HAL_UartProtocolError
  | kStatus_HAL_UartError

record hal_uart_config =
  hal_srcClock_Hz :: u32
  hal_baudRate_Bps :: u32
  hal_parityMode :: lpuart_parity_mode
  hal_stopBitCount :: lpuart_stop_bit_count
  hal_enableRx :: u8
  hal_enableTx :: u8
  hal_enableRxRTS :: u8
  hal_enableTxCTS :: u8
  hal_instance :: nat
  hal_txFifoWatermark :: u8
  hal_rxFifoWatermark :: u8

text \<open>A UART with the selection register of its LP_FLEXCOMM and the words written to its data register; all UARTs and the calls made.\<close>

record uart_unit =
  uu_regs :: lpuart
  uu_pselid :: u32
  uu_sent :: "u32 list"

type_synonym uarts = "(nat \<Rightarrow> uart_unit) \<times> sys_call list"

definition HAL_UartGetStatus :: "lpuart_status \<Rightarrow> hal_uart_status" where
  "HAL_UartGetStatus status = (if status = kStatus_Success then kStatus_HAL_UartSuccess else kStatus_HAL_UartError)"

definition fifo_watermark :: "u8 \<Rightarrow> u8 \<Rightarrow> u8" where
  "fifo_watermark wanted preset = (if wanted > 0 then min wanted 8 - 1 else preset)"

definition HAL_UartInitCommon :: "lpuart_layout \<Rightarrow> lpuart \<Rightarrow> hal_uart_config \<Rightarrow> uarts \<Rightarrow> (hal_uart_status \<times> uarts) res" where
  "HAL_UartInitCommon L reset uart_config u =
     (let (units, calls) = u;
          n = hal_instance uart_config;
          c = LPUART_GetDefaultConfig;
          c = c\<lparr>baudRate_Bps := hal_baudRate_Bps uart_config\<rparr>;
          c = c\<lparr>parityMode := hal_parityMode uart_config\<rparr>;
          c = c\<lparr>stopBitCount := hal_stopBitCount uart_config\<rparr>;
          c = c\<lparr>enableRx := (hal_enableRx uart_config \<noteq> 0)\<rparr>;
          c = c\<lparr>enableTx := (hal_enableTx uart_config \<noteq> 0)\<rparr>;
          c = c\<lparr>txFifoWatermark := fifo_watermark (hal_txFifoWatermark uart_config) (txFifoWatermark c)\<rparr>;
          c = c\<lparr>rxFifoWatermark := fifo_watermark (hal_rxFifoWatermark uart_config) (rxFifoWatermark c)\<rparr>;
          c = c\<lparr>enableRxRTS := (hal_enableRxRTS uart_config \<noteq> 0)\<rparr>;
          c = c\<lparr>enableTxCTS := (hal_enableTxCTS uart_config \<noteq> 0)\<rparr>;
          c = c\<lparr>rxIdleType := kLPUART_IdleTypeStopBit\<rparr>;
          c = c\<lparr>rxIdleConfig := kLPUART_IdleCharacter2\<rparr>
      in rbind (LPUART_Init L reset n c (hal_srcClock_Hz uart_config) (uu_regs (units n), uu_pselid (units n), calls))
           (\<lambda>(status, r, pselid, calls).
              Inr (if status \<noteq> kStatus_Success then HAL_UartGetStatus status else kStatus_HAL_UartSuccess,
                   units(n := (units n)\<lparr>uu_regs := r, uu_pselid := pselid\<rparr>), calls)))"

text \<open>The handle of the adapter holds the number of the UART, and only after a success; \<open>instances\<close> is how many the device has.\<close>

definition HAL_UartInit ::
  "lpuart_layout \<Rightarrow> lpuart \<Rightarrow> nat \<Rightarrow> hal_uart_config \<Rightarrow> nat \<times> uarts \<Rightarrow> (hal_uart_status \<times> nat \<times> uarts) res" where
  "HAL_UartInit L reset instances uart_config s =
     (if \<not> hal_instance uart_config < instances then Inl AssertFailed
      else
        rbind (HAL_UartInitCommon L reset uart_config (snd s)) (\<lambda>(status, u).
          Inr (status, if status = kStatus_HAL_UartSuccess then hal_instance uart_config else fst s, u)))"

text \<open>The polled words of the status register, and the looks at the receiver, are those of the UART in the handle.\<close>

definition HAL_UartSendBlocking ::
  "lpuart_layout \<Rightarrow> nat \<Rightarrow> u8 list \<Rightarrow> nat \<Rightarrow> u32 list \<Rightarrow> uarts \<Rightarrow> (hal_uart_status \<times> uarts \<times> u32 list) run" where
  "HAL_UartSendBlocking L handle data len stats u =
     (if \<not> len > 0 then Some (Inl AssertFailed)
      else
        run_bind (LPUART_WriteBlocking L data len stats (uu_regs (fst u handle), uu_sent (fst u handle))) (\<lambda>(status, r, sent, stats).
          Some (Inr (kStatus_HAL_UartSuccess, ((fst u)(handle := (fst u handle)\<lparr>uu_regs := r, uu_sent := sent\<rparr>), snd u), stats))))"

definition HAL_UartReceiveBlocking ::
  "lpuart_layout \<Rightarrow> nat \<Rightarrow> nat \<Rightarrow> line_view list \<Rightarrow> uarts \<Rightarrow> (hal_uart_status \<times> u8 list \<times> uarts \<times> line_view list) run" where
  "HAL_UartReceiveBlocking L handle len vs u =
     (if \<not> len > 0 then Some (Inl AssertFailed)
      else
        case LPUART_ReadBlocking L len vs (uu_regs (fst u handle)) of
          None \<Rightarrow> None
        | Some (status, data, r, vs) \<Rightarrow>
            Some (Inr (HAL_UartGetStatus status, data, ((fst u)(handle := (fst u handle)\<lparr>uu_regs := r\<rparr>), snd u), vs)))"

definition HAL_UartDeinit ::
  "lpuart_layout \<Rightarrow> nat \<Rightarrow> u32 list \<Rightarrow> u32 list \<Rightarrow> uarts \<Rightarrow> (hal_uart_status \<times> uarts) option" where
  "HAL_UartDeinit L handle waters stats u =
     (case LPUART_Deinit L handle waters stats (uu_regs (fst u handle), uu_pselid (fst u handle), snd u) of
        None \<Rightarrow> None
      | Some (r, pselid, calls) \<Rightarrow>
          Some (kStatus_HAL_UartSuccess, (fst u)(handle := (fst u handle)\<lparr>uu_regs := r, uu_pselid := pselid\<rparr>), calls))"

section \<open>The console\<close>

datatype serial_port_type =
    kSerialPort_None | kSerialPort_Uart | kSerialPort_UsbCdc | kSerialPort_Swo | kSerialPort_Virtual | kSerialPort_Rpmsg
  | kSerialPort_UartDma | kSerialPort_SpiMaster | kSerialPort_SpiSlave

text \<open>The state of the console: the kind of its port, the handle of the adapter, the UARTs. The function pointers are those of the adapter.\<close>

record console =
  serial_port :: serial_port_type
  uartHandle :: nat
  con_uarts :: uarts

definition DbgConsole_Init ::
  "lpuart_layout \<Rightarrow> lpuart \<Rightarrow> nat \<Rightarrow> nat \<Rightarrow> u32 \<Rightarrow> serial_port_type \<Rightarrow> u32 \<Rightarrow> console \<Rightarrow> (lpuart_status \<times> console) res" where
  "DbgConsole_Init L reset instances n baudRate device clkSrcFreq con =
     (if kSerialPort_Uart \<noteq> device then Inr (kStatus_Fail, con)
      else
        let con = con\<lparr>serial_port := device\<rparr>;
            usrtConfig =
              \<lparr>hal_srcClock_Hz = clkSrcFreq, hal_baudRate_Bps = baudRate, hal_parityMode = kLPUART_ParityDisabled,
               hal_stopBitCount = kLPUART_OneStopBit, hal_enableRx = 1, hal_enableTx = 1, hal_enableRxRTS = 0, hal_enableTxCTS = 0,
               hal_instance = n, hal_txFifoWatermark = 0, hal_rxFifoWatermark = 0\<rparr>
        in rbind (HAL_UartInit L reset instances usrtConfig (uartHandle con, con_uarts con)) (\<lambda>(_, h, u).
           Inr (kStatus_Success, con\<lparr>uartHandle := h, con_uarts := u\<rparr>)))"

definition DbgConsole_Deinit :: "lpuart_layout \<Rightarrow> u32 list \<Rightarrow> u32 list \<Rightarrow> console \<Rightarrow> (lpuart_status \<times> console) option" where
  "DbgConsole_Deinit L waters stats con =
     (if serial_port con = kSerialPort_None then Some (kStatus_Success, con)
      else
        case HAL_UartDeinit L (uartHandle con) waters stats (con_uarts con) of
          None \<Rightarrow> None
        | Some (_, u) \<Rightarrow> Some (kStatus_Success, con\<lparr>con_uarts := u, serial_port := kSerialPort_None\<rparr>))"

definition DbgConsole_Putchar :: "lpuart_layout \<Rightarrow> c_int \<Rightarrow> u32 list \<times> console \<Rightarrow> (c_int \<times> u32 list \<times> console) run" where
  "DbgConsole_Putchar L dbgConsoleCh s =
     (let (stats, con) = s
      in if serial_port con = kSerialPort_None then Some (Inr (- 1, stats, con))
         else run_bind (HAL_UartSendBlocking L (uartHandle con) [ucast dbgConsoleCh] 1 stats (con_uarts con)) (\<lambda>(_, u, stats).
              Some (Inr (1, stats, con\<lparr>con_uarts := u\<rparr>))))"

primrec put_characters :: "lpuart_layout \<Rightarrow> u8 list \<Rightarrow> u32 list \<times> console \<Rightarrow> (u32 list \<times> console) run" where
  "put_characters L [] s = Some (Inr s)"
| "put_characters L (c # cs) s = run_bind (DbgConsole_Putchar L (ucast c) s) (\<lambda>(_, s). put_characters L cs s)"

text \<open>The characters of the format are sent as they are produced; here they are all produced first. What is printed before a fault is not kept.\<close>

definition DbgConsole_Vprintf ::
  "lpuart_layout \<Rightarrow> u8 list \<Rightarrow> u8 list \<Rightarrow> printf_arg list \<Rightarrow> u32 list \<times> console \<Rightarrow> (c_int \<times> u32 list \<times> console) run" where
  "DbgConsole_Vprintf L stack fmt args s =
     (if serial_port (snd s) = kSerialPort_None then Some (Inr (- 1, s))
      else
        run_bind (DbgConsole_PrintfFormattedData stack fmt args) (\<lambda>(cs, n).
        run_bind (put_characters L cs s) (\<lambda>s. Some (Inr (of_nat n, s)))))"

definition DbgConsole_Printf ::
  "lpuart_layout \<Rightarrow> u8 list \<Rightarrow> u8 list \<Rightarrow> printf_arg list \<Rightarrow> u32 list \<times> console \<Rightarrow> (c_int \<times> u32 list \<times> console) run" where
  "DbgConsole_Printf L stack fmt args s = DbgConsole_Vprintf L stack fmt args s"

text \<open>A character of this processor is unsigned.\<close>

definition DbgConsole_Getchar :: "lpuart_layout \<Rightarrow> line_view list \<times> console \<Rightarrow> (c_int \<times> line_view list \<times> console) run" where
  "DbgConsole_Getchar L s =
     (let (vs, con) = s
      in if serial_port con = kSerialPort_None then Some (Inr (- 1, vs, con))
         else run_bind (HAL_UartReceiveBlocking L (uartHandle con) 1 vs (con_uarts con)) (\<lambda>(status, data, u, vs).
              Some (Inr (if status \<noteq> kStatus_HAL_UartSuccess then - 1 else ucast (hd data), vs, con\<lparr>con_uarts := u\<rparr>))))"

definition BOARD_DEBUG_UART_INSTANCE :: nat where
  "BOARD_DEBUG_UART_INSTANCE = 4"

definition BOARD_DEBUG_UART_TYPE :: serial_port_type where
  "BOARD_DEBUG_UART_TYPE = kSerialPort_Uart"

definition BOARD_DEBUG_UART_CLK_FREQ :: u32 where
  "BOARD_DEBUG_UART_CLK_FREQ = 12000000"

definition BOARD_InitDebugConsole :: "lpuart_layout \<Rightarrow> lpuart \<Rightarrow> nat \<Rightarrow> console \<Rightarrow> console res" where
  "BOARD_InitDebugConsole L reset instances con =
     (let (units, calls) = con_uarts con;
          calls = calls @ [CLOCK_AttachClk BOARD_DEBUG_UART_CLK_ATTACH];
          calls = calls @ [RESET_ClearPeripheralReset (FLEXCOMM 4)];
          uartClkSrcFreq = BOARD_DEBUG_UART_CLK_FREQ
      in rbind (DbgConsole_Init L reset instances BOARD_DEBUG_UART_INSTANCE BOARD_DEBUG_UART_BAUDRATE BOARD_DEBUG_UART_TYPE uartClkSrcFreq
                  (con\<lparr>con_uarts := (units, calls)\<rparr>)) (\<lambda>(_, con). Inr con))"

section \<open>The set-up\<close>

definition console_config :: lpuart_config where
  "console_config = LPUART_GetDefaultConfig\<lparr>baudRate_Bps := 115200, enableRx := True, enableTx := True,
     rxIdleType := kLPUART_IdleTypeStopBit, rxIdleConfig := kLPUART_IdleCharacter2\<rparr>"

lemma console_config: "baudRate_Bps console_config = 115200" "txFifoWatermark console_config < 8" "rxFifoWatermark console_config < 8"
  "enableTx console_config" "enableRx console_config" "parityMode console_config = kLPUART_ParityDisabled"
  "stopBitCount console_config = kLPUART_OneStopBit"
  by (simp_all add: console_config_def LPUART_GetDefaultConfig_def Let_def)

text \<open>What the console makes of the result of the driver.\<close>

lemma DbgConsole_Init_eq:
  assumes "n < instances" and "con_uarts con = (units, calls)"
  shows "DbgConsole_Init L reset instances n (baudRate_Bps console_config) kSerialPort_Uart clk con =
    rbind (LPUART_Init L reset n console_config clk (uu_regs (units n), uu_pselid (units n), calls)) (\<lambda>(status, r, pselid, calls).
      Inr (kStatus_Success, con\<lparr>serial_port := kSerialPort_Uart, uartHandle := (if status = kStatus_Success then n else uartHandle con),
        con_uarts := (units(n := (units n)\<lparr>uu_regs := r, uu_pselid := pselid\<rparr>), calls)\<rparr>))"
proof -
  have c: "LPUART_GetDefaultConfig\<lparr>baudRate_Bps := 115200, parityMode := kLPUART_ParityDisabled, stopBitCount := kLPUART_OneStopBit,
      enableRx := True, enableTx := True, enableRxRTS := False, enableTxCTS := False,
      rxIdleType := kLPUART_IdleTypeStopBit, rxIdleConfig := kLPUART_IdleCharacter2\<rparr> = console_config"
    by (simp add: console_config_def LPUART_GetDefaultConfig_def Let_def)
  have b: "(if a then False else True) = (\<not> a)" for a by simp
  show ?thesis
    using assms
    by (simp add: DbgConsole_Init_def HAL_UartInit_def HAL_UartInitCommon_def Let_def fifo_watermark_def console_config(1) c b
        HAL_UartGetStatus_def rbind_assoc case_prod_unfold if_distrib[where f = "\<lambda>x. x = kStatus_HAL_UartSuccess"] cong: if_cong)
qed

text \<open>
  The console after \<open>BOARD_InitDebugConsole\<close>: its UART, number 4, is selected, clocked and out of reset, at 115384 baud without parity with one
  stop bit, transmitter and receiver on, the console is open on it, and the other UARTs are not touched.
\<close>

theorem console_ready:
  assumes "interrupt_bits_ok L" and "baud_bits_ok L" and "reset_state_ok L reset" and "4 < instances" and "con_uarts con = (units, calls)"
    and "bit (uu_pselid (units 4)) 4" and "\<not> bit (uu_pselid (units 4)) 3"
  shows "\<exists>r'. BOARD_InitDebugConsole L reset instances con =
      Inr (con\<lparr>serial_port := kSerialPort_Uart, uartHandle := 4,
        con_uarts := (units(4 := (units 4)\<lparr>uu_regs := r', uu_pselid := write_PSELID L 1 (uu_pselid (units 4))\<rparr>),
          calls @ [CLOCK_AttachClk BOARD_DEBUG_UART_CLK_ATTACH, RESET_ClearPeripheralReset (FLEXCOMM 4),
            CLOCK_EnableClock (FLEXCOMM 4), RESET_ClearPeripheralReset (FLEXCOMM 4)])\<rparr>) \<and>
    unat (fget (BAUD_OSR L) (lu_BAUD r')) = 25 \<and> unat (fget (BAUD_SBR L) (lu_BAUD r')) = 4 \<and> fget (BAUD_SBNS L) (lu_BAUD r') = 0 \<and>
    fget (CTRL_TE L) (lu_CTRL r') = 1 \<and> fget (CTRL_RE L) (lu_CTRL r') = 1 \<and> fget (CTRL_PE L) (lu_CTRL r') = 0"
proof -
  let ?calls = "calls @ [CLOCK_AttachClk BOARD_DEBUG_UART_CLK_ATTACH, RESET_ClearPeripheralReset (FLEXCOMM 4)]"
  have "baud_in_range (unat (12000000 :: u32)) (unat (baudRate_Bps console_config))" by (simp add: baud_in_range_def console_config)
  moreover have "deviation 12000000 115200 26 = 184" "nearest_sbr 12000000 115200 26 = 4" by (simp_all add: deviation_def nearest_sbr_def)
  ultimately obtain r' where i: "LPUART_Init L reset 4 console_config 12000000 (uu_regs (units 4), uu_pselid (units 4), ?calls) =
      Inr (kStatus_Success, r', write_PSELID L 1 (uu_pselid (units 4)),
        ?calls @ [CLOCK_EnableClock (FLEXCOMM 4), RESET_ClearPeripheralReset (FLEXCOMM 4)])"
    and p: "line_programmed L console_config 26 4 r'"
    using init_outcome[OF assms(1-3) _ console_config(2,3) assms(6,7), where src = 12000000 and n = 4 and r = "uu_regs (units 4)" and calls = ?calls]
    by (auto simp: console_config(1) best_osr_modbus)
  have "BOARD_InitDebugConsole L reset instances con =
      rbind (DbgConsole_Init L reset instances 4 (baudRate_Bps console_config) kSerialPort_Uart 12000000 (con\<lparr>con_uarts := (units, ?calls)\<rparr>))
        (\<lambda>(_, con). Inr con)"
    using assms(5) by (simp add: BOARD_InitDebugConsole_def Let_def BOARD_DEBUG_UART_INSTANCE_def BOARD_DEBUG_UART_BAUDRATE_def
        BOARD_DEBUG_UART_TYPE_def BOARD_DEBUG_UART_CLK_FREQ_def console_config(1))
  also have "DbgConsole_Init L reset instances 4 (baudRate_Bps console_config) kSerialPort_Uart 12000000 (con\<lparr>con_uarts := (units, ?calls)\<rparr>) =
      Inr (kStatus_Success, con\<lparr>serial_port := kSerialPort_Uart, uartHandle := 4,
        con_uarts := (units(4 := (units 4)\<lparr>uu_regs := r', uu_pselid := write_PSELID L 1 (uu_pselid (units 4))\<rparr>),
          ?calls @ [CLOCK_EnableClock (FLEXCOMM 4), RESET_ClearPeripheralReset (FLEXCOMM 4)])\<rparr>)"
    using DbgConsole_Init_eq[OF assms(4), of "con\<lparr>con_uarts := (units, ?calls)\<rparr>" units ?calls L reset 12000000] i by simp
  finally have "BOARD_InitDebugConsole L reset instances con =
      Inr (con\<lparr>serial_port := kSerialPort_Uart, uartHandle := 4,
        con_uarts := (units(4 := (units 4)\<lparr>uu_regs := r', uu_pselid := write_PSELID L 1 (uu_pselid (units 4))\<rparr>),
          ?calls @ [CLOCK_EnableClock (FLEXCOMM 4), RESET_ClearPeripheralReset (FLEXCOMM 4)])\<rparr>)" by simp
  then show ?thesis
    using p by (intro exI[of _ r']) (simp add: line_programmed_def console_config)
qed

definition closed_console :: console where
  "closed_console =
    \<lparr>serial_port = kSerialPort_None, uartHandle = 0,
     con_uarts = (\<lambda>_. \<lparr>uu_regs = reset_lpuart, uu_pselid = 0x10, uu_sent = []\<rparr>, [])\<rparr>"

theorem console_ready_witness:
  "\<exists>con. BOARD_InitDebugConsole example_lpuart reset_lpuart 10 closed_console = Inr con \<and> serial_port con = kSerialPort_Uart \<and> uartHandle con = 4"
proof -
  let ?units = "\<lambda>_ :: nat. \<lparr>uu_regs = reset_lpuart, uu_pselid = 0x10, uu_sent = []\<rparr>"
  have "con_uarts closed_console = (?units, [])" "bit (uu_pselid (?units 4)) 4" "\<not> bit (uu_pselid (?units 4)) 3"
    by (simp_all add: closed_console_def)
  from console_ready[OF example_lpuart_ok(1,3) example_reset_ok _ this, of 10] show ?thesis by auto
qed

text \<open>
  The console with a UART that refuses: for a rate that no divider reaches within three percent, \<open>DbgConsole_Init\<close> reports success all the same and
  opens the console, and what is printed then goes to the UART whose number was in the handle before, which is number 0 after the
  start: the UART asked for is not set up and nothing has been touched.
\<close>

theorem console_init_unchecked:
  assumes "interrupt_bits_ok L" and "baud_bits_ok L" and "reset_state_ok L reset" and "n < instances" and "con_uarts con = (units, calls)"
    and "bit (uu_pselid (units n)) 4" and "\<not> bit (uu_pselid (units n)) 3" and "baud_in_range (unat clk) 115200"
    and "\<forall>osr. 4 \<le> osr \<and> osr \<le> 32 \<longrightarrow> 3456 < deviation (unat clk) 115200 osr"
  shows "DbgConsole_Init L reset instances n 115200 kSerialPort_Uart clk con = Inr (kStatus_Success, con\<lparr>serial_port := kSerialPort_Uart\<rparr>)"
proof -
  have r: "baud_in_range (unat clk) (unat (baudRate_Bps console_config))" using assms(8) by (simp add: console_config)
  let ?init = "LPUART_Init L reset n console_config clk (uu_regs (units n), uu_pselid (units n), calls)"
  have "\<exists>osr. best_osr (unat clk) (unat (baudRate_Bps console_config)) 33 osr \<and>
      (unat (baudRate_Bps console_config) div 100 * 3 < deviation (unat clk) (unat (baudRate_Bps console_config)) osr \<longrightarrow>
        ?init = Inr (kStatus_LPUART_BaudrateNotSupport, uu_regs (units n), uu_pselid (units n), calls))"
    using init_outcome[OF assms(1-3) r console_config(2,3) assms(6,7), where n = n and r = "uu_regs (units n)" and calls = calls]
    by (elim exE conjE) (rule exI, rule conjI, assumption, simp)
  then obtain osr where b: "best_osr (unat clk) (unat (baudRate_Bps console_config)) 33 osr" and
    i: "unat (baudRate_Bps console_config) div 100 * 3 < deviation (unat clk) (unat (baudRate_Bps console_config)) osr \<longrightarrow>
        ?init = Inr (kStatus_LPUART_BaudrateNotSupport, uu_regs (units n), uu_pselid (units n), calls)" by blast
  from b have "4 \<le> osr" "osr \<le> 32" by (simp_all add: best_osr_def)
  then have "unat (baudRate_Bps console_config) div 100 * 3 < deviation (unat clk) (unat (baudRate_Bps console_config)) osr"
    using assms(9) by (simp add: console_config(1))
  with i have "?init = Inr (kStatus_LPUART_BaudrateNotSupport, uu_regs (units n), uu_pselid (units n), calls)" by blast
  moreover have "con\<lparr>serial_port := kSerialPort_Uart, con_uarts := (units, calls)\<rparr> = con\<lparr>serial_port := kSerialPort_Uart\<rparr>"
    using assms(5) by simp
  ultimately show ?thesis
    using DbgConsole_Init_eq[OF assms(4,5), of L reset clk] by (simp add: console_config(1))
qed

text \<open>A clock of 300 kHz.\<close>

theorem console_init_unchecked_witness:
  "DbgConsole_Init example_lpuart reset_lpuart 10 4 115200 kSerialPort_Uart 300000 closed_console =
     Inr (kStatus_Success, closed_console\<lparr>serial_port := kSerialPort_Uart\<rparr>)"
proof -
  let ?units = "\<lambda>_ :: nat. \<lparr>uu_regs = reset_lpuart, uu_pselid = 0x10, uu_sent = []\<rparr>"
  have u: "con_uarts closed_console = (?units, [])" "bit (uu_pselid (?units 4)) 4" "\<not> bit (uu_pselid (?units 4)) 3"
    by (simp_all add: closed_console_def)
  have range: "baud_in_range (unat (300000 :: u32)) 115200" by (simp add: baud_in_range_def)
  have "list_all (\<lambda>k. 3456 < deviation 300000 115200 k) [4..<33]"
    by (simp add: upt_conv_Cons deviation_def nearest_sbr_def Let_def)
  then have "\<forall>k \<in> {4..<33}. 3456 < deviation 300000 115200 k" by (simp only: list_all_iff set_upt)
  then have "\<forall>osr. 4 \<le> osr \<and> osr \<le> 32 \<longrightarrow> 3456 < deviation (unat (300000 :: u32)) 115200 osr" by auto
  from console_init_unchecked[OF example_lpuart_ok(1,3) example_reset_ok _ u range this] show ?thesis by simp
qed

section \<open>Output and input\<close>

text \<open>One character on an open console.\<close>

definition sent_by :: "nat \<Rightarrow> console \<Rightarrow> u32 list" where
  "sent_by n con = uu_sent (fst (con_uarts con) n)"

lemma putchar_result:
  fixes c :: u8
  assumes "serial_port con \<noteq> kSerialPort_None" and "DbgConsole_Putchar L (ucast c) (stats, con) = Some out"
  shows "\<exists>stats' con'. out = Inr (1, stats', con') \<and> serial_port con' = serial_port con \<and> uartHandle con' = uartHandle con \<and>
    sent_by (uartHandle con) con' = sent_by (uartHandle con) con @ [ucast c] \<and> (\<forall>n. n \<noteq> uartHandle con \<longrightarrow> fst (con_uarts con') n = fst (con_uarts con) n)"
proof -
  let ?u = "fst (con_uarts con) (uartHandle con)"
  have u: "ucast (ucast c :: c_int) = c" for c :: u8 by (rule bit_word_eqI) (auto simp: bit_simps dest: bit_imp_le_length)
  show ?thesis
  proof (cases "LPUART_WriteBlocking L [c] 1 stats (uu_regs ?u, uu_sent ?u)")
    case None
    then show ?thesis using assms by (simp add: DbgConsole_Putchar_def HAL_UartSendBlocking_def u)
  next
    case (Some w)
    then obtain r' rest where "w = Inr (kStatus_Success, r', uu_sent ?u @ [ucast c], rest)"
      using write_blocking_result[of 1 "[c]" L stats "uu_regs ?u" "uu_sent ?u" w] by auto
    then show ?thesis
      using assms Some by (auto simp: DbgConsole_Putchar_def HAL_UartSendBlocking_def u sent_by_def)
  qed
qed

lemma put_characters_result:
  assumes "serial_port con \<noteq> kSerialPort_None" and "put_characters L cs (stats, con) = Some out"
  shows "\<exists>stats' con'. out = Inr (stats', con') \<and> serial_port con' = serial_port con \<and> uartHandle con' = uartHandle con \<and>
    sent_by (uartHandle con) con' = sent_by (uartHandle con) con @ map ucast cs \<and>
    (\<forall>n. n \<noteq> uartHandle con \<longrightarrow> fst (con_uarts con') n = fst (con_uarts con) n)"
  using assms
proof (induction cs arbitrary: stats con)
  case (Cons c cs)
  from Cons.prems(2) obtain w where "DbgConsole_Putchar L (ucast c) (stats, con) = Some w"
    by (cases "DbgConsole_Putchar L (ucast c) (stats, con)") auto
  moreover from putchar_result[OF Cons.prems(1) this] obtain stats1 con1 where
    w: "w = Inr (1, stats1, con1)" "serial_port con1 = serial_port con" "uartHandle con1 = uartHandle con"
      "sent_by (uartHandle con) con1 = sent_by (uartHandle con) con @ [ucast c]"
      "\<forall>n. n \<noteq> uartHandle con \<longrightarrow> fst (con_uarts con1) n = fst (con_uarts con) n" by blast
  ultimately have "put_characters L cs (stats1, con1) = Some out" using Cons.prems(2) by simp
  from Cons.IH[OF _ this] Cons.prems(1) w show ?case by auto
qed auto

text \<open>A transmitter that has always room and nothing left to send.\<close>

definition transmitter_ready :: "lpuart_layout \<Rightarrow> u32 \<Rightarrow> bool" where
  "transmitter_ready L w \<longleftrightarrow> w AND fmask (STAT_TDRE L) \<noteq> 0 \<and> w AND fmask (STAT_TC L) \<noteq> 0"

lemma put_characters_ready:
  assumes "transmitter_ready L w" and "serial_port con \<noteq> kSerialPort_None"
  shows "\<exists>con'. put_characters L cs (replicate (2 * length cs) w @ rest, con) = Some (Inr (rest, con'))"
  using assms(2)
proof (induction cs arbitrary: con)
  case (Cons c cs)
  let ?more = "replicate (2 * length cs) w @ rest"
  have r: "replicate (2 * length (c # cs)) w @ rest = w # w # ?more" by simp
  obtain con1 where p: "DbgConsole_Putchar L (ucast c) (w # w # ?more, con) = Some (Inr (1, ?more, con1))"
    "serial_port con1 = serial_port con"
    using assms(1) Cons.prems by (simp add: DbgConsole_Putchar_def HAL_UartSendBlocking_def LPUART_WriteBlocking_def transmitter_ready_def)
  from Cons.IH[of con1] Cons.prems p show ?case unfolding r by auto
qed simp

text \<open>
  C26: A line printed on the open console: if the call returns, it returns the number of characters, and exactly the text of the pieces has gone to the data
  register of the UART of the console, character by character, and no other UART has been used; and it returns if the transmitter is
  always ready. On a closed console the call returns -1 and prints nothing.
\<close>

theorem printf_on_the_line:
  assumes "list_all piece_ok ps" and "length stack = 33" and "serial_port con \<noteq> kSerialPort_None"
  shows "(\<forall>stats out. DbgConsole_Printf L stack (concat (map piece_format ps)) (concat (map piece_args ps)) (stats, con) = Some out \<longrightarrow>
      (\<exists>stats' con'. out = Inr (of_nat (length (pieces_text 0 ps)), stats', con') \<and>
        sent_by (uartHandle con) con' = sent_by (uartHandle con) con @ map ucast (pieces_text 0 ps) \<and>
        (\<forall>n. n \<noteq> uartHandle con \<longrightarrow> fst (con_uarts con') n = fst (con_uarts con) n))) \<and>
    (\<forall>w rest. transmitter_ready L w \<longrightarrow>
      DbgConsole_Printf L stack (concat (map piece_format ps)) (concat (map piece_args ps))
        (replicate (2 * length (pieces_text 0 ps)) w @ rest, con) \<noteq> None) \<and>
    DbgConsole_Printf L stack (concat (map piece_format ps)) (concat (map piece_args ps)) (stats, con\<lparr>serial_port := kSerialPort_None\<rparr>) =
      Some (Inr (- 1, stats, con\<lparr>serial_port := kSerialPort_None\<rparr>))"
proof -
  have "between 0 (concat (map piece_args ps) @ []) \<lparr>vstr = stack, vstrp = None, vlen = 0, ap = concat (map piece_args ps), printed = [], count = 0\<rparr>"
    using assms(2) by (simp add: between_def)
  from format_pieces[OF assms(1) this, of "[]"]
  have f: "DbgConsole_PrintfFormattedData stack (concat (map piece_format ps)) (concat (map piece_args ps)) =
      Some (Inr (pieces_text 0 ps, length (pieces_text 0 ps)))"
    by (auto simp: DbgConsole_PrintfFormattedData_def)
  have p: "DbgConsole_Printf L stack (concat (map piece_format ps)) (concat (map piece_args ps)) (stats, con) =
      run_bind (put_characters L (pieces_text 0 ps) (stats, con)) (\<lambda>s. Some (Inr (of_nat (length (pieces_text 0 ps)), s)))" for stats
    using assms(3) f by (simp add: DbgConsole_Printf_def DbgConsole_Vprintf_def)
  have "\<exists>stats' con'. out = Inr (of_nat (length (pieces_text 0 ps)) :: c_int, stats', con') \<and>
        sent_by (uartHandle con) con' = sent_by (uartHandle con) con @ map ucast (pieces_text 0 ps) \<and>
        (\<forall>n. n \<noteq> uartHandle con \<longrightarrow> fst (con_uarts con') n = fst (con_uarts con) n)"
    if "run_bind (put_characters L (pieces_text 0 ps) (stats, con)) (\<lambda>s. Some (Inr (of_nat (length (pieces_text 0 ps)), s))) = Some out" for stats out
    using that put_characters_result[OF assms(3), of L "pieces_text 0 ps" stats]
    by (cases "put_characters L (pieces_text 0 ps) (stats, con)") fastforce+
  moreover have "run_bind (put_characters L (pieces_text 0 ps) (replicate (2 * length (pieces_text 0 ps)) w @ rest, con))
      (\<lambda>s. Some (Inr (of_nat (length (pieces_text 0 ps)) :: c_int, s))) \<noteq> None" if "transmitter_ready L w" for w rest
    using put_characters_ready[OF that assms(3), of "pieces_text 0 ps" rest] by auto
  ultimately show ?thesis unfolding p by (simp add: DbgConsole_Printf_def DbgConsole_Vprintf_def)
qed

text \<open>The two characters of a word, on an open console whose transmitter is ready.\<close>

definition open_console :: console where
  "open_console = closed_console\<lparr>serial_port := kSerialPort_Uart, uartHandle := 4\<rparr>"

lemma example_ready: "transmitter_ready example_lpuart 0xC00000"
  by (simp add: transmitter_ready_def example_lpuart_def fmask_def bitat_def mask_eq_exp_minus_1)

theorem printf_on_the_line_witness:
  "\<exists>stats con'. DbgConsole_Printf example_lpuart (replicate 33 0) [72, 105] [] ([0xC00000, 0xC00000, 0xC00000, 0xC00000], open_console) =
      Some (Inr (2, stats, con')) \<and> uu_sent (fst (con_uarts con') 4) = [72, 105]"
proof -
  have ok: "list_all piece_ok [Text [72, 105]]" "length (replicate 33 (0 :: u8)) = 33" by (simp_all add: chrs)
  have con: "serial_port open_console \<noteq> kSerialPort_None" "uartHandle open_console = 4" "sent_by 4 open_console = []"
    by (simp_all add: open_console_def closed_console_def sent_by_def)
  have texts: "concat (map piece_format [Text [72, 105]]) = [72, 105]" "concat (map piece_args [Text [72, 105]]) = []"
    "pieces_text 0 [Text [72, 105]] = [72, 105]" "replicate (2 * length [72 :: u8, 105]) w @ [] = [w, w, w, w]" for w :: u32
    by (simp_all add: numeral_eq_Suc)
  note p = printf_on_the_line[OF ok con(1), of example_lpuart, unfolded texts con(2,3)]
  let ?call = "DbgConsole_Printf example_lpuart (replicate 33 0) [72, 105] [] ([0xC00000, 0xC00000, 0xC00000, 0xC00000], open_console)"
  from p example_ready have "?call \<noteq> None" using texts(4) by metis
  then obtain out where o: "?call = Some out" by blast
  with p obtain stats con' where "out = Inr (of_nat (length [72 :: u8, 105]), stats, con')" "sent_by 4 con' = [] @ map ucast [72 :: u8, 105]" by meson
  with o show ?thesis by (auto simp: sent_by_def)
qed

text \<open>One byte read by the driver: the head of the events.\<close>

lemma read_event:
  assumes "interrupt_bits_ok L" and "flag_bits_ok L"
  shows "case line_events L (seven_data_bits L (lu_CTRL r)) vs of
      [] \<Rightarrow> LPUART_ReadBlocking L 1 vs r = None
    | e # es \<Rightarrow> \<exists>status data r' vs'. LPUART_ReadBlocking L 1 vs r = Some (status, data, r', vs') \<and>
        line_events L (seven_data_bits L (lu_CTRL r')) vs' = es \<and>
        (case e of LineByte b \<Rightarrow> status = kStatus_Success \<and> data = [b] | LineError _ \<Rightarrow> status \<noteq> kStatus_Success)"
proof -
  let ?seven = "seven_data_bits L (lu_CTRL r)"
  show ?thesis
    using wait_byte_events[OF assms, where seven = ?seven and vs = vs and r = r]
    by (cases "line_events L ?seven vs"; cases "hd (line_events L ?seven vs)") (auto simp: LPUART_ReadBlocking_def)
qed

text \<open>
  A character from the open console: it refines the head of the events on the line of the UART of the console. With nothing on the line the call does
  not return; a byte is returned as it is, with the events after it left; a line error is returned as -1 and is consumed, so that a caller
  cannot tell which. No other UART is used. A closed console returns -1 at once.
\<close>

theorem getchar_refines:
  assumes "interrupt_bits_ok L" and "flag_bits_ok L" and "serial_port con \<noteq> kSerialPort_None"
    and "uu_regs (fst (con_uarts con) (uartHandle con)) = r"
  shows "(case line_events L (seven_data_bits L (lu_CTRL r)) vs of
      [] \<Rightarrow> DbgConsole_Getchar L (vs, con) = None
    | e # es \<Rightarrow> \<exists>vs' r'. DbgConsole_Getchar L (vs, con) =
          Some (Inr (case e of LineByte b \<Rightarrow> ucast b | LineError _ \<Rightarrow> - 1, vs',
            con\<lparr>con_uarts := ((fst (con_uarts con))(uartHandle con := (fst (con_uarts con) (uartHandle con))\<lparr>uu_regs := r'\<rparr>), snd (con_uarts con))\<rparr>)) \<and>
        line_events L (seven_data_bits L (lu_CTRL r')) vs' = es) \<and>
    DbgConsole_Getchar L (vs, con\<lparr>serial_port := kSerialPort_None\<rparr>) = Some (Inr (- 1, vs, con\<lparr>serial_port := kSerialPort_None\<rparr>))"
proof -
  let ?es = "line_events L (seven_data_bits L (lu_CTRL r)) vs"
  have closed: "DbgConsole_Getchar L (vs, con\<lparr>serial_port := kSerialPort_None\<rparr>) = Some (Inr (- 1, vs, con\<lparr>serial_port := kSerialPort_None\<rparr>))"
    by (simp add: DbgConsole_Getchar_def)
  show ?thesis
  proof (cases ?es)
    case Nil
    then show ?thesis
      using closed read_event[OF assms(1,2), where r = r and vs = vs] assms(3,4) by (simp add: DbgConsole_Getchar_def HAL_UartReceiveBlocking_def)
  next
    case (Cons e es)
    from read_event[OF assms(1,2), where r = r and vs = vs, unfolded Cons list.case] obtain status data r' vs' where
      w: "LPUART_ReadBlocking L 1 vs r = Some (status, data, r', vs')" "line_events L (seven_data_bits L (lu_CTRL r')) vs' = es"
        "case e of LineByte b \<Rightarrow> status = kStatus_Success \<and> data = [b] | LineError _ \<Rightarrow> status \<noteq> kStatus_Success" by blast
    have "DbgConsole_Getchar L (vs, con) = Some (Inr (case e of LineByte b \<Rightarrow> ucast b | LineError _ \<Rightarrow> - 1, vs',
            con\<lparr>con_uarts := ((fst (con_uarts con))(uartHandle con := (fst (con_uarts con) (uartHandle con))\<lparr>uu_regs := r'\<rparr>), snd (con_uarts con))\<rparr>))"
      using w(1,3) assms(3,4) by (cases e) (simp_all add: DbgConsole_Getchar_def HAL_UartReceiveBlocking_def HAL_UartGetStatus_def)
    with closed w(2) show ?thesis unfolding Cons list.case by blast
  qed
qed

text \<open>A letter, and a framing error.\<close>

theorem getchar_refines_witness:
  "\<exists>vs con. DbgConsole_Getchar example_lpuart ([view 0x01000000 0x00E00000 0x41, view 0 0x00C20000 0], open_console) = Some (Inr (0x41, vs, con)) \<and>
    (\<exists>vs' con'. DbgConsole_Getchar example_lpuart ([view 0 0x00C20000 0], open_console) = Some (Inr (- 1, vs', con')))"
proof -
  have count: "fget (WATER_RXCOUNT example_lpuart) 0x01000000 = 1"
    by (simp add: example_lpuart_def fget_def fmask_def mask_eq_exp_minus_1 drop_bit_eq_div)
  have seven: "seven_data_bits example_lpuart (lu_CTRL reset_lpuart) = False" by (simp add: seven_data_bits_def reset_lpuart_def)
  have ev: "line_events example_lpuart False [view 0x01000000 0x00E00000 0x41, view 0 0x00C20000 0] =
      [LineByte 0x41, LineError kStatus_LPUART_FramingError]"
    "line_events example_lpuart False [view 0 0x00C20000 0] = [LineError kStatus_LPUART_FramingError]"
    by (simp_all add: view_def line_error_def fifo_masks[OF example_lpuart_ok(2)] count)
  have con: "serial_port open_console \<noteq> kSerialPort_None" "uu_regs (fst (con_uarts open_console) (uartHandle open_console)) = reset_lpuart"
    by (simp_all add: open_console_def closed_console_def)
  note get = getchar_refines[OF example_lpuart_ok(1,2) con]
  from get[of "[view 0x01000000 0x00E00000 0x41, view 0 0x00C20000 0]"] get[of "[view 0 0x00C20000 0]"]
  show ?thesis unfolding seven ev list.case line_event.case by auto
qed

end
