(* ===== verification/Lpuart_Transfer.thy ===== *)
theory Lpuart_Transfer
  imports Lpuart
begin

text \<open>
  The transactional functions of the UART driver (\<open>fsl_lpuart.c\<close>): transfers that the interrupts carry on, with a ring buffer that receives in
  the background, and the dispatch of the interrupts by the LP_FLEXCOMM (\<open>fsl_lpflexcomm.c\<close>). The callback is code of the user, a parameter
  that gets and returns the whole state. The interrupts are switched off globally only around single changes of a register, which is not modelled.
\<close>

section \<open>The state\<close>

datatype lpuart_transfer_state = kLPUART_TxIdle | kLPUART_TxBusy | kLPUART_RxIdle | kLPUART_RxBusy

text \<open>Memory is made of objects, each a list of bytes; a pointer is null, or an object with a position in it.\<close>

type_synonym c_ptr = "(nat \<times> nat) option"
type_synonym memory = "nat \<Rightarrow> u8 list"

definition ptr_plus :: "c_ptr \<Rightarrow> nat \<Rightarrow> c_ptr" where
  "ptr_plus p n = map_option (\<lambda>(obj, i). (obj, i + n)) p"

definition load :: "c_ptr \<Rightarrow> memory \<Rightarrow> u8 res" where
  "load p m = (case p of None \<Rightarrow> Inl BadPointer | Some (obj, i) \<Rightarrow> arr_get (m obj) i)"

definition store :: "c_ptr \<Rightarrow> u8 \<Rightarrow> memory \<Rightarrow> memory res" where
  "store p b m =
     (case p of
        None \<Rightarrow> Inl BadPointer
      | Some (obj, i) \<Rightarrow> rbind (arr_set (m obj) i b) (\<lambda>xs. Inr (m(obj := xs))))"

text \<open>The processor stores the low byte of a half-word first.\<close>

definition load16 :: "c_ptr \<Rightarrow> memory \<Rightarrow> u16 res" where
  "load16 p m = rbind (load p m) (\<lambda>l. rbind (load (ptr_plus p 1) m) (\<lambda>h. Inr (join16 h l)))"

definition store16 :: "c_ptr \<Rightarrow> u16 \<Rightarrow> memory \<Rightarrow> memory res" where
  "store16 p w m = rbind (store p (lo8 w) m) (store (ptr_plus p 1) (hi8 w))"

record lpuart_handle =
  txData :: c_ptr
  txDataSize :: u32
  txDataSizeAll :: u32
  rxData :: c_ptr
  rxDataSize :: u32
  rxDataSizeAll :: u32
  rxRingBuffer :: c_ptr
  rxRingBufferSize :: u32
  rxRingBufferHead :: u16
  rxRingBufferTail :: u16
  callback :: "nat option"
  userData :: nat
  txState :: lpuart_transfer_state
  rxState :: lpuart_transfer_state
  isSevenDataBits :: bool
  is16bitData :: bool

record lpuart_transfer =
  xfer_data :: c_ptr
  xfer_dataSize :: u32

text \<open>
  The registers, the handle and the memory; the words that the reads of the data register return, and how many have been read; the words written to the data
  register; the statuses passed to the callback.
\<close>

record transfer_sys =
  ts_regs :: lpuart
  ts_handle :: lpuart_handle
  ts_mem :: memory
  ts_line :: "nat \<Rightarrow> u32"
  ts_taken :: nat
  ts_sent :: "u32 list"
  ts_told :: "lpuart_status list"

text \<open>The functions of the user: number, status, user data.\<close>

type_synonym user = "nat \<Rightarrow> lpuart_status \<Rightarrow> nat \<Rightarrow> transfer_sys \<Rightarrow> transfer_sys res"

definition call_back :: "user \<Rightarrow> lpuart_status \<Rightarrow> transfer_sys \<Rightarrow> transfer_sys res" where
  "call_back user status s =
     (case callback (ts_handle s) of
        None \<Rightarrow> Inr s
      | Some f \<Rightarrow> user f status (userData (ts_handle s)) (s\<lparr>ts_told := ts_told s @ [status]\<rparr>))"

definition on_handle :: "(lpuart_handle \<Rightarrow> lpuart_handle) \<Rightarrow> transfer_sys \<Rightarrow> transfer_sys" where
  "on_handle f s = s\<lparr>ts_handle := f (ts_handle s)\<rparr>"

definition on_regs :: "(lpuart \<Rightarrow> lpuart) \<Rightarrow> transfer_sys \<Rightarrow> transfer_sys" where
  "on_regs f s = s\<lparr>ts_regs := f (ts_regs s)\<rparr>"

definition set_ctrl :: "u32 \<Rightarrow> transfer_sys \<Rightarrow> transfer_sys" where
  "set_ctrl m = on_regs (\<lambda>r. r\<lparr>lu_CTRL := lu_CTRL r OR m\<rparr>)"

definition clear_ctrl :: "u32 \<Rightarrow> transfer_sys \<Rightarrow> transfer_sys" where
  "clear_ctrl m = on_regs (\<lambda>r. r\<lparr>lu_CTRL := lu_CTRL r AND NOT m\<rparr>)"

definition write_DATA :: "u32 \<Rightarrow> transfer_sys \<Rightarrow> transfer_sys" where
  "write_DATA w s = (on_regs (\<lambda>r. r\<lparr>lu_DATA := w\<rparr>) s)\<lparr>ts_sent := ts_sent s @ [w]\<rparr>"

definition next_word :: "transfer_sys \<Rightarrow> u32" where
  "next_word s = ts_line s (ts_taken s)"

definition take_word :: "transfer_sys \<Rightarrow> transfer_sys" where
  "take_word s = s\<lparr>ts_taken := Suc (ts_taken s)\<rparr>"

section \<open>The ring buffer\<close>

definition LPUART_TransferGetRxRingBufferLength :: "lpuart_handle \<Rightarrow> u32" where
  "LPUART_TransferGetRxRingBufferLength h =
     (if rxRingBufferTail h > rxRingBufferHead h
      then ucast (rxRingBufferHead h) + rxRingBufferSize h - ucast (rxRingBufferTail h)
      else ucast (rxRingBufferHead h) - ucast (rxRingBufferTail h))"

definition LPUART_TransferIsRxRingBufferFull :: "lpuart_handle \<Rightarrow> bool" where
  "LPUART_TransferIsRxRingBufferFull h \<longleftrightarrow> LPUART_TransferGetRxRingBufferLength h = rxRingBufferSize h - 1"

text \<open>The next position: both indices advance in the same way.\<close>

definition ring_next :: "lpuart_handle \<Rightarrow> u16 \<Rightarrow> u16" where
  "ring_next h i = (if (ucast i :: u32) + 1 = rxRingBufferSize h then 0 else i + 1)"

definition rx_interrupts :: "lpuart_layout \<Rightarrow> u32" where
  "rx_interrupts L = fmask (CTRL_RIE L) OR fmask (CTRL_ORIE L)"

definition rx_idle_interrupts :: "lpuart_layout \<Rightarrow> u32" where
  "rx_idle_interrupts L = fmask (CTRL_RIE L) OR fmask (CTRL_ILIE L) OR fmask (CTRL_ORIE L)"

definition LPUART_TransferStartRingBuffer :: "lpuart_layout \<Rightarrow> c_ptr \<Rightarrow> u32 \<Rightarrow> transfer_sys \<Rightarrow> transfer_sys res" where
  "LPUART_TransferStartRingBuffer L ringBuffer ringBufferSize s =
     (if ringBuffer = None then Inl AssertFailed
      else Inr (set_ctrl (rx_interrupts L) (on_handle (\<lambda>h.
             h\<lparr>rxRingBuffer := ringBuffer, rxRingBufferSize := ringBufferSize, rxRingBufferHead := 0, rxRingBufferTail := 0\<rparr>) s)))"

definition LPUART_TransferStopRingBuffer :: "lpuart_layout \<Rightarrow> transfer_sys \<Rightarrow> transfer_sys" where
  "LPUART_TransferStopRingBuffer L s =
     (let s = (if rxState (ts_handle s) = kLPUART_RxIdle then clear_ctrl (rx_interrupts L) s else s)
      in on_handle (\<lambda>h. h\<lparr>rxRingBuffer := None, rxRingBufferSize := 0, rxRingBufferHead := 0, rxRingBufferTail := 0\<rparr>) s)"

section \<open>Reading and writing without waiting\<close>

primrec write_loop :: "c_ptr \<Rightarrow> nat \<Rightarrow> transfer_sys \<Rightarrow> transfer_sys res" where
  "write_loop p 0 s = Inr s"
| "write_loop p (Suc n) s = rbind (load p (ts_mem s)) (\<lambda>b. write_loop (ptr_plus p 1) n (write_DATA (ucast b) s))"

definition LPUART_WriteNonBlocking :: "c_ptr \<Rightarrow> nat \<Rightarrow> transfer_sys \<Rightarrow> transfer_sys res" where
  "LPUART_WriteNonBlocking data len s = (if data = None then Inl AssertFailed else write_loop data len s)"

primrec write_loop16 :: "c_ptr \<Rightarrow> nat \<Rightarrow> transfer_sys \<Rightarrow> transfer_sys res" where
  "write_loop16 p 0 s = Inr s"
| "write_loop16 p (Suc n) s = rbind (load16 p (ts_mem s)) (\<lambda>w. write_loop16 (ptr_plus p 2) n (write_DATA (ucast w) s))"

definition LPUART_WriteNonBlocking16bit :: "c_ptr \<Rightarrow> nat \<Rightarrow> transfer_sys \<Rightarrow> transfer_sys res" where
  "LPUART_WriteNonBlocking16bit data len s = (if data = None then Inl AssertFailed else write_loop16 data len s)"

definition byte_of :: "bool \<Rightarrow> u32 \<Rightarrow> u8" where
  "byte_of seven w = (if seven then ucast (w AND 0x7F) else ucast w)"

primrec read_loop :: "bool \<Rightarrow> c_ptr \<Rightarrow> nat \<Rightarrow> transfer_sys \<Rightarrow> transfer_sys res" where
  "read_loop seven p 0 s = Inr s"
| "read_loop seven p (Suc n) s =
     rbind (store p (byte_of seven (next_word s)) (ts_mem s)) (\<lambda>m. read_loop seven (ptr_plus p 1) n (take_word (s\<lparr>ts_mem := m\<rparr>)))"

definition LPUART_ReadNonBlocking :: "lpuart_layout \<Rightarrow> c_ptr \<Rightarrow> nat \<Rightarrow> transfer_sys \<Rightarrow> transfer_sys res" where
  "LPUART_ReadNonBlocking L data len s =
     (if data = None then Inl AssertFailed else read_loop (seven_data_bits L (lu_CTRL (ts_regs s))) data len s)"

primrec read_loop16 :: "c_ptr \<Rightarrow> nat \<Rightarrow> transfer_sys \<Rightarrow> transfer_sys res" where
  "read_loop16 p 0 s = Inr s"
| "read_loop16 p (Suc n) s =
     rbind (store16 p (ucast (next_word s AND 0x3FF)) (ts_mem s)) (\<lambda>m. read_loop16 (ptr_plus p 2) n (take_word (s\<lparr>ts_mem := m\<rparr>)))"

definition LPUART_ReadNonBlocking16bit :: "c_ptr \<Rightarrow> nat \<Rightarrow> transfer_sys \<Rightarrow> transfer_sys res" where
  "LPUART_ReadNonBlocking16bit data len s = (if data = None then Inl AssertFailed else read_loop16 data len s)"

section \<open>The calls of the user\<close>

definition zero_handle :: lpuart_handle where
  "zero_handle =
    \<lparr>txData = None, txDataSize = 0, txDataSizeAll = 0, rxData = None, rxDataSize = 0, rxDataSizeAll = 0,
     rxRingBuffer = None, rxRingBufferSize = 0, rxRingBufferHead = 0, rxRingBufferTail = 0, callback = None, userData = 0,
     txState = kLPUART_TxIdle, rxState = kLPUART_TxIdle, isSevenDataBits = False, is16bitData = False\<rparr>"

text \<open>The handlers that the drivers install for a kind of peripheral and an instance, each with its handle.\<close>

datatype irq_handler = LPUART_handler | Other_handler nat

record flexcomm_irqs =
  s_lpflexcommIrqHandler :: "lp_flexcomm_periph \<Rightarrow> nat \<Rightarrow> irq_handler option"
  s_lpflexcommHandle :: "lp_flexcomm_periph \<Rightarrow> nat \<Rightarrow> nat"

definition LP_FLEXCOMM_SetIRQHandler ::
  "nat \<Rightarrow> nat \<Rightarrow> irq_handler option \<Rightarrow> nat \<Rightarrow> lp_flexcomm_periph \<Rightarrow> flexcomm_irqs \<Rightarrow> flexcomm_irqs res" where
  "LP_FLEXCOMM_SetIRQHandler instances n handler handle periph t =
     (if \<not> n < instances then Inl AssertFailed
      else if flexcomm_periph_val LP_FLEXCOMM_PERIPH_LPI2C < flexcomm_periph_val periph then Inl OutOfBounds
      else
        let set_handler = (\<lambda>h t. t\<lparr>s_lpflexcommIrqHandler :=
              (s_lpflexcommIrqHandler t)(periph := (s_lpflexcommIrqHandler t periph)(n := h))\<rparr>);
            t = set_handler None t;
            t = t\<lparr>s_lpflexcommHandle := (s_lpflexcommHandle t)(periph := (s_lpflexcommHandle t periph)(n := handle))\<rparr>
        in Inr (set_handler handler t))"

record flexcomm_layout =
  ISTAT_I2CS :: bitfield
  ISTAT_I2CM :: bitfield
  ISTAT_SPI :: bitfield
  ISTAT_UARTRX :: bitfield
  ISTAT_UARTTX :: bitfield

definition installed ::
  "(irq_handler \<Rightarrow> nat \<Rightarrow> nat \<Rightarrow> 's \<Rightarrow> 's res) \<Rightarrow> flexcomm_irqs \<Rightarrow> nat \<Rightarrow> lp_flexcomm_periph \<Rightarrow> 's \<Rightarrow> 's res" where
  "installed run t n periph s =
     (case s_lpflexcommIrqHandler t periph n of None \<Rightarrow> Inr s | Some f \<Rightarrow> run f n (s_lpflexcommHandle t periph n) s)"

definition LP_FLEXCOMM_CommonIRQHandler ::
  "flexcomm_layout \<Rightarrow> (irq_handler \<Rightarrow> nat \<Rightarrow> nat \<Rightarrow> 's \<Rightarrow> 's res) \<Rightarrow> flexcomm_irqs \<Rightarrow> u32 \<Rightarrow> nat \<Rightarrow> 's \<Rightarrow> 's res" where
  "LP_FLEXCOMM_CommonIRQHandler X run t interruptStat n s =
     rbind (if interruptStat AND (fmask (ISTAT_I2CS X) OR fmask (ISTAT_I2CM X)) \<noteq> 0
            then installed run t n LP_FLEXCOMM_PERIPH_LPI2C s else Inr s) (\<lambda>s.
     rbind (if interruptStat AND (fmask (ISTAT_UARTRX X) OR fmask (ISTAT_UARTTX X)) \<noteq> 0
            then installed run t n LP_FLEXCOMM_PERIPH_LPUART s else Inr s) (\<lambda>s.
     if interruptStat AND fmask (ISTAT_SPI X) \<noteq> 0 then installed run t n LP_FLEXCOMM_PERIPH_LPSPI s else Inr s))"

text \<open>\<open>handle\<close> stands for the address of the handle in the table of the LP_FLEXCOMM.\<close>

definition LPUART_TransferCreateHandle ::
  "lpuart_layout \<Rightarrow> nat \<Rightarrow> nat \<Rightarrow> nat \<Rightarrow> nat option \<Rightarrow> nat \<Rightarrow> flexcomm_irqs \<times> sys_call list \<times> transfer_sys \<Rightarrow>
     (flexcomm_irqs \<times> sys_call list \<times> transfer_sys) res" where
  "LPUART_TransferCreateHandle L instances n handle cb data st =
     (let (t, calls, s) = st;
          seven = seven_data_bits L (lu_CTRL (ts_regs s));
          s = on_handle (\<lambda>_. zero_handle) s;
          s = on_handle (\<lambda>h. h\<lparr>rxState := kLPUART_RxIdle, txState := kLPUART_TxIdle\<rparr>) s;
          s = on_handle (\<lambda>h. h\<lparr>callback := cb, userData := data\<rparr>) s;
          s = on_handle (\<lambda>h. h\<lparr>isSevenDataBits := seven\<rparr>) s
      in rbind (LP_FLEXCOMM_SetIRQHandler instances n (Some LPUART_handler) handle LP_FLEXCOMM_PERIPH_LPUART t) (\<lambda>t.
           Inr (t, calls @ [EnableIRQ (FLEXCOMM n)], s)))"

definition LPUART_TransferEnable16Bit :: "bool \<Rightarrow> transfer_sys \<Rightarrow> transfer_sys" where
  "LPUART_TransferEnable16Bit enable = on_handle (\<lambda>h. h\<lparr>is16bitData := enable\<rparr>)"

definition LPUART_TransferSendNonBlocking ::
  "lpuart_layout \<Rightarrow> lpuart_transfer \<Rightarrow> transfer_sys \<Rightarrow> (lpuart_status \<times> transfer_sys) res" where
  "LPUART_TransferSendNonBlocking L xfer s =
     (if xfer_data xfer = None \<or> xfer_dataSize xfer = 0 then Inl AssertFailed
      else if txState (ts_handle s) = kLPUART_TxBusy then Inr (kStatus_LPUART_TxBusy, s)
      else Inr (kStatus_Success, set_ctrl (fmask (CTRL_TIE L)) (on_handle (\<lambda>h.
             h\<lparr>txData := xfer_data xfer, txDataSize := xfer_dataSize xfer, txDataSizeAll := xfer_dataSize xfer, txState := kLPUART_TxBusy\<rparr>) s)))"

definition LPUART_TransferAbortSend :: "lpuart_layout \<Rightarrow> transfer_sys \<Rightarrow> transfer_sys" where
  "LPUART_TransferAbortSend L s =
     on_handle (\<lambda>h. h\<lparr>txDataSize := 0, txState := kLPUART_TxIdle\<rparr>) (clear_ctrl (fmask (CTRL_TIE L) OR fmask (CTRL_TCIE L)) s)"

text \<open>The count is only stored while a transfer is in progress.\<close>

definition LPUART_TransferGetSendCount :: "lpuart_layout \<Rightarrow> transfer_sys \<Rightarrow> lpuart_status \<times> u32 option" where
  "LPUART_TransferGetSendCount L s =
     (if txState (ts_handle s) = kLPUART_TxIdle then (kStatus_NoTransferInProgress, None)
      else (kStatus_Success,
        Some (txDataSizeAll (ts_handle s) - txDataSize (ts_handle s) - fget (WATER_TXCOUNT L) (lu_WATER (ts_regs s)))))"

primrec copy_from_ring :: "nat \<Rightarrow> c_ptr \<Rightarrow> transfer_sys \<Rightarrow> transfer_sys res" where
  "copy_from_ring 0 q s = Inr s"
| "copy_from_ring (Suc n) q s =
     rbind (load (ptr_plus (rxRingBuffer (ts_handle s)) (unat (rxRingBufferTail (ts_handle s)))) (ts_mem s)) (\<lambda>b.
     rbind (store q b (ts_mem s)) (\<lambda>m.
       copy_from_ring n (ptr_plus q 1)
         (on_handle (\<lambda>h. h\<lparr>rxRingBufferTail := ring_next h (rxRingBufferTail h)\<rparr>) (s\<lparr>ts_mem := m\<rparr>))))"

definition request_rest :: "c_ptr \<Rightarrow> nat \<Rightarrow> u32 \<Rightarrow> u32 \<Rightarrow> transfer_sys \<Rightarrow> transfer_sys" where
  "request_rest data current n all_bytes = on_handle (\<lambda>h.
     h\<lparr>rxData := ptr_plus data current, rxDataSize := n, rxDataSizeAll := all_bytes, rxState := kLPUART_RxBusy\<rparr>)"

text \<open>The status, the number of bytes received from the ring buffer, which is not stored if a request is pending, and the state.\<close>

definition LPUART_TransferReceiveNonBlocking ::
  "lpuart_layout \<Rightarrow> user \<Rightarrow> lpuart_transfer \<Rightarrow> transfer_sys \<Rightarrow> (lpuart_status \<times> u32 option \<times> transfer_sys) res" where
  "LPUART_TransferReceiveNonBlocking L user xfer s =
     (if xfer_data xfer = None \<or> xfer_dataSize xfer = 0 then Inl AssertFailed
      else if rxState (ts_handle s) = kLPUART_RxBusy then Inr (kStatus_LPUART_RxBusy, None, s)
      else if rxRingBuffer (ts_handle s) \<noteq> None then
        let s = clear_ctrl (rx_interrupts L) s;
            n = min (xfer_dataSize xfer) (LPUART_TransferGetRxRingBufferLength (ts_handle s));
            rest = xfer_dataSize xfer - n
        in rbind (copy_from_ring (unat n) (xfer_data xfer) s) (\<lambda>s.
             let s = (if rest \<noteq> 0 then request_rest (xfer_data xfer) (unat n) rest (xfer_dataSize xfer) s else s);
                 s = set_ctrl (rx_interrupts L) s
             in rbind (if rest = 0 then call_back user kStatus_LPUART_RxIdle s else Inr s) (\<lambda>s. Inr (kStatus_Success, Some n, s)))
      else
        Inr (kStatus_Success, Some 0,
          set_ctrl (rx_idle_interrupts L) (request_rest (xfer_data xfer) 0 (xfer_dataSize xfer) (xfer_dataSize xfer) s)))"

definition LPUART_TransferAbortReceive :: "lpuart_layout \<Rightarrow> transfer_sys \<Rightarrow> transfer_sys" where
  "LPUART_TransferAbortReceive L s =
     on_handle (\<lambda>h. h\<lparr>rxDataSize := 0, rxState := kLPUART_RxIdle\<rparr>)
       (if rxRingBuffer (ts_handle s) = None then clear_ctrl (rx_idle_interrupts L) s else s)"

definition LPUART_TransferGetReceiveCount :: "transfer_sys \<Rightarrow> lpuart_status \<times> u32 option" where
  "LPUART_TransferGetReceiveCount s =
     (if rxState (ts_handle s) = kLPUART_RxIdle then (kStatus_NoTransferInProgress, None)
      else (kStatus_Success, Some (rxDataSizeAll (ts_handle s) - rxDataSize (ts_handle s))))"

section \<open>The interrupt\<close>

text \<open>What the FIFOs hold is read from the register anew in every part of the handler.\<close>

definition look_water :: "u32 \<Rightarrow> transfer_sys \<Rightarrow> transfer_sys" where
  "look_water w = on_regs (\<lambda>r. r\<lparr>lu_WATER := w\<rparr>)"

text \<open>The bytes wanted are taken from the FIFO. A callback may ask for more, so the loop goes on while words are left.\<close>

function fill_request :: "lpuart_layout \<Rightarrow> user \<Rightarrow> nat \<Rightarrow> transfer_sys \<Rightarrow> (nat \<times> transfer_sys) res" where
  "fill_request L user cnt s =
     (if rxDataSize (ts_handle s) = 0 \<or> cnt = 0 then Inr (cnt, s)
      else
        let n = min (unat (rxDataSize (ts_handle s))) cnt;
            p = rxData (ts_handle s);
            wide = is16bitData (ts_handle s)
        in rbind (if wide then LPUART_ReadNonBlocking16bit p n s else LPUART_ReadNonBlocking L p n s) (\<lambda>s.
             let s = on_handle (\<lambda>h. h\<lparr>rxData := ptr_plus (rxData h) (if wide then n * 2 else n)\<rparr>) s;
                 s = on_handle (\<lambda>h. h\<lparr>rxDataSize := rxDataSize h - of_nat n\<rparr>) s
             in rbind (if rxDataSize (ts_handle s) = 0
                       then call_back user kStatus_LPUART_RxIdle (on_handle (\<lambda>h. h\<lparr>rxState := kLPUART_RxIdle\<rparr>) s)
                       else Inr s) (\<lambda>s. fill_request L user (cnt - n) s)))"
  by pat_completeness auto

termination
  by (relation "measure (\<lambda>(L, user, cnt, s). cnt)") (auto simp: unat_gt_0)

declare fill_request.simps [simp del]

definition store_in_ring :: "user \<Rightarrow> transfer_sys \<Rightarrow> transfer_sys res" where
  "store_in_ring user s =
     rbind (if LPUART_TransferIsRxRingBufferFull (ts_handle s) then call_back user kStatus_LPUART_RxRingBufferOverrun s else Inr s) (\<lambda>s.
       let s = (if LPUART_TransferIsRxRingBufferFull (ts_handle s)
                then on_handle (\<lambda>h. h\<lparr>rxRingBufferTail := ring_next h (rxRingBufferTail h)\<rparr>) s else s);
           h = ts_handle s;
           tmpData = next_word s;
           s = take_word s
       in rbind (store (ptr_plus (rxRingBuffer h) (unat (rxRingBufferHead h))) (byte_of (isSevenDataBits h) tmpData) (ts_mem s)) (\<lambda>m.
            Inr (on_handle (\<lambda>h. h\<lparr>rxRingBufferHead := ring_next h (rxRingBufferHead h)\<rparr>) (s\<lparr>ts_mem := m\<rparr>))))"

primrec fill_ring :: "user \<Rightarrow> nat \<Rightarrow> transfer_sys \<Rightarrow> transfer_sys res" where
  "fill_ring user 0 s = Inr s"
| "fill_ring user (Suc n) s = rbind (store_in_ring user s) (fill_ring user n)"

definition overrun_part :: "lpuart_layout \<Rightarrow> user \<Rightarrow> u32 \<Rightarrow> transfer_sys \<Rightarrow> transfer_sys res" where
  "overrun_part L user status s =
     (if fmask (STAT_OR L) = fmask (STAT_OR L) AND status
      then call_back user kStatus_LPUART_RxHardwareOverrun
             (on_regs (\<lambda>r. write_STAT L ((lu_STAT r AND 0x3FE00000) OR fmask (STAT_OR L)) r) s)
      else Inr s)"

definition idle_part :: "lpuart_layout \<Rightarrow> user \<Rightarrow> u32 \<Rightarrow> u32 \<Rightarrow> u32 \<Rightarrow> transfer_sys \<Rightarrow> transfer_sys res" where
  "idle_part L user status enabledInterrupts water s =
     (if fmask (STAT_IDLE L) AND status \<noteq> 0 \<and> fmask (CTRL_ILIE L) AND enabledInterrupts \<noteq> 0
      then
        let s = look_water water s;
            cnt = unat (ucast (fget (WATER_RXCOUNT L) (lu_WATER (ts_regs s))) :: u8)
        in rbind (fill_request L user cnt s) (\<lambda>(_, s).
           let s = on_regs (\<lambda>r. write_STAT L ((lu_STAT r AND 0x3FE00000) OR fmask (STAT_IDLE L)) r) s
           in if rxDataSize (ts_handle s) = 0 then Inr (clear_ctrl (rx_idle_interrupts L) s)
              else call_back user kStatus_LPUART_IdleLineDetected s)
      else Inr s)"

definition receive_part :: "lpuart_layout \<Rightarrow> user \<Rightarrow> u32 \<Rightarrow> u32 \<Rightarrow> u32 \<Rightarrow> transfer_sys \<Rightarrow> transfer_sys res" where
  "receive_part L user status enabledInterrupts water s =
     (if fmask (STAT_RDRF L) AND status \<noteq> 0 \<and> fmask (CTRL_RIE L) AND enabledInterrupts \<noteq> 0
      then
        let s = look_water water s;
            cnt = unat (ucast (fget (WATER_RXCOUNT L) (lu_WATER (ts_regs s))) :: u8)
        in rbind (fill_request L user cnt s) (\<lambda>(cnt, s).
           if rxRingBuffer (ts_handle s) \<noteq> None then fill_ring user cnt s
           else if rxDataSize (ts_handle s) = 0 then Inr (clear_ctrl (rx_idle_interrupts L) s)
           else Inr s)
      else Inr s)"

text \<open>The FIFO has eight places.\<close>

function send_request :: "lpuart_layout \<Rightarrow> nat \<Rightarrow> transfer_sys \<Rightarrow> transfer_sys res" where
  "send_request L cnt s =
     (if txDataSize (ts_handle s) = 0 \<or> cnt = 0 then Inr s
      else
        let n = min (unat (txDataSize (ts_handle s))) cnt;
            p = txData (ts_handle s);
            wide = is16bitData (ts_handle s)
        in rbind (if wide then LPUART_WriteNonBlocking16bit p n s else LPUART_WriteNonBlocking p n s) (\<lambda>s.
             let s = on_handle (\<lambda>h. h\<lparr>txData := ptr_plus (txData h) (if wide then n * 2 else n)\<rparr>) s;
                 s = on_handle (\<lambda>h. h\<lparr>txDataSize := txDataSize h - of_nat n\<rparr>) s;
                 s = (if txDataSize (ts_handle s) = 0
                      then on_regs (\<lambda>r. r\<lparr>lu_CTRL := (lu_CTRL r AND NOT (fmask (CTRL_TIE L))) OR fmask (CTRL_TCIE L)\<rparr>) s else s)
             in send_request L (cnt - n) s))"
  by pat_completeness auto

termination
  by (relation "measure (\<lambda>(L, cnt, s). cnt)") (auto simp: unat_gt_0)

declare send_request.simps [simp del]

definition send_part :: "lpuart_layout \<Rightarrow> u32 \<Rightarrow> u32 \<Rightarrow> u32 \<Rightarrow> transfer_sys \<Rightarrow> transfer_sys res" where
  "send_part L status enabledInterrupts water s =
     (if fmask (STAT_TDRE L) AND status \<noteq> 0 \<and> fmask (CTRL_TIE L) AND enabledInterrupts \<noteq> 0
      then
        let s = look_water water s
        in send_request L (unat (8 - ucast (fget (WATER_TXCOUNT L) (lu_WATER (ts_regs s))) :: u8)) s
      else Inr s)"

definition complete_part :: "lpuart_layout \<Rightarrow> user \<Rightarrow> u32 \<Rightarrow> u32 \<Rightarrow> transfer_sys \<Rightarrow> transfer_sys res" where
  "complete_part L user status enabledInterrupts s =
     (if fmask (STAT_TC L) AND status \<noteq> 0 \<and> fmask (CTRL_TCIE L) AND enabledInterrupts \<noteq> 0
      then call_back user kStatus_LPUART_TxIdle
             (clear_ctrl (fmask (CTRL_TCIE L)) (on_handle (\<lambda>h. h\<lparr>txState := kLPUART_TxIdle\<rparr>) s))
      else Inr s)"

text \<open>The flags and the interrupts that are enabled are looked at once, at the entry. \<open>waters\<close> are the words read for the three counts.\<close>

definition LPUART_TransferHandleIRQ :: "lpuart_layout \<Rightarrow> user \<Rightarrow> u32 \<times> u32 \<times> u32 \<Rightarrow> transfer_sys \<Rightarrow> transfer_sys res" where
  "LPUART_TransferHandleIRQ L user waters s =
     (let (w_idle, w_rx, w_tx) = waters;
          status = LPUART_GetStatusFlags L (ts_regs s);
          enabledInterrupts = LPUART_GetEnabledInterrupts L (ts_regs s)
      in rbind (overrun_part L user status s) (\<lambda>s.
         rbind (idle_part L user status enabledInterrupts w_idle s) (\<lambda>s.
         rbind (receive_part L user status enabledInterrupts w_rx s) (\<lambda>s.
         rbind (send_part L status enabledInterrupts w_tx s) (\<lambda>s.
           complete_part L user status enabledInterrupts s)))))"

definition LPUART_TransferHandleErrorIRQ :: "transfer_sys \<Rightarrow> transfer_sys" where
  "LPUART_TransferHandleErrorIRQ s = s"

section \<open>The ring buffer is a queue\<close>

text \<open>First over numbers: \<open>n\<close> places from position \<open>k\<close> of an array, the index \<open>h\<close> written next and the index \<open>t\<close> read next.\<close>

definition ring_len :: "nat \<Rightarrow> nat \<Rightarrow> nat \<Rightarrow> nat" where
  "ring_len n h t = (if h < t then h + n - t else h - t)"

definition ring_pos :: "nat \<Rightarrow> nat \<Rightarrow> nat" where
  "ring_pos n i = (if Suc i = n then 0 else Suc i)"

definition ring_at :: "nat \<Rightarrow> nat \<Rightarrow> nat \<Rightarrow> nat" where
  "ring_at n t i = (if t + i < n then t + i else t + i - n)"

definition ring_list :: "'a list \<Rightarrow> nat \<Rightarrow> nat \<Rightarrow> nat \<Rightarrow> nat \<Rightarrow> 'a list" where
  "ring_list xs k n h t = map (\<lambda>i. xs ! (k + ring_at n t i)) [0..<ring_len n h t]"

lemma ring_pos_less: "i < n \<Longrightarrow> ring_pos n i < n"
  by (auto simp: ring_pos_def)

lemma ring_len_less: "h < n \<Longrightarrow> t < n \<Longrightarrow> ring_len n h t < n"
  by (auto simp: ring_len_def)

lemma ring_len_put: "h < n \<Longrightarrow> t < n \<Longrightarrow> ring_len n h t < n - 1 \<Longrightarrow> ring_len n (ring_pos n h) t = Suc (ring_len n h t)"
  by (auto simp: ring_len_def ring_pos_def split: if_splits)

lemma ring_len_drop: "h < n \<Longrightarrow> t < n \<Longrightarrow> 0 < ring_len n h t \<Longrightarrow> Suc (ring_len n h (ring_pos n t)) = ring_len n h t"
  by (auto simp: ring_len_def ring_pos_def split: if_splits)

lemma ring_at_tail: "h < n \<Longrightarrow> t < n \<Longrightarrow> ring_at n t (ring_len n h t) = h"
  by (auto simp: ring_at_def ring_len_def)

lemma ring_at_before: "h < n \<Longrightarrow> t < n \<Longrightarrow> i < ring_len n h t \<Longrightarrow> ring_at n t i \<noteq> h"
  by (auto simp: ring_at_def ring_len_def split: if_splits)

lemma ring_at_Suc: "t < n \<Longrightarrow> Suc i < n \<Longrightarrow> ring_at n (ring_pos n t) i = ring_at n t (Suc i)"
  by (auto simp: ring_at_def ring_pos_def)

lemma length_ring_list [simp]: "length (ring_list xs k n h t) = ring_len n h t"
  by (simp add: ring_list_def)

lemma ring_list_put:
  assumes "h < n" and "t < n" and "ring_len n h t < n - 1" and "k + n \<le> length xs"
  shows "ring_list (xs[k + h := b]) k n (ring_pos n h) t = ring_list xs k n h t @ [b]"
proof -
  have "map (\<lambda>i. xs[k + h := b] ! (k + ring_at n t i)) [0..<ring_len n h t] = map (\<lambda>i. xs ! (k + ring_at n t i)) [0..<ring_len n h t]"
    using ring_at_before[OF assms(1,2), THEN not_sym] by (intro map_cong) auto
  then show ?thesis
    using assms ring_at_tail[OF assms(1,2)] by (simp add: ring_list_def ring_len_put)
qed

lemma ring_list_drop:
  assumes "h < n" and "t < n" and "0 < ring_len n h t"
  shows "ring_list xs k n h t = xs ! (k + t) # ring_list xs k n h (ring_pos n t)"
proof -
  have "[0..<ring_len n h t] = 0 # map Suc [0..<ring_len n h (ring_pos n t)]"
    using ring_len_drop[OF assms] by (metis map_Suc_upt upt_conv_Cons zero_less_Suc)
  moreover have "map (\<lambda>i. xs ! (k + ring_at n t (Suc i))) [0..<ring_len n h (ring_pos n t)] =
      map (\<lambda>i. xs ! (k + ring_at n (ring_pos n t) i)) [0..<ring_len n h (ring_pos n t)]"
    using ring_len_drop[OF assms] ring_len_less[OF assms(1,2)] by (intro map_cong) (auto simp: ring_at_Suc[OF assms(2)])
  ultimately show ?thesis
    using assms(2) by (simp add: ring_list_def ring_at_def o_def)
qed

text \<open>The buffer of a handle: a valid range of memory with at least two bytes and no more than a 16 bit index reaches.\<close>

definition ring_size :: "transfer_sys \<Rightarrow> nat" where
  "ring_size s = unat (rxRingBufferSize (ts_handle s))"

definition ring_ok :: "transfer_sys \<Rightarrow> bool" where
  "ring_ok s \<longleftrightarrow>
     (case rxRingBuffer (ts_handle s) of
        None \<Rightarrow> False
      | Some (obj, k) \<Rightarrow>
          2 \<le> ring_size s \<and> ring_size s \<le> 2 ^ 16 \<and> k + ring_size s \<le> length (ts_mem s obj) \<and>
          unat (rxRingBufferHead (ts_handle s)) < ring_size s \<and> unat (rxRingBufferTail (ts_handle s)) < ring_size s)"

definition ring_bytes :: "transfer_sys \<Rightarrow> u8 list" where
  "ring_bytes s =
     (case rxRingBuffer (ts_handle s) of
        None \<Rightarrow> []
      | Some (obj, k) \<Rightarrow>
          ring_list (ts_mem s obj) k (ring_size s) (unat (rxRingBufferHead (ts_handle s))) (unat (rxRingBufferTail (ts_handle s))))"

lemma unat_u16_u32 [simp]: "unat (ucast (i :: u16) :: u32) = unat i"
  using unat_u16_bound[of i] by (simp add: unsigned_ucast_eq take_bit_nat_eq_self)

lemma ring_length:
  assumes "ring_ok s"
  shows "unat (LPUART_TransferGetRxRingBufferLength (ts_handle s)) = length (ring_bytes s)"
proof -
  let ?h = "rxRingBufferHead (ts_handle s)" and ?t = "rxRingBufferTail (ts_handle s)" and ?n = "rxRingBufferSize (ts_handle s)"
  have b: "unat ?h < unat ?n" "unat ?t < unat ?n" "unat ?n \<le> 2 ^ 16"
    using assms by (auto simp: ring_ok_def ring_size_def split: option.splits)
  have "unat (ucast ?h + ?n - ucast ?t :: u32) = unat ?h + unat ?n - unat ?t" if "?h < ?t"
  proof -
    have "unat (ucast ?h + ?n :: u32) = unat ?h + unat ?n"
      using b by (simp add: unat_word_ariths)
    then show ?thesis using b by (subst unat_sub) (simp_all add: word_le_nat_alt)
  qed
  moreover have "unat (ucast ?h - ucast ?t :: u32) = unat ?h - unat ?t" if "\<not> ?h < ?t"
    using that by (subst unat_sub) (simp_all add: word_le_nat_alt word_less_nat_alt)
  ultimately have "unat (LPUART_TransferGetRxRingBufferLength (ts_handle s)) = ring_len (unat ?n) (unat ?h) (unat ?t)"
    by (simp add: LPUART_TransferGetRxRingBufferLength_def ring_len_def word_less_nat_alt)
  then show ?thesis
    using assms by (auto simp: ring_bytes_def ring_ok_def ring_size_def split: option.splits)
qed

lemma ring_next_eq:
  assumes "unat i < unat (rxRingBufferSize h)" and "unat (rxRingBufferSize h) \<le> 2 ^ 16"
  shows "unat (ring_next h i) = ring_pos (unat (rxRingBufferSize h)) (unat i)"
proof -
  have u: "unat ((ucast i :: u32) + 1) = Suc (unat i)" using unat_u16_bound[of i] by (simp add: unat_word_ariths)
  have c: "(ucast i :: u32) + 1 = rxRingBufferSize h \<longleftrightarrow> Suc (unat i) = unat (rxRingBufferSize h)"
    unfolding u[symmetric] by (rule word_unat_eq_iff)
  show ?thesis
  proof (cases "Suc (unat i) = unat (rxRingBufferSize h)")
    case False
    then have "Suc (unat i) < 2 ^ 16" using assms by linarith
    then have "unat (i + 1) = Suc (unat i)" by (simp add: unat_word_ariths)
    then show ?thesis using False by (simp add: ring_next_def c ring_pos_def)
  qed (simp add: ring_next_def c ring_pos_def)
qed

lemma ring_full:
  assumes "ring_ok s"
  shows "LPUART_TransferIsRxRingBufferFull (ts_handle s) \<longleftrightarrow> length (ring_bytes s) = ring_size s - 1"
proof -
  have "2 \<le> unat (rxRingBufferSize (ts_handle s))" using assms by (auto simp: ring_ok_def ring_size_def split: option.splits)
  then have "unat (rxRingBufferSize (ts_handle s) - 1) = ring_size s - 1"
    by (subst unat_sub) (simp_all add: word_le_nat_alt ring_size_def)
  then show ?thesis
    using ring_length[OF assms] by (metis LPUART_TransferIsRxRingBufferFull_def word_unat_eq_iff)
qed

text \<open>The latest elements of a list.\<close>

definition latest :: "nat \<Rightarrow> 'a list \<Rightarrow> 'a list" where
  "latest n xs = drop (length xs - n) xs"

lemma latest_all: "length xs \<le> n \<Longrightarrow> latest n xs = xs"
  by (simp add: latest_def)

lemma length_latest: "length (latest n xs) = min (length xs) n"
  by (simp add: latest_def)

lemma latest_tl: "length xs = n \<Longrightarrow> ys \<noteq> [] \<Longrightarrow> latest n (tl xs @ ys) = latest n (xs @ ys)"
proof (cases xs)
  case (Cons x xs')
  assume "length xs = n" "ys \<noteq> []"
  then have "length (xs @ ys) - n = Suc (length (xs' @ ys) - n)" using Cons by (cases ys) auto
  then show ?thesis using Cons by (simp add: latest_def)
qed simp

text \<open>
  What the driver expects of a buffer that receives in the background: as much as fits is kept in the order of arrival, what is oldest makes room, and each
  such loss is noted.
\<close>

locale overwriting_queue =
  fixes ok :: "'s \<Rightarrow> bool"
    and content :: "'s \<Rightarrow> 'b list"
    and capacity :: "'s \<Rightarrow> nat"
    and coming :: "'s \<Rightarrow> nat \<Rightarrow> 'b"
    and noted :: "'s \<Rightarrow> 'n list"
    and warning :: "'s \<Rightarrow> 'n list"
    and same :: "'s \<Rightarrow> 's \<Rightarrow> bool"
    and put :: "'s \<Rightarrow> 's res"
  assumes put_law: "ok s \<Longrightarrow> \<exists>s'. put s = Inr s' \<and> ok s' \<and> capacity s' = capacity s \<and> same s s' \<and>
      coming s' = (\<lambda>i. coming s (Suc i)) \<and>
      content s' = (if length (content s) = capacity s then tl (content s) else content s) @ [coming s 0] \<and>
      noted s' = noted s @ (if length (content s) = capacity s then warning s else [])"
    and bounded: "ok s \<Longrightarrow> length (content s) \<le> capacity s \<and> 0 < capacity s"
    and same_refl: "same s s"
    and same_trans: "same s s' \<Longrightarrow> same s' s'' \<Longrightarrow> same s s''"
    and warning_same: "same s s' \<Longrightarrow> warning s' = warning s"
begin

lemma put_many:
  "ok s \<Longrightarrow> \<exists>s'. for_each is (\<lambda>_. put) s = Inr s' \<and> ok s' \<and> capacity s' = capacity s \<and> same s s' \<and>
     coming s' = (\<lambda>i. coming s (length is + i)) \<and> content s' = latest (capacity s) (content s @ map (coming s) [0..<length is]) \<and>
     noted s' = noted s @ concat (replicate (length (content s) + length is - capacity s) (warning s))"
proof (induction "is" arbitrary: s)
  case Nil
  then show ?case using bounded[of s] same_refl by (simp add: latest_all)
next
  case (Cons i "is")
  let ?full = "length (content s) = capacity s"
  let ?rest = "map (\<lambda>i. coming s (Suc i)) [0..<length is]"
  from put_law[OF Cons.prems] obtain s1 where s1: "put s = Inr s1" "ok s1" "capacity s1 = capacity s" "same s s1"
    "coming s1 = (\<lambda>i. coming s (Suc i))" "content s1 = (if ?full then tl (content s) else content s) @ [coming s 0]"
    "noted s1 = noted s @ (if ?full then warning s else [])" by blast
  from Cons.IH[OF s1(2)] obtain s' where s': "for_each is (\<lambda>_. put) s1 = Inr s'" "ok s'" "capacity s' = capacity s" "same s1 s'"
    "coming s' = (\<lambda>i. coming s (Suc (length is + i)))" "content s' = latest (capacity s) (content s1 @ ?rest)"
    "noted s' = noted s1 @ concat (replicate (length (content s1) + length is - capacity s) (warning s1))"
    using s1(3,5) by auto
  have all: "map (coming s) [0..<length (i # is)] = coming s 0 # ?rest"
    by (simp only: list.size upt_conv_Cons[of 0 "Suc (length is)", OF zero_less_Suc] add_Suc_right add_0_right list.map map_Suc_upt[symmetric] map_map o_def)
  have "latest (capacity s) (content s1 @ ?rest) = latest (capacity s) (content s @ map (coming s) [0..<length (i # is)])"
    unfolding all s1(6) using latest_tl[of "content s" "capacity s" "coming s 0 # ?rest"] by simp
  moreover have "noted s' = noted s @ concat (replicate (length (content s) + length (i # is) - capacity s) (warning s))"
  proof (cases ?full)
    case True
    then have "length (content s1) = capacity s" using s1(6) bounded[OF Cons.prems] by simp
    then show ?thesis using True s'(7) s1(7) warning_same[OF s1(4)] by simp
  next
    case False
    then show ?thesis using s'(7) s1(6,7) warning_same[OF s1(4)] by simp
  qed
  ultimately show ?case
    using s1(1) s' same_trans[OF s1(4) s'(4)] by simp
qed

end

text \<open>A callback that only takes note.\<close>

definition only_told :: user where
  "only_told f status data s = Inr s"

definition told_by :: "transfer_sys \<Rightarrow> lpuart_status \<Rightarrow> lpuart_status list" where
  "told_by s status = (if callback (ts_handle s) = None then [] else [status])"

lemma call_back_told: "call_back only_told status s = Inr (s\<lparr>ts_told := ts_told s @ told_by s status\<rparr>)"
  by (simp add: call_back_def only_told_def told_by_def split: option.split)

definition coming :: "transfer_sys \<Rightarrow> nat \<Rightarrow> u8" where
  "coming s i = byte_of (isSevenDataBits (ts_handle s)) (ts_line s (ts_taken s + i))"

text \<open>All that the background reception does not touch.\<close>

definition ring_object :: "transfer_sys \<Rightarrow> nat set" where
  "ring_object s = (case rxRingBuffer (ts_handle s) of None \<Rightarrow> {} | Some (obj, k) \<Rightarrow> {obj})"

definition ring_frame :: "transfer_sys \<Rightarrow> transfer_sys \<Rightarrow> bool" where
  "ring_frame s s' \<longleftrightarrow>
     ts_regs s' = ts_regs s \<and> ts_line s' = ts_line s \<and> ts_sent s' = ts_sent s \<and>
     ts_handle s' = (ts_handle s)\<lparr>rxRingBufferHead := rxRingBufferHead (ts_handle s'), rxRingBufferTail := rxRingBufferTail (ts_handle s')\<rparr> \<and>
     (\<forall>obj. length (ts_mem s' obj) = length (ts_mem s obj)) \<and>
     (\<forall>obj. obj \<notin> ring_object s \<longrightarrow> ts_mem s' obj = ts_mem s obj)"

lemma ring_frame_handle:
  assumes "ring_frame s s'"
  shows "rxRingBuffer (ts_handle s') = rxRingBuffer (ts_handle s)" "callback (ts_handle s') = callback (ts_handle s)"
    "ring_object s' = ring_object s" "told_by s' = told_by s"
proof -
  have h: "ts_handle s' = (ts_handle s)\<lparr>rxRingBufferHead := rxRingBufferHead (ts_handle s'), rxRingBufferTail := rxRingBufferTail (ts_handle s')\<rparr>"
    using assms by (simp add: ring_frame_def)
  show r: "rxRingBuffer (ts_handle s') = rxRingBuffer (ts_handle s)" and c: "callback (ts_handle s') = callback (ts_handle s)"
    by (subst h, simp)+
  show "ring_object s' = ring_object s" by (simp add: ring_object_def r)
  show "told_by s' = told_by s" by (rule ext) (simp add: told_by_def c)
qed

lemma ring_frame_refl: "ring_frame s s"
  by (simp add: ring_frame_def)

lemma ring_update_twice:
  fixes x y z :: lpuart_handle
  assumes "z = y\<lparr>rxRingBufferHead := c, rxRingBufferTail := d\<rparr>" and "y = x\<lparr>rxRingBufferHead := a, rxRingBufferTail := b\<rparr>"
  shows "z = x\<lparr>rxRingBufferHead := c, rxRingBufferTail := d\<rparr>"
  unfolding assms(1) by (subst assms(2)) simp

lemma ring_frame_trans:
  assumes "ring_frame s s'" and "ring_frame s' s''"
  shows "ring_frame s s''"
proof -
  have "ts_handle s'' = (ts_handle s)\<lparr>rxRingBufferHead := rxRingBufferHead (ts_handle s''), rxRingBufferTail := rxRingBufferTail (ts_handle s'')\<rparr>"
  proof -
    have "ts_handle s'' = (ts_handle s')\<lparr>rxRingBufferHead := rxRingBufferHead (ts_handle s''), rxRingBufferTail := rxRingBufferTail (ts_handle s'')\<rparr>"
      using assms(2) by (simp add: ring_frame_def)
    moreover have "ts_handle s' = (ts_handle s)\<lparr>rxRingBufferHead := rxRingBufferHead (ts_handle s'), rxRingBufferTail := rxRingBufferTail (ts_handle s')\<rparr>"
      using assms(1) by (simp add: ring_frame_def)
    ultimately show ?thesis by (rule ring_update_twice)
  qed
  then show ?thesis using assms ring_frame_handle(3)[OF assms(1)] by (simp add: ring_frame_def)
qed

definition advance_tail :: "transfer_sys \<Rightarrow> transfer_sys" where
  "advance_tail = on_handle (\<lambda>h. h\<lparr>rxRingBufferTail := ring_next h (rxRingBufferTail h)\<rparr>)"

definition advance_head :: "transfer_sys \<Rightarrow> transfer_sys" where
  "advance_head = on_handle (\<lambda>h. h\<lparr>rxRingBufferHead := ring_next h (rxRingBufferHead h)\<rparr>)"

lemma ring_okE:
  assumes "ring_ok s"
  obtains obj k where "rxRingBuffer (ts_handle s) = Some (obj, k)" "2 \<le> ring_size s" "ring_size s \<le> 2 ^ 16"
    "k + ring_size s \<le> length (ts_mem s obj)" "unat (rxRingBufferHead (ts_handle s)) < ring_size s"
    "unat (rxRingBufferTail (ts_handle s)) < ring_size s"
  using assms by (auto simp: ring_ok_def split: option.splits)

lemma drop_oldest:
  assumes "ring_ok s" and "ring_bytes s \<noteq> []"
  shows "load (ptr_plus (rxRingBuffer (ts_handle s)) (unat (rxRingBufferTail (ts_handle s)))) (ts_mem s) = Inr (hd (ring_bytes s))"
    and "ring_ok (advance_tail s)" and "ring_bytes (advance_tail s) = tl (ring_bytes s)" and "ring_frame s (advance_tail s)"
    and "ring_size (advance_tail s) = ring_size s"
proof -
  from assms(1) obtain obj k where o: "rxRingBuffer (ts_handle s) = Some (obj, k)" "2 \<le> ring_size s" "ring_size s \<le> 2 ^ 16"
    "k + ring_size s \<le> length (ts_mem s obj)" "unat (rxRingBufferHead (ts_handle s)) < ring_size s"
    "unat (rxRingBufferTail (ts_handle s)) < ring_size s" by (rule ring_okE)
  have n: "unat (ring_next (ts_handle s) (rxRingBufferTail (ts_handle s))) = ring_pos (ring_size s) (unat (rxRingBufferTail (ts_handle s)))"
    using ring_next_eq[of "rxRingBufferTail (ts_handle s)" "ts_handle s"] o by (simp add: ring_size_def)
  have pos: "0 < ring_len (ring_size s) (unat (rxRingBufferHead (ts_handle s))) (unat (rxRingBufferTail (ts_handle s)))"
    using assms(2) by (simp add: ring_bytes_def o(1) ring_list_def)
  note d = ring_list_drop[OF o(5,6) pos, of "ts_mem s obj" k]
  show "load (ptr_plus (rxRingBuffer (ts_handle s)) (unat (rxRingBufferTail (ts_handle s)))) (ts_mem s) = Inr (hd (ring_bytes s))"
    using o(4,6) d by (simp add: load_def ptr_plus_def o(1) ring_bytes_def)
  show "ring_size (advance_tail s) = ring_size s" by (simp add: advance_tail_def on_handle_def ring_size_def)
  then show "ring_ok (advance_tail s)"
    using o n ring_pos_less[OF o(6)] by (simp add: ring_ok_def advance_tail_def on_handle_def)
  show "ring_bytes (advance_tail s) = tl (ring_bytes s)"
    using d n o(1) \<open>ring_size (advance_tail s) = ring_size s\<close> by (simp add: ring_bytes_def advance_tail_def on_handle_def)
  show "ring_frame s (advance_tail s)" by (simp add: ring_frame_def advance_tail_def on_handle_def)
qed

lemma put_newest:
  assumes "ring_ok s" and "length (ring_bytes s) < ring_size s - 1"
  shows "\<exists>m. store (ptr_plus (rxRingBuffer (ts_handle s)) (unat (rxRingBufferHead (ts_handle s)))) b (ts_mem s) = Inr m \<and>
    ring_ok (advance_head (s\<lparr>ts_mem := m\<rparr>)) \<and> ring_bytes (advance_head (s\<lparr>ts_mem := m\<rparr>)) = ring_bytes s @ [b] \<and>
    ring_frame s (advance_head (s\<lparr>ts_mem := m\<rparr>)) \<and> ring_size (advance_head (s\<lparr>ts_mem := m\<rparr>)) = ring_size s"
proof -
  from assms(1) obtain obj k where o: "rxRingBuffer (ts_handle s) = Some (obj, k)" "2 \<le> ring_size s" "ring_size s \<le> 2 ^ 16"
    "k + ring_size s \<le> length (ts_mem s obj)" "unat (rxRingBufferHead (ts_handle s)) < ring_size s"
    "unat (rxRingBufferTail (ts_handle s)) < ring_size s" by (rule ring_okE)
  let ?i = "k + unat (rxRingBufferHead (ts_handle s))"
  let ?m = "(ts_mem s)(obj := (ts_mem s obj)[?i := b])"
  let ?s = "advance_head (s\<lparr>ts_mem := ?m\<rparr>)"
  have n: "unat (ring_next (ts_handle s) (rxRingBufferHead (ts_handle s))) = ring_pos (ring_size s) (unat (rxRingBufferHead (ts_handle s)))"
    using ring_next_eq[of "rxRingBufferHead (ts_handle s)" "ts_handle s"] o by (simp add: ring_size_def)
  have room: "ring_len (ring_size s) (unat (rxRingBufferHead (ts_handle s))) (unat (rxRingBufferTail (ts_handle s))) < ring_size s - 1"
    using assms(2) by (simp add: ring_bytes_def o(1))
  have size: "ring_size ?s = ring_size s" by (simp add: advance_head_def on_handle_def ring_size_def)
  have "store (ptr_plus (rxRingBuffer (ts_handle s)) (unat (rxRingBufferHead (ts_handle s)))) b (ts_mem s) = Inr ?m"
    using o(4,5) by (simp add: store_def ptr_plus_def o(1))
  moreover have "ring_ok ?s"
    using o n size ring_pos_less[OF o(5)] by (simp add: ring_ok_def advance_head_def on_handle_def)
  moreover have "ring_bytes ?s = ring_bytes s @ [b]"
    using ring_list_put[OF o(5,6) room o(4), of b] n o(1) size by (simp add: ring_bytes_def advance_head_def on_handle_def)
  moreover have "ring_frame s ?s"
    by (simp add: ring_frame_def advance_head_def on_handle_def ring_object_def o(1))
  ultimately show ?thesis using size by blast
qed

lemma ring_bytes_bound:
  assumes "ring_ok s"
  shows "length (ring_bytes s) \<le> ring_size s - 1 \<and> 0 < ring_size s - 1"
proof -
  from assms obtain obj k where o: "rxRingBuffer (ts_handle s) = Some (obj, k)" "2 \<le> ring_size s"
    "unat (rxRingBufferHead (ts_handle s)) < ring_size s" "unat (rxRingBufferTail (ts_handle s)) < ring_size s" by (rule ring_okE)
  then show ?thesis using ring_len_less[OF o(3,4)] by (auto simp: ring_bytes_def)
qed

text \<open>What does not concern the ring.\<close>

lemma ring_told [simp]:
  "ring_ok (s\<lparr>ts_told := t\<rparr>) = ring_ok s" "ring_bytes (s\<lparr>ts_told := t\<rparr>) = ring_bytes s" "ring_size (s\<lparr>ts_told := t\<rparr>) = ring_size s"
  "ring_ok (take_word s) = ring_ok s" "ring_bytes (take_word s) = ring_bytes s" "ring_size (take_word s) = ring_size s"
  "ring_ok (on_regs f s) = ring_ok s" "ring_bytes (on_regs f s) = ring_bytes s" "ring_size (on_regs f s) = ring_size s"
  by (simp_all add: ring_ok_def ring_bytes_def ring_size_def take_word_def on_regs_def split: option.split)

lemma ring_frame_told: "ring_frame s (s\<lparr>ts_told := t\<rparr>)" "ring_frame s (take_word s)"
  by (simp_all add: ring_frame_def take_word_def)

lemma store_in_ring_eq:
  "store_in_ring only_told s =
    (let full = LPUART_TransferIsRxRingBufferFull (ts_handle s);
         s1 = (if full then s\<lparr>ts_told := ts_told s @ told_by s kStatus_LPUART_RxRingBufferOverrun\<rparr> else s);
         s2 = take_word (if full then advance_tail s1 else s1)
     in rbind (store (ptr_plus (rxRingBuffer (ts_handle s2)) (unat (rxRingBufferHead (ts_handle s2)))) (coming s 0) (ts_mem s2))
          (\<lambda>m. Inr (advance_head (s2\<lparr>ts_mem := m\<rparr>))))"
  by (simp add: store_in_ring_def call_back_told Let_def advance_tail_def advance_head_def on_handle_def take_word_def coming_def next_word_def)

lemma ring_frame_coming:
  assumes "ring_frame s s'" and "ts_taken s' = ts_taken s + n"
  shows "coming s' = (\<lambda>i. coming s (n + i))"
proof -
  have "ts_handle s' = (ts_handle s)\<lparr>rxRingBufferHead := rxRingBufferHead (ts_handle s'), rxRingBufferTail := rxRingBufferTail (ts_handle s')\<rparr>"
    using assms(1) by (simp add: ring_frame_def)
  then have "isSevenDataBits (ts_handle s') = isSevenDataBits (ts_handle s)" by (rule ssubst) simp
  then show ?thesis using assms by (simp add: fun_eq_iff coming_def ring_frame_def add.assoc)
qed

lemma store_in_ring_law:
  assumes "ring_ok s"
  shows "\<exists>s'. store_in_ring only_told s = Inr s' \<and> ring_ok s' \<and> ring_size s' = ring_size s \<and> ring_frame s s' \<and> ts_taken s' = Suc (ts_taken s) \<and>
    ring_bytes s' = (if length (ring_bytes s) = ring_size s - 1 then tl (ring_bytes s) else ring_bytes s) @ [coming s 0] \<and>
    ts_told s' = ts_told s @ (if length (ring_bytes s) = ring_size s - 1 then told_by s kStatus_LPUART_RxRingBufferOverrun else [])"
proof -
  let ?full = "length (ring_bytes s) = ring_size s - 1"
  define s1 where "s1 = s\<lparr>ts_told := ts_told s @ told_by s kStatus_LPUART_RxRingBufferOverrun\<rparr>"
  define s2 where "s2 = take_word (if ?full then advance_tail s1 else s)"
  note bound = ring_bytes_bound[OF assms]
  have s1: "ring_ok s1" "ring_bytes s1 = ring_bytes s" "ring_size s1 = ring_size s" "ring_frame s s1"
    using assms by (simp_all add: s1_def ring_frame_told)
  have s2: "ring_ok s2" "ring_size s2 = ring_size s" "ring_frame s s2" "length (ring_bytes s2) < ring_size s2 - 1"
    "ring_bytes s2 = (if ?full then tl (ring_bytes s) else ring_bytes s)"
  proof -
    have ne: "ring_bytes s1 \<noteq> []" if ?full using that bound s1(2) by auto
    show ok: "ring_ok s2" and size: "ring_size s2 = ring_size s" and
      b: "ring_bytes s2 = (if ?full then tl (ring_bytes s) else ring_bytes s)"
      using drop_oldest[OF s1(1) ne] assms s1 by (auto simp: s2_def)
    show "ring_frame s s2"
      using ring_frame_trans[OF s1(4) drop_oldest(4)[OF s1(1) ne]] ring_frame_told(2) ring_frame_trans by (auto simp: s2_def)
    show "length (ring_bytes s2) < ring_size s2 - 1" using b size bound by (auto simp: less_le)
  qed
  have rest: "ts_taken s2 = Suc (ts_taken s)"
    "ts_told s2 = ts_told s @ (if ?full then told_by s kStatus_LPUART_RxRingBufferOverrun else [])"
    by (auto simp: s2_def s1_def take_word_def advance_tail_def on_handle_def)
  from put_newest[OF s2(1,4), of "coming s 0"] obtain m where
    m: "store (ptr_plus (rxRingBuffer (ts_handle s2)) (unat (rxRingBufferHead (ts_handle s2)))) (coming s 0) (ts_mem s2) = Inr m"
      "ring_ok (advance_head (s2\<lparr>ts_mem := m\<rparr>))" "ring_bytes (advance_head (s2\<lparr>ts_mem := m\<rparr>)) = ring_bytes s2 @ [coming s 0]"
      "ring_frame s2 (advance_head (s2\<lparr>ts_mem := m\<rparr>))" "ring_size (advance_head (s2\<lparr>ts_mem := m\<rparr>)) = ring_size s2" by blast
  have "store_in_ring only_told s =
      rbind (store (ptr_plus (rxRingBuffer (ts_handle s2)) (unat (rxRingBufferHead (ts_handle s2)))) (coming s 0) (ts_mem s2))
        (\<lambda>m. Inr (advance_head (s2\<lparr>ts_mem := m\<rparr>)))"
    by (cases ?full) (simp_all add: store_in_ring_eq Let_def ring_full[OF assms] s2_def s1_def)
  then have "store_in_ring only_told s = Inr (advance_head (s2\<lparr>ts_mem := m\<rparr>))" using m(1) by simp
  moreover have "ts_taken (advance_head (s2\<lparr>ts_mem := m\<rparr>)) = Suc (ts_taken s)"
    "ts_told (advance_head (s2\<lparr>ts_mem := m\<rparr>)) = ts_told s2"
    using rest by (simp_all add: advance_head_def on_handle_def)
  ultimately show ?thesis
    using m s2 rest ring_frame_trans[OF s2(3) m(4)] by auto
qed

interpretation rx_ring: overwriting_queue ring_ok ring_bytes "\<lambda>s. ring_size s - 1" coming ts_told
  "\<lambda>s. told_by s kStatus_LPUART_RxRingBufferOverrun" ring_frame "store_in_ring only_told"
proof (unfold_locales, goal_cases)
  case (1 s)
  from store_in_ring_law[OF 1] obtain s' where s': "store_in_ring only_told s = Inr s'" "ring_ok s'" "ring_size s' = ring_size s" "ring_frame s s'"
    "ts_taken s' = Suc (ts_taken s)"
    "ring_bytes s' = (if length (ring_bytes s) = ring_size s - 1 then tl (ring_bytes s) else ring_bytes s) @ [coming s 0]"
    "ts_told s' = ts_told s @ (if length (ring_bytes s) = ring_size s - 1 then told_by s kStatus_LPUART_RxRingBufferOverrun else [])" by blast
  have "coming s' = (\<lambda>i. coming s (Suc i))" using ring_frame_coming[OF s'(4), of 1] s'(5) by simp
  with s' show ?case by auto
next
  case (2 s)
  then show ?case by (rule ring_bytes_bound)
next
  case (3 s)
  show ?case by (rule ring_frame_refl)
next
  case (4 s s' s'')
  then show ?case by (rule ring_frame_trans)
next
  case (5 s s')
  then show ?case by (simp add: ring_frame_handle)
qed

lemma fill_ring_each: "fill_ring user n s = for_each [0..<n] (\<lambda>_. store_in_ring user) s"
proof -
  have "for_each is (\<lambda>_. store_in_ring user) s = fill_ring user (length is) s" for "is" :: "nat list"
    by (induction "is" arbitrary: s) (auto simp: rbind_def split: sum.split)
  then show ?thesis by simp
qed

lemma fill_ring_taken: "ring_ok s \<Longrightarrow> fill_ring only_told n s = Inr s' \<Longrightarrow> ts_taken s' = ts_taken s + n"
proof (induction n arbitrary: s)
  case (Suc n)
  from store_in_ring_law[OF Suc.prems(1)] obtain s1 where "store_in_ring only_told s = Inr s1" "ring_ok s1" "ts_taken s1 = Suc (ts_taken s)" by blast
  with Suc.IH[of s1] Suc.prems(2) show ?case by simp
qed simp

text \<open>
  C22: Background reception: \<open>n\<close> bytes received into a ring buffer of between two and 65536 bytes leave in it the latest of the bytes that
  were there and the new ones, in order, as many as fit, which is one less than its size; the callback is told of exactly as many overruns as bytes have been lost, and
  nothing else in the memory, the registers or the handle changes.
\<close>

theorem ring_keeps_latest:
  assumes "ring_ok s"
  shows "\<exists>s'. fill_ring only_told n s = Inr s' \<and> ring_ok s' \<and> ring_frame s s' \<and> ts_taken s' = ts_taken s + n \<and>
    ring_bytes s' = latest (ring_size s - 1) (ring_bytes s @ map (coming s) [0..<n]) \<and>
    ts_told s' = ts_told s @ concat (replicate (length (ring_bytes s) + n - (ring_size s - 1)) (told_by s kStatus_LPUART_RxRingBufferOverrun))"
proof -
  from rx_ring.put_many[OF assms, of "[0..<n]"] obtain s' where
    s': "fill_ring only_told n s = Inr s'" "ring_ok s'" "ring_frame s s'"
      "ring_bytes s' = latest (ring_size s - 1) (ring_bytes s @ map (coming s) [0..<n])"
      "ts_told s' = ts_told s @ concat (replicate (length (ring_bytes s) + n - (ring_size s - 1)) (told_by s kStatus_LPUART_RxRingBufferOverrun))"
    by (auto simp: fill_ring_each)
  then show ?thesis using fill_ring_taken[OF assms s'(1)] by blast
qed

text \<open>A state with a byte left in a ring of three places, and two that come.\<close>

definition small_handle :: lpuart_handle where
  "small_handle =
    zero_handle\<lparr>rxRingBuffer := Some (1, 0), rxRingBufferSize := 3, rxRingBufferHead := 1, callback := Some 0, rxState := kLPUART_RxIdle\<rparr>"

definition small_sys :: transfer_sys where
  "small_sys =
    \<lparr>ts_regs = reset_lpuart\<lparr>lu_CTRL := 0x08200000\<rparr>, ts_handle = small_handle, ts_mem = (\<lambda>_. [65, 0, 0]), ts_line = (\<lambda>i. 66 + of_nat i),
     ts_taken = 0, ts_sent = [], ts_told = []\<rparr>"

lemma small_sys_ok: "ring_ok small_sys" "ring_bytes small_sys = [65]" "ring_size small_sys = 3"
  "coming small_sys = (\<lambda>i. ucast (66 + of_nat i :: u32))" "told_by small_sys st = [st]"
  by (simp_all add: ring_ok_def ring_bytes_def ring_size_def ring_list_def ring_len_def ring_at_def coming_def byte_of_def told_by_def
      small_sys_def small_handle_def zero_handle_def fun_eq_iff)

theorem ring_keeps_latest_witness:
  "\<exists>s'. fill_ring only_told 2 small_sys = Inr s' \<and> ring_bytes s' = [66, 67] \<and> ts_told s' = [kStatus_LPUART_RxRingBufferOverrun]"
  using ring_keeps_latest[OF small_sys_ok(1), of 2]
  by (auto simp: small_sys_ok latest_def upt_rec) (auto simp: small_sys_def)

section \<open>Requests\<close>

text \<open>A range of memory with new contents.\<close>

definition put_bytes :: "nat \<Rightarrow> nat \<Rightarrow> u8 list \<Rightarrow> memory \<Rightarrow> memory" where
  "put_bytes obj i bs m = m(obj := take i (m obj) @ bs @ drop (i + length bs) (m obj))"

lemma put_bytes_Nil [simp]: "put_bytes obj i [] m = m"
  by (simp add: put_bytes_def fun_eq_iff)

lemma put_bytes_Cons:
  assumes "i < length (m obj)"
  shows "put_bytes obj (Suc i) bs (m(obj := (m obj)[i := b])) = put_bytes obj i (b # bs) m"
proof -
  have "take (Suc i) ((m obj)[i := b]) = take i (m obj) @ [b]"
    using assms by (simp add: take_Suc_conv_app_nth)
  then show ?thesis
    using assms by (simp add: put_bytes_def fun_eq_iff drop_update_cancel)
qed

lemma put_bytes_other [simp]: "obj' \<noteq> obj \<Longrightarrow> put_bytes obj i bs m obj' = m obj'"
  by (simp add: put_bytes_def)

lemma put_bytes_length: "i + length bs \<le> length (m obj) \<Longrightarrow> length (put_bytes obj i bs m obj') = length (m obj')"
  by (simp add: put_bytes_def)

lemma put_bytes_read: "j + i + length bs \<le> length (m obj) \<Longrightarrow>
    take (i + length bs) (drop j (put_bytes obj (j + i) bs m obj)) = take i (drop j (m obj)) @ bs"
  by (simp add: put_bytes_def drop_take)

lemma store_ok: "i < length (m obj) \<Longrightarrow> store (Some (obj, i)) b m = Inr (m(obj := (m obj)[i := b]))"
  by (simp add: store_def)

lemma load_ok: "i < length (m obj) \<Longrightarrow> load (Some (obj, i)) m = Inr (m obj ! i)"
  by (simp add: load_def)

lemma ptr_plus_Some [simp]: "ptr_plus (Some (obj, i)) n = Some (obj, i + n)"
  by (simp add: ptr_plus_def)

lemma read_loop_eq:
  "i + n \<le> length (ts_mem s obj) \<Longrightarrow> read_loop seven (Some (obj, i)) n s =
    Inr (s\<lparr>ts_mem := put_bytes obj i (map (\<lambda>k. byte_of seven (ts_line s (ts_taken s + k))) [0..<n]) (ts_mem s), ts_taken := ts_taken s + n\<rparr>)"
proof (induction n arbitrary: i s)
  case (Suc n)
  let ?b = "byte_of seven (ts_line s (ts_taken s))" and ?bs = "map (\<lambda>k. byte_of seven (ts_line s (ts_taken s + Suc k))) [0..<n]"
  define m where "m = (ts_mem s)(obj := (ts_mem s obj)[i := ?b])"
  have len: "length (m obj) = length (ts_mem s obj)" by (simp add: m_def)
  have m: "put_bytes obj (Suc i) ?bs m = put_bytes obj i (?b # ?bs) (ts_mem s)"
    unfolding m_def using Suc.prems by (intro put_bytes_Cons) simp
  have all: "map (\<lambda>k. byte_of seven (ts_line s (ts_taken s + k))) [0..<Suc n] = ?b # ?bs"
    by (simp add: upt_conv_Cons map_Suc_upt[symmetric] o_def del: upt_Suc)
  have "read_loop seven (Some (obj, i)) (Suc n) s = read_loop seven (Some (obj, Suc i)) n (s\<lparr>ts_mem := m, ts_taken := Suc (ts_taken s)\<rparr>)"
    using Suc.prems by (simp add: store_ok next_word_def m_def take_word_def)
  also have "\<dots> = Inr (s\<lparr>ts_mem := put_bytes obj (Suc i) ?bs m, ts_taken := Suc (ts_taken s) + n\<rparr>)"
    using Suc.IH[of "Suc i" "s\<lparr>ts_mem := m, ts_taken := Suc (ts_taken s)\<rparr>"] Suc.prems len by simp
  finally show ?case unfolding all m by simp
qed simp

lemma copy_from_ring_eq:
  assumes "ring_ok s" and "obj \<notin> ring_object s" and "n \<le> length (ring_bytes s)" and "i + n \<le> length (ts_mem s obj)"
  shows "\<exists>t s'. copy_from_ring n (Some (obj, i)) s = Inr s' \<and> ring_ok s' \<and> ring_bytes s' = drop n (ring_bytes s) \<and> ring_size s' = ring_size s \<and>
    s' = on_handle (\<lambda>h. h\<lparr>rxRingBufferTail := t\<rparr>) (s\<lparr>ts_mem := put_bytes obj i (take n (ring_bytes s)) (ts_mem s)\<rparr>)"
  using assms
proof (induction n arbitrary: i s)
  case 0
  have "s = on_handle (\<lambda>h. h\<lparr>rxRingBufferTail := rxRingBufferTail (ts_handle s)\<rparr>) (s\<lparr>ts_mem := ts_mem s\<rparr>)"
    by (simp add: on_handle_def)
  with 0 show ?case by auto
next
  case (Suc n)
  let ?b = "hd (ring_bytes s)" and ?rest = "take n (tl (ring_bytes s))"
  define m where "m = (ts_mem s)(obj := (ts_mem s obj)[i := ?b])"
  define s1 where "s1 = advance_tail (s\<lparr>ts_mem := m\<rparr>)"
  have ne: "ring_bytes s \<noteq> []" using Suc.prems(3) by auto
  note d = drop_oldest[OF Suc.prems(1) ne]
  have obj: "obj \<notin> ring_object (advance_tail s)"
    using Suc.prems(2) ring_frame_handle(3)[OF d(4)] by simp
  have s1: "s1 = (advance_tail s)\<lparr>ts_mem := m\<rparr>" and mem: "ts_mem s1 = m" "length (m obj) = length (ts_mem s obj)"
    "\<And>o'. o' \<noteq> obj \<Longrightarrow> m o' = ts_mem (advance_tail s) o'"
    by (simp_all add: s1_def m_def advance_tail_def on_handle_def)
  have ring: "ring_ok s1" "ring_bytes s1 = tl (ring_bytes s)" "ring_size s1 = ring_size s" "obj \<notin> ring_object s1"
    using d obj mem(3) by (auto simp: s1 ring_ok_def ring_bytes_def ring_size_def ring_object_def split: option.splits)
  have step: "copy_from_ring (Suc n) (Some (obj, i)) s = copy_from_ring n (Some (obj, Suc i)) s1"
    using Suc.prems(4) d(1) by (simp add: store_ok s1_def m_def advance_tail_def)
  have m: "put_bytes obj (Suc i) ?rest m = put_bytes obj i (take (Suc n) (ring_bytes s)) (ts_mem s)"
    using put_bytes_Cons[of i "ts_mem s" obj ?rest ?b] Suc.prems(4) ne unfolding m_def by (cases "ring_bytes s") simp_all
  have "n \<le> length (ring_bytes s1)" "Suc i + n \<le> length (ts_mem s1 obj)" using Suc.prems ring(2) mem by simp_all
  from Suc.IH[OF ring(1,4) this] obtain t s' where s': "copy_from_ring n (Some (obj, Suc i)) s1 = Inr s'" "ring_ok s'"
    "ring_bytes s' = drop n (tl (ring_bytes s))" "ring_size s' = ring_size s"
    "s' = on_handle (\<lambda>h. h\<lparr>rxRingBufferTail := t\<rparr>) (s1\<lparr>ts_mem := put_bytes obj (Suc i) ?rest m\<rparr>)"
    unfolding ring(2,3) mem(1) by blast
  have "s' = on_handle (\<lambda>h. h\<lparr>rxRingBufferTail := t\<rparr>) (s\<lparr>ts_mem := put_bytes obj i (take (Suc n) (ring_bytes s)) (ts_mem s)\<rparr>)"
    using s'(5) unfolding m by (simp add: s1_def advance_tail_def on_handle_def)
  with step s'(1-4) show ?case by (metis drop_Suc)
qed

section \<open>What an interrupt looks at\<close>

lemma transfer_masks:
  assumes "interrupt_bits_ok L" and "flag_bits_ok L"
  shows "fmask (CTRL_ILIE L) = 0x100000" and "fmask (CTRL_RIE L) = 0x200000" and "fmask (CTRL_TCIE L) = 0x400000"
    and "fmask (CTRL_TIE L) = 0x800000" and "fmask (CTRL_ORIE L) = 0x8000000" and "fmask (STAT_IDLE L) = 0x100000"
  using assms by (simp_all add: interrupt_bits_ok_def flag_bits_ok_def bitat_mask)

lemma single_bit_and:
  fixes m w :: u32
  assumes "m = push_bit n 1" and "n < 32"
  shows "m AND w = (if bit w n then m else 0)" and "m \<noteq> 0"
proof -
  have b: "bit m k \<longleftrightarrow> k = n" for k
    unfolding assms(1) using assms(2) by (auto simp: bit_push_bit_iff bit_1_iff simp del: push_bit_of_1)
  show "m AND w = (if bit w n then m else 0)" by (rule bit_word_eqI) (auto simp: bit_and_iff b)
  show "m \<noteq> 0" using b[of n] by auto
qed

lemma and_single_bit: "(m :: u32) = push_bit n 1 \<Longrightarrow> n < 32 \<Longrightarrow> m AND w \<noteq> 0 \<longleftrightarrow> bit w n"
  using single_bit_and(1)[of m n w] single_bit_and(2)[of m n] by simp

lemma single_bit_eq: "(m :: u32) = push_bit n 1 \<Longrightarrow> n < 32 \<Longrightarrow> m = m AND w \<longleftrightarrow> bit w n"
  using single_bit_and(1)[of m n w] single_bit_and(2)[of m n] by auto

lemma seen_flags:
  assumes "interrupt_bits_ok L" and "flag_bits_ok L"
  shows "fmask (STAT_OR L) = fmask (STAT_OR L) AND LPUART_GetStatusFlags L r \<longleftrightarrow> bit (lu_STAT r) 19"
    and "fmask (STAT_IDLE L) AND LPUART_GetStatusFlags L r \<noteq> 0 \<longleftrightarrow> bit (lu_STAT r) 20"
    and "fmask (STAT_RDRF L) AND LPUART_GetStatusFlags L r \<noteq> 0 \<longleftrightarrow> bit (lu_STAT r) 21"
    and "fmask (STAT_TC L) AND LPUART_GetStatusFlags L r \<noteq> 0 \<longleftrightarrow> bit (lu_STAT r) 22"
    and "fmask (STAT_TDRE L) AND LPUART_GetStatusFlags L r \<noteq> 0 \<longleftrightarrow> bit (lu_STAT r) 23"
proof -
  have stat: "LPUART_GetStatusFlags L r AND 0x1F80000 = lu_STAT r AND 0x1F80000"
    unfolding LPUART_GetStatusFlags_def Let_def all_flags[OF assms] fifo_masks[OF assms(2)]
    by (rule word32_eqI; simp add: upt_conv_Cons bit_simps)
  have b: "bit (LPUART_GetStatusFlags L r) n = bit (lu_STAT r) n" if "n \<in> {19, 20, 21, 22, 23}" for n
    using arg_cong[OF stat, where f = "\<lambda>w. bit w n"] that by (auto simp: bit_simps)
  note masks = fifo_masks[OF assms(2)] transfer_masks[OF assms]
  show "fmask (STAT_IDLE L) AND LPUART_GetStatusFlags L r \<noteq> 0 \<longleftrightarrow> bit (lu_STAT r) 20"
    by (simp add: masks and_single_bit[of _ 20] b push_bit_eq_mult)
  show "fmask (STAT_RDRF L) AND LPUART_GetStatusFlags L r \<noteq> 0 \<longleftrightarrow> bit (lu_STAT r) 21"
    by (simp add: masks and_single_bit[of _ 21] b push_bit_eq_mult)
  show "fmask (STAT_TC L) AND LPUART_GetStatusFlags L r \<noteq> 0 \<longleftrightarrow> bit (lu_STAT r) 22"
    by (simp add: masks and_single_bit[of _ 22] b push_bit_eq_mult)
  show "fmask (STAT_TDRE L) AND LPUART_GetStatusFlags L r \<noteq> 0 \<longleftrightarrow> bit (lu_STAT r) 23"
    by (simp add: masks and_single_bit[of _ 23] b push_bit_eq_mult)
  show "fmask (STAT_OR L) = fmask (STAT_OR L) AND LPUART_GetStatusFlags L r \<longleftrightarrow> bit (lu_STAT r) 19"
    using single_bit_eq[of "fmask (STAT_OR L)" 19] by (simp add: masks b push_bit_eq_mult)
qed

lemma seen_interrupts:
  assumes "interrupt_bits_ok L" and "flag_bits_ok L"
  shows "fmask (CTRL_ILIE L) AND LPUART_GetEnabledInterrupts L r \<noteq> 0 \<longleftrightarrow> bit (lu_CTRL r) 20"
    and "fmask (CTRL_RIE L) AND LPUART_GetEnabledInterrupts L r \<noteq> 0 \<longleftrightarrow> bit (lu_CTRL r) 21"
    and "fmask (CTRL_TCIE L) AND LPUART_GetEnabledInterrupts L r \<noteq> 0 \<longleftrightarrow> bit (lu_CTRL r) 22"
    and "fmask (CTRL_TIE L) AND LPUART_GetEnabledInterrupts L r \<noteq> 0 \<longleftrightarrow> bit (lu_CTRL r) 23"
proof -
  have ctrl: "LPUART_GetEnabledInterrupts L r AND 0xF00000 = lu_CTRL r AND 0xF00000"
    unfolding LPUART_GetEnabledInterrupts_def Let_def interrupt_masks[OF assms(1)]
    by (rule word32_eqI; simp add: upt_conv_Cons bit_simps)
  have b: "bit (LPUART_GetEnabledInterrupts L r) n = bit (lu_CTRL r) n" if "n \<in> {20, 21, 22, 23}" for n
    using arg_cong[OF ctrl, where f = "\<lambda>w. bit w n"] that by (auto simp: bit_simps)
  note masks = transfer_masks[OF assms]
  show "fmask (CTRL_ILIE L) AND LPUART_GetEnabledInterrupts L r \<noteq> 0 \<longleftrightarrow> bit (lu_CTRL r) 20"
    by (simp add: masks and_single_bit[of _ 20] b push_bit_eq_mult)
  show "fmask (CTRL_RIE L) AND LPUART_GetEnabledInterrupts L r \<noteq> 0 \<longleftrightarrow> bit (lu_CTRL r) 21"
    by (simp add: masks and_single_bit[of _ 21] b push_bit_eq_mult)
  show "fmask (CTRL_TCIE L) AND LPUART_GetEnabledInterrupts L r \<noteq> 0 \<longleftrightarrow> bit (lu_CTRL r) 22"
    by (simp add: masks and_single_bit[of _ 22] b push_bit_eq_mult)
  show "fmask (CTRL_TIE L) AND LPUART_GetEnabledInterrupts L r \<noteq> 0 \<longleftrightarrow> bit (lu_CTRL r) 23"
    by (simp add: masks and_single_bit[of _ 23] b push_bit_eq_mult)
qed

text \<open>The parts of the handler by the bits of the status and the control register at its entry.\<close>

lemma handler_parts:
  assumes "interrupt_bits_ok L" and "flag_bits_ok L"
  shows "LPUART_TransferHandleIRQ L user (w1, w2, w3) s =
    rbind (if bit (lu_STAT (ts_regs s)) 19 then overrun_part L user (fmask (STAT_OR L)) s else Inr s) (\<lambda>s1.
    rbind (if bit (lu_STAT (ts_regs s)) 20 \<and> bit (lu_CTRL (ts_regs s)) 20
      then idle_part L user (fmask (STAT_IDLE L)) (fmask (CTRL_ILIE L)) w1 s1 else Inr s1) (\<lambda>s2.
    rbind (if bit (lu_STAT (ts_regs s)) 21 \<and> bit (lu_CTRL (ts_regs s)) 21
      then receive_part L user (fmask (STAT_RDRF L)) (fmask (CTRL_RIE L)) w2 s2 else Inr s2) (\<lambda>s3.
    rbind (if bit (lu_STAT (ts_regs s)) 23 \<and> bit (lu_CTRL (ts_regs s)) 23
      then send_part L (fmask (STAT_TDRE L)) (fmask (CTRL_TIE L)) w3 s3 else Inr s3) (\<lambda>s4.
    if bit (lu_STAT (ts_regs s)) 22 \<and> bit (lu_CTRL (ts_regs s)) 22
      then complete_part L user (fmask (STAT_TC L)) (fmask (CTRL_TCIE L)) s4 else Inr s4))))"
proof -
  have nz: "fmask (STAT_IDLE L) \<noteq> 0" "fmask (CTRL_ILIE L) \<noteq> 0" "fmask (STAT_RDRF L) \<noteq> 0" "fmask (CTRL_RIE L) \<noteq> 0"
    "fmask (STAT_TDRE L) \<noteq> 0" "fmask (CTRL_TIE L) \<noteq> 0" "fmask (STAT_TC L) \<noteq> 0" "fmask (CTRL_TCIE L) \<noteq> 0"
    using fifo_masks[OF assms(2)] transfer_masks[OF assms] by simp_all
  show ?thesis
    unfolding LPUART_TransferHandleIRQ_def Let_def prod.case overrun_part_def idle_part_def receive_part_def send_part_def complete_part_def
      seen_flags[OF assms] seen_interrupts[OF assms] and.idem
    using nz by (simp only: refl if_True simp_thms not_False_eq_True)
qed

section \<open>A request while bytes arrive\<close>

text \<open>The effect of reading \<open>n\<close> wanted bytes to the memory from \<open>(obj, i)\<close> on.\<close>

definition filled :: "nat \<Rightarrow> nat \<Rightarrow> nat \<Rightarrow> transfer_sys \<Rightarrow> transfer_sys" where
  "filled obj i n s =
    (let h = ts_handle s; all_read = (n = unat (rxDataSize h))
     in s\<lparr>ts_mem := put_bytes obj i (map (coming s) [0..<n]) (ts_mem s), ts_taken := ts_taken s + n,
          ts_handle := h\<lparr>rxData := Some (obj, i + n), rxDataSize := rxDataSize h - of_nat n,
            rxState := (if all_read then kLPUART_RxIdle else rxState h)\<rparr>,
          ts_told := ts_told s @ (if all_read then told_by s kStatus_LPUART_RxIdle else [])\<rparr>)"

lemma unat_minus_of_nat:
  fixes x :: u32
  assumes "n \<le> unat x"
  shows "unat (x - of_nat n) = unat x - n"
proof -
  have n: "unat (of_nat n :: u32) = n" using assms unsigned_less[of x, where ?'a = nat] by (simp add: unat_of_nat)
  then show ?thesis using assms by (subst unat_sub) (simp_all add: word_le_nat_alt)
qed

lemma fill_request_stop: "rxDataSize (ts_handle s) = 0 \<or> cnt = 0 \<Longrightarrow> fill_request L user cnt s = Inr (cnt, s)"
  by (subst fill_request.simps) simp

lemma fill_request_told:
  assumes "\<not> is16bitData (ts_handle s)" and "isSevenDataBits (ts_handle s) = seven_data_bits L (lu_CTRL (ts_regs s))"
    and "rxData (ts_handle s) = Some (obj, i)" and "i + unat (rxDataSize (ts_handle s)) \<le> length (ts_mem s obj)"
    and "rxDataSize (ts_handle s) \<noteq> 0" and "0 < cnt"
  shows "fill_request L only_told cnt s =
    Inr (cnt - min (unat (rxDataSize (ts_handle s))) cnt, filled obj i (min (unat (rxDataSize (ts_handle s))) cnt) s)"
proof -
  let ?size = "rxDataSize (ts_handle s)" and ?n = "min (unat (rxDataSize (ts_handle s))) cnt"
  define s1 where "s1 = s\<lparr>ts_mem := put_bytes obj i (map (coming s) [0..<?n]) (ts_mem s), ts_taken := ts_taken s + ?n\<rparr>"
  define s2 where "s2 = on_handle (\<lambda>h. h\<lparr>rxData := Some (obj, i + ?n), rxDataSize := ?size - of_nat ?n\<rparr>) s1"
  have map: "map (coming s) [0..<?n] = map (\<lambda>k. byte_of (isSevenDataBits (ts_handle s)) (ts_line s (ts_taken s + k))) [0..<?n]"
    by (simp add: coming_def)
  have r: "LPUART_ReadNonBlocking L (Some (obj, i)) ?n s = Inr s1"
    using read_loop_eq[of i ?n s obj "isSevenDataBits (ts_handle s)"] assms(2,4)
    unfolding s1_def map by (simp add: LPUART_ReadNonBlocking_def)
  have left: "unat (?size - of_nat ?n) = unat ?size - ?n" by (rule unat_minus_of_nat) simp
  have zero: "?size - of_nat ?n = 0 \<longleftrightarrow> ?n = unat ?size"
    using left by (metis diff_is_0_eq min.cobounded1 min_def nle_le unsigned_eq_0_iff diff_self_eq_0)
  have h1: "ts_handle s1 = ts_handle s" by (simp add: s1_def)
  have step: "fill_request L only_told cnt s =
      rbind (if ?size - of_nat ?n = 0 then call_back only_told kStatus_LPUART_RxIdle (on_handle (\<lambda>h. h\<lparr>rxState := kLPUART_RxIdle\<rparr>) s2) else Inr s2)
        (fill_request L only_told (cnt - ?n))"
    using assms(1,3,5,6) r by (subst fill_request.simps) (simp add: Let_def s2_def on_handle_def h1)
  have told: "told_by s2 st = told_by s st" for st by (simp add: told_by_def s2_def on_handle_def h1)
  show ?thesis
  proof (cases "?n = unat ?size")
    case True
    have "on_handle (\<lambda>h. h\<lparr>rxState := kLPUART_RxIdle\<rparr>) s2\<lparr>ts_told := ts_told s2 @ told_by s2 kStatus_LPUART_RxIdle\<rparr> = filled obj i ?n s"
      using True by (simp add: filled_def s2_def s1_def on_handle_def told_by_def Let_def)
    then have "fill_request L only_told cnt s = fill_request L only_told (cnt - ?n) (filled obj i ?n s)"
      using step True zero by (simp add: call_back_told told_by_def on_handle_def)
    also have "\<dots> = Inr (cnt - ?n, filled obj i ?n s)"
      by (rule fill_request_stop) (use True zero in \<open>simp add: filled_def Let_def\<close>)
    finally show ?thesis .
  next
    case False
    then have "s2 = filled obj i ?n s" by (simp add: filled_def s2_def s1_def on_handle_def Let_def)
    moreover have "cnt - ?n = 0" using False by (simp add: min_def split: if_splits)
    moreover have "?size - of_nat ?n \<noteq> 0" using False zero by blast
    ultimately show ?thesis using step unfolding \<open>cnt - ?n = 0\<close> by (simp only: if_False rbind_Inr fill_request_stop simp_thms)
  qed
qed

lemma ring_cong:
  assumes "rxRingBuffer (ts_handle s') = rxRingBuffer (ts_handle s)" and "rxRingBufferSize (ts_handle s') = rxRingBufferSize (ts_handle s)"
    and "rxRingBufferHead (ts_handle s') = rxRingBufferHead (ts_handle s)" and "rxRingBufferTail (ts_handle s') = rxRingBufferTail (ts_handle s)"
    and "\<And>obj. obj \<in> ring_object s \<Longrightarrow> ts_mem s' obj = ts_mem s obj"
  shows "ring_ok s' = ring_ok s" and "ring_bytes s' = ring_bytes s" and "ring_size s' = ring_size s" and "ring_object s' = ring_object s"
  using assms by (auto simp: ring_ok_def ring_bytes_def ring_size_def ring_object_def split: option.splits)

text \<open>
  A request for \<open>m\<close> bytes to the memory from \<open>(obj, j)\<close> on, when \<open>got\<close> is all that has come since it was made, what the ring held first: the first \<open>m\<close> bytes of it
  are in the memory, the others in the ring, and the callback has been told once when it was complete.
\<close>

definition serving ::
  "lpuart_layout \<Rightarrow> u32 \<Rightarrow> nat \<Rightarrow> nat \<Rightarrow> nat \<Rightarrow> nat \<Rightarrow> lpuart_status list \<Rightarrow> u8 list \<Rightarrow> transfer_sys \<Rightarrow> bool" where
  "serving L ctrl places obj j m told got s \<longleftrightarrow>
     (let h = ts_handle s
      in ring_ok s \<and> ring_size s = places \<and> obj \<notin> ring_object s \<and> j + m \<le> length (ts_mem s obj) \<and>
         \<not> is16bitData h \<and> isSevenDataBits h = seven_data_bits L ctrl \<and> lu_CTRL (ts_regs s) = ctrl \<and>
         take (min m (length got)) (drop j (ts_mem s obj)) = take m got \<and> ring_bytes s = drop m got \<and>
         unat (rxDataSize h) = m - length got \<and> (length got < m \<longrightarrow> rxData h = Some (obj, j + length got)) \<and>
         rxState h = (if length got < m then kLPUART_RxBusy else kLPUART_RxIdle) \<and>
         ts_told s = told @ (if length got < m then [] else told_by s kStatus_LPUART_RxIdle))"

lemma serving_fill_request:
  fixes cnt :: nat
  assumes "serving L ctrl places obj j m told got s" and "length got < m"
  defines "n \<equiv> min (m - length got) cnt"
  shows "\<exists>s'. fill_request L only_told cnt s = Inr (cnt - n, s') \<and>
    serving L ctrl places obj j m told (got @ map (coming s) [0..<n]) s' \<and> coming s' = (\<lambda>i. coming s (n + i))"
proof (cases "cnt = 0")
  case True
  then show ?thesis using assms(1) by (simp add: n_def fill_request_stop)
next
  case False
  let ?h = "ts_handle s" and ?i = "j + length got"
  let ?s = "filled obj ?i n s"
  have a: "ring_ok s" "ring_size s = places" "obj \<notin> ring_object s" "j + m \<le> length (ts_mem s obj)"
    "\<not> is16bitData ?h" "isSevenDataBits ?h = seven_data_bits L ctrl" "lu_CTRL (ts_regs s) = ctrl"
    "take (length got) (drop j (ts_mem s obj)) = got" "ring_bytes s = []"
    "unat (rxDataSize ?h) = m - length got" "rxData ?h = Some (obj, ?i)" "rxState ?h = kLPUART_RxBusy" "ts_told s = told"
    using assms(1,2) by (simp_all add: serving_def Let_def)
  have nz: "rxDataSize ?h \<noteq> 0" using a(10) assms(2) by (metis unsigned_0 zero_less_diff less_irrefl)
  have n: "min (unat (rxDataSize ?h)) cnt = n" "n \<le> m - length got" by (simp_all add: n_def a(10))
  have run: "fill_request L only_told cnt s = Inr (cnt - n, ?s)"
    using fill_request_told[OF a(5) _ a(11) _ nz, of L cnt] a(4,6,7,10) assms(2) False unfolding n(1) by simp
  have ring: "ring_ok ?s = ring_ok s" "ring_bytes ?s = ring_bytes s" "ring_size ?s = ring_size s" "ring_object ?s = ring_object s"
  proof -
    have m: "ts_mem ?s o' = ts_mem s o'" if "o' \<in> ring_object s" for o'
    proof -
      have "o' \<noteq> obj" using that a(3) by blast
      then show ?thesis by (simp add: filled_def Let_def)
    qed
    show "ring_ok ?s = ring_ok s" "ring_bytes ?s = ring_bytes s" "ring_size ?s = ring_size s" "ring_object ?s = ring_object s"
      using ring_cong[of ?s s, OF _ _ _ _ m] by (simp_all add: filled_def Let_def)
  qed
  have len: "length (ts_mem ?s obj) = length (ts_mem s obj)"
    using a(4) n(2) assms(2) by (simp add: filled_def Let_def put_bytes_length)
  have buf: "take (length got + n) (drop j (ts_mem ?s obj)) = got @ map (coming s) [0..<n]"
    using put_bytes_read[of j "length got" "map (coming s) [0..<n]" "ts_mem s" obj] a(4,8) n(2) assms(2) by (simp add: filled_def Let_def)
  have left: "unat (rxDataSize (ts_handle ?s)) = m - (length got + n)"
    using unat_minus_of_nat[of n "rxDataSize ?h"] n(2) a(10) by (simp add: filled_def Let_def)
  have all_read: "n = unat (rxDataSize ?h) \<longleftrightarrow> \<not> length got + n < m" using n(2) assms(2) a(10) by auto
  have coming: "coming ?s = (\<lambda>i. coming s (n + i))"
    by (simp add: fun_eq_iff coming_def filled_def Let_def add.assoc)
  have fields: "is16bitData (ts_handle ?s) = is16bitData ?h" "isSevenDataBits (ts_handle ?s) = isSevenDataBits ?h" "ts_regs ?s = ts_regs s"
    "rxData (ts_handle ?s) = Some (obj, j + (length got + n))" "told_by ?s = told_by s"
    "rxState (ts_handle ?s) = (if length got + n < m then kLPUART_RxBusy else kLPUART_RxIdle)"
    "ts_told ?s = told @ (if length got + n < m then [] else told_by s kStatus_LPUART_RxIdle)"
    using a(12,13) all_read by (auto simp: filled_def Let_def told_by_def fun_eq_iff)
  have min: "min m (length got + n) = length got + n" "drop m (got @ map (coming s) [0..<n]) = []"
    "take m (got @ map (coming s) [0..<n]) = got @ map (coming s) [0..<n]"
    using n(2) assms(2) by simp_all
  have "serving L ctrl places obj j m told (got @ map (coming s) [0..<n]) ?s"
    unfolding serving_def Let_def ring fields length_append length_map length_upt diff_zero min buf left len a(9)
    using a(1-7) by simp
  with run coming show ?thesis by blast
qed

lemma serving_fill_ring:
  assumes "serving L ctrl places obj j m told got s" and "cnt = 0 \<or> m \<le> length got" and "length got + cnt \<le> m + (places - 1)"
  shows "\<exists>s'. fill_ring only_told cnt s = Inr s' \<and> serving L ctrl places obj j m told (got @ map (coming s) [0..<cnt]) s' \<and>
    coming s' = (\<lambda>i. coming s (cnt + i))"
proof (cases "cnt = 0")
  case True
  then show ?thesis using assms(1) by simp
next
  case False
  let ?new = "map (coming s) [0..<cnt]"
  have m: "m \<le> length got" using False assms(2) by simp
  have a: "ring_ok s" "ring_size s = places" "obj \<notin> ring_object s" "ring_bytes s = drop m got" "ts_told s = told @ told_by s kStatus_LPUART_RxIdle"
    using assms(1) m by (simp_all add: serving_def Let_def)
  from rx_ring.put_many[OF a(1), of "[0..<cnt]"] obtain s' where s': "fill_ring only_told cnt s = Inr s'" "ring_ok s'" "ring_size s' - 1 = places - 1"
    "ring_frame s s'" "coming s' = (\<lambda>i. coming s (cnt + i))" "ring_bytes s' = latest (places - 1) (drop m got @ ?new)"
    "ts_told s' = ts_told s @ concat (replicate (length (drop m got) + cnt - (places - 1)) (told_by s kStatus_LPUART_RxRingBufferOverrun))"
    by (auto simp: fill_ring_each a(2,4))
  have fits: "length (drop m got) + cnt \<le> places - 1" using assms(3) m by simp
  then have bytes: "ring_bytes s' = drop m (got @ ?new)" "ts_told s' = ts_told s"
    using s'(6,7) m by (simp_all add: latest_all)
  have h: "ts_handle s' = (ts_handle s)\<lparr>rxRingBufferHead := rxRingBufferHead (ts_handle s'), rxRingBufferTail := rxRingBufferTail (ts_handle s')\<rparr>"
    and r: "ts_regs s' = ts_regs s" and mem: "ts_mem s' obj = ts_mem s obj"
    using s'(4) a(3) by (simp_all add: ring_frame_def)
  have fields: "is16bitData (ts_handle s') = is16bitData (ts_handle s)" "isSevenDataBits (ts_handle s') = isSevenDataBits (ts_handle s)"
    "rxDataSize (ts_handle s') = rxDataSize (ts_handle s)" "rxData (ts_handle s') = rxData (ts_handle s)" "rxState (ts_handle s') = rxState (ts_handle s)"
    "rxRingBufferSize (ts_handle s') = rxRingBufferSize (ts_handle s)"
    by (subst h, simp)+
  have "ring_size s' = places" using a(2) fields(6) by (simp add: ring_size_def)
  then have "serving L ctrl places obj j m told (got @ ?new) s'"
    using assms(1) m s'(2) bytes fields r mem ring_frame_handle[OF s'(4)] a(3) by (simp add: serving_def Let_def min_absorb1)
  with s'(1,5) show ?thesis by blast
qed

text \<open>An interrupt, at which the registers show \<open>v\<close>.\<close>

definition irq_at :: "lpuart_layout \<Rightarrow> user \<Rightarrow> line_view \<Rightarrow> transfer_sys \<Rightarrow> transfer_sys res" where
  "irq_at L user v s = LPUART_TransferHandleIRQ L user (v_WATER v, v_WATER v, v_WATER v) (on_regs (look v) s)"

definition arrived :: "lpuart_layout \<Rightarrow> line_view \<Rightarrow> nat" where
  "arrived L v = unat (ucast (fget (WATER_RXCOUNT L) (v_WATER v)) :: u8)"

definition bytes_only :: "line_view \<Rightarrow> bool" where
  "bytes_only v \<longleftrightarrow> bit (v_STAT v) 21 \<and> \<not> bit (v_STAT v) 19"

text \<open>Receiving is enabled, the other interrupts are not.\<close>

definition only_receiving :: "u32 \<Rightarrow> bool" where
  "only_receiving ctrl \<longleftrightarrow> bit ctrl 21 \<and> \<not> bit ctrl 20 \<and> \<not> bit ctrl 22 \<and> \<not> bit ctrl 23"

lemma serving_regs:
  "lu_CTRL (f (ts_regs s)) = lu_CTRL (ts_regs s) \<Longrightarrow> serving L ctrl places obj j m told got (on_regs f s) = serving L ctrl places obj j m told got s"
  by (simp add: serving_def Let_def) (simp add: on_regs_def ring_object_def told_by_def)

lemma coming_regs [simp]: "coming (on_regs f s) = coming s"
  by (simp add: fun_eq_iff coming_def on_regs_def)

lemma serving_irq:
  assumes "interrupt_bits_ok L" and "flag_bits_ok L" and "serving L ctrl places obj j m told got s" and "only_receiving ctrl" and "bytes_only v"
    and "length got + arrived L v \<le> m + (places - 1)"
  shows "\<exists>s'. irq_at L only_told v s = Inr s' \<and> serving L ctrl places obj j m told (got @ map (coming s) [0..<arrived L v]) s' \<and>
    coming s' = (\<lambda>i. coming s (arrived L v + i))"
proof -
  let ?s = "look_water (v_WATER v) (on_regs (look v) s)"
  let ?n = "if length got < m then min (m - length got) (arrived L v) else 0"
  have ctrl: "lu_CTRL (ts_regs s) = ctrl" using assms(3) by (simp add: serving_def Let_def)
  have s: "serving L ctrl places obj j m told got ?s" and c: "coming ?s = coming s"
    using assms(3) by (simp_all add: look_water_def serving_regs look_def)
  have cnt: "unat (ucast (fget (WATER_RXCOUNT L) (lu_WATER (ts_regs ?s))) :: u8) = arrived L v"
    by (simp add: arrived_def look_water_def on_regs_def)
  have nz: "fmask (STAT_RDRF L) \<noteq> 0" "fmask (CTRL_RIE L) \<noteq> 0"
    using fifo_masks[OF assms(2)] transfer_masks[OF assms(1,2)] by simp_all
  have "irq_at L only_told v s = receive_part L only_told (fmask (STAT_RDRF L)) (fmask (CTRL_RIE L)) (v_WATER v) (on_regs (look v) s)"
    using assms(4,5) ctrl
    by (simp add: irq_at_def handler_parts[OF assms(1,2)] only_receiving_def bytes_only_def on_regs_def look_def)
  also have "\<dots> = rbind (fill_request L only_told (arrived L v) ?s) (\<lambda>(cnt, s).
           if rxRingBuffer (ts_handle s) \<noteq> None then fill_ring only_told cnt s
           else if rxDataSize (ts_handle s) = 0 then Inr (clear_ctrl (rx_idle_interrupts L) s) else Inr s)"
    using nz cnt by (simp add: receive_part_def Let_def)
  finally have run: "irq_at L only_told v s = rbind (fill_request L only_told (arrived L v) ?s) (\<lambda>(cnt, s).
           if rxRingBuffer (ts_handle s) \<noteq> None then fill_ring only_told cnt s
           else if rxDataSize (ts_handle s) = 0 then Inr (clear_ctrl (rx_idle_interrupts L) s) else Inr s)" .
  obtain s1 where s1: "fill_request L only_told (arrived L v) ?s = Inr (arrived L v - ?n, s1)"
    "serving L ctrl places obj j m told (got @ map (coming s) [0..<?n]) s1" "coming s1 = (\<lambda>i. coming s (?n + i))"
  proof (cases "length got < m")
    case True
    from serving_fill_request[OF s True, of "arrived L v"] that show ?thesis by (auto simp: c True)
  next
    case False
    then have "rxDataSize (ts_handle ?s) = 0" using s by (simp add: serving_def Let_def unsigned_eq_0_iff)
    with that[of ?s] False s c show ?thesis by (simp add: fill_request_stop)
  qed
  have "ring_ok s1" using s1(2) by (simp add: serving_def Let_def)
  then have ring: "rxRingBuffer (ts_handle s1) \<noteq> None" by (elim ring_okE) simp
  have "arrived L v - ?n = 0 \<or> m \<le> length (got @ map (coming s) [0..<?n])" by auto
  moreover have "length (got @ map (coming s) [0..<?n]) + (arrived L v - ?n) \<le> m + (places - 1)" using assms(6) by auto
  ultimately obtain s' where s': "fill_ring only_told (arrived L v - ?n) s1 = Inr s'"
    "serving L ctrl places obj j m told ((got @ map (coming s) [0..<?n]) @ map (coming s1) [0..<arrived L v - ?n]) s'"
    "coming s' = (\<lambda>i. coming s1 (arrived L v - ?n + i))"
    using serving_fill_ring[OF s1(2)] by blast
  have n: "?n \<le> arrived L v" by simp
  have all: "map (coming s) [0..<?n] @ map (coming s1) [0..<arrived L v - ?n] = map (coming s) [0..<arrived L v]"
    unfolding s1(3) using n by (intro nth_equalityI) (auto simp: nth_append)
  have "coming s' = (\<lambda>i. coming s (arrived L v + i))"
    unfolding s'(3) s1(3) using n by (auto simp: fun_eq_iff)
  moreover have "irq_at L only_told v s = Inr s'" unfolding run s1(1) using ring s'(1) by simp
  ultimately show ?thesis using s'(2) unfolding append_assoc all by blast
qed

lemma serving_irqs:
  assumes "interrupt_bits_ok L" and "flag_bits_ok L" and "only_receiving ctrl"
  shows "serving L ctrl places obj j m told got s \<Longrightarrow> list_all bytes_only vs \<Longrightarrow> length got + sum_list (map (arrived L) vs) \<le> m + (places - 1) \<Longrightarrow>
    \<exists>s'. for_each vs (irq_at L only_told) s = Inr s' \<and>
      serving L ctrl places obj j m told (got @ map (coming s) [0..<sum_list (map (arrived L) vs)]) s'"
proof (induction vs arbitrary: got s)
  case (Cons v vs)
  from serving_irq[OF assms(1,2) Cons.prems(1) assms(3), of v] Cons.prems(2,3) obtain s1 where
    s1: "irq_at L only_told v s = Inr s1" "serving L ctrl places obj j m told (got @ map (coming s) [0..<arrived L v]) s1"
      "coming s1 = (\<lambda>i. coming s (arrived L v + i))" by auto
  from Cons.IH[OF s1(2)] Cons.prems(2,3) obtain s' where s': "for_each vs (irq_at L only_told) s1 = Inr s'"
    "serving L ctrl places obj j m told ((got @ map (coming s) [0..<arrived L v]) @ map (coming s1) [0..<sum_list (map (arrived L) vs)]) s'"
    by auto
  have "map (coming s) [0..<arrived L v] @ map (coming s1) [0..<sum_list (map (arrived L) vs)] = map (coming s) [0..<sum_list (map (arrived L) (v # vs))]"
    unfolding s1(3) by (intro nth_equalityI) (auto simp: nth_append)
  then show ?case using s1(1) s' by simp
qed auto

text \<open>The change of the receiving interrupts leaves the bits of the frame format alone.\<close>

lemma seven_other_bits:
  assumes "interrupt_bits_ok L" and "flag_bits_ok L" and "baud_bits_ok L"
  shows "seven_data_bits L ((ctrl AND NOT (rx_interrupts L)) OR rx_interrupts L) = seven_data_bits L ctrl"
    and "only_receiving ((ctrl AND NOT (rx_interrupts L)) OR rx_interrupts L) \<longleftrightarrow> \<not> bit ctrl 20 \<and> \<not> bit ctrl 22 \<and> \<not> bit ctrl 23"
proof -
  have rx: "rx_interrupts L = 0x8200000" by (simp add: rx_interrupts_def transfer_masks[OF assms(1,2)])
  have bits: "fmask (CTRL_M7 L) = 0x800" "fmask (CTRL_M L) = 0x10" "fmask (CTRL_PE L) = 2"
    using assms(1,3) by (simp_all add: baud_bits_ok_def interrupt_bits_ok_def bitat_mask)
  let ?ctrl = "(ctrl AND NOT 0x8200000) OR 0x8200000"
  have "?ctrl AND 0x800 = ctrl AND 0x800" "?ctrl AND 0x10 = ctrl AND 0x10" "?ctrl AND 2 = ctrl AND 2"
    by (rule word32_eqI; simp add: upt_conv_Cons bit_simps)+
  then show "seven_data_bits L ((ctrl AND NOT (rx_interrupts L)) OR rx_interrupts L) = seven_data_bits L ctrl"
    by (simp add: seven_data_bits_def rx bits)
  show "only_receiving ((ctrl AND NOT (rx_interrupts L)) OR rx_interrupts L) \<longleftrightarrow> \<not> bit ctrl 20 \<and> \<not> bit ctrl 22 \<and> \<not> bit ctrl 23"
    by (simp add: only_receiving_def rx bit_simps)
qed

lemma receive_starts:
  assumes "interrupt_bits_ok L" and "flag_bits_ok L" and "baud_bits_ok L" and "ring_ok s"
    and "rxState (ts_handle s) = kLPUART_RxIdle" and "rxDataSize (ts_handle s) = 0"
    and "obj \<notin> ring_object s" and "j + unat m \<le> length (ts_mem s obj)" and "m \<noteq> 0" and "\<not> is16bitData (ts_handle s)"
    and "isSevenDataBits (ts_handle s) = seven_data_bits L (lu_CTRL (ts_regs s))"
  defines "ctrl \<equiv> (lu_CTRL (ts_regs s) AND NOT (rx_interrupts L)) OR rx_interrupts L"
  shows "\<exists>s'. LPUART_TransferReceiveNonBlocking L only_told \<lparr>xfer_data = Some (obj, j), xfer_dataSize = m\<rparr> s =
      Inr (kStatus_Success, Some (of_nat (min (unat m) (length (ring_bytes s)))), s') \<and>
    serving L ctrl (ring_size s) obj j (unat m) (ts_told s) (ring_bytes s) s' \<and> coming s' = coming s"
proof -
  let ?len = "LPUART_TransferGetRxRingBufferLength (ts_handle s)" and ?b = "ring_bytes s"
  let ?n = "min m ?len" and ?k = "min (unat m) (length (ring_bytes s))"
  define s0 where "s0 = clear_ctrl (rx_interrupts L) s"
  have n: "unat ?n = ?k" using ring_length[OF assms(4)] by (simp add: min_def word_le_nat_alt)
  have s0: "ring_ok s0" "ring_bytes s0 = ?b" "ring_size s0 = ring_size s" "ring_object s0 = ring_object s" "ts_handle s0 = ts_handle s" "ts_mem s0 = ts_mem s"
    using assms(4) by (simp_all add: s0_def clear_ctrl_def) (simp_all add: on_regs_def ring_object_def)
  have k: "?k \<le> length (ring_bytes s0)" "j + ?k \<le> length (ts_mem s0 obj)" using assms(8) s0 by auto
  from copy_from_ring_eq[OF s0(1) _ k] assms(7) s0 obtain t s1 where s1: "copy_from_ring ?k (Some (obj, j)) s0 = Inr s1" "ring_ok s1"
    "ring_bytes s1 = drop ?k ?b" "ring_size s1 = ring_size s"
    "s1 = on_handle (\<lambda>h. h\<lparr>rxRingBufferTail := t\<rparr>) (s0\<lparr>ts_mem := put_bytes obj j (take ?k ?b) (ts_mem s)\<rparr>)"
    by auto
  let ?rest = "m - ?n"
  have rest: "unat ?rest = unat m - ?k" "?rest = 0 \<longleftrightarrow> unat m \<le> length ?b"
  proof -
    show u: "unat ?rest = unat m - ?k" unfolding n[symmetric] by (rule unat_sub) simp
    show "?rest = 0 \<longleftrightarrow> unat m \<le> length ?b" using u by (metis diff_is_0_eq min.bounded_iff order_refl unsigned_eq_0_iff)
  qed
  define s2 where "s2 = (if ?rest \<noteq> 0 then request_rest (Some (obj, j)) ?k ?rest m s1 else s1)"
  define s3 where "s3 = set_ctrl (rx_interrupts L) s2"
  define s4 where "s4 = (if ?rest = 0 then s3\<lparr>ts_told := ts_told s3 @ told_by s3 kStatus_LPUART_RxIdle\<rparr> else s3)"
  have ring: "rxRingBuffer (ts_handle s) \<noteq> None" using assms(4) by (elim ring_okE) simp
  have run: "LPUART_TransferReceiveNonBlocking L only_told \<lparr>xfer_data = Some (obj, j), xfer_dataSize = m\<rparr> s = Inr (kStatus_Success, Some ?n, s4)"
  proof -
    have "LPUART_TransferReceiveNonBlocking L only_told \<lparr>xfer_data = Some (obj, j), xfer_dataSize = m\<rparr> s =
      rbind (copy_from_ring (unat ?n) (Some (obj, j)) s0) (\<lambda>s.
        let s = (if ?rest \<noteq> 0 then request_rest (Some (obj, j)) (unat ?n) ?rest m s else s); s = set_ctrl (rx_interrupts L) s
        in rbind (if ?rest = 0 then call_back only_told kStatus_LPUART_RxIdle s else Inr s) (\<lambda>s. Inr (kStatus_Success, Some ?n, s)))"
    proof -
      let ?x = "\<lparr>xfer_data = Some (obj, j), xfer_dataSize = m\<rparr>"
      have x: "xfer_data ?x = Some (obj, j)" "xfer_dataSize ?x = m" by simp_all
      have g: "(Some (obj, j) = None \<or> m = 0) = False" "(rxState (ts_handle s) = kLPUART_RxBusy) = False" using assms(5,9) by simp_all
      show ?thesis
        unfolding LPUART_TransferReceiveNonBlocking_def Let_def x g if_False s0_def[symmetric] s0(5)
        using ring by (simp only: not_False_eq_True if_True)
    qed
    then show ?thesis unfolding n s1(1) rbind_Inr Let_def s2_def[symmetric] s3_def[symmetric] s4_def
      by (cases "?rest = 0") (simp_all only: call_back_told rbind_Inr if_True if_False refl)
  qed
  have keep: "ring_ok s4 = ring_ok s1" "ring_bytes s4 = ring_bytes s1" "ring_size s4 = ring_size s1" "ring_object s4 = ring_object s1"
    using ring_cong[of s4 s1]
    by (simp_all add: s4_def s3_def s2_def set_ctrl_def on_regs_def request_rest_def on_handle_def)
  have obj1: "ring_object s1 = ring_object s" by (simp add: s1(5) on_handle_def ring_object_def s0(5))
  have h: "is16bitData (ts_handle s4) = is16bitData (ts_handle s)" "isSevenDataBits (ts_handle s4) = isSevenDataBits (ts_handle s)"
    "lu_CTRL (ts_regs s4) = ctrl" "ts_mem s4 = put_bytes obj j (take ?k ?b) (ts_mem s)" "ts_line s4 = ts_line s" "ts_taken s4 = ts_taken s"
    by (simp_all add: s4_def s3_def s2_def s1(5) s0_def set_ctrl_def clear_ctrl_def on_regs_def request_rest_def on_handle_def ctrl_def)
  have req: "unat (rxDataSize (ts_handle s4)) = unat m - length ?b" "length ?b < unat m \<longrightarrow> rxData (ts_handle s4) = Some (obj, j + length ?b)"
    "rxState (ts_handle s4) = (if length ?b < unat m then kLPUART_RxBusy else kLPUART_RxIdle)"
    "ts_told s4 = ts_told s @ (if length ?b < unat m then [] else told_by s4 kStatus_LPUART_RxIdle)"
    using rest assms(5,6)
    by (auto simp: s4_def s3_def s2_def s1(5) s0_def set_ctrl_def clear_ctrl_def on_regs_def request_rest_def on_handle_def told_by_def min_def)
  have l: "length (take ?k ?b) = ?k" "take ?k ?b = take (unat m) ?b" by (simp_all add: min_def)
  have fit: "j + ?k \<le> length (ts_mem s obj)" using k(2) s0(6) by simp
  have buf: "take ?k (drop j (ts_mem s4 obj)) = take (unat m) ?b" "length (ts_mem s4 obj) = length (ts_mem s obj)"
  proof -
    have "take (0 + ?k) (drop j (put_bytes obj (j + 0) (take ?k ?b) (ts_mem s) obj)) = take 0 (drop j (ts_mem s obj)) @ take ?k ?b"
      using put_bytes_read[of j 0 "take ?k ?b" "ts_mem s" obj] fit unfolding l(1) by simp
    then show "take ?k (drop j (ts_mem s4 obj)) = take (unat m) ?b" unfolding h(4) l(2) by simp
    show "length (ts_mem s4 obj) = length (ts_mem s obj)"
      unfolding h(4) by (rule put_bytes_length) (use fit l(1) in simp)
  qed
  have "drop ?k ?b = drop (unat m) ?b" by (auto simp: min_def)
  then have "serving L ctrl (ring_size s) obj j (unat m) (ts_told s) ?b s4"
    unfolding serving_def Let_def keep h(1-3) using s1(2-4) obj1 assms(7,8,10,11) buf req seven_other_bits(1)[OF assms(1-3)]
    by (simp add: ctrl_def)
  moreover have "coming s4 = coming s" by (simp add: fun_eq_iff coming_def h)
  moreover have "?n = of_nat ?k" using n by (metis unat_eq_of_nat)
  ultimately show ?thesis using run by auto
qed

text \<open>
  C20: A request with background reception: it is given at once what the ring buffer holds, and then the interrupts give it what arrives. Whatever the number of
  bytes at each interrupt, of all the bytes that were in the ring and have come since the first \<open>m\<close> are in the buffer of the user, in order, the others
  are in the ring, if they fit there; the receiver is idle exactly when the request is complete, and the callback has been told so once. Nothing is
  lost, repeated or exchanged where the one takes over from the other.
\<close>

theorem request_served:
  assumes "interrupt_bits_ok L" and "flag_bits_ok L" and "baud_bits_ok L" and "ring_ok s"
    and "rxState (ts_handle s) = kLPUART_RxIdle" and "rxDataSize (ts_handle s) = 0"
    and "obj \<notin> ring_object s" and "j + unat m \<le> length (ts_mem s obj)" and "m \<noteq> 0" and "\<not> is16bitData (ts_handle s)"
    and "isSevenDataBits (ts_handle s) = seven_data_bits L (lu_CTRL (ts_regs s))"
    and "\<not> bit (lu_CTRL (ts_regs s)) 20" and "\<not> bit (lu_CTRL (ts_regs s)) 22" and "\<not> bit (lu_CTRL (ts_regs s)) 23"
    and "list_all bytes_only vs" and "come = ring_bytes s @ map (coming s) [0..<sum_list (map (arrived L) vs)]"
    and "length come \<le> unat m + (ring_size s - 1)"
  shows "\<exists>s1 s2. LPUART_TransferReceiveNonBlocking L only_told \<lparr>xfer_data = Some (obj, j), xfer_dataSize = m\<rparr> s =
      Inr (kStatus_Success, Some (of_nat (min (unat m) (length (ring_bytes s)))), s1) \<and>
    for_each vs (irq_at L only_told) s1 = Inr s2 \<and>
    take (min (unat m) (length come)) (drop j (ts_mem s2 obj)) = take (unat m) come \<and> ring_bytes s2 = drop (unat m) come \<and>
    rxState (ts_handle s2) = (if length come < unat m then kLPUART_RxBusy else kLPUART_RxIdle) \<and>
    ts_told s2 = ts_told s @ (if length come < unat m then [] else told_by s2 kStatus_LPUART_RxIdle)"
proof -
  let ?ctrl = "(lu_CTRL (ts_regs s) AND NOT (rx_interrupts L)) OR rx_interrupts L"
  have ctrl: "only_receiving ?ctrl" using seven_other_bits(2)[OF assms(1-3)] assms(12-14) by simp
  from receive_starts[OF assms(1-11)] obtain s1 where s1: "LPUART_TransferReceiveNonBlocking L only_told \<lparr>xfer_data = Some (obj, j), xfer_dataSize = m\<rparr> s =
      Inr (kStatus_Success, Some (of_nat (min (unat m) (length (ring_bytes s)))), s1)"
    "serving L ?ctrl (ring_size s) obj j (unat m) (ts_told s) (ring_bytes s) s1" "coming s1 = coming s" by blast
  have "length (ring_bytes s) + sum_list (map (arrived L) vs) \<le> unat m + (ring_size s - 1)" using assms(16,17) by simp
  from serving_irqs[OF assms(1,2) ctrl s1(2) assms(15) this] obtain s2 where s2: "for_each vs (irq_at L only_told) s1 = Inr s2"
    "serving L ?ctrl (ring_size s) obj j (unat m) (ts_told s) come s2" unfolding s1(3) assms(16) by blast
  with s1(1) show ?thesis by (intro exI[of _ s1] exI[of _ s2]) (simp add: serving_def Let_def)
qed

text \<open>A request for two bytes with one in the ring; the other one comes.\<close>

theorem request_served_witness:
  "\<exists>s1 s2. LPUART_TransferReceiveNonBlocking example_lpuart only_told \<lparr>xfer_data = Some (2, 0), xfer_dataSize = 2\<rparr> small_sys = Inr (kStatus_Success, Some 1, s1) \<and>
    irq_at example_lpuart only_told (view 0x01000000 0x00E00000 0) s1 = Inr s2 \<and> take 2 (ts_mem s2 2) = [65, 66] \<and> ring_bytes s2 = [] \<and>
    rxState (ts_handle s2) = kLPUART_RxIdle"
proof -
  let ?v = "view 0x01000000 0x00E00000 0"
  have h: "rxState (ts_handle small_sys) = kLPUART_RxIdle" "rxDataSize (ts_handle small_sys) = 0" "2 \<notin> ring_object small_sys"
    "0 + unat (2 :: u32) \<le> length (ts_mem small_sys 2)" "\<not> is16bitData (ts_handle small_sys)"
    "isSevenDataBits (ts_handle small_sys) = seven_data_bits example_lpuart (lu_CTRL (ts_regs small_sys))"
    "\<not> bit (lu_CTRL (ts_regs small_sys)) 20" "\<not> bit (lu_CTRL (ts_regs small_sys)) 22" "\<not> bit (lu_CTRL (ts_regs small_sys)) 23"
    by (simp_all add: small_sys_def small_handle_def zero_handle_def ring_object_def seven_data_bits_def example_lpuart_def bitat_mask
        push_bit_eq_mult bit_simps)
  have a: "arrived example_lpuart ?v = 1"
    by (simp add: arrived_def view_def example_lpuart_def fget_def fmask_def mask_eq_exp_minus_1 drop_bit_eq_div)
  have b: "list_all bytes_only [?v]" by (simp add: bytes_only_def view_def bit_simps)
  have come: "[65, 66] = ring_bytes small_sys @ map (coming small_sys) [0..<sum_list (map (arrived example_lpuart) [?v])]"
    by (simp add: small_sys_ok a)
  have len: "length [65 :: u8, 66] \<le> unat (2 :: u32) + (ring_size small_sys - 1)" by (simp add: small_sys_ok)
  from request_served[OF example_lpuart_ok(1-3) small_sys_ok(1) h(1-4) _ h(5-9) b come len] obtain s1 s2 where
    "LPUART_TransferReceiveNonBlocking example_lpuart only_told \<lparr>xfer_data = Some (2, 0), xfer_dataSize = 2\<rparr> small_sys =
      Inr (kStatus_Success, Some (of_nat (min (unat (2 :: u32)) (length (ring_bytes small_sys)))), s1)"
    "for_each [?v] (irq_at example_lpuart only_told) s1 = Inr s2"
    "take (min (unat (2 :: u32)) (length [65 :: u8, 66])) (drop 0 (ts_mem s2 2)) = take (unat (2 :: u32)) [65, 66]"
    "ring_bytes s2 = drop (unat (2 :: u32)) [65, 66]"
    "rxState (ts_handle s2) = (if length [65 :: u8, 66] < unat (2 :: u32) then kLPUART_RxBusy else kLPUART_RxIdle)" by auto
  then have "LPUART_TransferReceiveNonBlocking example_lpuart only_told \<lparr>xfer_data = Some (2, 0), xfer_dataSize = 2\<rparr> small_sys = Inr (kStatus_Success, Some 1, s1)"
    "irq_at example_lpuart only_told ?v s1 = Inr s2" "take (Suc (Suc 0)) (ts_mem s2 2) = [65, 66]" "ring_bytes s2 = []" "rxState (ts_handle s2) = kLPUART_RxIdle"
    by (simp_all add: small_sys_ok for_each_Nil)
  then show ?thesis unfolding Suc_1[symmetric] One_nat_def by blast
qed

section \<open>Sending\<close>

definition room :: "lpuart_layout \<Rightarrow> line_view \<Rightarrow> nat" where
  "room L v = unat (8 - ucast (fget (WATER_TXCOUNT L) (v_WATER v)) :: u8)"

text \<open>An interrupt of the transmitter alone: there is room, and nothing has been received.\<close>

definition sending_only :: "line_view \<Rightarrow> bool" where
  "sending_only v \<longleftrightarrow> bit (v_STAT v) 23 \<and> \<not> bit (v_STAT v) 19 \<and> \<not> bit (v_STAT v) 20 \<and> \<not> bit (v_STAT v) 21"

text \<open>How far the transfer of \<open>n\<close> bytes is: how many are in the transmitter, and whether the end has been reported.\<close>

definition progress :: "nat \<Rightarrow> lpuart_layout \<Rightarrow> line_view \<Rightarrow> nat \<times> bool \<Rightarrow> nat \<times> bool" where
  "progress n L v = (\<lambda>(k, done). if k < n then (min n (k + room L v), False) else (k, done \<or> bit (v_STAT v) 22))"

definition sending ::
  "lpuart_layout \<Rightarrow> nat \<Rightarrow> nat \<Rightarrow> u8 list \<Rightarrow> u32 list \<Rightarrow> lpuart_status list \<Rightarrow> nat \<times> bool \<Rightarrow> transfer_sys \<Rightarrow> bool" where
  "sending L obj i bs sent told = (\<lambda>(k, done) s.
     let h = ts_handle s; ctrl = lu_CTRL (ts_regs s)
     in \<not> is16bitData h \<and> take (length bs) (drop i (ts_mem s obj)) = bs \<and> k \<le> length bs \<and> (done \<longrightarrow> k = length bs) \<and>
        unat (txDataSize h) = length bs - k \<and> txData h = Some (obj, i + k) \<and>
        ts_sent s = sent @ map ucast (take k bs) \<and>
        bit ctrl 23 = (k < length bs) \<and> bit ctrl 22 = (k = length bs \<and> \<not> done) \<and>
        txState h = (if done then kLPUART_TxIdle else kLPUART_TxBusy) \<and>
        ts_told s = told @ (if done then told_by s kStatus_LPUART_TxIdle else []))"

lemma write_loop_eq:
  "i + n \<le> length (ts_mem s obj) \<Longrightarrow> \<exists>w. write_loop (Some (obj, i)) n s =
    Inr (s\<lparr>ts_sent := ts_sent s @ map ucast (take n (drop i (ts_mem s obj))), ts_regs := (ts_regs s)\<lparr>lu_DATA := w\<rparr>\<rparr>)"
proof (induction n arbitrary: i s)
  case 0
  show ?case by (rule exI[of _ "lu_DATA (ts_regs s)"]) simp
next
  case (Suc n)
  let ?s = "write_DATA (ucast (ts_mem s obj ! i)) s"
  have "write_loop (Some (obj, i)) (Suc n) s = write_loop (Some (obj, Suc i)) n ?s"
    using Suc.prems by (simp add: load_ok)
  moreover from Suc.IH[of "Suc i" ?s] Suc.prems obtain w where "write_loop (Some (obj, Suc i)) n ?s =
      Inr (?s\<lparr>ts_sent := ts_sent ?s @ map ucast (take n (drop (Suc i) (ts_mem ?s obj))), ts_regs := (ts_regs ?s)\<lparr>lu_DATA := w\<rparr>\<rparr>)"
    by (auto simp: write_DATA_def on_regs_def)
  moreover have "take (Suc n) (drop i (ts_mem s obj)) = ts_mem s obj ! i # take n (drop (Suc i) (ts_mem s obj))"
    using Suc.prems by (simp add: Cons_nth_drop_Suc[symmetric])
  ultimately show ?case by (intro exI[of _ w]) (simp add: write_DATA_def on_regs_def)
qed

lemma send_request_stop: "txDataSize (ts_handle s) = 0 \<or> cnt = 0 \<Longrightarrow> send_request L cnt s = Inr s"
  by (subst send_request.simps) simp

lemma send_request_eq:
  assumes "\<not> is16bitData (ts_handle s)" and "txData (ts_handle s) = Some (obj, p)"
    and "p + unat (txDataSize (ts_handle s)) \<le> length (ts_mem s obj)" and "txDataSize (ts_handle s) \<noteq> 0" and "0 < cnt"
  defines "r \<equiv> min (unat (txDataSize (ts_handle s))) cnt"
  shows "\<exists>s'. send_request L cnt s = Inr s' \<and>
    ts_handle s' = (ts_handle s)\<lparr>txData := Some (obj, p + r), txDataSize := txDataSize (ts_handle s) - of_nat r\<rparr> \<and>
    ts_sent s' = ts_sent s @ map ucast (take r (drop p (ts_mem s obj))) \<and> ts_mem s' = ts_mem s \<and> ts_told s' = ts_told s \<and>
    lu_CTRL (ts_regs s') = (if r = unat (txDataSize (ts_handle s))
      then (lu_CTRL (ts_regs s) AND NOT (fmask (CTRL_TIE L))) OR fmask (CTRL_TCIE L) else lu_CTRL (ts_regs s))"
proof -
  let ?h = "ts_handle s" and ?size = "txDataSize (ts_handle s)"
  have r: "r \<le> unat ?size" by (simp add: r_def)
  from write_loop_eq[of p r s obj] r assms(3) obtain w where
    w: "LPUART_WriteNonBlocking (Some (obj, p)) r s =
      Inr (s\<lparr>ts_sent := ts_sent s @ map ucast (take r (drop p (ts_mem s obj))), ts_regs := (ts_regs s)\<lparr>lu_DATA := w\<rparr>\<rparr>)"
    by (auto simp: LPUART_WriteNonBlocking_def)
  define s1 where "s1 = s\<lparr>ts_sent := ts_sent s @ map ucast (take r (drop p (ts_mem s obj))), ts_regs := (ts_regs s)\<lparr>lu_DATA := w\<rparr>,
    ts_handle := ?h\<lparr>txData := Some (obj, p + r), txDataSize := ?size - of_nat r\<rparr>\<rparr>"
  define s2 where "s2 = (if ?size - of_nat r = 0
    then on_regs (\<lambda>q. q\<lparr>lu_CTRL := (lu_CTRL q AND NOT (fmask (CTRL_TIE L))) OR fmask (CTRL_TCIE L)\<rparr>) s1 else s1)"
  have zero: "?size - of_nat r = 0 \<longleftrightarrow> r = unat ?size"
    using unat_minus_of_nat[OF r] r by (metis diff_is_0_eq' diff_self_eq_0 le_antisym unsigned_eq_0_iff diff_is_0_eq)
  have "send_request L cnt s = send_request L (cnt - r) s2"
    using assms(1,2,4,5) w
    by (subst send_request.simps) (simp add: Let_def r_def[symmetric] on_handle_def s2_def s1_def)
  also have "\<dots> = Inr s2"
    by (rule send_request_stop) (use zero in \<open>auto simp: s2_def s1_def on_regs_def r_def min_def split: if_splits\<close>)
  finally have run: "send_request L cnt s = Inr s2" .
  have "ts_handle s2 = ?h\<lparr>txData := Some (obj, p + r), txDataSize := ?size - of_nat r\<rparr>"
    "ts_sent s2 = ts_sent s @ map ucast (take r (drop p (ts_mem s obj)))" "ts_mem s2 = ts_mem s" "ts_told s2 = ts_told s"
    "lu_CTRL (ts_regs s2) = (if r = unat ?size then (lu_CTRL (ts_regs s) AND NOT (fmask (CTRL_TIE L))) OR fmask (CTRL_TCIE L) else lu_CTRL (ts_regs s))"
    unfolding s2_def zero by (simp_all add: s1_def on_regs_def)
  with run show ?thesis by blast
qed

lemma transfer_ctrl_bits:
  assumes "interrupt_bits_ok L" and "flag_bits_ok L"
  shows "bit ((c AND NOT (fmask (CTRL_TIE L))) OR fmask (CTRL_TCIE L)) 23 = False"
    and "bit ((c AND NOT (fmask (CTRL_TIE L))) OR fmask (CTRL_TCIE L)) 22 = True"
    and "bit (c AND NOT (fmask (CTRL_TCIE L))) 22 = False" and "bit (c AND NOT (fmask (CTRL_TCIE L))) 23 = bit c 23"
    and "bit (c OR fmask (CTRL_TIE L)) 23 = True" and "bit (c OR fmask (CTRL_TIE L)) 22 = bit c 22"
  by (simp_all add: transfer_masks[OF assms] bit_simps)

lemma sending_regs:
  "lu_CTRL (f (ts_regs s)) = lu_CTRL (ts_regs s) \<Longrightarrow> sending L obj i bs sent told st (on_regs f s) = sending L obj i bs sent told st s"
  by (simp add: sending_def Let_def split: prod.split) (simp add: on_regs_def told_by_def)

lemma sending_step:
  assumes "interrupt_bits_ok L" and "flag_bits_ok L" and "sending L obj i bs sent told (k, done) s" and "sending_only v" and "i + length bs \<le> length (ts_mem s obj)"
  shows "\<exists>s'. irq_at L only_told v s = Inr s' \<and> sending L obj i bs sent told (progress (length bs) L v (k, done)) s' \<and> ts_mem s' = ts_mem s"
proof -
  let ?s = "on_regs (look v) s"
  have s: "sending L obj i bs sent told (k, done) ?s" using assms(3) by (simp add: sending_regs look_def)
  have a: "k \<le> length bs" "done \<longrightarrow> k = length bs" "bit (lu_CTRL (ts_regs s)) 23 = (k < length bs)"
    "bit (lu_CTRL (ts_regs s)) 22 = (k = length bs \<and> \<not> done)"
    using assms(3) by (simp_all add: sending_def Let_def)
  have mem: "ts_mem ?s = ts_mem s" by (simp add: on_regs_def)
  have irq: "irq_at L only_told v s =
      rbind (if k < length bs then send_part L (fmask (STAT_TDRE L)) (fmask (CTRL_TIE L)) (v_WATER v) ?s else Inr ?s) (\<lambda>s.
        if bit (v_STAT v) 22 \<and> k = length bs \<and> \<not> done then complete_part L only_told (fmask (STAT_TC L)) (fmask (CTRL_TCIE L)) s else Inr s)"
    using assms(4) a(3,4)
    by (simp add: irq_at_def handler_parts[OF assms(1,2)] sending_only_def on_regs_def look_def)
  show ?thesis
  proof (cases "k < length bs")
    case True
    let ?w = "look_water (v_WATER v) ?s"
    have w: "sending L obj i bs sent told (k, done) ?w" "ts_mem ?w = ts_mem s"
      using s by (simp_all add: look_water_def sending_regs) (simp add: on_regs_def)
    have nz: "fmask (STAT_TDRE L) \<noteq> 0" "fmask (CTRL_TIE L) \<noteq> 0" using fifo_masks[OF assms(2)] transfer_masks[OF assms(1,2)] by simp_all
    have "send_part L (fmask (STAT_TDRE L)) (fmask (CTRL_TIE L)) (v_WATER v) ?s = send_request L (room L v) ?w"
      using nz by (simp add: send_part_def Let_def room_def look_water_def on_regs_def)
    then have run: "irq_at L only_told v s = send_request L (room L v) ?w" using irq True by (simp add: less_imp_neq)
    show ?thesis
    proof (cases "room L v = 0")
      case True
      then have "progress (length bs) L v (k, done) = (k, done)" using \<open>k < length bs\<close> a(2) by (auto simp: progress_def)
      then show ?thesis using run w True by (simp add: send_request_stop)
    next
      case False
      have h: "\<not> is16bitData (ts_handle ?w)" "txData (ts_handle ?w) = Some (obj, i + k)" "unat (txDataSize (ts_handle ?w)) = length bs - k"
        "ts_sent ?w = sent @ map ucast (take k bs)" "txState (ts_handle ?w) = kLPUART_TxBusy" "ts_told ?w = told"
        "take (length bs) (drop i (ts_mem ?w obj)) = bs" "bit (lu_CTRL (ts_regs ?w)) 22 = False" "bit (lu_CTRL (ts_regs ?w)) 23 = True"
        using w(1) True a(2) by (auto simp: sending_def Let_def)
      have size: "txDataSize (ts_handle ?w) \<noteq> 0" using h(3) True by (metis unsigned_0 zero_less_diff less_irrefl)
      let ?r = "min (length bs - k) (room L v)"
      from send_request_eq[OF h(1,2) _ size, of "room L v" L] h(3) w(2) assms(5) True False obtain s' where
        s': "send_request L (room L v) ?w = Inr s'"
        "ts_handle s' = (ts_handle ?w)\<lparr>txData := Some (obj, i + k + ?r), txDataSize := txDataSize (ts_handle ?w) - of_nat ?r\<rparr>"
        "ts_sent s' = ts_sent ?w @ map ucast (take ?r (drop (i + k) (ts_mem ?w obj)))" "ts_mem s' = ts_mem s" "ts_told s' = ts_told ?w"
        "lu_CTRL (ts_regs s') = (if ?r = length bs - k
          then (lu_CTRL (ts_regs ?w) AND NOT (fmask (CTRL_TIE L))) OR fmask (CTRL_TCIE L) else lu_CTRL (ts_regs ?w))"
        by auto
      have "drop (i + k) (ts_mem ?w obj) = drop k (drop i (ts_mem ?w obj))" by (simp add: add.commute)
      moreover have "drop k bs = take (length bs - k) (drop k (drop i (ts_mem ?w obj)))"
        using arg_cong[OF h(7), of "drop k"] by (simp add: drop_take)
      ultimately have data: "take ?r (drop (i + k) (ts_mem ?w obj)) = take ?r (drop k bs)"
        by (simp only: take_take) (simp add: min.commute min.left_commute)
      have sent: "take k bs @ take ?r (drop k bs) = take (k + ?r) bs" by (simp add: take_add)
      have left: "unat (txDataSize (ts_handle ?w) - of_nat ?r) = length bs - (k + ?r)"
        using unat_minus_of_nat[of ?r "txDataSize (ts_handle ?w)"] h(3) by simp
      have new: "progress (length bs) L v (k, done) = (k + ?r, False)" using True by (auto simp: progress_def)
      have all: "?r = length bs - k \<longleftrightarrow> k + ?r = length bs" "k + ?r < length bs \<longleftrightarrow> k + ?r \<noteq> length bs"
        "k + ?r \<le> length bs" using True by auto
      have "sending L obj i bs sent told (k + ?r, False) s'"
        unfolding sending_def prod.case Let_def s'(2,3,4,5,6) data h(4,5,6)
        using h w(2) left sent all transfer_ctrl_bits[OF assms(1,2)] by (simp add: map_append[symmetric] add.assoc)
      then show ?thesis using run s'(1,4) new by simp
    qed
  next
    case False
    then have k: "k = length bs" using a(1) by simp
    show ?thesis
    proof (cases "bit (v_STAT v) 22 \<and> \<not> done")
      case True
      have nz: "fmask (STAT_TC L) \<noteq> 0" "fmask (CTRL_TCIE L) \<noteq> 0" using fifo_masks[OF assms(2)] transfer_masks[OF assms(1,2)] by simp_all
      define s1 where "s1 = clear_ctrl (fmask (CTRL_TCIE L)) (on_handle (\<lambda>h. h\<lparr>txState := kLPUART_TxIdle\<rparr>) ?s)"
      have "irq_at L only_told v s = Inr (s1\<lparr>ts_told := ts_told s1 @ told_by s1 kStatus_LPUART_TxIdle\<rparr>)"
        using irq True k nz by (simp add: complete_part_def call_back_told s1_def)
      moreover have "progress (length bs) L v (k, done) = (k, True)" using True k by (simp add: progress_def)
      moreover have "sending L obj i bs sent told (k, True) (s1\<lparr>ts_told := ts_told s1 @ told_by s1 kStatus_LPUART_TxIdle\<rparr>)"
        using s True k transfer_ctrl_bits[OF assms(1,2)]
        by (simp add: sending_def Let_def s1_def clear_ctrl_def on_regs_def on_handle_def told_by_def)
      ultimately show ?thesis by (simp add: s1_def clear_ctrl_def on_regs_def on_handle_def)
    next
      case False
      then have "progress (length bs) L v (k, done) = (k, done)" using k by (auto simp: progress_def)
      then show ?thesis using irq False k s mem by auto
    qed
  qed
qed

lemma sending_steps:
  assumes "interrupt_bits_ok L" and "flag_bits_ok L"
  shows "sending L obj i bs sent told st s \<Longrightarrow> list_all sending_only vs \<Longrightarrow> i + length bs \<le> length (ts_mem s obj) \<Longrightarrow>
    \<exists>s'. for_each vs (irq_at L only_told) s = Inr s' \<and> sending L obj i bs sent told (fold (progress (length bs) L) vs st) s'"
proof (induction vs arbitrary: st s)
  case (Cons v vs)
  obtain k d where st: "st = (k, d)" by (cases st)
  from sending_step[OF assms Cons.prems(1)[unfolded st], of v] Cons.prems(2,3) obtain s1 where
    s1: "irq_at L only_told v s = Inr s1" "sending L obj i bs sent told (progress (length bs) L v st) s1" "ts_mem s1 = ts_mem s"
    by (auto simp: st)
  from Cons.IH[OF s1(2)] Cons.prems(2,3) s1(1,3) show ?case by simp
qed simp

lemma progress_count: "k \<le> n \<Longrightarrow> fst (fold (progress n L) vs (k, d)) = min n (k + sum_list (map (room L) vs))"
proof (induction vs arbitrary: k d)
  case (Cons v vs)
  show ?case
  proof (cases "k < n")
    case True
    then show ?thesis using Cons.IH[of "min n (k + room L v)" False] by (simp add: progress_def min_def)
  next
    case False
    then show ?thesis using Cons by (simp add: progress_def)
  qed
qed (simp add: min_def)

lemma progress_done: "fold (progress n L) vs (n, True) = (n, True)"
  by (induction vs) (simp_all add: progress_def)

lemma progress_ends:
  assumes "n \<le> sum_list (map (room L) vs1)" and "bit (v_STAT v) 22"
  shows "fold (progress n L) (vs1 @ v # vs2) (0, False) = (n, True)"
proof -
  obtain d where "fold (progress n L) vs1 (0, False) = (n, d)"
    using progress_count[of 0 n L vs1 False] assms(1) by (cases "fold (progress n L) vs1 (0, False)") simp
  then show ?thesis using assms(2) progress_done by (simp add: progress_def)
qed

text \<open>
  C21: A transfer to the line: \<open>n\<close> bytes handed over are written to the transmitter in order, once each, as many at every interrupt as it has room for; until it reports
  afterwards that all has left, further transfers are refused, and then the callback is told once and the next one is accepted. It ends: when there has been room
  for all bytes, the next interrupt at which the transmission is complete is the end.
\<close>

theorem data_sent:
  assumes "interrupt_bits_ok L" and "flag_bits_ok L" and "txState (ts_handle s) = kLPUART_TxIdle" and "\<not> is16bitData (ts_handle s)"
    and "\<not> bit (lu_CTRL (ts_regs s)) 22" and "n \<noteq> 0" and "i + unat n \<le> length (ts_mem s obj)" and "list_all sending_only vs"
    and "fold (progress (unat n) L) vs (0, False) = (k, done)"
  shows "(\<exists>s1 s2. LPUART_TransferSendNonBlocking L \<lparr>xfer_data = Some (obj, i), xfer_dataSize = n\<rparr> s = Inr (kStatus_Success, s1) \<and>
      for_each vs (irq_at L only_told) s1 = Inr s2 \<and>
      ts_sent s2 = ts_sent s @ map ucast (take k (drop i (ts_mem s obj))) \<and> k = min (unat n) (sum_list (map (room L) vs)) \<and>
      ts_told s2 = ts_told s @ (if done then told_by s2 kStatus_LPUART_TxIdle else []) \<and>
      (\<forall>p l. l \<noteq> 0 \<longrightarrow> (if done then \<exists>s3. LPUART_TransferSendNonBlocking L \<lparr>xfer_data = Some p, xfer_dataSize = l\<rparr> s2 = Inr (kStatus_Success, s3)
        else LPUART_TransferSendNonBlocking L \<lparr>xfer_data = Some p, xfer_dataSize = l\<rparr> s2 = Inr (kStatus_LPUART_TxBusy, s2)))) \<and>
    (\<forall>vs1 v vs2. vs = vs1 @ v # vs2 \<and> unat n \<le> sum_list (map (room L) vs1) \<and> bit (v_STAT v) 22 \<longrightarrow> k = unat n \<and> done)"
proof -
  let ?bs = "take (unat n) (drop i (ts_mem s obj))"
  have len: "length ?bs = unat n" using assms(7) by simp
  have pos: "0 < unat n" using assms(6) by (simp add: unat_gt_0)
  define s1 where "s1 = set_ctrl (fmask (CTRL_TIE L)) (on_handle (\<lambda>h.
             h\<lparr>txData := Some (obj, i), txDataSize := n, txDataSizeAll := n, txState := kLPUART_TxBusy\<rparr>) s)"
  have run: "LPUART_TransferSendNonBlocking L \<lparr>xfer_data = Some (obj, i), xfer_dataSize = n\<rparr> s = Inr (kStatus_Success, s1)"
    using assms(3,6) by (simp add: LPUART_TransferSendNonBlocking_def s1_def)
  have mem: "ts_mem s1 = ts_mem s" by (simp add: s1_def set_ctrl_def on_regs_def on_handle_def)
  have "sending L obj i ?bs (ts_sent s) (ts_told s) (0, False) s1"
    unfolding sending_def prod.case Let_def len mem
    using assms(4,5) pos transfer_ctrl_bits(5,6)[OF assms(1,2)] by (simp add: s1_def set_ctrl_def on_regs_def on_handle_def)
  from sending_steps[OF assms(1,2) this assms(8)] assms(7) len mem obtain s2 where
    s2: "for_each vs (irq_at L only_told) s1 = Inr s2" "sending L obj i ?bs (ts_sent s) (ts_told s) (k, done) s2"
    by (auto simp: assms(9))
  have k: "k \<le> unat n" "ts_sent s2 = ts_sent s @ map ucast (take k ?bs)" "txState (ts_handle s2) = (if done then kLPUART_TxIdle else kLPUART_TxBusy)"
    "ts_told s2 = ts_told s @ (if done then told_by s2 kStatus_LPUART_TxIdle else [])"
    using s2(2) len by (auto simp: sending_def Let_def)
  have "k = min (unat n) (sum_list (map (room L) vs))" using progress_count[of 0 "unat n" L vs False] assms(9) by simp
  moreover have "take k ?bs = take k (drop i (ts_mem s obj))" using k(1) by (simp add: min_absorb1)
  moreover have "if done then \<exists>s3. LPUART_TransferSendNonBlocking L \<lparr>xfer_data = Some p, xfer_dataSize = l\<rparr> s2 = Inr (kStatus_Success, s3)
        else LPUART_TransferSendNonBlocking L \<lparr>xfer_data = Some p, xfer_dataSize = l\<rparr> s2 = Inr (kStatus_LPUART_TxBusy, s2)" if "l \<noteq> 0" for p l
    using that k(3) by (simp add: LPUART_TransferSendNonBlocking_def)
  moreover have "k = unat n \<and> done"
    if "vs = vs1 @ v # vs2" "unat n \<le> sum_list (map (room L) vs1)" "bit (v_STAT v) 22" for vs1 v vs2
    using progress_ends[OF that(2,3), of vs2] assms(9) that(1) by simp
  ultimately show ?thesis using run s2(1) k(2,4)
    by (intro conjI exI[of _ s1] exI[of _ s2]) (simp_all only:, blast+)
qed

text \<open>Two bytes to an empty transmitter, and the end.\<close>

theorem data_sent_witness:
  "\<exists>s1 s2. LPUART_TransferSendNonBlocking example_lpuart \<lparr>xfer_data = Some (1, 0), xfer_dataSize = 2\<rparr> small_sys = Inr (kStatus_Success, s1) \<and>
    for_each [view 0 0x00800000 0, view 0 0x00C00000 0] (irq_at example_lpuart only_told) s1 = Inr s2 \<and> ts_sent s2 = [65, 0] \<and>
    ts_told s2 = ts_told small_sys @ told_by s2 kStatus_LPUART_TxIdle"
proof -
  let ?vs = "[view 0 0x00800000 0, view 0 0x00C00000 0]"
  have s: "txState (ts_handle small_sys) = kLPUART_TxIdle" "\<not> is16bitData (ts_handle small_sys)" "\<not> bit (lu_CTRL (ts_regs small_sys)) 22"
    "0 + unat (2 :: u32) \<le> length (ts_mem small_sys 1)" "ts_sent small_sys = []" "take (Suc (Suc 0)) (ts_mem small_sys 1) = [65, 0]"
    by (simp_all add: small_sys_def small_handle_def zero_handle_def bit_simps)
  have v: "list_all sending_only ?vs" by (simp add: sending_only_def view_def bit_simps)
  have "room example_lpuart (view 0 w 0) = 8" for w by (simp add: room_def view_def)
  then have p: "fold (progress (unat (2 :: u32)) example_lpuart) ?vs (0, False) = (2, True)"
    by (simp add: progress_def) (simp add: view_def bit_simps)
  have "(2 :: u32) \<noteq> 0" by simp
  note sent = data_sent[OF example_lpuart_ok(1,2) s(1-3) this s(4) v p]
  from conjunct1[OF sent] show ?thesis
  proof (elim exE, goal_cases)
    case (1 s1 s2)
    note t = 1[THEN conjunct1] 1[THEN conjunct2, THEN conjunct1] 1[THEN conjunct2, THEN conjunct2, THEN conjunct1]
      1[THEN conjunct2, THEN conjunct2, THEN conjunct2, THEN conjunct2, THEN conjunct1]
    from t(3) have "ts_sent s2 = [65, 0]" unfolding s(5) drop_0 s(6)[folded numeral_2_eq_2] by simp
    with t(1,2,4) show ?case by (intro exI[of _ s1] exI[of _ s2] conjI) (simp_all only: if_True)
  qed
qed

end
