(* ===== verification/Lpuart_Safety.thy ===== *)
theory Lpuart_Safety
  imports Lpuart_Transfer
begin

text \<open>
  No sequence of calls and interrupts makes the transactional functions of theory \<open>Lpuart_Transfer\<close> leave the memory they were given, with callbacks
  that may do everything the interface allows except take away the ring buffer.
\<close>

section \<open>The invariant\<close>

definition data_width :: "transfer_sys \<Rightarrow> nat" where
  "data_width s = (if is16bitData (ts_handle s) then 2 else 1)"

definition range_ok :: "c_ptr \<Rightarrow> nat \<Rightarrow> transfer_sys \<Rightarrow> bool" where
  "range_ok p n s = (case p of None \<Rightarrow> False | Some (obj, i) \<Rightarrow> i + n \<le> length (ts_mem s obj))"

definition transfer_ok :: "transfer_sys \<Rightarrow> bool" where
  "transfer_ok s \<longleftrightarrow>
     (rxRingBuffer (ts_handle s) \<noteq> None \<longrightarrow> ring_ok s) \<and>
     (rxDataSize (ts_handle s) \<noteq> 0 \<longrightarrow> range_ok (rxData (ts_handle s)) (data_width s * unat (rxDataSize (ts_handle s))) s) \<and>
     (txDataSize (ts_handle s) \<noteq> 0 \<longrightarrow> range_ok (txData (ts_handle s)) (data_width s * unat (txDataSize (ts_handle s))) s)"

text \<open>What stays during a call: the size of every object, and where the ring buffer is.\<close>

definition same_world :: "transfer_sys \<Rightarrow> transfer_sys \<Rightarrow> bool" where
  "same_world s s' \<longleftrightarrow> (\<forall>obj. length (ts_mem s' obj) = length (ts_mem s obj)) \<and> rxRingBuffer (ts_handle s') = rxRingBuffer (ts_handle s)"

lemma same_world_refl: "same_world s s"
  by (simp add: same_world_def)

lemma same_world_trans: "same_world s s' \<Longrightarrow> same_world s' s'' \<Longrightarrow> same_world s s''"
  by (simp add: same_world_def)

text \<open>A result that is a state, satisfies the invariant and is in the same world.\<close>

definition safe_from :: "transfer_sys \<Rightarrow> transfer_sys res \<Rightarrow> bool" where
  "safe_from s r \<longleftrightarrow> (\<exists>s'. r = Inr s' \<and> transfer_ok s' \<and> same_world s s')"

lemma safe_Inr: "safe_from s (Inr s') \<longleftrightarrow> transfer_ok s' \<and> same_world s s'"
  by (simp add: safe_from_def)

lemma safe_bind:
  assumes "safe_from s m" and "\<And>s'. transfer_ok s' \<Longrightarrow> same_world s s' \<Longrightarrow> safe_from s' (f s')"
  shows "safe_from s (rbind m f)"
  using assms same_world_trans unfolding safe_from_def by (metis rbind_Inr)

lemma safe_if: "(b \<Longrightarrow> safe_from s x) \<Longrightarrow> (\<not> b \<Longrightarrow> safe_from s y) \<Longrightarrow> safe_from s (if b then x else y)"
  by simp

text \<open>A callback of the user.\<close>

definition user_ok :: "user \<Rightarrow> bool" where
  "user_ok user \<longleftrightarrow> (\<forall>f status data s. transfer_ok s \<longrightarrow> safe_from s (user f status data s))"

text \<open>Changes of the state that the invariant does not see.\<close>

lemma ok_simps [simp]:
  "transfer_ok (on_regs f s) = transfer_ok s" "transfer_ok (s\<lparr>ts_told := t\<rparr>) = transfer_ok s" "transfer_ok (take_word s) = transfer_ok s"
  "same_world s' (on_regs f s) = same_world s' s" "same_world s' (s\<lparr>ts_told := t\<rparr>) = same_world s' s" "same_world s' (take_word s) = same_world s' s"
  "same_world (s\<lparr>ts_told := t\<rparr>) s' = same_world s s'" "same_world (on_regs f s) s' = same_world s s'"
  by (simp_all add: transfer_ok_def same_world_def range_ok_def data_width_def ring_ok_def ring_size_def on_regs_def take_word_def split: option.split)

lemma ok_regs [simp]:
  "transfer_ok (set_ctrl m s) = transfer_ok s" "transfer_ok (clear_ctrl m s) = transfer_ok s" "transfer_ok (look_water w s) = transfer_ok s"
  "same_world s' (set_ctrl m s) = same_world s' s" "same_world s' (clear_ctrl m s) = same_world s' s" "same_world s' (look_water w s) = same_world s' s"
  "ts_handle (on_regs f s) = ts_handle s" "ts_handle (set_ctrl m s) = ts_handle s" "ts_handle (clear_ctrl m s) = ts_handle s"
  "ts_handle (look_water w s) = ts_handle s"
  by (simp_all add: set_ctrl_def clear_ctrl_def look_water_def) (simp_all add: on_regs_def)

lemma call_back_safe: "user_ok user \<Longrightarrow> transfer_ok s \<Longrightarrow> safe_from s (call_back user status s)"
proof (cases "callback (ts_handle s)")
  case (Some f)
  assume "user_ok user" "transfer_ok s"
  then have "safe_from (s\<lparr>ts_told := ts_told s @ [status]\<rparr>) (user f status (userData (ts_handle s)) (s\<lparr>ts_told := ts_told s @ [status]\<rparr>))"
    by (simp add: user_ok_def)
  then show ?thesis using Some by (simp add: call_back_def safe_from_def)
qed (simp add: call_back_def safe_Inr same_world_refl)

lemma range_obtain:
  assumes "range_ok p n s"
  obtains obj i where "p = Some (obj, i)" "i + n \<le> length (ts_mem s obj)"
  using assms by (auto simp: range_ok_def split: option.splits)

text \<open>The loops that read and write change nothing that the invariant sees.\<close>

definition only_data :: "transfer_sys \<Rightarrow> transfer_sys res \<Rightarrow> bool" where
  "only_data s r \<longleftrightarrow> (\<exists>s'. r = Inr s' \<and> ts_handle s' = ts_handle s \<and> (\<forall>obj. length (ts_mem s' obj) = length (ts_mem s obj)))"

lemma only_data_trans:
  "ts_handle s1 = ts_handle s \<Longrightarrow> (\<And>obj. length (ts_mem s1 obj) = length (ts_mem s obj)) \<Longrightarrow> only_data s1 r \<Longrightarrow> only_data s r"
  by (auto simp: only_data_def)

lemma read_loop_only: "i + n \<le> length (ts_mem s obj) \<Longrightarrow> only_data s (read_loop seven (Some (obj, i)) n s)"
  by (simp add: read_loop_eq only_data_def put_bytes_length)

lemma read_loop16_only: "i + 2 * n \<le> length (ts_mem s obj) \<Longrightarrow> only_data s (read_loop16 (Some (obj, i)) n s)"
proof (induction n arbitrary: i s)
  case (Suc n)
  let ?w = "ucast (next_word s AND 0x3FF) :: u16"
  let ?m = "(ts_mem s)(obj := (ts_mem s obj)[i := lo8 ?w, Suc i := hi8 ?w])"
  have "store16 (Some (obj, i)) ?w (ts_mem s) = Inr ?m"
    using Suc.prems by (simp add: store16_def store_ok)
  then have "read_loop16 (Some (obj, i)) (Suc n) s = read_loop16 (Some (obj, i + 2)) n (take_word (s\<lparr>ts_mem := ?m\<rparr>))"
    by simp
  moreover have "only_data (take_word (s\<lparr>ts_mem := ?m\<rparr>)) (read_loop16 (Some (obj, i + 2)) n (take_word (s\<lparr>ts_mem := ?m\<rparr>)))"
    using Suc.prems by (intro Suc.IH) (simp add: take_word_def)
  ultimately show ?case by (simp only:) (rule only_data_trans[rotated 2], assumption, simp_all add: take_word_def)
qed (simp add: only_data_def)

lemma write_loop_only: "i + n \<le> length (ts_mem s obj) \<Longrightarrow> only_data s (write_loop (Some (obj, i)) n s)"
  using write_loop_eq[of i n s obj] by (auto simp: only_data_def)

lemma write_loop16_only: "i + 2 * n \<le> length (ts_mem s obj) \<Longrightarrow> only_data s (write_loop16 (Some (obj, i)) n s)"
proof (induction n arbitrary: i s)
  case (Suc n)
  let ?w = "join16 (ts_mem s obj ! Suc i) (ts_mem s obj ! i)"
  have "load16 (Some (obj, i)) (ts_mem s) = Inr ?w"
    using Suc.prems by (simp add: load16_def load_ok)
  then have "write_loop16 (Some (obj, i)) (Suc n) s = write_loop16 (Some (obj, i + 2)) n (write_DATA (ucast ?w) s)"
    by simp
  moreover have "only_data (write_DATA (ucast ?w) s) (write_loop16 (Some (obj, i + 2)) n (write_DATA (ucast ?w) s))"
    using Suc.prems by (intro Suc.IH) (simp add: write_DATA_def on_regs_def)
  ultimately show ?case by (simp only:) (rule only_data_trans[rotated 2], assumption, simp_all add: write_DATA_def on_regs_def)
qed (simp add: only_data_def)


section \<open>Receiving\<close>

lemma ring_ok_lengths:
  assumes "rxRingBuffer (ts_handle s') = rxRingBuffer (ts_handle s)" and "rxRingBufferSize (ts_handle s') = rxRingBufferSize (ts_handle s)"
    and "rxRingBufferHead (ts_handle s') = rxRingBufferHead (ts_handle s)" and "rxRingBufferTail (ts_handle s') = rxRingBufferTail (ts_handle s)"
    and "\<And>obj. length (ts_mem s' obj) = length (ts_mem s obj)"
  shows "ring_ok s' = ring_ok s"
  using assms by (auto simp: ring_ok_def ring_size_def split: option.splits)

lemma range_lengths: "(\<And>obj. length (ts_mem s' obj) = length (ts_mem s obj)) \<Longrightarrow> range_ok p n s' = range_ok p n s"
  by (simp add: range_ok_def split: option.split)

lemma transfer_ok_lengths:
  assumes "ts_handle s' = ts_handle s" and "\<And>obj. length (ts_mem s' obj) = length (ts_mem s obj)"
  shows "transfer_ok s' = transfer_ok s" and "same_world s s'"
proof -
  have "ring_ok s' = ring_ok s" by (rule ring_ok_lengths) (simp_all add: assms)
  then show "transfer_ok s' = transfer_ok s"
    by (simp add: transfer_ok_def range_lengths[OF assms(2)] data_width_def assms(1))
  show "same_world s s'" by (simp add: same_world_def assms)
qed

lemma only_data_safe:
  assumes "transfer_ok s" and "only_data s r"
  shows "\<exists>s'. r = Inr s' \<and> ts_handle s' = ts_handle s \<and> transfer_ok s' \<and> same_world s s'"
proof -
  from assms(2) obtain s' where s': "r = Inr s'" "ts_handle s' = ts_handle s" "\<And>obj. length (ts_mem s' obj) = length (ts_mem s obj)"
    by (auto simp: only_data_def)
  with assms(1) transfer_ok_lengths[OF s'(2,3)] show ?thesis by blast
qed

lemma range_part: "range_ok p n s \<Longrightarrow> m \<le> n \<Longrightarrow> range_ok p m s"
  by (auto simp: range_ok_def split: option.splits)

lemma range_plus: "range_ok p n s \<Longrightarrow> m \<le> n \<Longrightarrow> range_ok (ptr_plus p m) (n - m) s"
  by (auto simp: range_ok_def ptr_plus_def split: option.splits)

lemma read_wanted:
  assumes "transfer_ok s" and "rxDataSize (ts_handle s) \<noteq> 0" and "n \<le> unat (rxDataSize (ts_handle s))"
  shows "\<exists>s'. (if is16bitData (ts_handle s) then LPUART_ReadNonBlocking16bit (rxData (ts_handle s)) n s
      else LPUART_ReadNonBlocking L (rxData (ts_handle s)) n s) = Inr s' \<and> ts_handle s' = ts_handle s \<and> transfer_ok s' \<and> same_world s s'"
proof -
  have "range_ok (rxData (ts_handle s)) (data_width s * n) s"
    using assms range_part[of "rxData (ts_handle s)" "data_width s * unat (rxDataSize (ts_handle s))" s "data_width s * n"]
    by (simp add: transfer_ok_def)
  then obtain obj i where p: "rxData (ts_handle s) = Some (obj, i)" "i + data_width s * n \<le> length (ts_mem s obj)" by (rule range_obtain)
  have "only_data s (if is16bitData (ts_handle s) then LPUART_ReadNonBlocking16bit (rxData (ts_handle s)) n s
      else LPUART_ReadNonBlocking L (rxData (ts_handle s)) n s)"
    using p by (auto simp: data_width_def LPUART_ReadNonBlocking16bit_def LPUART_ReadNonBlocking_def intro: read_loop16_only read_loop_only)
  then show ?thesis using only_data_safe[OF assms(1)] by blast
qed

text \<open>A changed handle with the ring buffer as before.\<close>

lemma transfer_ok_handle:
  assumes "transfer_ok s" and "same_world s s'" and "rxRingBufferSize (ts_handle s') = rxRingBufferSize (ts_handle s)"
    and "rxRingBufferHead (ts_handle s') = rxRingBufferHead (ts_handle s)" and "rxRingBufferTail (ts_handle s') = rxRingBufferTail (ts_handle s)"
    and "is16bitData (ts_handle s') = is16bitData (ts_handle s)"
    and "rxDataSize (ts_handle s') \<noteq> 0 \<Longrightarrow> range_ok (rxData (ts_handle s')) (data_width s * unat (rxDataSize (ts_handle s'))) s"
    and "txDataSize (ts_handle s') \<noteq> 0 \<Longrightarrow> range_ok (txData (ts_handle s')) (data_width s * unat (txDataSize (ts_handle s'))) s"
  shows "transfer_ok s'"
proof -
  have len: "length (ts_mem s' obj) = length (ts_mem s obj)" for obj using assms(2) by (simp add: same_world_def)
  have buffer: "rxRingBuffer (ts_handle s') = rxRingBuffer (ts_handle s)" using assms(2) by (simp add: same_world_def)
  have "ring_ok s' = ring_ok s" by (rule ring_ok_lengths[OF buffer assms(3-5) len])
  moreover have "data_width s' = data_width s" by (simp add: data_width_def assms(6))
  ultimately show ?thesis using assms(1,7,8) by (simp add: transfer_ok_def buffer range_lengths[OF len])
qed

lemma transfer_okD:
  assumes "transfer_ok s"
  shows "rxDataSize (ts_handle s) \<noteq> 0 \<Longrightarrow> range_ok (rxData (ts_handle s)) (data_width s * unat (rxDataSize (ts_handle s))) s"
    and "txDataSize (ts_handle s) \<noteq> 0 \<Longrightarrow> range_ok (txData (ts_handle s)) (data_width s * unat (txDataSize (ts_handle s))) s"
    and "rxRingBuffer (ts_handle s) \<noteq> None \<Longrightarrow> ring_ok s"
  using assms by (simp_all add: transfer_ok_def)

lemma range_rest:
  assumes "range_ok p (w * unat (k :: u32)) s" and "n \<le> unat k"
  shows "range_ok (ptr_plus p (w * n)) (w * unat (k - of_nat n)) s"
  using range_plus[OF assms(1), of "w * n"] assms(2) unat_minus_of_nat[OF assms(2)] by (simp add: diff_mult_distrib2)

lemma advance_wanted:
  assumes "transfer_ok s" and "rxDataSize (ts_handle s) \<noteq> 0" and "n \<le> unat (rxDataSize (ts_handle s))" and "wide = is16bitData (ts_handle s)"
  shows "transfer_ok (on_handle (\<lambda>h. h\<lparr>rxDataSize := rxDataSize h - of_nat n\<rparr>)
      (on_handle (\<lambda>h. h\<lparr>rxData := ptr_plus (rxData h) (if wide then n * 2 else n)\<rparr>) s))" (is "transfer_ok ?s'")
proof (rule transfer_ok_handle[OF assms(1)])
  have wide: "(if wide then n * 2 else n) = data_width s * n" by (simp add: assms(4) data_width_def)
  show "range_ok (rxData (ts_handle ?s')) (data_width s * unat (rxDataSize (ts_handle ?s'))) s"
    using range_rest[OF transfer_okD(1)[OF assms(1,2)] assms(3)] unfolding wide by (simp add: on_handle_def)
qed (simp_all add: on_handle_def same_world_def transfer_okD(2)[OF assms(1)])

lemma advance_sent:
  assumes "transfer_ok s" and "txDataSize (ts_handle s) \<noteq> 0" and "n \<le> unat (txDataSize (ts_handle s))" and "wide = is16bitData (ts_handle s)"
  shows "transfer_ok (on_handle (\<lambda>h. h\<lparr>txDataSize := txDataSize h - of_nat n\<rparr>)
      (on_handle (\<lambda>h. h\<lparr>txData := ptr_plus (txData h) (if wide then n * 2 else n)\<rparr>) s))" (is "transfer_ok ?s'")
proof (rule transfer_ok_handle[OF assms(1)])
  have wide: "(if wide then n * 2 else n) = data_width s * n" by (simp add: assms(4) data_width_def)
  show "range_ok (txData (ts_handle ?s')) (data_width s * unat (txDataSize (ts_handle ?s'))) s"
    using range_rest[OF transfer_okD(2)[OF assms(1,2)] assms(3)] unfolding wide by (simp add: on_handle_def)
qed (simp_all add: on_handle_def same_world_def transfer_okD(1)[OF assms(1)])


text \<open>What the invariant asks of a change of the state of a transfer or of an end.\<close>

lemma ok_states [simp]:
  "transfer_ok (on_handle (\<lambda>h. h\<lparr>rxState := x\<rparr>) s) = transfer_ok s" "transfer_ok (on_handle (\<lambda>h. h\<lparr>txState := x\<rparr>) s) = transfer_ok s"
  "same_world s' (on_handle (\<lambda>h. h\<lparr>rxState := x\<rparr>) s) = same_world s' s" "same_world s' (on_handle (\<lambda>h. h\<lparr>txState := x\<rparr>) s) = same_world s' s"
  "same_world s' (on_handle (\<lambda>h. h\<lparr>rxData := f h\<rparr>) s) = same_world s' s" "same_world s' (on_handle (\<lambda>h. h\<lparr>rxDataSize := g h\<rparr>) s) = same_world s' s"
  "same_world s' (on_handle (\<lambda>h. h\<lparr>txData := f h\<rparr>) s) = same_world s' s" "same_world s' (on_handle (\<lambda>h. h\<lparr>txDataSize := g h\<rparr>) s) = same_world s' s"
  by (simp_all add: transfer_ok_def same_world_def range_ok_def data_width_def ring_ok_def ring_size_def on_handle_def split: option.split)

lemma fill_request_safe:
  "user_ok user \<Longrightarrow> transfer_ok s \<Longrightarrow> \<exists>c s'. fill_request L user cnt s = Inr (c, s') \<and> transfer_ok s' \<and> same_world s s'"
proof (induction cnt arbitrary: s rule: less_induct)
  case (less cnt)
  show ?case
  proof (cases "rxDataSize (ts_handle s) = 0 \<or> cnt = 0")
    case True
    then show ?thesis using less.prems by (auto simp: fill_request_stop same_world_refl)
  next
    case False
    let ?n = "min (unat (rxDataSize (ts_handle s))) cnt" and ?wide = "is16bitData (ts_handle s)"
    from False have pos: "rxDataSize (ts_handle s) \<noteq> 0" "0 < ?n" by (auto simp: unat_gt_0)
    from read_wanted[OF less.prems(2) pos(1), of ?n L] obtain s1 where s1:
      "(if ?wide then LPUART_ReadNonBlocking16bit (rxData (ts_handle s)) ?n s else LPUART_ReadNonBlocking L (rxData (ts_handle s)) ?n s) = Inr s1"
      "ts_handle s1 = ts_handle s" "transfer_ok s1" "same_world s s1" by auto
    define s2 where "s2 = on_handle (\<lambda>h. h\<lparr>rxDataSize := rxDataSize h - of_nat ?n\<rparr>)
      (on_handle (\<lambda>h. h\<lparr>rxData := ptr_plus (rxData h) (if ?wide then ?n * 2 else ?n)\<rparr>) s1)"
    have s2: "transfer_ok s2" "same_world s s2"
      unfolding s2_def using advance_wanted[OF s1(3), of ?n ?wide] pos(1) s1(2,4) by simp_all
    have "safe_from s2 (if rxDataSize (ts_handle s2) = 0
        then call_back user kStatus_LPUART_RxIdle (on_handle (\<lambda>h. h\<lparr>rxState := kLPUART_RxIdle\<rparr>) s2) else Inr s2)" (is "safe_from s2 ?r")
      using call_back_safe[OF less.prems(1), of "on_handle (\<lambda>h. h\<lparr>rxState := kLPUART_RxIdle\<rparr>) s2"] s2(1)
      by (simp add: safe_Inr same_world_refl) (simp add: safe_from_def same_world_def on_handle_def)
    then obtain s3 where s3: "?r = Inr s3" "transfer_ok s3" "same_world s2 s3" by (auto simp: safe_from_def)
    have "fill_request L user cnt s = fill_request L user (cnt - ?n) s3"
      by (subst fill_request.simps) (simp only: False Let_def if_False s1(1) rbind_Inr s2_def[symmetric] s3(1))
    moreover have "cnt - ?n < cnt" using pos(2) False by linarith
    ultimately show ?thesis
      using less.IH[OF _ less.prems(1) s3(2), of "cnt - ?n"] same_world_trans[OF same_world_trans[OF s2(2) s3(3)]] by auto
  qed
qed

lemma ring_step_ok:
  assumes "ring_ok s"
  shows "ring_ok (advance_tail s)" and "ring_ok (advance_head s)"
proof -
  from assms obtain obj k where o: "rxRingBuffer (ts_handle s) = Some (obj, k)" "2 \<le> ring_size s" "ring_size s \<le> 2 ^ 16"
    "k + ring_size s \<le> length (ts_mem s obj)" "unat (rxRingBufferHead (ts_handle s)) < ring_size s"
    "unat (rxRingBufferTail (ts_handle s)) < ring_size s" by (rule ring_okE)
  show "ring_ok (advance_tail s)" and "ring_ok (advance_head s)"
    using o ring_next_eq[of "rxRingBufferTail (ts_handle s)" "ts_handle s"] ring_next_eq[of "rxRingBufferHead (ts_handle s)" "ts_handle s"]
      ring_pos_less[OF o(5)] ring_pos_less[OF o(6)]
    by (simp_all add: ring_ok_def ring_size_def advance_tail_def advance_head_def on_handle_def)
qed

lemma advance_safe:
  assumes "transfer_ok s" and "rxRingBuffer (ts_handle s) \<noteq> None"
  shows "transfer_ok (advance_tail s)" and "transfer_ok (advance_head s)" and "same_world s (advance_tail s)" and "same_world s (advance_head s)"
proof -
  have range: "range_ok p n (advance_tail s) = range_ok p n s" "range_ok p n (advance_head s) = range_ok p n s" for p n
    by (simp_all add: range_ok_def advance_tail_def advance_head_def on_handle_def split: option.split)
  have wide: "data_width (advance_tail s) = data_width s" "data_width (advance_head s) = data_width s"
    by (simp_all add: data_width_def advance_tail_def advance_head_def on_handle_def)
  note r = ring_step_ok[OF transfer_okD(3)[OF assms]]
  show "transfer_ok (advance_tail s)"
    using r(1) transfer_okD(1,2)[OF assms(1)] unfolding transfer_ok_def range wide by (simp add: advance_tail_def on_handle_def)
  show "transfer_ok (advance_head s)"
    using r(2) transfer_okD(1,2)[OF assms(1)] unfolding transfer_ok_def range wide by (simp add: advance_head_def on_handle_def)
  show "same_world s (advance_tail s)" "same_world s (advance_head s)"
    by (simp_all add: same_world_def advance_tail_def advance_head_def on_handle_def)
qed


lemma store_at_head:
  assumes "ring_ok s"
  shows "\<exists>m. store (ptr_plus (rxRingBuffer (ts_handle s)) (unat (rxRingBufferHead (ts_handle s)))) b (ts_mem s) = Inr m \<and>
    (\<forall>obj. length (m obj) = length (ts_mem s obj))"
proof -
  from assms obtain obj k where o: "rxRingBuffer (ts_handle s) = Some (obj, k)" "k + ring_size s \<le> length (ts_mem s obj)"
    "unat (rxRingBufferHead (ts_handle s)) < ring_size s" by (rule ring_okE)
  then show ?thesis by (simp add: store_ok)
qed

lemma load_at_tail:
  assumes "ring_ok s"
  shows "\<exists>b. load (ptr_plus (rxRingBuffer (ts_handle s)) (unat (rxRingBufferTail (ts_handle s)))) (ts_mem s) = Inr b"
proof -
  from assms obtain obj k where o: "rxRingBuffer (ts_handle s) = Some (obj, k)" "k + ring_size s \<le> length (ts_mem s obj)"
    "unat (rxRingBufferTail (ts_handle s)) < ring_size s" by (rule ring_okE)
  then show ?thesis by (simp add: load_ok)
qed

lemma new_memory_safe:
  assumes "transfer_ok s" and "\<And>obj. length (m obj) = length (ts_mem s obj)"
  shows "transfer_ok (s\<lparr>ts_mem := m\<rparr>)" and "same_world s (s\<lparr>ts_mem := m\<rparr>)"
  using transfer_ok_lengths[of "s\<lparr>ts_mem := m\<rparr>" s] assms by simp_all

lemma same_buffer: "same_world s s' \<Longrightarrow> rxRingBuffer (ts_handle s') = rxRingBuffer (ts_handle s)"
  by (simp add: same_world_def)

lemma store_in_ring_safe:
  assumes "user_ok user" and "transfer_ok s" and "rxRingBuffer (ts_handle s) \<noteq> None"
  shows "safe_from s (store_in_ring user s)"
  unfolding store_in_ring_def
proof (rule safe_bind, goal_cases)
  case 1
  show ?case using call_back_safe[OF assms(1,2)] assms(2) by (simp add: safe_Inr same_world_refl)
next
  case (2 s1)
  define s2 where "s2 = (if LPUART_TransferIsRxRingBufferFull (ts_handle s1) then advance_tail s1 else s1)"
  have s2: "transfer_ok s2" "same_world s1 s2"
    using advance_safe[OF 2(1)] 2 same_buffer[OF 2(2)] assms(3) by (simp_all add: s2_def same_world_refl)
  have buffer: "rxRingBuffer (ts_handle s2) \<noteq> None" using same_buffer[OF 2(2)] same_buffer[OF s2(2)] assms(3) by simp
  let ?b = "byte_of (isSevenDataBits (ts_handle s2)) (next_word s2)"
  from store_at_head[OF transfer_okD(3)[OF s2(1) buffer], of ?b] obtain m where
    m: "store (ptr_plus (rxRingBuffer (ts_handle s2)) (unat (rxRingBufferHead (ts_handle s2)))) ?b (ts_mem s2) = Inr m"
      "\<And>obj. length (m obj) = length (ts_mem s2 obj)" by blast
  define s3 where "s3 = (take_word s2)\<lparr>ts_mem := m\<rparr>"
  have taken: "transfer_ok (take_word s2)" "ts_mem (take_word s2) = ts_mem s2" using s2(1) by (simp, simp add: take_word_def)
  have s3: "transfer_ok s3" unfolding s3_def using m(2) by (intro new_memory_safe(1)[OF taken(1)]) (simp add: taken(2))
  have s3': "same_world s2 s3" "rxRingBuffer (ts_handle s3) \<noteq> None" using m(2) buffer by (simp_all add: s3_def same_world_def take_word_def)
  have "safe_from s1 (Inr (advance_head s3))"
    using advance_safe[OF s3 s3'(2)] same_world_trans[OF same_world_trans[OF s2(2) s3'(1)]] by (simp add: safe_Inr)
  then show ?case
    unfolding advance_tail_def[symmetric] advance_head_def[symmetric] Let_def s2_def[symmetric]
    by (simp only: taken(2) m(1) rbind_Inr s3_def[symmetric])
qed

lemma fill_ring_safe:
  "user_ok user \<Longrightarrow> transfer_ok s \<Longrightarrow> rxRingBuffer (ts_handle s) \<noteq> None \<Longrightarrow> safe_from s (fill_ring user n s)"
proof (induction n arbitrary: s)
  case (Suc n)
  show ?case unfolding fill_ring.simps
    using safe_bind[OF store_in_ring_safe[OF Suc.prems]] Suc.IH[OF Suc.prems(1)] same_buffer Suc.prems(3) by metis
qed (simp add: safe_Inr same_world_refl)

lemma send_request_safe: "transfer_ok s \<Longrightarrow> safe_from s (send_request L cnt s)"
proof (induction cnt arbitrary: s rule: less_induct)
  case (less cnt)
  show ?case
  proof (cases "txDataSize (ts_handle s) = 0 \<or> cnt = 0")
    case True
    then show ?thesis using less.prems by (subst send_request.simps) (simp add: safe_Inr same_world_refl)
  next
    case False
    let ?n = "min (unat (txDataSize (ts_handle s))) cnt" and ?wide = "is16bitData (ts_handle s)"
    from False have pos: "txDataSize (ts_handle s) \<noteq> 0" "0 < ?n" by (auto simp: unat_gt_0)
    have "range_ok (txData (ts_handle s)) (data_width s * ?n) s"
      using range_part[OF transfer_okD(2)[OF less.prems pos(1)]] by simp
    then obtain obj i where p: "txData (ts_handle s) = Some (obj, i)" "i + data_width s * ?n \<le> length (ts_mem s obj)" by (rule range_obtain)
    have "only_data s (if ?wide then LPUART_WriteNonBlocking16bit (txData (ts_handle s)) ?n s else LPUART_WriteNonBlocking (txData (ts_handle s)) ?n s)"
      using p write_loop16_only[of i ?n s obj] write_loop_only[of i ?n s obj]
      by (simp add: data_width_def LPUART_WriteNonBlocking16bit_def LPUART_WriteNonBlocking_def split: if_splits)
    from only_data_safe[OF less.prems this] obtain s1 where s1:
      "(if ?wide then LPUART_WriteNonBlocking16bit (txData (ts_handle s)) ?n s else LPUART_WriteNonBlocking (txData (ts_handle s)) ?n s) = Inr s1"
      "ts_handle s1 = ts_handle s" "transfer_ok s1" "same_world s s1" by blast
    define s2 where "s2 = on_handle (\<lambda>h. h\<lparr>txDataSize := txDataSize h - of_nat ?n\<rparr>)
      (on_handle (\<lambda>h. h\<lparr>txData := ptr_plus (txData h) (if ?wide then ?n * 2 else ?n)\<rparr>) s1)"
    define s3 where "s3 = (if txDataSize (ts_handle s2) = 0
      then on_regs (\<lambda>r. r\<lparr>lu_CTRL := (lu_CTRL r AND NOT (fmask (CTRL_TIE L))) OR fmask (CTRL_TCIE L)\<rparr>) s2 else s2)"
    have s2: "transfer_ok s2" "same_world s s2"
      unfolding s2_def using advance_sent[OF s1(3), of ?n ?wide] pos(1) s1(2,4) by simp_all
    then have s3: "transfer_ok s3" "same_world s s3" by (simp_all add: s3_def)
    have "send_request L cnt s = send_request L (cnt - ?n) s3"
      by (subst send_request.simps) (simp only: False Let_def if_False s1(1) rbind_Inr s2_def[symmetric] s3_def[symmetric])
    moreover have "cnt - ?n < cnt" using pos(2) False by linarith
    ultimately show ?thesis
      using less.IH[OF _ s3(1), of "cnt - ?n"] same_world_trans[OF s3(2)] by (auto simp: safe_from_def)
  qed
qed


section \<open>The interrupt\<close>

lemma overrun_part_safe: "user_ok user \<Longrightarrow> transfer_ok s \<Longrightarrow> safe_from s (overrun_part L user status s)"
  using call_back_safe[of user "on_regs (\<lambda>r. write_STAT L ((lu_STAT r AND 0x3FE00000) OR fmask (STAT_OR L)) r) s"]
  by (simp add: overrun_part_def safe_Inr same_world_refl) (simp add: safe_from_def)

lemma after_fill:
  assumes "user_ok user" and "transfer_ok s" and "\<And>c s'. transfer_ok s' \<Longrightarrow> same_world s s' \<Longrightarrow> safe_from s' (f (c, s'))"
  shows "safe_from s (rbind (fill_request L user cnt (look_water w s)) f)"
proof -
  from fill_request_safe[OF assms(1), of "look_water w s" L cnt] assms(2) obtain c s' where
    "fill_request L user cnt (look_water w s) = Inr (c, s')" "transfer_ok s'" "same_world s s'"
    by (auto simp: look_water_def)
  then show ?thesis using assms(3)[of s' c] same_world_trans by (auto simp: safe_from_def)
qed

lemma idle_part_safe:
  assumes "user_ok user" and "transfer_ok s"
  shows "safe_from s (idle_part L user status enabled w s)"
proof -
  have "safe_from s' (let s = on_regs (\<lambda>r. write_STAT L ((lu_STAT r AND 0x3FE00000) OR fmask (STAT_IDLE L)) r) s'
       in if rxDataSize (ts_handle s) = 0 then Inr (clear_ctrl (rx_idle_interrupts L) s) else call_back user kStatus_LPUART_IdleLineDetected s)"
    if "transfer_ok s'" for s'
    using call_back_safe[OF assms(1), of "on_regs (\<lambda>r. write_STAT L ((lu_STAT r AND 0x3FE00000) OR fmask (STAT_IDLE L)) r) s'"] that
    by (simp add: safe_Inr same_world_refl Let_def) (simp add: safe_from_def)
  then show ?thesis
    unfolding idle_part_def Let_def using assms by (intro safe_if after_fill) (simp_all add: safe_Inr same_world_refl)
qed

lemma receive_part_safe:
  assumes "user_ok user" and "transfer_ok s"
  shows "safe_from s (receive_part L user status enabled w s)"
proof -
  have "safe_from s' (if rxRingBuffer (ts_handle s') \<noteq> None then fill_ring user c s'
           else if rxDataSize (ts_handle s') = 0 then Inr (clear_ctrl (rx_idle_interrupts L) s') else Inr s')"
    if "transfer_ok s'" for s' c
    using fill_ring_safe[OF assms(1) that] that by (simp add: safe_Inr same_world_refl)
  then show ?thesis
    unfolding receive_part_def Let_def using assms by (intro safe_if after_fill) (simp_all add: safe_Inr same_world_refl)
qed

lemma send_part_safe: "transfer_ok s \<Longrightarrow> safe_from s (send_part L status enabled w s)"
  using send_request_safe[of "look_water w s" L] by (auto simp: send_part_def Let_def safe_from_def same_world_refl look_water_def)

lemma complete_part_safe: "user_ok user \<Longrightarrow> transfer_ok s \<Longrightarrow> safe_from s (complete_part L user status enabled s)"
  using call_back_safe[of user "clear_ctrl (fmask (CTRL_TCIE L)) (on_handle (\<lambda>h. h\<lparr>txState := kLPUART_TxIdle\<rparr>) s)"]
  by (simp add: complete_part_def safe_Inr same_world_refl) (simp add: safe_from_def same_world_def clear_ctrl_def on_regs_def on_handle_def)

lemma handler_safe:
  assumes "user_ok user" and "transfer_ok s"
  shows "safe_from s (LPUART_TransferHandleIRQ L user waters s)"
  unfolding LPUART_TransferHandleIRQ_def Let_def prod.case_eq_if
  using assms by (intro safe_bind overrun_part_safe idle_part_safe receive_part_safe send_part_safe complete_part_safe)

section \<open>The calls\<close>

lemma copy_from_ring_safe:
  "transfer_ok s \<Longrightarrow> rxRingBuffer (ts_handle s) \<noteq> None \<Longrightarrow> i + n \<le> length (ts_mem s obj) \<Longrightarrow>
    safe_from s (copy_from_ring n (Some (obj, i)) s)"
proof (induction n arbitrary: i s)
  case (Suc n)
  from load_at_tail[OF transfer_okD(3)[OF Suc.prems(1,2)]] obtain b where
    b: "load (ptr_plus (rxRingBuffer (ts_handle s)) (unat (rxRingBufferTail (ts_handle s)))) (ts_mem s) = Inr b" by blast
  define m where "m = (ts_mem s)(obj := (ts_mem s obj)[i := b])"
  have st: "store (Some (obj, i)) b (ts_mem s) = Inr m" "\<And>o'. length (m o') = length (ts_mem s o')"
    using Suc.prems(3) by (simp_all add: m_def store_ok)
  define s1 where "s1 = advance_tail (s\<lparr>ts_mem := m\<rparr>)"
  have s1: "transfer_ok s1" "same_world s s1"
    using advance_safe[OF new_memory_safe(1)[OF Suc.prems(1) st(2)]] Suc.prems(2) same_world_trans[OF new_memory_safe(2)[OF Suc.prems(1) st(2)]]
    by (simp_all add: s1_def)
  have "copy_from_ring (Suc n) (Some (obj, i)) s = copy_from_ring n (Some (obj, i + 1)) s1"
    by (simp only: copy_from_ring.simps b st(1) rbind_Inr ptr_plus_Some s1_def advance_tail_def)
  moreover have "length (ts_mem s1 obj) = length (ts_mem s obj)" using s1(2) by (simp add: same_world_def)
  ultimately show ?case
    using Suc.IH[OF s1(1), of "i + 1"] Suc.prems(2,3) same_buffer[OF s1(2)] same_world_trans[OF s1(2)] by (auto simp: safe_from_def)
qed (simp add: safe_Inr same_world_refl)


text \<open>A call or an interrupt. At an interrupt the registers may show anything; between them the memory may be written, and new words arrive.\<close>

datatype transfer_op =
    StartRingBuffer c_ptr u32
  | StopRingBuffer
  | Enable16Bit bool
  | SendNonBlocking lpuart_transfer
  | AbortSend
  | ReceiveNonBlocking lpuart_transfer
  | AbortReceive
  | Interrupt u32 lpuart "u32 \<times> u32 \<times> u32"
  | WriteMemory nat nat u8
  | NewWords "nat \<Rightarrow> u32"

text \<open>\<open>t\<close> are the handlers installed in the LP_FLEXCOMM, \<open>n\<close> is its number. Handlers of other peripherals do nothing here.\<close>

definition run_handler :: "lpuart_layout \<Rightarrow> user \<Rightarrow> u32 \<times> u32 \<times> u32 \<Rightarrow> irq_handler \<Rightarrow> nat \<Rightarrow> nat \<Rightarrow> transfer_sys \<Rightarrow> transfer_sys res" where
  "run_handler L user waters f n handle s =
     (case f of LPUART_handler \<Rightarrow> LPUART_TransferHandleIRQ L user waters s | Other_handler k \<Rightarrow> Inr s)"

fun perform :: "lpuart_layout \<Rightarrow> flexcomm_layout \<Rightarrow> user \<Rightarrow> flexcomm_irqs \<Rightarrow> nat \<Rightarrow> transfer_op \<Rightarrow> transfer_sys \<Rightarrow> transfer_sys res" where
  "perform L X user t n (StartRingBuffer p k) s = LPUART_TransferStartRingBuffer L p k s"
| "perform L X user t n StopRingBuffer s = Inr (LPUART_TransferStopRingBuffer L s)"
| "perform L X user t n (Enable16Bit b) s = Inr (LPUART_TransferEnable16Bit b s)"
| "perform L X user t n (SendNonBlocking xfer) s = rbind (LPUART_TransferSendNonBlocking L xfer s) (\<lambda>(status, s). Inr s)"
| "perform L X user t n AbortSend s = Inr (LPUART_TransferAbortSend L s)"
| "perform L X user t n (ReceiveNonBlocking xfer) s =
     rbind (LPUART_TransferReceiveNonBlocking L user xfer s) (\<lambda>(status, received, s). Inr s)"
| "perform L X user t n AbortReceive s = Inr (LPUART_TransferAbortReceive L s)"
| "perform L X user t n (Interrupt stat r waters) s =
     LP_FLEXCOMM_CommonIRQHandler X (run_handler L user waters) t stat n (on_regs (\<lambda>_. r) s)"
| "perform L X user t n (WriteMemory obj i b) s = Inr (s\<lparr>ts_mem := (ts_mem s)(obj := (ts_mem s obj)[i := b])\<rparr>)"
| "perform L X user t n (NewWords ws) s = Inr (s\<lparr>ts_line := ws, ts_taken := 0\<rparr>)"

text \<open>What a caller has to see to: memory of the size announced, a ring buffer that is indexed with 16 bits, and no change of the width of words during a transfer.\<close>

fun fits :: "transfer_op \<Rightarrow> transfer_sys \<Rightarrow> bool" where
  "fits (StartRingBuffer p k) s \<longleftrightarrow> 2 \<le> unat k \<and> unat k \<le> 2 ^ 16 \<and> range_ok p (unat k) s"
| "fits (Enable16Bit b) s \<longleftrightarrow> rxDataSize (ts_handle s) = 0 \<and> txDataSize (ts_handle s) = 0"
| "fits (SendNonBlocking xfer) s \<longleftrightarrow> xfer_dataSize xfer \<noteq> 0 \<and> range_ok (xfer_data xfer) (data_width s * unat (xfer_dataSize xfer)) s"
| "fits (ReceiveNonBlocking xfer) s \<longleftrightarrow> xfer_dataSize xfer \<noteq> 0 \<and> range_ok (xfer_data xfer) (data_width s * unat (xfer_dataSize xfer)) s"
| "fits _ s \<longleftrightarrow> True"

definition sound :: "transfer_sys \<Rightarrow> transfer_sys res \<Rightarrow> bool" where
  "sound s r \<longleftrightarrow> (\<exists>s'. r = Inr s' \<and> transfer_ok s' \<and> (\<forall>obj. length (ts_mem s' obj) = length (ts_mem s obj)))"

lemma safe_sound: "safe_from s r \<Longrightarrow> sound s r"
  by (auto simp: safe_from_def sound_def same_world_def)

lemma range_not_null: "range_ok p n s \<Longrightarrow> p \<noteq> None"
  by (cases p) (auto simp: range_ok_def)

lemma start_ring_sound:
  assumes "transfer_ok s" and "2 \<le> unat k" and "unat k \<le> 2 ^ 16" and "range_ok p (unat k) s"
  shows "sound s (LPUART_TransferStartRingBuffer L p k s)"
proof -
  define s1 where "s1 = on_handle (\<lambda>h. h\<lparr>rxRingBuffer := p, rxRingBufferSize := k, rxRingBufferHead := 0, rxRingBufferTail := 0\<rparr>) s"
  have "ring_ok s1" using assms(2-4) by (auto simp: ring_ok_def ring_size_def s1_def on_handle_def range_ok_def split: option.splits)
  moreover have "range_ok q m s1 = range_ok q m s" for q m by (rule range_lengths) (simp add: s1_def on_handle_def)
  ultimately have "transfer_ok s1" using transfer_okD[OF assms(1)] by (simp add: transfer_ok_def data_width_def s1_def on_handle_def)
  then have "sound s (Inr (set_ctrl (rx_interrupts L) s1))"
    by (simp add: sound_def) (simp add: set_ctrl_def on_regs_def s1_def on_handle_def)
  then show ?thesis using range_not_null[OF assms(4)] by (auto simp: LPUART_TransferStartRingBuffer_def s1_def)
qed

lemma stop_ring_sound:
  assumes "transfer_ok s"
  shows "sound s (Inr (LPUART_TransferStopRingBuffer L s))"
proof -
  define s1 where "s1 = (if rxState (ts_handle s) = kLPUART_RxIdle then clear_ctrl (rx_interrupts L) s else s)"
  define s2 where "s2 = on_handle (\<lambda>h. h\<lparr>rxRingBuffer := None, rxRingBufferSize := 0, rxRingBufferHead := 0, rxRingBufferTail := 0\<rparr>) s1"
  have s1: "transfer_ok s1" "ts_mem s1 = ts_mem s" using assms by (simp_all add: s1_def) (simp add: clear_ctrl_def on_regs_def)
  have "range_ok q m s2 = range_ok q m s1" for q m by (rule range_lengths) (simp add: s2_def on_handle_def)
  then have "transfer_ok s2" using transfer_okD[OF s1(1)] by (simp add: transfer_ok_def data_width_def s2_def on_handle_def)
  moreover have "ts_mem s2 = ts_mem s" by (simp add: s2_def on_handle_def s1(2))
  moreover have "LPUART_TransferStopRingBuffer L s = s2" by (simp add: LPUART_TransferStopRingBuffer_def s1_def s2_def Let_def)
  ultimately show ?thesis by (simp add: sound_def)
qed

lemma enable_16_sound:
  assumes "transfer_ok s" and "rxDataSize (ts_handle s) = 0" and "txDataSize (ts_handle s) = 0"
  shows "sound s (Inr (LPUART_TransferEnable16Bit b s))"
proof -
  let ?s = "LPUART_TransferEnable16Bit b s"
  have "ring_ok ?s = ring_ok s" by (rule ring_ok_lengths) (simp_all add: LPUART_TransferEnable16Bit_def on_handle_def)
  then have "transfer_ok ?s" using transfer_okD(3)[OF assms(1)] assms(2,3) unfolding transfer_ok_def
    by (simp only:) (simp add: LPUART_TransferEnable16Bit_def on_handle_def)
  then show ?thesis by (simp add: sound_def) (simp add: LPUART_TransferEnable16Bit_def on_handle_def)
qed

lemma send_sound:
  assumes "transfer_ok s" and "xfer_dataSize xfer \<noteq> 0" and "range_ok (xfer_data xfer) (data_width s * unat (xfer_dataSize xfer)) s"
  shows "\<exists>status s'. LPUART_TransferSendNonBlocking L xfer s = Inr (status, s') \<and> sound s (Inr s')"
proof -
  define s1 where "s1 = on_handle (\<lambda>h. h\<lparr>txData := xfer_data xfer, txDataSize := xfer_dataSize xfer, txDataSizeAll := xfer_dataSize xfer,
    txState := kLPUART_TxBusy\<rparr>) s"
  have "transfer_ok s1"
    by (rule transfer_ok_handle[OF assms(1)]) (simp_all add: s1_def on_handle_def same_world_def assms(3) transfer_okD(1)[OF assms(1)])
  then have "sound s (Inr (set_ctrl (fmask (CTRL_TIE L)) s1))"
    by (simp add: sound_def) (simp add: set_ctrl_def on_regs_def s1_def on_handle_def)
  moreover have "sound s (Inr s)" using assms(1) by (simp add: sound_def)
  ultimately show ?thesis
    using range_not_null[OF assms(3)] assms(2) by (simp add: LPUART_TransferSendNonBlocking_def s1_def)
qed

lemma abort_sound:
  assumes "transfer_ok s"
  shows "sound s (Inr (LPUART_TransferAbortSend L s))" and "sound s (Inr (LPUART_TransferAbortReceive L s))"
proof -
  have "transfer_ok (LPUART_TransferAbortSend L s)"
    by (rule transfer_ok_handle[OF assms]) (simp_all add: LPUART_TransferAbortSend_def clear_ctrl_def on_regs_def on_handle_def same_world_def transfer_okD(1)[OF assms])
  then show "sound s (Inr (LPUART_TransferAbortSend L s))"
    by (simp add: sound_def) (simp add: LPUART_TransferAbortSend_def clear_ctrl_def on_regs_def on_handle_def)
  define s1 where "s1 = (if rxRingBuffer (ts_handle s) = None then clear_ctrl (rx_idle_interrupts L) s else s)"
  define s2 where "s2 = on_handle (\<lambda>h. h\<lparr>rxDataSize := 0, rxState := kLPUART_RxIdle\<rparr>) s1"
  have s1: "transfer_ok s1" "ts_mem s1 = ts_mem s" using assms by (simp_all add: s1_def) (simp add: clear_ctrl_def on_regs_def)
  have "transfer_ok s2"
    by (rule transfer_ok_handle[OF s1(1)]) (simp_all add: s2_def on_handle_def same_world_def transfer_okD(2)[OF s1(1)])
  moreover have "ts_mem s2 = ts_mem s" by (simp add: s2_def on_handle_def s1(2))
  moreover have "LPUART_TransferAbortReceive L s = s2" by (simp add: LPUART_TransferAbortReceive_def s1_def s2_def)
  ultimately show "sound s (Inr (LPUART_TransferAbortReceive L s))" by (simp add: sound_def)
qed

lemma request_rest_safe:
  assumes "transfer_ok s" and "range_ok (ptr_plus p i) (data_width s * unat k) s"
  shows "transfer_ok (request_rest p i k a s)" and "same_world s (request_rest p i k a s)"
proof -
  show "transfer_ok (request_rest p i k a s)"
    by (rule transfer_ok_handle[OF assms(1)])
      (simp_all add: request_rest_def on_handle_def same_world_def assms(2) transfer_okD(2)[OF assms(1)])
  show "same_world s (request_rest p i k a s)" by (simp add: request_rest_def on_handle_def same_world_def)
qed

lemma copy_from_ring_width: "copy_from_ring n q s = Inr s' \<Longrightarrow> data_width s' = data_width s"
proof (induction n arbitrary: q s)
  case (Suc n)
  then obtain b m where "copy_from_ring n (ptr_plus q 1)
      (on_handle (\<lambda>h. h\<lparr>rxRingBufferTail := ring_next h (rxRingBufferTail h)\<rparr>) (s\<lparr>ts_mem := m\<rparr>)) = Inr s'"
    by (auto simp: rbind_def split: sum.splits)
  from Suc.IH[OF this] show ?case by (simp add: data_width_def on_handle_def)
qed simp

lemma range_mixed: "range_ok p (w * k) s \<Longrightarrow> n \<le> k \<Longrightarrow> 1 \<le> w \<Longrightarrow> range_ok (ptr_plus p n) (w * (k - n)) s"
proof -
  assume "range_ok p (w * k) s" "n \<le> k" "1 \<le> w"
  then have "w * k = w * n + w * (k - n)" "n \<le> w * n" by (simp_all add: diff_mult_distrib2)
  then have "n + w * (k - n) \<le> w * k" by linarith
  then show "range_ok (ptr_plus p n) (w * (k - n)) s"
    using range_part[OF range_plus[OF \<open>range_ok p (w * k) s\<close>, of n], of "w * (k - n)"] by linarith
qed

lemma data_width_pos: "1 \<le> data_width s"
  by (simp add: data_width_def)

lemma receive_sound:
  assumes "user_ok user" and "transfer_ok s" and "xfer_dataSize xfer \<noteq> 0"
    and "range_ok (xfer_data xfer) (data_width s * unat (xfer_dataSize xfer)) s"
  shows "sound s (rbind (LPUART_TransferReceiveNonBlocking L user xfer s) (\<lambda>(status, received, s). Inr s))"
proof -
  let ?w = "data_width s" and ?k = "xfer_dataSize xfer"
  from assms(4) obtain obj i where p: "xfer_data xfer = Some (obj, i)" "i + ?w * unat ?k \<le> length (ts_mem s obj)" by (rule range_obtain)
  consider (busy) "rxState (ts_handle s) = kLPUART_RxBusy" | (ring) "rxState (ts_handle s) \<noteq> kLPUART_RxBusy" "rxRingBuffer (ts_handle s) \<noteq> None"
    | (plain) "rxState (ts_handle s) \<noteq> kLPUART_RxBusy" "rxRingBuffer (ts_handle s) = None" by blast
  then have "safe_from s (rbind (LPUART_TransferReceiveNonBlocking L user xfer s) (\<lambda>(status, received, s). Inr s))"
  proof cases
    case busy
    then show ?thesis using assms(2,3) p(1) by (simp add: LPUART_TransferReceiveNonBlocking_def safe_Inr same_world_refl)
  next
    case plain
    have "range_ok (ptr_plus (xfer_data xfer) 0) (?w * unat ?k) s" using assms(4) p(1) by simp
    from request_rest_safe[OF assms(2) this, of ?k] plain assms(3) p(1) show ?thesis
      by (simp add: LPUART_TransferReceiveNonBlocking_def safe_Inr)
  next
    case ring
    define s1 where "s1 = clear_ctrl (rx_interrupts L) s"
    define n where "n = min ?k (LPUART_TransferGetRxRingBufferLength (ts_handle s1))"
    have n: "unat n \<le> unat ?k" by (simp add: n_def min_def word_le_nat_alt)
    have s1: "transfer_ok s1" "same_world s s1" "rxRingBuffer (ts_handle s1) \<noteq> None" "data_width s1 = ?w"
      using assms(2) ring(2) by (simp_all add: s1_def same_world_refl data_width_def)
    have "unat n \<le> ?w * unat ?k" using n data_width_pos[of s] by (metis le_trans mult_le_mono1 nat_mult_1)
    then have "i + unat n \<le> length (ts_mem s1 obj)" using p(2) s1(2) by (simp add: same_world_def)
    from copy_from_ring_safe[OF s1(1,3) this] obtain s2 where
      s2: "copy_from_ring (unat n) (xfer_data xfer) s1 = Inr s2" "transfer_ok s2" "same_world s1 s2"
      unfolding p(1) by (auto simp: safe_from_def)
    have wide: "data_width s2 = ?w" using copy_from_ring_width[OF s2(1)] s1(4) by simp
    have rest: "unat (?k - n) = unat ?k - unat n" using n by (simp add: unat_sub word_le_nat_alt)
    have world: "same_world s s2" using same_world_trans[OF s1(2) s2(3)] .
    have "range_ok (xfer_data xfer) (?w * unat ?k) s2" using assms(4) world by (subst range_lengths[of s2 s]) (simp_all add: same_world_def)
    then have range: "range_ok (ptr_plus (xfer_data xfer) (unat n)) (data_width s2 * unat (?k - n)) s2"
      unfolding wide rest using n data_width_pos by (rule range_mixed)
    define s3 where "s3 = set_ctrl (rx_interrupts L) (if ?k - n \<noteq> 0 then request_rest (xfer_data xfer) (unat n) (?k - n) ?k s2 else s2)"
    have s3: "transfer_ok s3" "same_world s s3"
      using request_rest_safe[OF s2(2) range, of ?k] s2(2) same_world_trans[OF world] world by (simp_all add: s3_def)
    have "LPUART_TransferReceiveNonBlocking L user xfer s =
        rbind (if ?k - n = 0 then call_back user kStatus_LPUART_RxIdle s3 else Inr s3) (\<lambda>s. Inr (kStatus_Success, Some n, s))"
      unfolding LPUART_TransferReceiveNonBlocking_def Let_def s1_def[symmetric] n_def[symmetric] s2(1) rbind_Inr s3_def[symmetric]
      using ring assms(3) p(1) by simp
    moreover have "safe_from s3 (if ?k - n = 0 then call_back user kStatus_LPUART_RxIdle s3 else Inr s3)"
      using call_back_safe[OF assms(1) s3(1)] s3(1) by (simp add: safe_Inr same_world_refl)
    ultimately show ?thesis using same_world_trans[OF s3(2)] by (auto simp: safe_from_def)
  qed
  then show ?thesis by (rule safe_sound)
qed

lemma installed_sound:
  assumes "user_ok user" and "transfer_ok s"
  shows "safe_from s (if b then installed (run_handler L user waters) t n periph s else Inr s)"
  using handler_safe[OF assms] assms(2)
  by (auto simp: installed_def run_handler_def safe_Inr same_world_refl split: option.split irq_handler.split)

lemma interrupt_safe:
  assumes "user_ok user" and "transfer_ok s"
  shows "safe_from s (LP_FLEXCOMM_CommonIRQHandler X (run_handler L user waters) t stat n s)"
  unfolding LP_FLEXCOMM_CommonIRQHandler_def using assms by (intro safe_bind installed_sound)

lemma perform_sound:
  assumes "user_ok user" and "transfer_ok s" and "fits op s"
  shows "sound s (perform L X user t n op s)"
proof (cases op)
  case (SendNonBlocking xfer)
  then show ?thesis using send_sound[OF assms(2), of xfer L] assms(3) by auto
next
  case (Interrupt stat r waters)
  have "safe_from s (LP_FLEXCOMM_CommonIRQHandler X (run_handler L user waters) t stat n (on_regs (\<lambda>_. r) s))"
    using interrupt_safe[OF assms(1), of "on_regs (\<lambda>_. r) s"] assms(2) by (simp add: safe_from_def)
  then show ?thesis using Interrupt by (simp add: safe_sound)
next
  case (WriteMemory obj i b)
  have "transfer_ok (s\<lparr>ts_mem := (ts_mem s)(obj := (ts_mem s obj)[i := b])\<rparr>)" by (rule new_memory_safe(1)[OF assms(2)]) simp
  then show ?thesis using WriteMemory by (simp add: sound_def)
next
  case (NewWords ws)
  have "transfer_ok (s\<lparr>ts_line := ws, ts_taken := 0\<rparr>)" using assms(2) transfer_ok_lengths(1)[of "s\<lparr>ts_line := ws, ts_taken := 0\<rparr>" s] by simp
  then show ?thesis using NewWords by (simp add: sound_def)
qed (use assms start_ring_sound stop_ring_sound enable_16_sound abort_sound receive_sound in auto)

section \<open>Every sequence of calls\<close>

inductive reached :: "lpuart_layout \<Rightarrow> flexcomm_layout \<Rightarrow> user \<Rightarrow> flexcomm_irqs \<Rightarrow> nat \<Rightarrow> transfer_sys \<Rightarrow> bool" for L X user t n where
  created: "LPUART_TransferCreateHandle L instances n handle cb data (t0, calls0, s0) = Inr (t, calls, s) \<Longrightarrow> reached L X user t n s"
| performed: "reached L X user t n s \<Longrightarrow> fits op s \<Longrightarrow> perform L X user t n op s = Inr s' \<Longrightarrow> reached L X user t n s'"

lemma created_ok:
  assumes "LPUART_TransferCreateHandle L instances n handle cb data (t0, calls0, s0) = Inr (t, calls, s)"
  shows "transfer_ok s \<and> s_lpflexcommIrqHandler t LP_FLEXCOMM_PERIPH_LPUART n = Some LPUART_handler"
  using assms
  by (auto simp: LPUART_TransferCreateHandle_def LP_FLEXCOMM_SetIRQHandler_def Let_def transfer_ok_def on_handle_def zero_handle_def split: if_splits)

lemma reached_ok:
  "reached L X user t n s \<Longrightarrow> user_ok user \<Longrightarrow> transfer_ok s \<and> s_lpflexcommIrqHandler t LP_FLEXCOMM_PERIPH_LPUART n = Some LPUART_handler"
proof (induction rule: reached.induct)
  case (created instances handle cb data t0 calls0 s0 calls s)
  then show ?case using created_ok by blast
next
  case (performed s op s')
  then show ?case using perform_sound[of user s op L X t n] by (auto simp: sound_def)
qed


lemma uart_interrupt_dispatched:
  assumes "s_lpflexcommIrqHandler t LP_FLEXCOMM_PERIPH_LPUART n = Some LPUART_handler"
    and "stat AND (fmask (ISTAT_UARTRX X) OR fmask (ISTAT_UARTTX X)) \<noteq> 0"
    and "stat AND (fmask (ISTAT_I2CS X) OR fmask (ISTAT_I2CM X)) = 0" and "stat AND fmask (ISTAT_SPI X) = 0"
  shows "LP_FLEXCOMM_CommonIRQHandler X (run_handler L user waters) t stat n s = LPUART_TransferHandleIRQ L user waters s"
  using assms by (cases "LPUART_TransferHandleIRQ L user waters s") (simp_all add: LP_FLEXCOMM_CommonIRQHandler_def installed_def run_handler_def)

text \<open>
  C19: From the creation of the handle on, in every order of calls, interrupts of the LP_FLEXCOMM with whatever the registers show, and callbacks
  that keep the ring buffer: a call that fits the memory given to it, with a ring buffer of between two and 65536 bytes and no change of the width of words during
  a transfer, never leaves that memory and never stops at an assertion; it keeps the indices of the ring in range and the rest of each request inside its object.
  The handler of the UART stays installed, so an interrupt of the UART alone is one call of \<open>LPUART_TransferHandleIRQ\<close>.
\<close>

theorem transfers_safe:
  assumes "user_ok user" and "reached L X user t n s" and "fits op s"
  shows "(\<exists>s'. perform L X user t n op s = Inr s' \<and> transfer_ok s' \<and> (\<forall>obj. length (ts_mem s' obj) = length (ts_mem s obj))) \<and>
    (\<forall>stat r waters. stat AND (fmask (ISTAT_UARTRX X) OR fmask (ISTAT_UARTTX X)) \<noteq> 0 \<and>
      stat AND (fmask (ISTAT_I2CS X) OR fmask (ISTAT_I2CM X)) = 0 \<and> stat AND fmask (ISTAT_SPI X) = 0 \<longrightarrow>
      perform L X user t n (Interrupt stat r waters) s = LPUART_TransferHandleIRQ L user waters (on_regs (\<lambda>_. r) s))"
  using perform_sound[OF assms(1) _ assms(3), of L X t n] reached_ok[OF assms(2,1)] uart_interrupt_dispatched[of t n _ X L user]
  by (simp add: sound_def)

text \<open>
  A ring of three places, and an interrupt that brings more bytes than it holds, with a callback that gives up its request when bytes have been lost.
\<close>

definition giving_up :: "lpuart_layout \<Rightarrow> user" where
  "giving_up L f status data s =
     Inr (if status = kStatus_LPUART_RxRingBufferOverrun then LPUART_TransferAbortReceive L s else s)"

lemma giving_up_ok: "user_ok (giving_up L)"
proof -
  have "same_world s (LPUART_TransferAbortReceive L s)" for s
    by (simp add: same_world_def LPUART_TransferAbortReceive_def on_handle_def clear_ctrl_def on_regs_def)
  then show ?thesis
    using abort_sound(2)[of _ L] by (simp add: user_ok_def giving_up_def safe_Inr same_world_refl sound_def)
qed

definition example_flexcomm :: flexcomm_layout where
  "example_flexcomm = \<lparr>ISTAT_I2CS = bitat 9, ISTAT_I2CM = bitat 8, ISTAT_SPI = bitat 4, ISTAT_UARTRX = bitat 1, ISTAT_UARTTX = bitat 0\<rparr>"

theorem transfers_safe_witness:
  "\<exists>t calls s1 s2 s3. LPUART_TransferCreateHandle example_lpuart 10 4 0 (Some 0) 0
      (\<lparr>s_lpflexcommIrqHandler = \<lambda>_ _. None, s_lpflexcommHandle = \<lambda>_ _. 0\<rparr>, [], small_sys) = Inr (t, calls, s1) \<and>
    perform example_lpuart example_flexcomm (giving_up example_lpuart) t 4 (StartRingBuffer (Some (1, 0)) 3) s1 = Inr s2 \<and>
    perform example_lpuart example_flexcomm (giving_up example_lpuart) t 4
      (Interrupt 2 (look (view 0x05000000 0x00200000 0) (ts_regs s2)) (0, 0x05000000, 0)) s2 = Inr s3"
proof -
  let ?L = example_lpuart and ?X = example_flexcomm and ?t0 = "\<lparr>s_lpflexcommIrqHandler = \<lambda>_ _. None, s_lpflexcommHandle = \<lambda>_ _. 0\<rparr>"
  obtain t calls s1 where c: "LPUART_TransferCreateHandle ?L 10 4 0 (Some 0) 0 (?t0, [], small_sys) = Inr (t, calls, s1)" "ts_mem s1 = ts_mem small_sys"
    by (simp add: LPUART_TransferCreateHandle_def LP_FLEXCOMM_SetIRQHandler_def Let_def on_handle_def)
  have r1: "reached ?L ?X (giving_up ?L) t 4 s1" using c(1) by (rule reached.created)
  have f1: "fits (StartRingBuffer (Some (1, 0)) 3) s1" by (simp add: range_ok_def c(2) small_sys_def)
  from transfers_safe[OF giving_up_ok r1 f1] obtain s2 where
    s2: "perform ?L ?X (giving_up ?L) t 4 (StartRingBuffer (Some (1, 0)) 3) s1 = Inr s2" by blast
  have "fits (Interrupt 2 (look (view 0x05000000 0x00200000 0) (ts_regs s2)) (0, 0x05000000, 0)) s2" by simp
  from transfers_safe[OF giving_up_ok reached.performed[OF r1 f1 s2] this] c(1) s2 show ?thesis by blast
qed

end
