(* ===== verification/Lpuart_Words.thy ===== *)
theory Lpuart_Words
  imports Lpuart
begin

text \<open>
  The blocking transfers of nine and ten bit words of the UART driver (\<open>fsl_lpuart.c\<close>). They wait like those of bytes in theory \<open>Lpuart\<close>, and
  the words keep their ten bits.
\<close>

section \<open>The operations\<close>

primrec send_words :: "lpuart_layout \<Rightarrow> u16 list \<Rightarrow> u32 list \<Rightarrow> lpuart \<times> u32 list \<Rightarrow> (lpuart \<times> u32 list \<times> u32 list) option" where
  "send_words L [] stats s = Some (fst s, snd s, stats)"
| "send_words L (d # ds) stats s =
     (case look_until (\<lambda>w. w AND fmask (STAT_TDRE L) \<noteq> 0) stats of
        None \<Rightarrow> None
      | Some (w, stats) \<Rightarrow> send_words L ds stats ((fst s)\<lparr>lu_STAT := w, lu_DATA := ucast d\<rparr>, snd s @ [ucast d]))"

definition LPUART_WriteBlocking16bit ::
  "lpuart_layout \<Rightarrow> u16 list \<Rightarrow> nat \<Rightarrow> u32 list \<Rightarrow> lpuart \<times> u32 list \<Rightarrow> (lpuart_status \<times> lpuart \<times> u32 list \<times> u32 list) run" where
  "LPUART_WriteBlocking16bit L data len stats s =
     (case send_words L (take len data) stats s of
        None \<Rightarrow> None
      | Some (r, sent, stats) \<Rightarrow>
          if length data < len
          then map_option (\<lambda>_. Inl OutOfBounds) (look_until (\<lambda>w. w AND fmask (STAT_TDRE L) \<noteq> 0) stats)
          else
            (case look_until (\<lambda>w. w AND fmask (STAT_TC L) \<noteq> 0) stats of
               None \<Rightarrow> None
             | Some (w, stats) \<Rightarrow> Some (Inr (kStatus_Success, r\<lparr>lu_STAT := w\<rparr>, sent, stats))))"

text \<open>The result holds the words stored before the return.\<close>

primrec read_words ::
  "lpuart_layout \<Rightarrow> nat \<Rightarrow> line_view list \<Rightarrow> lpuart \<Rightarrow> u16 list \<Rightarrow> (lpuart_status \<times> u16 list \<times> lpuart \<times> line_view list) option" where
  "read_words L 0 vs r data = Some (kStatus_Success, data, r, vs)"
| "read_words L (Suc n) vs r data =
     (case wait_byte L vs r of
        None \<Rightarrow> None
      | Some (status, word, r, vs) \<Rightarrow>
          if status = kStatus_Success then read_words L n vs r (data @ [ucast (word AND 0x03FF)]) else Some (status, data, r, vs))"

definition LPUART_ReadBlocking16bit ::
  "lpuart_layout \<Rightarrow> nat \<Rightarrow> line_view list \<Rightarrow> lpuart \<Rightarrow> (lpuart_status \<times> u16 list \<times> lpuart \<times> line_view list) option" where
  "LPUART_ReadBlocking16bit L len vs r = read_words L len vs r []"

section \<open>A line between two of them\<close>

text \<open>The words that a receiver finds at its looks, and whether it finds no error.\<close>

definition words_seen :: "lpuart_layout \<Rightarrow> line_view list \<Rightarrow> u32 list" where
  "words_seen L vs = map v_DATA (filter (\<lambda>v. fget (WATER_RXCOUNT L) (v_WATER v) \<noteq> 0) vs)"

definition no_errors :: "lpuart_layout \<Rightarrow> line_view list \<Rightarrow> bool" where
  "no_errors L vs = list_all (\<lambda>v. fget (WATER_RXCOUNT L) (v_WATER v) \<noteq> 0 \<or> line_error L (v_STAT v) = kStatus_Success) vs"

lemma wait_word:
  assumes "interrupt_bits_ok L" and "flag_bits_ok L"
  shows "no_errors L vs \<Longrightarrow> words_seen L vs = w # ws \<Longrightarrow>
    \<exists>r' vs'. wait_byte L vs r = Some (kStatus_Success, w, r', vs') \<and> words_seen L vs' = ws \<and> no_errors L vs'"
proof (induction vs arbitrary: r)
  case (Cons v vs)
  have look: "lu_STAT (look v r) = v_STAT v" "lu_WATER (look v r) = v_WATER v" by (simp_all add: look_def)
  show ?case
  proof (cases "fget (WATER_RXCOUNT L) (v_WATER v) = 0")
    case True
    obtain status r1 where c: "check_errors L (look v r) = (status, r1)" by (cases "check_errors L (look v r)")
    have "status = kStatus_Success" using check_errors_eq(1)[OF assms, of "look v r"] c look Cons.prems(1) True by (simp add: no_errors_def)
    then show ?thesis using Cons.IH[of r1] Cons.prems True by (simp add: look c no_errors_def words_seen_def)
  next
    case False
    then show ?thesis using Cons.prems by (simp add: look no_errors_def words_seen_def)
  qed
qed (simp add: words_seen_def)

lemma read_words_seen:
  assumes "interrupt_bits_ok L" and "flag_bits_ok L"
  shows "no_errors L vs \<Longrightarrow> n \<le> length (words_seen L vs) \<Longrightarrow>
    \<exists>r' vs'. read_words L n vs r data = Some (kStatus_Success, data @ map (\<lambda>w. ucast (w AND 0x3FF)) (take n (words_seen L vs)), r', vs') \<and>
      words_seen L vs' = drop n (words_seen L vs)"
proof (induction n arbitrary: vs r data)
  case (Suc n)
  then obtain w ws where w: "words_seen L vs = w # ws" by (cases "words_seen L vs") auto
  from wait_word[OF assms Suc.prems(1) w, of r] obtain r1 vs1 where
    s1: "wait_byte L vs r = Some (kStatus_Success, w, r1, vs1)" "words_seen L vs1 = ws" "no_errors L vs1" by blast
  from Suc.IH[OF s1(3), of r1 "data @ [ucast (w AND 0x3FF)]"] Suc.prems(2) s1(1,2) w show ?case by auto
qed simp

text \<open>The looks at the status do not depend on the data, so a transfer of words waits like one of as many bytes.\<close>

lemma send_words_looks:
  "map_option (\<lambda>(r, sent, rest). rest) (send_words L ds stats s) = map_option (\<lambda>(r, sent, rest). rest) (send_bytes L (map ucast ds) stats s')"
  by (induction ds arbitrary: stats s s') (auto split: option.splits)

lemma send_words_some: "send_words L ds stats s = Some (r, sent, rest) \<Longrightarrow> sent = snd s @ map ucast ds"
proof (induction ds arbitrary: stats s)
  case (Cons d ds)
  then obtain w stats' where "send_words L ds stats' ((fst s)\<lparr>lu_STAT := w, lu_DATA := ucast d\<rparr>, snd s @ [ucast d]) = Some (r, sent, rest)"
    by (auto split: option.splits)
  from Cons.IH[OF this] show ?case by simp
qed simp

lemma write_words_returns:
  assumes "len \<le> length data"
  shows "LPUART_WriteBlocking16bit L data len stats s \<noteq> None \<longleftrightarrow>
    (\<exists>before w rest. stats = before @ w # rest \<and> len \<le> room_for L before \<and> w AND fmask (STAT_TC L) \<noteq> 0)"
proof -
  let ?m = "map ucast data :: u8 list"
  have len: "len \<le> length ?m" using assms by simp
  have "LPUART_WriteBlocking16bit L data len stats s \<noteq> None \<longleftrightarrow> LPUART_WriteBlocking L ?m len stats (fst s, snd s) \<noteq> None"
    using send_words_looks[of L "take len data" stats s s] assms
    by (cases "send_words L (take len data) stats s"; cases "send_bytes L (map ucast (take len data)) stats s")
      (auto simp: LPUART_WriteBlocking16bit_def LPUART_WriteBlocking_def take_map split: option.splits)
  then show ?thesis by (simp only: write_blocking_returns[OF len])
qed

lemma write_words_result:
  assumes "len \<le> length data" and "LPUART_WriteBlocking16bit L data len stats s = Some out"
  shows "\<exists>r' rest. out = Inr (kStatus_Success, r', snd s @ map ucast (take len data), rest)"
  using assms by (auto simp: LPUART_WriteBlocking16bit_def split: option.splits dest!: send_words_some)

lemma ten_bits: "(ucast ((ucast (d :: u16) :: u32) AND 0x3FF) :: u16) = d AND 0x3FF"
  by (rule bit_word_eqI) (auto simp: bit_simps)

lemma ten_bits_kept: "(d :: u16) AND 0x3FF = d \<longleftrightarrow> d < 1024"
proof -
  have "d AND 0x3FF = d AND mask 10" by (simp add: mask_eq_exp_minus_1)
  also have "\<dots> = d \<longleftrightarrow> d < 2 ^ 10" using less_mask_eq[of d 10] and_mask_less'[of 10 d] by auto
  finally show ?thesis by simp
qed

text \<open>
  C40: Nine and ten bit words from one UART to another: the blocking write of \<open>n\<close> words returns exactly if the transmitter shows room for each of them
  and then the end of the transmission, and it has then written them in order, once each. A receiver that finds on its line the words written, with
  whatever flags above their ten bits, and no error, reads from them the words with what exceeds ten bits cut off; the words are the ones written
  exactly if none of them is longer than that.
\<close>

theorem words_round_trip:
  assumes "interrupt_bits_ok L" and "flag_bits_ok L" and "no_errors L vs"
    and "map (\<lambda>w. w AND 0x3FF) (words_seen L vs) = map (\<lambda>d. ucast d AND 0x3FF) data"
  shows "(LPUART_WriteBlocking16bit L data (length data) stats (t, []) \<noteq> None \<longleftrightarrow>
      (\<exists>before w rest. stats = before @ w # rest \<and> length data \<le> room_for L before \<and> w AND fmask (STAT_TC L) \<noteq> 0)) \<and>
    (\<forall>out. LPUART_WriteBlocking16bit L data (length data) stats (t, []) = Some out \<longrightarrow>
      (\<exists>t' rest. out = Inr (kStatus_Success, t', map ucast data, rest))) \<and>
    (\<exists>got r' vs'. LPUART_ReadBlocking16bit L (length data) vs r = Some (kStatus_Success, got, r', vs') \<and>
      got = map (\<lambda>d. d AND 0x3FF) data \<and> (got = data \<longleftrightarrow> list_all (\<lambda>d. d < 1024) data))"
proof -
  have len: "length (words_seen L vs) = length data" using arg_cong[OF assms(4), of length] by simp
  have "map (\<lambda>w. ucast (w AND 0x3FF)) (words_seen L vs) = (map (\<lambda>d. d AND 0x3FF) data :: u16 list)"
    using arg_cong[OF assms(4), of "map (ucast :: u32 \<Rightarrow> u16)"] by (simp add: o_def ten_bits)
  then have "\<exists>r' vs'. LPUART_ReadBlocking16bit L (length data) vs r = Some (kStatus_Success, map (\<lambda>d. d AND 0x3FF) data, r', vs')"
    using read_words_seen[OF assms(1-3), of "length data" r "[]"] len by (auto simp: LPUART_ReadBlocking16bit_def)
  moreover have "map (\<lambda>d. d AND 0x3FF) data = data \<longleftrightarrow> list_all (\<lambda>d. d < 1024) data"
    by (induction data) (simp_all only: list.map list.inject list.pred_inject ten_bits_kept simp_thms)
  moreover have "\<exists>t' rest. out = Inr (kStatus_Success, t', map ucast data, rest)"
    if "LPUART_WriteBlocking16bit L data (length data) stats (t, []) = Some out" for out
    using write_words_result[OF order_refl that] by simp
  ultimately show ?thesis using write_words_returns[OF order_refl, of L data stats "(t, [])"] by blast
qed

text \<open>A word of ten bits and one of nine.\<close>

theorem words_round_trip_witness:
  "\<exists>r' vs'. LPUART_ReadBlocking16bit example_lpuart 2 [view 0x01000000 0x00E00000 0x1241, view 0 0x00C00000 0, view 0x01000000 0x00E00000 0x101]
     reset_lpuart = Some (kStatus_Success, [0x241, 0x101], r', vs')"
proof -
  let ?vs = "[view 0x01000000 0x00E00000 0x1241, view 0 0x00C00000 0, view 0x01000000 0x00E00000 0x101]"
  have count: "fget (WATER_RXCOUNT example_lpuart) 0x01000000 = 1" "fget (WATER_RXCOUNT example_lpuart) 0 = 0"
    by (simp_all add: example_lpuart_def fget_def fmask_def mask_eq_exp_minus_1 drop_bit_eq_div)
  have e: "no_errors example_lpuart ?vs" by (simp add: no_errors_def view_def count line_error_def fifo_masks[OF example_lpuart_ok(2)])
  have "map (\<lambda>w. w AND 0x3FF) (words_seen example_lpuart ?vs) = map (\<lambda>d. ucast d AND 0x3FF) [0x241 :: u16, 0x101]"
    by (simp add: words_seen_def view_def count)
  note read = words_round_trip[OF example_lpuart_ok(1,2) e this, of "[]" reset_lpuart reset_lpuart]
  have two: "length [0x241 :: u16, 0x101] = 2" by simp
  from read[THEN conjunct2, THEN conjunct2] obtain r' vs' where
    "LPUART_ReadBlocking16bit example_lpuart 2 ?vs reset_lpuart = Some (kStatus_Success, map (\<lambda>d. d AND 0x3FF) [0x241, 0x101], r', vs')"
    unfolding two by (elim exE conjE) (simp only:)
  moreover have "map (\<lambda>d. d AND 0x3FF) [0x241 :: u16, 0x101] = [0x241, 0x101]" by simp
  ultimately show ?thesis by (intro exI[of _ r'] exI[of _ vs']) (simp only:)
qed

end
