(* ===== verification/Spec2Isabelle.thy ===== *)
theory Spec2Isabelle
  imports Firmware Preemption Console_Port Lpuart_Safety Lpuart_Words
begin

text \<open>
  A verification library for the firmware of a gas sensor board (\<open>source/\<close> of \<open>Gas_sensor_read_out\<close>): an MCXN947 microcontroller that
  heats a micro hot plate with a periodic wave form, puts an excitation voltage on up to eight resistive sensor strips, selects the strips one
  after the other with an analog multiplexer, measures voltage and current, and reports the resistances. It is controlled either
  by text commands of a graphical interface or, as a Modbus RTU slave, by register accesses.

  \<^bold>\<open>The parts and their theories.\<close> Every operation is a function from the states it reads to the states it leaves, in the order of the
  C statements; the names are those of the sources.

  \<^item> \<^theory_text>\<open>Prelude\<close>: machine integers as words, the result type whose left side is a fault (an operation that C leaves undefined: division by zero,
    access out of bounds, conversion out of range, bad pointer, failed assertion, bad shift), counted loops, array accesses. \<^theory_text>\<open>IEEE_Float\<close>:
    single and double precision with rounding to nearest even as functions on reals, infinities and NaN.
    \<^theory_text>\<open>Registers\<close>: bit fields of registers and the calls made to the rest of the system.
  \<^item> \<^theory_text>\<open>Globals\<close>: the shared variables of \<open>global.c\<close> as one record.
  \<^item> \<^theory_text>\<open>Crc16\<close>, \<^theory_text>\<open>Modbus\<close>: \<open>Modbus_files/modbus.c\<close>. The state is the two register files and the frames sent; a request is the receive
    buffer with a length; the frame assembler takes the bytes and errors on the line.
  \<^item> \<^theory_text>\<open>Lpuart\<close>: the UART driver \<open>fsl_lpuart.c\<close> with the selection of the UART in its LP_FLEXCOMM (\<open>fsl_lpflexcomm.c\<close>). The receiving
    functions take what the registers show at each look. \<^theory_text>\<open>Modbus_Line\<close>: the set-up of the Modbus UART and the receiving loop of
    \<open>HandleModbusFrame\<close> on its registers, which refines the one of \<^theory_text>\<open>Modbus\<close> on bytes and errors. \<^theory_text>\<open>Lpuart_Words\<close>: the
    blocking transfers of nine and ten bit words. \<^theory_text>\<open>Lpuart_Transfer\<close>: the transfers of the driver that its interrupt carries on, with the
    handle, the ring buffer, the memory as objects of bytes with pointers into them, and the dispatch of the interrupts of the LP_FLEXCOMM. The callback is a
    function of the whole state. \<^theory_text>\<open>Lpuart_Safety\<close>: the calls and interrupts as steps of a transition system.
  \<^item> \<^theory_text>\<open>Console\<close>, \<^theory_text>\<open>Console_Port\<close>: the formatting of the debug console (\<open>debug_console_lite/fsl_debug_console.c\<close>), and the console on
    its UART through the adapter \<open>fsl_adapter_lpuart.c\<close>, set up by \<open>board.c\<close>.
  \<^item> \<^theory_text>\<open>Ctimer\<close>, \<^theory_text>\<open>Hpdac\<close>, \<^theory_text>\<open>Lpdac\<close>, \<^theory_text>\<open>Vref\<close>, \<^theory_text>\<open>Lpadc\<close> (\<open>drivers/fsl_*.c\<close>) and \<^theory_text>\<open>Gpio\<close> (\<open>fsl_gpio\<close> of the kit): the peripheral drivers
    over the registers of one device. The positions of the bit fields come from a device header that is not in the repository and are a
    parameter, a layout, with the predicates \<open>..._layout_ok\<close> for what the drivers need of it, each with an example.
  \<^item> \<^theory_text>\<open>Mux\<close> (\<open>MUX_files\<close>, \<open>PowerMUX_files\<close>), \<^theory_text>\<open>Board\<close>: the multiplexers, and the record of all peripherals with the list of
    calls into the clock, power and interrupt controllers.
  \<^item> \<^theory_text>\<open>HotPlate\<close>, \<^theory_text>\<open>Excitation\<close>, \<^theory_text>\<open>AdcStrip\<close>: the wave form, the excitation voltage and the measurement of the strips
    (\<open>DAC_files\<close>, \<open>ADC_files\<close> and their initialisation in \<open>main.c\<close>).
  \<^item> \<^theory_text>\<open>Interrupts\<close>: the five interrupt handlers as a transition system over shared variables, variables of the measurement and board.
    \<^theory_text>\<open>Preemption\<close>: the same with handlers that interrupt each other by their priorities; those of the converters, which share their sums with the sampling
    timer of higher priority, are three steps each: take the result, load and add, store.
  \<^item> \<^theory_text>\<open>Parameters\<close>, \<^theory_text>\<open>Firmware\<close>: the command parser, initialisation and reset of everything, and the two main loops of \<open>main.c\<close>.

  \<^bold>\<open>What is shown.\<close> The drivers: what each configuration leaves in the register fields and that no other field changes, the termination of the
  calibration and of the busy waits exactly when the hardware answers, exactness of the gain conversion. The Modbus server: refinement of a
  specification of requests, safety of every session, read after write, the checksum against its bitwise definition, framing and the
  frames that never complete. The UART: the search for the baud rate finds the closest rate and programs it with the format of a character, blocking reads and writes refine the
  events on the line and return exactly when the hardware lets them, flags are cleared one by one; with it, a request that arrives byte by byte at the
  registers has its specified effect and its reply goes out complete, and what a line error does to a frame. The transfers with interrupts: the ring buffer
  is a queue that keeps the latest bytes, a request refines the list of all bytes that come, a transfer to the line ends and sends its bytes once and in order, and no order
  of calls, interrupts and callbacks leaves the memory given to them. Words of ten bits survive a blocking transfer.
  The debug console: what every format prints, with which limits (no floating point, no sign, padding with spaces only), that it arrives
  at the UART of the console character by character, what a character read is, and the set-up that ignores a refusal. The hot plate: samples in range for all wave forms with parameters in range, the periodic playback, and what happens
  outside the range. The excitation: the code is exact up to one step and a hundredth. The measurement: a round
  of interrupts over all active strips leaves the averages and resistances they should be. The interrupts: an invariant that every order of
  handlers keeps, through the interface \<open>faulty_system\<close>, with the only fault a round without current; a weaker one that says nothing of the sums, which is
  all that a restart of a running measurement leaves, since it does not clear them, with the only fault a resistance that does not fit into an \<open>int\<close>; bounds in between, under
  which that is again only a round without current; with preemption the same, as long as no strip ends
  while a handler of a converter is at work, and what the strip after it gets when one does. The main program: a
  command received character by character, or a write over Modbus, sets exactly its parameters and starts a measurement, at first or while one is running, when
  the values are in range, a strip is selected, \<open>malloc\<close> gives its block and the calibrations end; Modbus turns and interrupts in any order keep a state that
  allows the next restart; long, short and empty lines do what the theorems of
  \<^theory_text>\<open>Firmware\<close> and \<^theory_text>\<open>Parameters\<close> say. The interfaces are locales, each interpreted on the model: \<open>relative_rounding\<close> for the two precisions,
  \<open>crc_register\<close> for the checksum, \<open>request_server\<close> for Modbus, \<open>output_pins\<close> for the ports, \<open>overwriting_queue\<close> for the ring buffer, and \<open>faulty_system\<close>.

  \<^bold>\<open>Bounds and parameters.\<close> No fuel is used: loops are counted or recurse on their data. What comes from outside is an argument: the words that
  polled registers return (a wait that uses them up is \<open>None\<close>), the result of \<open>malloc\<close>, the sine function (results between -1 and 1), the layouts, the
  characters and frame bytes, the callback of the transfers. A ring buffer has between two and 65536 bytes, what its 16 bit indices reach. In the transition system at most sixteen conversions are pending in a result FIFO, its depth on the chip; with fifteen
  or sixteen bit results no sum can then overflow after a start. After the restart of a measurement that was started once the voltage sum is at most 65535 * 90, a
  voltage at most 200000 counts, and 9000 times that still fits into an \<open>int\<close>. The sign of a floating point zero is not kept; no operation depends on it.

  \<^bold>\<open>Not modelled.\<close> Preemption of the main loop by the handlers is not in the model: initialisation and parameter updates run between handlers. Debug
  output has no effect on the state and is left out, except for conversions in it that can fault. The theory of
  the debug console stands beside the main loop, which takes the characters read as its argument; formatted input, the low power stubs and the
  non-blocking configuration of the adapter are left out. The set-up of pins and clocks (\<open>pin_mux.c\<close>, \<open>clock_config.c\<close>) is generated
  configuration. In the transfers of the UART driver the global disabling of interrupts around single changes of a register is left out, and the safety theorem
  excludes callbacks that take the ring buffer away, which the handler does not survive. The firmware itself uses only the blocking transfers of bytes. The clock, reset and power drivers are recorded calls. The graphical interface is a Python program on the host. The
  remaining thousands of files of the vendor kit are for other chips or are not called by the firmware.

  What is left would be the main loop interrupted in the middle of an update, which needs a model of its single accesses to memory, and the formatted input of the
  debug console.
\<close>

end
